(* ===== verification/Prelude.thy ===== *)
theory Prelude
  imports Complex_Main "HOL-Library.Multiset" "HOL-Library.AList"
begin

text \<open>
  What the component theories share: the exceptions the Python sources raise and the
  result type that carries them, Python's list accesses (negative indices, trailing
  slices), the text of numbers and other string operations, rounding up, the first-wins selection of \<^verbatim>\<open>min\<close> and \<^verbatim>\<open>max\<close> with a key, and machines
  whose commands rewrite a state file, with the two locales that give their invariants and budgets.
  The collections \<open>py_simps\<close> (evaluation of the shared operators) and \<open>res_iff\<close>
  (what a successful result says about its parts) carry the component proofs.
\<close>

named_theorems py_simps "evaluation of the shared Python operators"
named_theorems res_iff "when a computation returns a value"

section \<open>Exceptions as values\<close>

text \<open>The exceptions that reach a caller of the modelled code.\<close>

datatype py_error =
    AssertionError
  | IndexError
  | KeyError
  | ValueError
  | TypeError
  | AttributeError
  | ZeroDivisionError
  | NotImplementedError
  | RuntimeError
  | ImportError

type_synonym 'a res = "py_error + 'a"

text \<open>Sequencing: the first exception ends the computation.\<close>

definition rbind :: "'a res \<Rightarrow> ('a \<Rightarrow> 'b res) \<Rightarrow> 'b res" where
  "rbind m f = (case m of Inl e \<Rightarrow> Inl e | Inr x \<Rightarrow> f x)"

text \<open>The statement \<^verbatim>\<open>assert b\<close>, and \<^verbatim>\<open>raise e\<close> under a condition.\<close>

definition guard :: "py_error \<Rightarrow> bool \<Rightarrow> unit res" where
  "guard e b = (if b then Inr () else Inl e)"

text \<open>A comprehension or a loop that collects one result per element.\<close>

fun rmap :: "('a \<Rightarrow> 'b res) \<Rightarrow> 'a list \<Rightarrow> 'b list res" where
  "rmap f [] = Inr []"
| "rmap f (x # xs) = rbind (f x) (\<lambda>y. rbind (rmap f xs) (\<lambda>ys. Inr (y # ys)))"

text \<open>A loop that threads an accumulator.\<close>

fun rfold :: "('a \<Rightarrow> 'b \<Rightarrow> 'b res) \<Rightarrow> 'a list \<Rightarrow> 'b \<Rightarrow> 'b res" where
  "rfold f [] s = Inr s"
| "rfold f (x # xs) s = rbind (f x s) (rfold f xs)"

lemma rbind_simps [simp, py_simps]:
  "rbind (Inl e) f = Inl e" "rbind (Inr x) f = f x"
  by (simp_all add: rbind_def)

lemma rbind_Inr_iff [res_iff]:
  "rbind m f = Inr y \<longleftrightarrow> (\<exists>x. m = Inr x \<and> f x = Inr y)"
  by (auto simp: rbind_def split: sum.splits)

lemma rbind_InrE: "rbind m f = Inr y \<Longrightarrow> (\<And>x. m = Inr x \<Longrightarrow> f x = Inr y \<Longrightarrow> P) \<Longrightarrow> P"
  by (auto simp: rbind_Inr_iff)

lemma rbind_Inl_iff:
  "rbind m f = Inl e \<longleftrightarrow> m = Inl e \<or> (\<exists>x. m = Inr x \<and> f x = Inl e)"
  by (auto simp: rbind_def split: sum.splits)

lemma rbind_assoc: "rbind (rbind m f) g = rbind m (\<lambda>x. rbind (f x) g)"
  by (simp add: rbind_def split: sum.splits)

lemma rbind_cong [fundef_cong]:
  "m = m' \<Longrightarrow> (\<And>x. m' = Inr x \<Longrightarrow> f x = f' x) \<Longrightarrow> rbind m f = rbind m' f'"
  by (simp add: rbind_def split: sum.splits)

lemma guard_simps [simp, py_simps]:
  "guard e True = Inr ()" "guard e False = Inl e"
  by (simp_all add: guard_def)

lemma guard_Inr_iff [simp, res_iff]: "guard e b = Inr u \<longleftrightarrow> b"
  by (simp add: guard_def)

lemma guard_Inl_iff [simp]: "guard e b = Inl e' \<longleftrightarrow> \<not> b \<and> e' = e"
  by (auto simp: guard_def)

lemma rmap_Inr_length: "rmap f xs = Inr ys \<Longrightarrow> length ys = length xs"
  by (induction xs arbitrary: ys) (auto simp: rbind_Inr_iff)

lemma rmap_Inr_iff [res_iff]:
  "rmap f xs = Inr ys \<longleftrightarrow> list_all2 (\<lambda>x y. f x = Inr y) xs ys"
  by (induction xs arbitrary: ys)
    (auto simp: rbind_Inr_iff list_all2_Cons1)

lemma rmap_pure [simp]: "rmap (\<lambda>x. Inr (f x)) xs = Inr (map f xs)"
  by (induction xs) auto

lemma rmap_cong [fundef_cong]:
  "xs = ys \<Longrightarrow> (\<And>x. x \<in> set ys \<Longrightarrow> f x = g x) \<Longrightarrow> rmap f xs = rmap g ys"
  by (induction ys arbitrary: xs) auto

lemma rmap_total:
  "(\<And>x. x \<in> set xs \<Longrightarrow> \<exists>y. f x = Inr y) \<Longrightarrow> \<exists>ys. rmap f xs = Inr ys"
proof (induction xs)
  case Nil
  then show ?case by simp
next
  case (Cons x xs)
  then obtain y ys where "f x = Inr y" and "rmap f xs = Inr ys"
    by (metis list.set_intros(1) list.set_intros(2))
  then show ?case by simp
qed

lemma rmap_Inl: "rmap f xs = Inl e \<Longrightarrow> \<exists>x \<in> set xs. f x = Inl e"
  by (induction xs) (auto simp: rbind_def split: sum.splits)

lemma rmap_Inr_set: "rmap f xs = Inr ys \<Longrightarrow> y \<in> set ys \<Longrightarrow> \<exists>x \<in> set xs. f x = Inr y"
  by (induction xs arbitrary: ys) (auto simp: rbind_Inr_iff)

lemma rmap_Inr_elem: "rmap f xs = Inr ys \<Longrightarrow> x \<in> set xs \<Longrightarrow> \<exists>y \<in> set ys. f x = Inr y"
  by (induction xs arbitrary: ys) (auto simp: rbind_Inr_iff)

lemma rfold_append:
  "rfold f (xs @ ys) s = rbind (rfold f xs s) (rfold f ys)"
  by (induction xs arbitrary: s) (auto simp: rbind_def split: sum.splits)

text \<open>An invariant of the loop body holds of what the loop returns.\<close>

lemma rfold_invariant:
  assumes "rfold f xs s = Inr t" and "I s"
    and "\<And>x s s'. x \<in> set xs \<Longrightarrow> I s \<Longrightarrow> f x s = Inr s' \<Longrightarrow> I s'"
  shows "I t"
  using assms
proof (induction xs arbitrary: s)
  case Nil
  then show ?case by simp
next
  case (Cons x xs)
  from Cons.prems(1) obtain s' where s': "f x s = Inr s'" and rest: "rfold f xs s' = Inr t"
    by (auto simp: rbind_Inr_iff)
  have "I s'" using Cons.prems(2,3) s' by auto
  then show ?case using Cons.IH [OF rest] Cons.prems(3) by auto
qed

section \<open>Python lists\<close>

text \<open>
  \<^verbatim>\<open>xs[i]\<close> with a possibly negative index, and \<^verbatim>\<open>xs[-n:]\<close>, which is the whole list
  for \<open>n = 0\<close> because \<^verbatim>\<open>-0\<close> is \<open>0\<close>.
\<close>

definition py_nth :: "'a list \<Rightarrow> int \<Rightarrow> 'a res" where
  "py_nth xs i =
     (if - int (length xs) \<le> i \<and> i < int (length xs)
      then Inr (xs ! (if i \<ge> 0 then nat i else length xs - nat (- i)))
      else Inl IndexError)"

definition py_last_n :: "nat \<Rightarrow> 'a list \<Rightarrow> 'a list" where
  "py_last_n n xs = (if n = 0 then xs else drop (length xs - n) xs)"

lemma py_nth_nat [simp]: "i < length xs \<Longrightarrow> py_nth xs (int i) = Inr (xs ! i)"
  by (simp add: py_nth_def)

lemma py_nth_last: "xs \<noteq> [] \<Longrightarrow> py_nth xs (-1) = Inr (last xs)"
  by (cases xs) (auto simp: py_nth_def last_conv_nth)

lemma length_py_last_n: "0 < n \<Longrightarrow> n \<le> length xs \<Longrightarrow> length (py_last_n n xs) = n"
  by (simp add: py_last_n_def)

lemma py_last_n_all [simp]: "length xs \<le> n \<Longrightarrow> py_last_n n xs = xs"
  by (simp add: py_last_n_def)

lemma length_py_last_n_le: "length (py_last_n n xs) \<le> length xs"
  by (simp add: py_last_n_def)

section \<open>Strings\<close>

text \<open>\<^verbatim>\<open>str(n)\<close>, \<^verbatim>\<open>",".join(...)\<close>, \<^verbatim>\<open>s.lower()\<close> and \<^verbatim>\<open>s.strip()\<close> on ASCII.\<close>

fun str_nat :: "nat \<Rightarrow> string" where
  "str_nat n = (if n < 10 then [char_of (48 + n)] else str_nat (n div 10) @ [char_of (48 + n mod 10)])"

declare str_nat.simps [simp del]

definition str_int :: "int \<Rightarrow> string" where
  "str_int i = (if i < 0 then ''-'' @ str_nat (nat (- i)) else str_nat (nat i))"

fun join_comma :: "string list \<Rightarrow> string" where
  "join_comma [] = ''''"
| "join_comma [s] = s"
| "join_comma (s # ss) = s @ '','' @ join_comma ss"

definition lower_char :: "char \<Rightarrow> char" where
  "lower_char c = (let n = (of_char c :: nat) in if 65 \<le> n \<and> n \<le> 90 then char_of (n + 32) else c)"

definition is_space :: "char \<Rightarrow> bool" where
  "is_space c = (let n = (of_char c :: nat) in n = 32 \<or> (9 \<le> n \<and> n \<le> 13))"

definition py_strip :: "string \<Rightarrow> string" where
  "py_strip s = rev (dropWhile is_space (rev (dropWhile is_space s)))"

section \<open>Rounding up\<close>

text \<open>\<^verbatim>\<open>(a + b - 1) // b\<close>, the ceiling division the sources spell out everywhere.\<close>

definition cdiv :: "nat \<Rightarrow> nat \<Rightarrow> nat" where
  "cdiv a b = (a + b - 1) div b"

lemma cdiv_mult_ge: "0 < b \<Longrightarrow> a \<le> cdiv a b * b"
proof -
  assume b: "0 < b"
  have "(a + b - 1) div b * b + (a + b - 1) mod b = a + b - 1" by simp
  moreover have "(a + b - 1) mod b < b" using b by simp
  ultimately show ?thesis unfolding cdiv_def by linarith
qed

lemma cdiv_mult_less: "0 < b \<Longrightarrow> cdiv a b * b < a + b"
proof -
  assume b: "0 < b"
  have "(a + b - 1) div b * b \<le> a + b - 1" by (rule div_times_less_eq_dividend)
  then show ?thesis using b unfolding cdiv_def by linarith
qed

lemma cdiv_dvd: "0 < b \<Longrightarrow> b dvd a \<Longrightarrow> cdiv a b = a div b"
proof -
  assume b: "0 < b" and d: "b dvd a"
  from d obtain k where k: "a = b * k" by (rule dvdE)
  have "b * k + b - 1 = b * k + (b - 1)" using b by simp
  then have "cdiv a b = (b * k + (b - 1)) div b" unfolding cdiv_def k by (rule arg_cong)
  also have "\<dots> = k + (b - 1) div b" using b by (intro div_mult_self4) simp
  also have "\<dots> = a div b" using b by (simp add: k)
  finally show ?thesis .
qed

lemma cdiv_pos: "0 < a \<Longrightarrow> 0 < b \<Longrightarrow> 0 < cdiv a b"
  by (simp add: cdiv_def div_greater_zero_iff)

lemma less_cdiv_iff: "0 < b \<Longrightarrow> k < cdiv a b \<longleftrightarrow> k * b < a"
proof -
  assume b: "0 < b"
  have "k < cdiv a b \<longleftrightarrow> Suc k * b \<le> a + b - 1"
    using b by (simp add: cdiv_def less_eq_div_iff_mult_less_eq Suc_le_eq [symmetric])
  also have "\<dots> \<longleftrightarrow> k * b < a" using b by auto
  finally show ?thesis .
qed

text \<open>A number below \<open>n\<close> and a multiple of \<open>n\<close> are determined by their sum.\<close>

lemma digits_eq:
  fixes n t t' p p' :: nat
  assumes "t < n" and "t' < n" and "t + p * n = t' + p' * n"
  shows "p = p'" and "t = t'"
proof -
  have "(t + p * n) div n = p" "(t' + p' * n) div n = p'" using assms(1,2) by simp_all
  then show "p = p'" using assms(3) by simp
  then show "t = t'" using assms(3) by simp
qed

text \<open>The same rounding on Python's integers.\<close>

definition round_up_int :: "int \<Rightarrow> int \<Rightarrow> int" where
  "round_up_int a b = (a + b - 1) div b * b"

lemma round_up_int_ge: "0 < b \<Longrightarrow> a \<le> round_up_int a b"
proof -
  assume b: "0 < b"
  have "(a + b - 1) div b * b + (a + b - 1) mod b = a + b - 1" by simp
  moreover have "(a + b - 1) mod b < b" using b by simp
  ultimately show ?thesis unfolding round_up_int_def by linarith
qed

lemma round_up_int_less: "0 < b \<Longrightarrow> round_up_int a b < a + b"
proof -
  assume b: "0 < b"
  have "(a + b - 1) div b * b + (a + b - 1) mod b = a + b - 1" by simp
  moreover have "0 \<le> (a + b - 1) mod b" using b by simp
  ultimately show ?thesis unfolding round_up_int_def by linarith
qed

lemma round_up_int_dvd [simp]: "b dvd round_up_int a b"
  by (simp add: round_up_int_def)

section \<open>Selection by key\<close>

text \<open>\<^verbatim>\<open>max(xs, key=f)\<close> returns the first element whose key is maximal.\<close>

fun max_by :: "('a \<Rightarrow> 'k::linorder) \<Rightarrow> 'a \<Rightarrow> 'a list \<Rightarrow> 'a" where
  "max_by f best [] = best"
| "max_by f best (x # xs) = max_by f (if f best < f x then x else best) xs"

definition py_max :: "('a \<Rightarrow> 'k::linorder) \<Rightarrow> 'a list \<Rightarrow> 'a res" where
  "py_max f xs = (case xs of [] \<Rightarrow> Inl ValueError | x # xs' \<Rightarrow> Inr (max_by f x xs'))"

lemma max_by_in: "max_by f b xs \<in> insert b (set xs)"
proof (induction xs arbitrary: b)
  case Nil
  then show ?case by simp
next
  case (Cons x xs)
  show ?case using Cons [of "if f b < f x then x else b"] by (auto split: if_splits)
qed

lemma max_by_ge_start: "f b \<le> f (max_by f b xs)"
proof (induction xs arbitrary: b)
  case Nil
  then show ?case by simp
next
  case (Cons x xs)
  show ?case using Cons [of "if f b < f x then x else b"] by (auto split: if_splits)
qed

lemma max_by_ge: "y \<in> insert b (set xs) \<Longrightarrow> f y \<le> f (max_by f b xs)"
proof (induction xs arbitrary: b)
  case Nil
  then show ?case by simp
next
  case (Cons x xs)
  let ?b = "if f b < f x then x else b"
  have "f b \<le> f ?b" "f x \<le> f ?b" by auto
  moreover have "f ?b \<le> f (max_by f ?b xs)" by (rule max_by_ge_start)
  ultimately show ?case using Cons.IH [of ?b] Cons.prems
    by (metis (no_types, lifting) insert_iff list.simps(15) max_by.simps(2) order.trans)
qed

lemma py_max_Inr: "py_max f xs = Inr m \<Longrightarrow> m \<in> set xs \<and> (\<forall>y \<in> set xs. f y \<le> f m)"
proof (cases xs)
  case Nil
  then show "py_max f xs = Inr m \<Longrightarrow> ?thesis" by (simp add: py_max_def)
next
  case (Cons x xs')
  then show "py_max f xs = Inr m \<Longrightarrow> ?thesis"
    using max_by_in [of f x xs'] max_by_ge [of _ x xs' f] by (auto simp: py_max_def)
qed

lemma py_max_total: "xs \<noteq> [] \<Longrightarrow> \<exists>m. py_max f xs = Inr m"
  by (cases xs) (auto simp: py_max_def)

section \<open>Dictionaries\<close>

lemma update_same: "map_of d k = Some v \<Longrightarrow> AList.update k v d = d"
  by (induction d) auto

section \<open>Products of extents\<close>

lemma prod_list_pos: "(\<forall>x \<in> set xs. 0 < x) \<Longrightarrow> 0 < prod_list (xs :: nat list)"
  by (induction xs) auto

lemma prod_list_mono2:
  "list_all2 (\<le>) xs ys \<Longrightarrow> prod_list (xs :: nat list) \<le> prod_list ys"
  by (induction xs ys rule: list_all2_induct) (auto intro: mult_le_mono)

section \<open>Command machines\<close>

text \<open>
  A state file that a command creates and later commands rewrite: a command that is refused leaves
  the file as it is, so only the commands that succeed are steps.
\<close>

inductive reaches :: "('s \<Rightarrow> bool) \<Rightarrow> ('c \<Rightarrow> 's \<Rightarrow> 'e + 's) \<Rightarrow> 's \<Rightarrow> bool" for created run where
  first: "created s \<Longrightarrow> reaches created run s"
| later: "reaches created run s \<Longrightarrow> run c s = Inr s' \<Longrightarrow> reaches created run s'"

lemma fold_reaches:
  assumes "fold (\<lambda>c r. case r of Inl e \<Rightarrow> Inl e | Inr s \<Rightarrow> run c s) cs r0 = Inr s"
    and "\<And>s0. r0 = Inr s0 \<Longrightarrow> reaches created run s0"
  shows "reaches created run s"
  using assms
proof (induction cs arbitrary: r0)
  case (Cons c cs)
  show ?case
  proof (rule Cons.IH)
    show "fold (\<lambda>c r. case r of Inl e \<Rightarrow> Inl e | Inr s \<Rightarrow> run c s) cs (case r0 of Inl e \<Rightarrow> Inl e | Inr s \<Rightarrow> run c s) = Inr s"
      using Cons.prems(1) by simp
    show "reaches created run s1" if "(case r0 of Inl e \<Rightarrow> Inl e | Inr s \<Rightarrow> run c s) = Inr s1" for s1
      using that Cons.prems(2) by (cases r0) (auto intro: reaches.later)
  qed
qed simp

locale command_machine =
  fixes created :: "'s \<Rightarrow> bool" and run :: "'c \<Rightarrow> 's \<Rightarrow> 'e + 's" and inv :: "'s \<Rightarrow> bool"
  assumes created_inv: "created s \<Longrightarrow> inv s"
    and run_inv: "inv s \<Longrightarrow> run c s = Inr s' \<Longrightarrow> inv s'"
begin

lemma reaches_inv: "reaches created run s \<Longrightarrow> inv s"
  by (induction rule: reaches.induct) (blast intro: created_inv run_inv)+

end

text \<open>A machine whose moving commands use up a budget cannot move for ever.\<close>

locale measured_machine = command_machine created run inv
  for created :: "'s \<Rightarrow> bool" and run :: "'c \<Rightarrow> 's \<Rightarrow> 'e + 's" and inv :: "'s \<Rightarrow> bool" +
  fixes moving :: "'c \<Rightarrow> 's \<Rightarrow> bool" and budgets :: "('s \<Rightarrow> nat) list"
  assumes spends: "inv s \<Longrightarrow> moving c s \<Longrightarrow> run c s = Inr s' \<Longrightarrow> (s', s) \<in> measures budgets"
begin

lemma moving_wf: "wf {(s', s). reaches created run s \<and> (\<exists>c. moving c s \<and> run c s = Inr s')}"
  by (rule wf_subset [OF wf_measures [of budgets]]) (auto intro: spends reaches_inv)

end

end
