(* ===== verification/BestFit.thy ===== *)
theory BestFit
  imports Prelude
begin

text \<open>
  The best-fit allocator of \<^verbatim>\<open>tilelang/carver/roller/bestfit.py\<close>, with which the tile
  policies estimate the peak on-chip memory of a schedule.

  Python compares \<^verbatim>\<open>Block\<close> objects by identity (\<^verbatim>\<open>list.index\<close>), so a block carries the
  identity of its object (\<open>b_id\<close>) and the allocator a supply of fresh ones. A handle
  returned by \<open>malloc\<close> is the object in the list: the code never changes an object a
  client holds, since \<open>free\<close> puts a new object in its place.
\<close>

section \<open>Blocks\<close>

record block =
  b_id :: nat
  b_start :: int
  b_end :: int
  b_is_free :: bool

definition block_size :: "block \<Rightarrow> int" where
  "block_size b = b_end b - b_start b"

definition block_merge :: "block \<Rightarrow> block \<Rightarrow> block res" where
  "block_merge self other =
     rbind (guard AssertionError (b_is_free self = b_is_free other)) (\<lambda>_.
       Inr (self\<lparr>b_start := min (b_start self) (b_start other),
                 b_end := max (b_end self) (b_end other)\<rparr>))"

section \<open>The allocator\<close>

record bestfit =
  bf_limit :: int
  bf_list :: "block list"
  bf_align :: int
  bf_fresh :: nat

definition bestfit_init :: "int \<Rightarrow> bestfit" where
  "bestfit_init align = \<lparr>bf_limit = 0, bf_list = [], bf_align = align, bf_fresh = 0\<rparr>"

text \<open>The search loop: the first of the smallest free blocks that are large enough.\<close>

fun find_best :: "int \<Rightarrow> block list \<Rightarrow> block option \<Rightarrow> block option" where
  "find_best sz [] found = found"
| "find_best sz (b # bs) found =
     find_best sz bs
       (if b_is_free b \<and> sz \<le> block_size b \<and>
           (case found of None \<Rightarrow> True | Some f \<Rightarrow> block_size b < block_size f)
        then Some b else found)"

text \<open>\<^verbatim>\<open>list.index(block)\<close>, \<^verbatim>\<open>list.insert\<close> and \<^verbatim>\<open>list.pop\<close>.\<close>

fun index_of :: "nat \<Rightarrow> block list \<Rightarrow> nat option" where
  "index_of i [] = None"
| "index_of i (b # bs) = (if b_id b = i then Some 0 else map_option Suc (index_of i bs))"

definition insert_at :: "nat \<Rightarrow> 'a \<Rightarrow> 'a list \<Rightarrow> 'a list" where
  "insert_at i x xs = take i xs @ x # drop i xs"

definition pop_at :: "nat \<Rightarrow> 'a list \<Rightarrow> 'a list" where
  "pop_at i xs = take i xs @ drop (Suc i) xs"

definition malloc :: "bestfit \<Rightarrow> int \<Rightarrow> (bestfit \<times> block) res" where
  "malloc s size0 =
     (if bf_align s = 0 then Inl ZeroDivisionError else
      let sz = (size0 + bf_align s - 1) div bf_align s * bf_align s
      in case find_best sz (bf_list s) None of
        Some found \<Rightarrow>
          (case index_of (b_id found) (bf_list s) of
             None \<Rightarrow> Inl ValueError
           | Some idx \<Rightarrow>
               let remain = block_size found - sz;
                   got = (if remain \<noteq> 0
                          then found\<lparr>b_is_free := False, b_end := b_end found - remain\<rparr>
                          else found\<lparr>b_is_free := False\<rparr>);
                   bs = (bf_list s)[idx := got]
               in if remain \<noteq> 0
                  then Inr (s\<lparr>bf_list := insert_at (idx + 1)
                                  \<lparr>b_id = bf_fresh s, b_start = b_end got,
                                   b_end = b_end got + remain, b_is_free = True\<rparr> bs,
                               bf_fresh := Suc (bf_fresh s)\<rparr>, got)
                  else Inr (s\<lparr>bf_list := bs\<rparr>, got))
      | None \<Rightarrow>
          if bf_list s \<noteq> [] \<and> b_is_free (last (bf_list s))
          then let lst = last (bf_list s);
                   add = sz - block_size lst;
                   got = lst\<lparr>b_end := b_end lst + add, b_is_free := False\<rparr>
               in Inr (s\<lparr>bf_list := butlast (bf_list s) @ [got], bf_limit := b_end got\<rparr>, got)
          else let got = \<lparr>b_id = bf_fresh s, b_start = bf_limit s,
                          b_end = bf_limit s + sz, b_is_free = False\<rparr>
               in Inr (s\<lparr>bf_list := bf_list s @ [got], bf_limit := bf_limit s + sz,
                          bf_fresh := Suc (bf_fresh s)\<rparr>, got))"

definition merge_next :: "nat \<Rightarrow> block list \<Rightarrow> block list res" where
  "merge_next idx bs =
     (if idx + 1 < length bs \<and> b_is_free (bs ! (idx + 1))
      then rbind (block_merge (bs ! idx) (bs ! (idx + 1))) (\<lambda>m.
             Inr (pop_at (idx + 1) (bs[idx := m])))
      else Inr bs)"

definition merge_prev :: "nat \<Rightarrow> block list \<Rightarrow> block list res" where
  "merge_prev idx bs =
     (if 1 \<le> idx \<and> b_is_free (bs ! (idx - 1))
      then rbind (block_merge (bs ! idx) (bs ! (idx - 1))) (\<lambda>m.
             Inr (pop_at (idx - 1) (bs[idx := m])))
      else Inr bs)"

definition free :: "bestfit \<Rightarrow> block \<Rightarrow> bestfit res" where
  "free s b =
     rbind (guard AssertionError (\<not> b_is_free b)) (\<lambda>_.
       case index_of (b_id b) (bf_list s) of
         None \<Rightarrow> Inl ValueError
       | Some idx \<Rightarrow>
           rbind (merge_next idx ((bf_list s)[idx :=
                    \<lparr>b_id = bf_fresh s, b_start = b_start b, b_end = b_end b, b_is_free = True\<rparr>]))
             (\<lambda>bs. rbind (merge_prev idx bs) (\<lambda>bs'.
               Inr (s\<lparr>bf_list := bs', bf_fresh := Suc (bf_fresh s)\<rparr>))))"

section \<open>The invariant\<close>

text \<open>The blocks tile the interval from \<open>lo\<close> to \<open>hi\<close>, each starting where the last ended.\<close>

fun tiles :: "int \<Rightarrow> block list \<Rightarrow> int \<Rightarrow> bool" where
  "tiles lo [] hi \<longleftrightarrow> lo = hi"
| "tiles lo (b # bs) hi \<longleftrightarrow> b_start b = lo \<and> lo \<le> b_end b \<and> tiles (b_end b) bs hi"

definition coalesced :: "block list \<Rightarrow> bool" where
  "coalesced bs = successively (\<lambda>a b. \<not> (b_is_free a \<and> b_is_free b)) bs"

definition bf_inv :: "bestfit \<Rightarrow> bool" where
  "bf_inv s \<longleftrightarrow> 0 < bf_align s \<and> tiles 0 (bf_list s) (bf_limit s) \<and> coalesced (bf_list s) \<and>
     distinct (map b_id (bf_list s)) \<and> (\<forall>b \<in> set (bf_list s). b_id b < bf_fresh s) \<and>
     (\<forall>b \<in> set (bf_list s). bf_align s dvd b_start b \<and> bf_align s dvd b_end b)"

text \<open>The blocks in use: what the allocator's clients hold.\<close>

definition live :: "bestfit \<Rightarrow> block set" where
  "live s = {b \<in> set (bf_list s). \<not> b_is_free b}"

lemma tiles_append:
  "tiles lo (xs @ ys) hi \<longleftrightarrow> (\<exists>m. tiles lo xs m \<and> tiles m ys hi)"
  by (induction xs arbitrary: lo) auto

lemma tiles_le: "tiles lo bs hi \<Longrightarrow> lo \<le> hi"
  by (induction bs arbitrary: lo) force+

lemma tiles_within:
  "tiles lo bs hi \<Longrightarrow> b \<in> set bs \<Longrightarrow> lo \<le> b_start b \<and> b_start b \<le> b_end b \<and> b_end b \<le> hi"
proof (induction bs arbitrary: lo)
  case Nil
  then show ?case by simp
next
  case (Cons c bs)
  then have "tiles (b_end c) bs hi" and "lo \<le> b_end c" and "b_start c = lo" by auto
  with Cons.IH [of "b_end c"] Cons.prems(2) tiles_le [of "b_end c" bs hi] show ?case by auto
qed

lemma tiles_total: "tiles lo bs hi \<Longrightarrow> sum_list (map block_size bs) = hi - lo"
  by (induction bs arbitrary: lo) (auto simp: block_size_def)

lemma tiles_disjoint:
  assumes "tiles lo bs hi" and "a \<in> set bs" and "b \<in> set bs" and "b_id a \<noteq> b_id b"
  shows "b_end a \<le> b_start b \<or> b_end b \<le> b_start a"
  using assms
proof (induction bs arbitrary: lo)
  case Nil
  then show ?case by simp
next
  case (Cons c bs)
  then have rest: "tiles (b_end c) bs hi" by simp
  show ?case using Cons.prems Cons.IH [OF rest] tiles_within [OF rest] by auto
qed

lemma coalesced_append:
  "coalesced (xs @ ys) \<longleftrightarrow> coalesced xs \<and> coalesced ys \<and>
     (xs = [] \<or> ys = [] \<or> \<not> (b_is_free (last xs) \<and> b_is_free (hd ys)))"
  by (auto simp: coalesced_def successively_append_iff)

lemma coalesced_Cons:
  "coalesced (x # ys) \<longleftrightarrow> coalesced ys \<and> (ys = [] \<or> \<not> (b_is_free x \<and> b_is_free (hd ys)))"
  by (auto simp: coalesced_def successively_Cons)

lemma coalesced_Nil [simp]: "coalesced []"
  by (simp add: coalesced_def)

lemma index_of_split:
  assumes "distinct (map b_id (xs @ b # ys))"
  shows "index_of (b_id b) (xs @ b # ys) = Some (length xs)"
  using assms by (induction xs) auto

lemma index_of_None: "index_of i bs = None \<longleftrightarrow> i \<notin> b_id ` set bs"
  by (induction bs) auto

lemma find_best_None:
  "find_best sz bs found = None \<longleftrightarrow>
     found = None \<and> (\<forall>b \<in> set bs. b_is_free b \<longrightarrow> block_size b < sz)"
  by (induction bs arbitrary: found) (auto split: if_splits option.splits simp: not_le)

lemma find_best_Some:
  assumes "find_best sz bs found = Some b"
  shows "(found = Some b \<or> b \<in> set bs \<and> b_is_free b \<and> sz \<le> block_size b) \<and>
         (\<forall>f. found = Some f \<longrightarrow> block_size b \<le> block_size f) \<and>
         (\<forall>c \<in> set bs. b_is_free c \<longrightarrow> sz \<le> block_size c \<longrightarrow> block_size b \<le> block_size c)"
  using assms
proof (induction bs arbitrary: found)
  case Nil
  then show ?case by simp
next
  case (Cons c bs)
  from Cons.IH [OF Cons.prems [simplified]] show ?case
    by (auto split: if_splits option.splits)
qed

lemma bf_inv_init: "0 < align \<Longrightarrow> bf_inv (bestfit_init align)"
  by (simp add: bf_inv_def bestfit_init_def)

lemma live_init: "live (bestfit_init align) = {}"
  by (simp add: live_def bestfit_init_def)

lemma bf_align_malloc: "malloc s n = Inr (s', b) \<Longrightarrow> bf_align s' = bf_align s"
  by (auto simp: malloc_def Let_def split: if_splits option.splits)


section \<open>malloc\<close>

text \<open>
  The three ways \<open>malloc\<close> goes: it cuts the request off a free block, it grows the free
  block at the end, or it appends a block. In each the blocks of the new state are given
  in terms of the old ones.
\<close>

definition rounded :: "bestfit \<Rightarrow> int \<Rightarrow> int" where
  "rounded s n = round_up_int n (bf_align s)"

lemma rounded_ge: "bf_inv s \<Longrightarrow> n \<le> rounded s n"
  by (simp add: rounded_def bf_inv_def round_up_int_ge)

lemma rounded_dvd [simp]: "bf_align s dvd rounded s n"
  by (simp add: rounded_def)

lemma malloc_reuse:
  assumes inv: "bf_inv s" and best: "find_best (rounded s n) (bf_list s) None = Some f"
  obtains xs ys s' got where
    "bf_list s = xs @ f # ys" and "b_is_free f" and "rounded s n \<le> block_size f"
    and "malloc s n = Inr (s', got)"
    and "got = f\<lparr>b_is_free := False, b_end := b_start f + rounded s n\<rparr>"
    and "bf_list s' = xs @ got #
           (if block_size f = rounded s n then []
            else [\<lparr>b_id = bf_fresh s, b_start = b_end got, b_end = b_end f, b_is_free = True\<rparr>]) @ ys"
    and "bf_limit s' = bf_limit s" and "bf_align s' = bf_align s"
    and "bf_fresh s' = (if block_size f = rounded s n then bf_fresh s else Suc (bf_fresh s))"
proof -
  from find_best_Some [OF best] have f: "f \<in> set (bf_list s)" "b_is_free f" "rounded s n \<le> block_size f"
    by auto
  from f(1) obtain xs ys where xs: "bf_list s = xs @ f # ys" by (auto dest: split_list)
  have idx: "index_of (b_id f) (bf_list s) = Some (length xs)"
    using inv xs by (simp add: bf_inv_def index_of_split)
  let ?got = "f\<lparr>b_is_free := False, b_end := b_start f + rounded s n\<rparr>"
  have al: "bf_align s \<noteq> 0" using inv by (simp add: bf_inv_def)
  show thesis
  proof (cases "block_size f = rounded s n")
    case True
    then have "?got = f\<lparr>b_is_free := False\<rparr>"
      by (auto simp: block_size_def)
    with True best idx al have m: "malloc s n = Inr (s\<lparr>bf_list := xs @ ?got # ys\<rparr>, ?got)"
      by (simp add: malloc_def rounded_def round_up_int_def xs Let_def)
    show thesis by (rule that [OF xs f(2,3) m refl]) (use True in simp_all)
  next
    case False
    have "b_end f - (block_size f - rounded s n) = b_start f + rounded s n"
      by (simp add: block_size_def)
    with False best idx al have m: "malloc s n =
      Inr (s\<lparr>bf_list := xs @ ?got # \<lparr>b_id = bf_fresh s, b_start = b_end ?got, b_end = b_end f,
             b_is_free = True\<rparr> # ys, bf_fresh := Suc (bf_fresh s)\<rparr>, ?got)"
      by (simp add: malloc_def rounded_def round_up_int_def xs insert_at_def block_size_def Let_def)
    show thesis by (rule that [OF xs f(2,3) m refl]) (use False in simp_all)
  qed
qed

lemma malloc_extend:
  assumes inv: "bf_inv s" and none: "find_best (rounded s n) (bf_list s) None = None"
    and l: "bf_list s \<noteq> []" "b_is_free (last (bf_list s))"
  obtains xs f s' got where
    "bf_list s = xs @ [f]" and "b_is_free f" and "block_size f < rounded s n"
    and "malloc s n = Inr (s', got)"
    and "got = f\<lparr>b_is_free := False, b_end := b_start f + rounded s n\<rparr>"
    and "bf_list s' = xs @ [got]" and "bf_limit s' = b_end got"
    and "bf_align s' = bf_align s" and "bf_fresh s' = bf_fresh s"
proof -
  let ?f = "last (bf_list s)"
  let ?got = "?f\<lparr>b_is_free := False, b_end := b_start ?f + rounded s n\<rparr>"
  have xs: "bf_list s = butlast (bf_list s) @ [?f]" using l by simp
  have al: "bf_align s \<noteq> 0" using inv by (simp add: bf_inv_def)
  have "?f \<in> set (bf_list s)" using l by simp
  then have lt: "block_size ?f < rounded s n" using none l by (simp add: find_best_None)
  have m: "malloc s n =
     Inr (s\<lparr>bf_list := butlast (bf_list s) @ [?got], bf_limit := b_end ?got\<rparr>, ?got)"
    using al none l by (simp add: malloc_def rounded_def round_up_int_def block_size_def Let_def)
  show thesis by (rule that [OF xs l(2) lt m refl]) simp_all
qed

lemma malloc_append:
  assumes inv: "bf_inv s" and none: "find_best (rounded s n) (bf_list s) None = None"
    and l: "bf_list s = [] \<or> \<not> b_is_free (last (bf_list s))"
  obtains s' got where
    "malloc s n = Inr (s', got)"
    and "got = \<lparr>b_id = bf_fresh s, b_start = bf_limit s, b_end = bf_limit s + rounded s n,
                 b_is_free = False\<rparr>"
    and "bf_list s' = bf_list s @ [got]" and "bf_limit s' = bf_limit s + rounded s n"
    and "bf_align s' = bf_align s" and "bf_fresh s' = Suc (bf_fresh s)"
proof -
  have al: "bf_align s \<noteq> 0" using inv by (simp add: bf_inv_def)
  let ?got = "\<lparr>b_id = bf_fresh s, b_start = bf_limit s, b_end = bf_limit s + rounded s n,
                b_is_free = False\<rparr>"
  have m: "malloc s n = Inr (s\<lparr>bf_list := bf_list s @ [?got],
      bf_limit := bf_limit s + rounded s n, bf_fresh := Suc (bf_fresh s)\<rparr>, ?got)"
    using al none l by (auto simp: malloc_def rounded_def round_up_int_def Let_def)
  show thesis by (rule that [OF m refl]) simp_all
qed


text \<open>What every successful request guarantees, whichever way it went.\<close>

definition malloc_post :: "bestfit \<Rightarrow> int \<Rightarrow> bestfit \<Rightarrow> block \<Rightarrow> bool" where
  "malloc_post s n s' b \<longleftrightarrow> bf_inv s' \<and> live s' = insert b (live s) \<and> b \<notin> live s \<and>
     block_size b = rounded s n \<and> bf_limit s \<le> bf_limit s' \<and>
     bf_limit s' \<le> bf_limit s + rounded s n \<and>
     (b_id b = bf_fresh s \<or> (\<exists>f \<in> set (bf_list s). b_is_free f \<and> b_id f = b_id b))"

lemma live_eq:
  "bf_list s = xs @ f # ys \<Longrightarrow> b_is_free f \<Longrightarrow> bf_list s' = xs @ got # zs @ ys \<Longrightarrow>
     \<not> b_is_free got \<Longrightarrow> \<forall>z \<in> set zs. b_is_free z \<Longrightarrow> live s' = insert got (live s)"
  by (auto simp: live_def)

lemma not_live_same_id:
  assumes "bf_inv s" and "f \<in> set (bf_list s)" and "b_is_free f" and "b_id g = b_id f"
    and "\<not> b_is_free g"
  shows "g \<notin> live s"
proof
  assume "g \<in> live s"
  then have "g \<in> set (bf_list s)" by (simp add: live_def)
  with assms have "g = f" by (auto simp: bf_inv_def distinct_map dest: inj_onD)
  with assms show False by simp
qed

lemma malloc_post_reuse:
  assumes inv: "bf_inv s" and n: "0 \<le> n"
    and best: "find_best (rounded s n) (bf_list s) None = Some f"
  shows "\<exists>s' b. malloc s n = Inr (s', b) \<and> malloc_post s n s' b"
proof -
  from malloc_reuse [OF inv best] obtain xs ys s' got where
    xs: "bf_list s = xs @ f # ys" and free: "b_is_free f" and fits: "rounded s n \<le> block_size f"
    and m: "malloc s n = Inr (s', got)"
    and got: "got = f\<lparr>b_is_free := False, b_end := b_start f + rounded s n\<rparr>"
    and bs: "bf_list s' = xs @ got #
           (if block_size f = rounded s n then []
            else [\<lparr>b_id = bf_fresh s, b_start = b_end got, b_end = b_end f, b_is_free = True\<rparr>]) @ ys"
    and rest: "bf_limit s' = bf_limit s" "bf_align s' = bf_align s"
      "bf_fresh s' = (if block_size f = rounded s n then bf_fresh s else Suc (bf_fresh s))"
    by blast
  have pos: "0 \<le> rounded s n" using n rounded_ge [OF inv, of n] by simp
  have exact: "b_start f + rounded s n = b_end f" if "b_end f - b_start f = rounded s n"
    using that by simp
  have "bf_inv s'"
    using inv pos fits free unfolding bf_inv_def bs rest xs got
    by (auto simp: tiles_append coalesced_append coalesced_Cons block_size_def exact
        image_iff dest: less_SucI)
  moreover have "live s' = insert got (live s)"
    by (rule live_eq [OF xs free bs]) (auto simp: got)
  moreover have "got \<notin> live s"
    by (rule not_live_same_id [OF inv _ free]) (auto simp: xs got)
  ultimately show ?thesis using m rest(1) pos free
    by (auto simp: malloc_post_def got block_size_def xs)
qed

lemma malloc_post_extend:
  assumes inv: "bf_inv s" and n: "0 \<le> n"
    and none: "find_best (rounded s n) (bf_list s) None = None"
    and l: "bf_list s \<noteq> []" "b_is_free (last (bf_list s))"
  shows "\<exists>s' b. malloc s n = Inr (s', b) \<and> malloc_post s n s' b"
proof -
  from malloc_extend [OF inv none l] obtain xs f s' got where
    xs: "bf_list s = xs @ [f]" and free: "b_is_free f" and small: "block_size f < rounded s n"
    and m: "malloc s n = Inr (s', got)"
    and got: "got = f\<lparr>b_is_free := False, b_end := b_start f + rounded s n\<rparr>"
    and bs: "bf_list s' = xs @ [got]" and rest: "bf_limit s' = b_end got"
      "bf_align s' = bf_align s" "bf_fresh s' = bf_fresh s" by blast
  have pos: "0 \<le> rounded s n" using n rounded_ge [OF inv, of n] by simp
  have "bf_inv s'"
    using inv pos small free unfolding bf_inv_def bs rest xs got
    by (auto simp: tiles_append coalesced_append coalesced_Cons block_size_def)
  moreover have "live s' = insert got (live s)"
    using live_eq [of s xs f "[]" s' got "[]"] xs free bs by (simp add: got)
  moreover have "got \<notin> live s"
    by (rule not_live_same_id [OF inv _ free]) (auto simp: xs got)
  moreover have "b_end f = bf_limit s" "b_start f \<le> b_end f"
    using inv by (auto simp: bf_inv_def xs tiles_append)
  ultimately show ?thesis using m rest(1) small free
    by (auto simp: malloc_post_def got block_size_def xs)
qed

lemma malloc_post_append:
  assumes inv: "bf_inv s" and n: "0 \<le> n"
    and none: "find_best (rounded s n) (bf_list s) None = None"
    and l: "bf_list s = [] \<or> \<not> b_is_free (last (bf_list s))"
  shows "\<exists>s' b. malloc s n = Inr (s', b) \<and> malloc_post s n s' b"
proof -
  from malloc_append [OF inv none l] obtain s' got where
    m: "malloc s n = Inr (s', got)"
    and got: "got = \<lparr>b_id = bf_fresh s, b_start = bf_limit s, b_end = bf_limit s + rounded s n,
                 b_is_free = False\<rparr>"
    and bs: "bf_list s' = bf_list s @ [got]" and rest: "bf_limit s' = bf_limit s + rounded s n"
      "bf_align s' = bf_align s" "bf_fresh s' = Suc (bf_fresh s)" by blast
  have pos: "0 \<le> rounded s n" using n rounded_ge [OF inv, of n] by simp
  have "bf_align s dvd bf_limit s"
    using inv tiles_le by (cases "bf_list s" rule: rev_cases) (auto simp: bf_inv_def tiles_append)
  then have "bf_inv s'"
    using inv pos l unfolding bf_inv_def bs rest got
    by (auto simp: tiles_append coalesced_append coalesced_Cons dest: less_SucI)
  moreover have "live s' = insert got (live s)"
    by (auto simp: live_def bs got)
  moreover have "got \<notin> live s"
    using inv by (auto simp: live_def bf_inv_def got)
  ultimately show ?thesis using m rest(1) pos
    by (auto simp: malloc_post_def got block_size_def)
qed

lemma malloc_total:
  "bf_inv s \<Longrightarrow> 0 \<le> n \<Longrightarrow> \<exists>s' b. malloc s n = Inr (s', b) \<and> malloc_post s n s' b"
  using malloc_post_reuse malloc_post_extend malloc_post_append
  by (cases "find_best (rounded s n) (bf_list s) None") blast+

lemma malloc_keeps_limit:
  assumes "bf_inv s" and "malloc s n = Inr (s', b)"
    and "c \<in> set (bf_list s)" "b_is_free c" "rounded s n \<le> block_size c"
  shows "bf_limit s' = bf_limit s"
proof -
  have "find_best (rounded s n) (bf_list s) None \<noteq> None"
    using assms(3-5) by (auto simp: find_best_None not_less)
  then obtain f where "find_best (rounded s n) (bf_list s) None = Some f" by blast
  from malloc_reuse [OF assms(1) this] show ?thesis using assms(2) by (metis Inr_inject fst_conv)
qed


section \<open>free\<close>

text \<open>
  Releasing the block between \<open>xs\<close> and \<open>ys\<close>: the new free block swallows a free
  neighbour on either side.
\<close>

lemma free_split:
  assumes inv: "bf_inv s" and bs: "bf_list s = xs @ b # ys" and used: "\<not> b_is_free b"
  obtains s' zs ws f where
    "free s b = Inr s'" and "bf_list s' = zs @ f # ws"
    and "bf_limit s' = bf_limit s" and "bf_align s' = bf_align s"
    and "bf_fresh s' = Suc (bf_fresh s)" and "b_is_free f" and "b_id f = bf_fresh s"
    and "(zs = xs \<and> b_start f = b_start b \<and> (xs = [] \<or> \<not> b_is_free (last xs))) \<or>
         (\<exists>p. xs = zs @ [p] \<and> b_is_free p \<and> b_start f = b_start p)"
    and "(ws = ys \<and> b_end f = b_end b \<and> (ys = [] \<or> \<not> b_is_free (hd ys))) \<or>
         (\<exists>q. ys = q # ws \<and> b_is_free q \<and> b_end f = b_end q)"
proof -
  let ?new = "\<lparr>b_id = bf_fresh s, b_start = b_start b, b_end = b_end b, b_is_free = True\<rparr>"
  have idx: "index_of (b_id b) (bf_list s) = Some (length xs)"
    using inv bs by (simp add: bf_inv_def index_of_split)
  have bounds: "tiles 0 (xs @ b # ys) (bf_limit s)" using inv bs by (simp add: bf_inv_def)
  define f1 ws where "f1 = (if ys \<noteq> [] \<and> b_is_free (hd ys) then ?new\<lparr>b_end := b_end (hd ys)\<rparr> else ?new)"
    and "ws = (if ys \<noteq> [] \<and> b_is_free (hd ys) then tl ys else ys)"
  have nxt: "merge_next (length xs) (xs @ ?new # ys) = Inr (xs @ f1 # ws)"
    using bounds by (cases ys) (auto simp: merge_next_def block_merge_def pop_at_def f1_def ws_def
        nth_append tiles_append)
  define f zs where "f = (if xs \<noteq> [] \<and> b_is_free (last xs) then f1\<lparr>b_start := b_start (last xs)\<rparr> else f1)"
    and "zs = (if xs \<noteq> [] \<and> b_is_free (last xs) then butlast xs else xs)"
  have f1: "b_start f1 = b_start b" "b_is_free f1" "b_id f1 = bf_fresh s" "b_end b \<le> b_end f1"
    using bounds by (cases ys; auto simp: f1_def tiles_append)+
  have prev: "merge_prev (length xs) (xs @ f1 # ws) = Inr (zs @ f # ws)"
  proof (cases xs rule: rev_cases)
    case Nil
    then show ?thesis by (simp add: merge_prev_def f_def zs_def)
  next
    case (snoc xs' p)
    then have "b_start p \<le> b_end p" "b_end p = b_start b" "b_start b \<le> b_end b"
      using bounds by (auto simp: tiles_append)
    with snoc f1 show ?thesis
      by (auto simp: merge_prev_def block_merge_def pop_at_def f_def zs_def nth_append
          list_update_append)
  qed
  have "free s b = Inr (s\<lparr>bf_list := zs @ f # ws, bf_fresh := Suc (bf_fresh s)\<rparr>)"
    using idx used nxt prev by (simp add: free_def bs)
  then show thesis
  proof (rule that)
    show "(zs = xs \<and> b_start f = b_start b \<and> (xs = [] \<or> \<not> b_is_free (last xs))) \<or>
         (\<exists>p. xs = zs @ [p] \<and> b_is_free p \<and> b_start f = b_start p)"
      using f1 by (cases xs rule: rev_cases) (auto simp: f_def zs_def)
    show "(ws = ys \<and> b_end f = b_end b \<and> (ys = [] \<or> \<not> b_is_free (hd ys))) \<or>
         (\<exists>q. ys = q # ws \<and> b_is_free q \<and> b_end f = b_end q)"
      by (cases ys) (auto simp: f_def f1_def ws_def)
  qed (use f1 in \<open>auto simp: f_def\<close>)
qed

definition free_post :: "bestfit \<Rightarrow> block \<Rightarrow> bestfit \<Rightarrow> bool" where
  "free_post s b s' \<longleftrightarrow> bf_inv s' \<and> live s' = live s - {b} \<and> bf_limit s' = bf_limit s"

lemma free_total:
  assumes inv: "bf_inv s" and b: "b \<in> live s"
  shows "\<exists>s'. free s b = Inr s' \<and> free_post s b s'"
proof -
  from b obtain xs ys where bs: "bf_list s = xs @ b # ys" and used: "\<not> b_is_free b"
    by (auto simp: live_def dest: split_list)
  obtain s' zs ws f where
    fr: "free s b = Inr s'" and bs': "bf_list s' = zs @ f # ws"
    and rest: "bf_limit s' = bf_limit s" "bf_align s' = bf_align s"
      "bf_fresh s' = Suc (bf_fresh s)" and f: "b_is_free f" "b_id f = bf_fresh s"
    and left: "(zs = xs \<and> b_start f = b_start b \<and> (xs = [] \<or> \<not> b_is_free (last xs))) \<or>
         (\<exists>p. xs = zs @ [p] \<and> b_is_free p \<and> b_start f = b_start p)"
    and right: "(ws = ys \<and> b_end f = b_end b \<and> (ys = [] \<or> \<not> b_is_free (hd ys))) \<or>
         (\<exists>q. ys = q # ws \<and> b_is_free q \<and> b_end f = b_end q)"
    by (rule free_split [OF inv bs used])
  have old: "tiles 0 (xs @ b # ys) (bf_limit s)" "coalesced (xs @ b # ys)"
    "distinct (map b_id (xs @ b # ys))" "\<forall>c \<in> set (xs @ b # ys). b_id c < bf_fresh s"
    "\<forall>c \<in> set (xs @ b # ys). bf_align s dvd b_start c \<and> bf_align s dvd b_end c"
    using inv bs by (simp_all add: bf_inv_def)
  have sub: "set zs \<subseteq> set xs" "set ws \<subseteq> set ys" using left right by auto
  have "tiles 0 (zs @ f # ws) (bf_limit s)"
    using old(1) left right by (auto simp: tiles_append)
  moreover have "coalesced (zs @ f # ws)"
    using old(2) left right f(1) used
    by (elim disjE exE conjE) (auto simp: coalesced_append coalesced_Cons)
  moreover have "distinct (map b_id (zs @ f # ws))"
    using old(3,4) left right f(2) by (elim disjE exE conjE) auto
  moreover have "\<forall>c \<in> set (zs @ f # ws). b_id c < Suc (bf_fresh s)"
    using old(4) sub f(2) by (auto dest!: subsetD intro: less_SucI)
  moreover have "\<forall>c \<in> set (zs @ f # ws). bf_align s dvd b_start c \<and> bf_align s dvd b_end c"
    using old(5) left right by (elim disjE exE conjE) auto
  ultimately have "bf_inv s'" using inv by (simp add: bf_inv_def bs' rest)
  moreover have "live s' = live s - {b}"
    using left right f used old(3) unfolding live_def bs bs'
    by (elim disjE exE conjE) auto
  ultimately show ?thesis using fr rest by (simp add: free_post_def)
qed


text \<open>
  A handle is released at most once: after its release the list holds no object with its
  identity, so a second release fails at \<^verbatim>\<open>list.index\<close>.
\<close>

lemma free_not_live:
  assumes "bf_inv s" and "b_id b \<notin> b_id ` set (bf_list s)" and "\<not> b_is_free b"
  shows "free s b = Inl ValueError"
proof -
  have "index_of (b_id b) (bf_list s) = None" using assms(2) by (simp add: index_of_None)
  with assms(3) show ?thesis by (simp add: free_def)
qed

lemma free_removes_id:
  assumes inv: "bf_inv s" and b: "b \<in> live s" and fr: "free s b = Inr s'"
  shows "b_id b \<notin> b_id ` set (bf_list s')"
proof -
  from b obtain xs ys where bs: "bf_list s = xs @ b # ys" and used: "\<not> b_is_free b"
    by (auto simp: live_def dest: split_list)
  obtain t zs ws f where
    t: "free s b = Inr t" "bf_list t = zs @ f # ws" and f: "b_id f = bf_fresh s"
    and left: "(zs = xs \<and> b_start f = b_start b \<and> (xs = [] \<or> \<not> b_is_free (last xs))) \<or>
         (\<exists>p. xs = zs @ [p] \<and> b_is_free p \<and> b_start f = b_start p)"
    and right: "(ws = ys \<and> b_end f = b_end b \<and> (ys = [] \<or> \<not> b_is_free (hd ys))) \<or>
         (\<exists>q. ys = q # ws \<and> b_is_free q \<and> b_end f = b_end q)"
    by (rule free_split [OF inv bs used])
  have "set zs \<subseteq> set xs" "set ws \<subseteq> set ys" using left right by auto
  moreover have "b_id b \<notin> b_id ` (set xs \<union> set ys)" "b_id b < bf_fresh s"
    using inv by (auto simp: bf_inv_def bs)
  ultimately show ?thesis using t fr f by auto
qed

section \<open>The interface\<close>

text \<open>
  What a client of an allocator may rely on: a request never fails, it hands out an
  interval of the requested size that is disjoint from every interval in use, a release
  takes back exactly its interval, and the capacity covers everything in use.
\<close>

locale allocator =
  fixes alloc :: "'s \<Rightarrow> int \<Rightarrow> ('s \<times> 'b) res"
    and release :: "'s \<Rightarrow> 'b \<Rightarrow> 's res"
    and inv :: "'s \<Rightarrow> bool"
    and in_use :: "'s \<Rightarrow> 'b set"
    and cap :: "'s \<Rightarrow> int"
    and grain :: "'s \<Rightarrow> int"
    and lo :: "'b \<Rightarrow> int"
    and hi :: "'b \<Rightarrow> int"
  assumes alloc_ok: "inv s \<Longrightarrow> 0 \<le> n \<Longrightarrow> \<exists>s' b. alloc s n = Inr (s', b) \<and> inv s' \<and>
      in_use s' = insert b (in_use s) \<and> b \<notin> in_use s \<and> n \<le> hi b - lo b \<and> cap s \<le> cap s' \<and>
      cap s' < cap s + n + grain s \<and> grain s' = grain s"
    and release_ok: "inv s \<Longrightarrow> b \<in> in_use s \<Longrightarrow>
      \<exists>s'. release s b = Inr s' \<and> inv s' \<and> in_use s' = in_use s - {b} \<and> cap s' = cap s \<and> grain s' = grain s"
    and within: "inv s \<Longrightarrow> b \<in> in_use s \<Longrightarrow> 0 \<le> lo b \<and> lo b \<le> hi b \<and> hi b \<le> cap s"
    and disjoint: "inv s \<Longrightarrow> a \<in> in_use s \<Longrightarrow> b \<in> in_use s \<Longrightarrow> a \<noteq> b \<Longrightarrow>
      hi a \<le> lo b \<or> hi b \<le> lo a"
begin

text \<open>A scratch buffer, taken and given back: nothing in use changes, the capacity covers it.\<close>

lemma scratch_ok:
  assumes "inv s" and "0 \<le> n"
  shows "\<exists>s' b s''. alloc s n = Inr (s', b) \<and> release s' b = Inr s'' \<and> inv s'' \<and>
           in_use s'' = in_use s \<and> cap s \<le> cap s'' \<and> n \<le> cap s''"
proof -
  from alloc_ok [OF assms] obtain s' b where
    a: "alloc s n = Inr (s', b)" "inv s'" "in_use s' = insert b (in_use s)" "b \<notin> in_use s"
      "n \<le> hi b - lo b" "cap s \<le> cap s'" by blast
  then have "b \<in> in_use s'" by simp
  from release_ok [OF a(2) this] obtain s'' where
    r: "release s' b = Inr s''" "inv s''" "in_use s'' = in_use s' - {b}" "cap s'' = cap s'" by blast
  have "n \<le> cap s'" using within [OF a(2) \<open>b \<in> in_use s'\<close>] a(5) by linarith
  with a r show ?thesis by auto
qed

text \<open>A list of requests, one after the other, and the intervals they get.\<close>

fun alloc_all :: "'s \<Rightarrow> int list \<Rightarrow> ('s \<times> 'b list) res" where
  "alloc_all s [] = Inr (s, [])"
| "alloc_all s (n # ns) = rbind (alloc s n) (\<lambda>(s', b).
     rbind (alloc_all s' ns) (\<lambda>(s'', bs). Inr (s'', b # bs)))"

lemma alloc_all_ok:
  assumes "inv s" and "\<forall>n \<in> set ns. 0 \<le> n"
  shows "\<exists>s' bs. alloc_all s ns = Inr (s', bs) \<and> inv s' \<and> in_use s' = set bs \<union> in_use s \<and>
           distinct bs \<and> set bs \<inter> in_use s = {} \<and> list_all2 (\<lambda>n b. n \<le> hi b - lo b) ns bs"
  using assms
proof (induction ns arbitrary: s)
  case Nil
  then show ?case by simp
next
  case (Cons n ns)
  from alloc_ok [of s n] Cons.prems obtain s' b where
    a: "alloc s n = Inr (s', b)" "inv s'" "in_use s' = insert b (in_use s)" "b \<notin> in_use s"
      "n \<le> hi b - lo b" by auto
  from Cons.IH [OF a(2)] Cons.prems obtain s'' bs where
    r: "alloc_all s' ns = Inr (s'', bs)" "inv s''" "in_use s'' = set bs \<union> in_use s'"
      "distinct bs" "set bs \<inter> in_use s' = {}" "list_all2 (\<lambda>n b. n \<le> hi b - lo b) ns bs" by auto
  with a show ?case by (intro exI [of _ s''] exI [of _ "b # bs"]) auto
qed

end

lemma rounded_less: "bf_inv s \<Longrightarrow> rounded s n < n + bf_align s"
  by (simp add: rounded_def bf_inv_def round_up_int_less)

lemma bf_align_free: "free s b = Inr s' \<Longrightarrow> bf_align s' = bf_align s"
  by (auto simp: free_def rbind_Inr_iff split: option.splits)

interpretation bf: allocator malloc free bf_inv live bf_limit bf_align b_start b_end
proof
  fix s n assume s: "bf_inv s" and n: "(0::int) \<le> n"
  from malloc_total [OF s n] obtain s' b where m: "malloc s n = Inr (s', b)" "malloc_post s n s' b" by blast
  then show "\<exists>s' b. malloc s n = Inr (s', b) \<and> bf_inv s' \<and> live s' = insert b (live s) \<and>
      b \<notin> live s \<and> n \<le> b_end b - b_start b \<and> bf_limit s \<le> bf_limit s' \<and>
      bf_limit s' < bf_limit s + n + bf_align s \<and> bf_align s' = bf_align s"
    using rounded_ge [OF s, of n] rounded_less [OF s, of n] bf_align_malloc [OF m(1)]
    by (auto simp: malloc_post_def block_size_def)
next
  fix s b assume "bf_inv s" "b \<in> live s"
  then show "\<exists>s'. free s b = Inr s' \<and> bf_inv s' \<and> live s' = live s - {b} \<and> bf_limit s' = bf_limit s \<and>
      bf_align s' = bf_align s"
    using free_total bf_align_free by (fastforce simp: free_post_def)
next
  fix s b assume "bf_inv s" "b \<in> live s"
  then show "0 \<le> b_start b \<and> b_start b \<le> b_end b \<and> b_end b \<le> bf_limit s"
    using tiles_within by (auto simp: bf_inv_def live_def)
next
  fix s a b assume "bf_inv s" "a \<in> live s" "b \<in> live s" "a \<noteq> b"
  then have "b_id a \<noteq> b_id b" by (auto simp: bf_inv_def live_def distinct_map dest: inj_onD)
  then show "b_end a \<le> b_start b \<or> b_end b \<le> b_start a"
    using tiles_disjoint [of 0 "bf_list s" "bf_limit s" a b] \<open>bf_inv s\<close> \<open>a \<in> live s\<close> \<open>b \<in> live s\<close>
    by (simp add: bf_inv_def live_def)
qed


section \<open>Reachable allocators\<close>

inductive bf_reachable :: "bestfit \<Rightarrow> bool" where
  bf_start: "0 < align \<Longrightarrow> bf_reachable (bestfit_init align)"
| bf_malloc: "bf_reachable s \<Longrightarrow> 0 \<le> n \<Longrightarrow> malloc s n = Inr (s', b) \<Longrightarrow> bf_reachable s'"
| bf_free: "bf_reachable s \<Longrightarrow> b \<in> live s \<Longrightarrow> free s b = Inr s' \<Longrightarrow> bf_reachable s'"

lemma malloc_Inr_post: "bf_inv s \<Longrightarrow> 0 \<le> n \<Longrightarrow> malloc s n = Inr (s', b) \<Longrightarrow> malloc_post s n s' b"
  using malloc_total by fastforce

lemma free_Inr_post: "bf_inv s \<Longrightarrow> b \<in> live s \<Longrightarrow> free s b = Inr s' \<Longrightarrow> free_post s b s'"
  using free_total by fastforce

lemma bf_reachable_inv: "bf_reachable s \<Longrightarrow> bf_inv s"
proof (induction rule: bf_reachable.induct)
  case (bf_start align)
  then show ?case by (rule bf_inv_init)
next
  case (bf_malloc s n s' b)
  from malloc_Inr_post [OF bf_malloc.IH bf_malloc.hyps(2,3)]
  show ?case by (simp add: malloc_post_def)
next
  case (bf_free s b s')
  from free_Inr_post [OF bf_free.IH bf_free.hyps(2,3)]
  show ?case by (simp add: free_post_def)
qed

lemma all_free_single:
  assumes "coalesced bs" and "\<forall>b \<in> set bs. b_is_free b"
  shows "length bs \<le> 1"
proof (rule ccontr)
  assume "\<not> length bs \<le> 1"
  then obtain a b cs where "bs = a # b # cs"
    by (metis One_nat_def length_Cons list.exhaust list.size(3) not_less_eq_eq zero_le)
  with assms show False by (simp add: coalesced_Cons)
qed

text \<open>A small run, used by the witnesses below.\<close>

definition demo0 :: bestfit where
  "demo0 = bestfit_init 32"

definition demo1 :: bestfit where
  "demo1 = \<lparr>bf_limit = 128, bf_list = [\<lparr>b_id = 0, b_start = 0, b_end = 128, b_is_free = False\<rparr>],
            bf_align = 32, bf_fresh = 1\<rparr>"

definition demo2 :: bestfit where
  "demo2 = \<lparr>bf_limit = 128, bf_list = [\<lparr>b_id = 1, b_start = 0, b_end = 128, b_is_free = True\<rparr>],
            bf_align = 32, bf_fresh = 2\<rparr>"

lemma demo_malloc: "malloc demo0 100 = Inr (demo1, \<lparr>b_id = 0, b_start = 0, b_end = 128, b_is_free = False\<rparr>)"
  by (simp add: malloc_def demo0_def demo1_def bestfit_init_def Let_def)

lemma demo_free: "free demo1 \<lparr>b_id = 0, b_start = 0, b_end = 128, b_is_free = False\<rparr> = Inr demo2"
  by (simp add: free_def demo1_def demo2_def merge_next_def merge_prev_def)

lemma demo_reachable: "bf_reachable demo0" "bf_reachable demo1" "bf_reachable demo2"
proof -
  show 0: "bf_reachable demo0" unfolding demo0_def by (rule bf_start) simp
  show 1: "bf_reachable demo1" by (rule bf_malloc [OF 0 _ demo_malloc]) simp
  show "bf_reachable demo2" by (rule bf_free [OF 1 _ demo_free]) (simp add: live_def demo1_def)
qed

section \<open>Properties\<close>

text \<open>
  C1: in every state an allocator can reach, a request of any size succeeds; the block it
  returns is new, starts at a multiple of the alignment and has exactly the size of the request
  rounded up to the alignment, less than one unit of alignment more than asked.  It lies inside
  the reported capacity and overlaps no block in use, the other blocks in use are kept, and the
  capacity does not change when some free block can hold the request.
\<close>

theorem malloc_safe:
  assumes "bf_reachable s" and "0 \<le> n"
  shows "\<exists>s' b. malloc s n = Inr (s', b) \<and> bf_reachable s' \<and>
      b \<notin> live s \<and> live s' = insert b (live s) \<and>
      block_size b = round_up_int n (bf_align s) \<and> n \<le> block_size b \<and> block_size b < n + bf_align s \<and>
      bf_align s dvd b_start b \<and> 0 \<le> b_start b \<and> b_end b \<le> bf_limit s' \<and>
      (\<forall>c \<in> live s. b_end c \<le> b_start b \<or> b_end b \<le> b_start c) \<and>
      bf_limit s \<le> bf_limit s' \<and> bf_limit s' \<le> bf_limit s + block_size b \<and>
      ((\<exists>c \<in> set (bf_list s). b_is_free c \<and> round_up_int n (bf_align s) \<le> block_size c) \<longrightarrow>
        bf_limit s' = bf_limit s)"
proof -
  have inv: "bf_inv s" using assms(1) by (rule bf_reachable_inv)
  from malloc_total [OF inv assms(2)] obtain s' b where
    m: "malloc s n = Inr (s', b)" and post: "malloc_post s n s' b" by blast
  have inv': "bf_inv s'" and live: "live s' = insert b (live s)" "b \<notin> live s"
    and size: "block_size b = rounded s n" and limit: "bf_limit s \<le> bf_limit s'" "bf_limit s' \<le> bf_limit s + rounded s n"
    using post by (simp_all add: malloc_post_def)
  have disj: "\<forall>c \<in> live s. b_end c \<le> b_start b \<or> b_end b \<le> b_start c"
    using bf.disjoint [OF inv'] live by fastforce
  have "b \<in> set (bf_list s')" using live(1) by (auto simp: live_def)
  then have al: "bf_align s dvd b_start b"
    using inv' bf_align_malloc [OF m] by (auto simp: bf_inv_def)
  have lt: "rounded s n < n + bf_align s" by (rule rounded_less [OF inv])
  have kept: "bf_limit s' = bf_limit s"
    if "\<exists>c \<in> set (bf_list s). b_is_free c \<and> round_up_int n (bf_align s) \<le> block_size c"
    using malloc_keeps_limit [OF inv m] that by (auto simp: rounded_def)
  show ?thesis
    using m bf_malloc [OF assms m] live disj size limit al lt kept rounded_ge [OF inv, of n] bf.within [OF inv', of b]
    by (intro exI [of _ s'] exI [of _ b]) (simp add: rounded_def)
qed

theorem malloc_safe_witness:
  "\<exists>s' b. malloc demo2 40 = Inr (s', b) \<and> block_size b = 64 \<and> bf_limit s' = 128 \<and> live s' = {b}"
  using malloc_safe [OF demo_reachable(3), of 40]
  by (auto simp: demo2_def round_up_int_def block_size_def live_def)

text \<open>
  Best fit. When some free block can hold the request, the capacity does not grow, and
  the returned block is cut from the front of a free block that is a smallest one among
  those that fit.
\<close>

theorem malloc_best_fit:
  assumes "bf_reachable s" and "0 \<le> n" and "malloc s n = Inr (s', b)"
    and "c \<in> set (bf_list s)" and "b_is_free c" and "round_up_int n (bf_align s) \<le> block_size c"
  shows "bf_limit s' = bf_limit s \<and> (\<exists>f \<in> set (bf_list s). b_is_free f \<and> b_start f = b_start b \<and>
      b_end b \<le> b_end f \<and> (\<forall>d \<in> set (bf_list s). b_is_free d \<longrightarrow>
        round_up_int n (bf_align s) \<le> block_size d \<longrightarrow> block_size f \<le> block_size d))"
proof -
  have inv: "bf_inv s" using assms(1) by (rule bf_reachable_inv)
  have "find_best (rounded s n) (bf_list s) None \<noteq> None"
    using assms(4-6) by (auto simp: find_best_None rounded_def not_less)
  then obtain f where best: "find_best (rounded s n) (bf_list s) None = Some f" by blast
  obtain xs ys t got where
    xs: "bf_list s = xs @ f # ys" "b_is_free f" "rounded s n \<le> block_size f"
    and t: "malloc s n = Inr (t, got)"
      "got = f\<lparr>b_is_free := False, b_end := b_start f + rounded s n\<rparr>" "bf_limit t = bf_limit s"
    by (rule malloc_reuse [OF inv best])
  with assms(3) find_best_Some [OF best] show ?thesis
    by (auto simp: rounded_def block_size_def intro!: bexI [of _ f])
qed

theorem malloc_best_fit_witness:
  "bf_limit (fst (projr (malloc demo2 40))) = 128"
  using malloc_best_fit [OF demo_reachable(3), of 40 "fst (projr (malloc demo2 40))"
      "snd (projr (malloc demo2 40))" "\<lparr>b_id = 1, b_start = 0, b_end = 128, b_is_free = True\<rparr>"]
  by (simp add: malloc_def demo2_def Let_def block_size_def round_up_int_def)

text \<open>
  C38: releasing a block in use succeeds, takes exactly that block out of use and keeps the
  capacity; releasing the same handle again raises \<^verbatim>\<open>ValueError\<close>.
\<close>

theorem free_once:
  assumes "bf_reachable s" and "b \<in> live s"
  shows "\<exists>s'. free s b = Inr s' \<and> bf_reachable s' \<and> live s' = live s - {b} \<and>
      bf_limit s' = bf_limit s \<and> free s' b = Inl ValueError"
proof -
  have inv: "bf_inv s" using assms(1) by (rule bf_reachable_inv)
  from free_total [OF inv assms(2)] obtain s' where s': "free s b = Inr s'" "free_post s b s'" by blast
  then have "bf_inv s'" by (simp add: free_post_def)
  moreover have "\<not> b_is_free b" using assms(2) by (simp add: live_def)
  ultimately have "free s' b = Inl ValueError"
    using free_removes_id [OF inv assms(2) s'(1)] by (intro free_not_live)
  with s' bf_free [OF assms s'(1)] show ?thesis by (auto simp: free_post_def)
qed

theorem free_once_witness:
  "\<exists>s'. free demo1 \<lparr>b_id = 0, b_start = 0, b_end = 128, b_is_free = False\<rparr> = Inr s' \<and> bf_reachable s' \<and>
      live s' = live demo1 - {\<lparr>b_id = 0, b_start = 0, b_end = 128, b_is_free = False\<rparr>} \<and>
      bf_limit s' = bf_limit demo1 \<and>
      free s' \<lparr>b_id = 0, b_start = 0, b_end = 128, b_is_free = False\<rparr> = Inl ValueError"
  using free_once [OF demo_reachable(2), of "\<lparr>b_id = 0, b_start = 0, b_end = 128, b_is_free = False\<rparr>"]
  by (simp add: live_def demo1_def)

text \<open>
  The allocator never fragments beyond use: when nothing is in use, the whole capacity
  is one free block again (or nothing was ever allocated).
\<close>

theorem all_freed_coalesced:
  assumes "bf_reachable s" and "live s = {}"
  shows "bf_list s = [] \<and> bf_limit s = 0 \<or>
    (\<exists>f. bf_list s = [f] \<and> b_is_free f \<and> b_start f = 0 \<and> b_end f = bf_limit s)"
proof -
  have inv: "bf_inv s" using assms(1) by (rule bf_reachable_inv)
  have free: "\<forall>b \<in> set (bf_list s). b_is_free b" using assms(2) by (auto simp: live_def)
  then have "length (bf_list s) \<le> 1" using inv all_free_single by (auto simp: bf_inv_def)
  then show ?thesis using inv free by (cases "bf_list s") (auto simp: bf_inv_def)
qed

theorem all_freed_coalesced_witness:
  "bf_list demo2 = [] \<and> bf_limit demo2 = 0 \<or>
    (\<exists>f. bf_list demo2 = [f] \<and> b_is_free f \<and> b_start f = 0 \<and> b_end f = bf_limit demo2)"
  using all_freed_coalesced [OF demo_reachable(3)] by (simp add: live_def demo2_def)

end
