(* ===== verification/TileFactors.thy ===== *)
theory TileFactors
  imports Prelude
begin

text \<open>
  The arithmetic of tile sizes, from \<^verbatim>\<open>tilelang/carver/roller/policy/common.py\<close>:
  the factors of an extent, its prime factorisation, and how many elements of a
  subtensor are contiguous in the tensor it is cut from. Extents are natural numbers.

  \<^verbatim>\<open>np.sqrt\<close> works on doubles; \<open>ceil_sqrt\<close> is the exact ceiling of the root, which the
  double computation gives for every extent below \<open>2 ^ 52\<close>.
\<close>

section \<open>Factors\<close>

text \<open>\<^verbatim>\<open>int(np.ceil(np.sqrt(n)))\<close>: the least \<open>m\<close> whose square reaches \<open>n\<close>.\<close>

function ceil_sqrt_from :: "nat \<Rightarrow> nat \<Rightarrow> nat" where
  "ceil_sqrt_from m n = (if n \<le> m * m then m else ceil_sqrt_from (Suc m) n)"
  by pat_completeness auto
termination
proof (relation "measure (\<lambda>(m, n). n - m)", goal_cases)
  case (2 m n)
  then have "m < n" by (meson le_square leI order.trans)
  then show ?case by simp
qed simp

declare ceil_sqrt_from.simps [simp del]

definition ceil_sqrt :: "nat \<Rightarrow> nat" where
  "ceil_sqrt n = ceil_sqrt_from 0 n"

definition get_all_factors :: "nat \<Rightarrow> nat list" where
  "get_all_factors n =
     (let n0 = ceil_sqrt n;
          val = filter (\<lambda>k. n mod k = 0) [1..<n0];
          mid = (if n0 * n0 \<noteq> n then [] else [n0])
      in val @ mid @ map (\<lambda>v. n div v) (rev val))"

text \<open>
  The trial-division loop. Started anywhere but at a divisor candidate that is at most
  the remaining number it would not end, so its result is an option.
\<close>

partial_function (option) factorize_loop :: "nat \<Rightarrow> nat \<Rightarrow> nat list \<Rightarrow> nat list option" where
  "factorize_loop n i result =
     (if n > 1
      then if n mod i = 0
        then factorize_loop (n div i) i (result @ [i])
        else factorize_loop n (Suc i) result
      else Some result)"

declare factorize_loop.simps [code]

definition factorize :: "nat \<Rightarrow> nat list option" where
  "factorize n = factorize_loop n 2 []"

section \<open>Contiguity of a subtensor\<close>

function coalesced_factor :: "nat list \<Rightarrow> nat list \<Rightarrow> nat res" where
  "coalesced_factor subtensor tensor =
     (if subtensor = [] \<or> tensor = [] then Inl IndexError
      else if last subtensor \<noteq> last tensor \<or> length subtensor = 1
        then Inr (last subtensor)
        else rbind (coalesced_factor (butlast subtensor) (butlast tensor))
               (\<lambda>f. Inr (last subtensor * f)))"
  by pat_completeness auto
termination
  by (relation "measure (\<lambda>(s, t). length s)") auto

declare coalesced_factor.simps [simp del]

text \<open>
  \<^verbatim>\<open>transaction_size * bytes / min(transaction_size, factor)\<close> is Python's true
  division, here the exact quotient.
\<close>

definition coalesced_tensor_shape :: "nat list \<Rightarrow> nat list \<Rightarrow> nat \<Rightarrow> rat res" where
  "coalesced_tensor_shape subtensor tensor transaction_size =
     (let bytes = prod_list subtensor
      in if bytes = 0 then Inr 0
         else rbind (coalesced_factor subtensor tensor) (\<lambda>factor.
           if min transaction_size factor = 0 then Inl ZeroDivisionError
           else Inr (of_nat (transaction_size * bytes) / of_nat (min transaction_size factor))))"

section \<open>The factors of an extent are its divisors\<close>

lemma ceil_sqrt_from_spec:
  assumes "\<forall>k < m. k * k < n"
  shows "n \<le> ceil_sqrt_from m n * ceil_sqrt_from m n \<and>
         (\<forall>k < ceil_sqrt_from m n. k * k < n)"
  using assms
proof (induction m n rule: ceil_sqrt_from.induct)
  case (1 m n)
  show ?case
  proof (cases "n \<le> m * m")
    case True
    then show ?thesis using "1.prems" by (simp add: ceil_sqrt_from.simps [of m n])
  next
    case False
    then have "\<forall>k < Suc m. k * k < n" using "1.prems" by (auto simp: less_Suc_eq)
    with "1.IH" False show ?thesis by (simp add: ceil_sqrt_from.simps [of m n])
  qed
qed

lemma ceil_sqrt_ge: "n \<le> ceil_sqrt n * ceil_sqrt n"
  using ceil_sqrt_from_spec [of 0 n] by (simp add: ceil_sqrt_def)

lemma ceil_sqrt_less: "k < ceil_sqrt n \<Longrightarrow> k * k < n"
  using ceil_sqrt_from_spec [of 0 n] by (simp add: ceil_sqrt_def)

text \<open>The partner of a divisor below the root is at or above it.\<close>

lemma partner_ge:
  assumes "v * w = n" and "v < ceil_sqrt n"
  shows "ceil_sqrt n \<le> w" and "ceil_sqrt n * ceil_sqrt n = n \<Longrightarrow> ceil_sqrt n < w"
proof -
  show "ceil_sqrt n \<le> w"
  proof (rule ccontr)
    assume "\<not> ceil_sqrt n \<le> w"
    then have w: "w < ceil_sqrt n" by simp
    let ?m = "max v w"
    have "n \<le> ?m * ?m" unfolding assms(1) [symmetric] by (rule mult_le_mono) auto
    moreover have "?m * ?m < n" using w assms(2) by (intro ceil_sqrt_less) simp
    ultimately show False by simp
  qed
  assume sq: "ceil_sqrt n * ceil_sqrt n = n"
  show "ceil_sqrt n < w"
  proof (rule ccontr)
    assume "\<not> ceil_sqrt n < w"
    then have "v * w \<le> v * ceil_sqrt n" by simp
    also have "\<dots> < ceil_sqrt n * ceil_sqrt n" using assms(2) by simp
    finally show False using assms(1) sq by simp
  qed
qed

definition small_factors :: "nat \<Rightarrow> nat list" where
  "small_factors n = filter (\<lambda>k. n mod k = 0) [1..<ceil_sqrt n]"

lemma get_all_factors_split:
  "get_all_factors n =
     small_factors n @ (if ceil_sqrt n * ceil_sqrt n \<noteq> n then [] else [ceil_sqrt n]) @
     map (\<lambda>v. n div v) (rev (small_factors n))"
  by (simp add: get_all_factors_def small_factors_def Let_def)

lemma set_small_factors:
  "set (small_factors n) = {k. 0 < k \<and> k < ceil_sqrt n \<and> k dvd n}"
  by (auto simp: small_factors_def dvd_eq_mod_eq_0)

lemma sorted_small_factors: "sorted_wrt (<) (small_factors n)"
  by (simp add: small_factors_def sorted_wrt_filter)

lemma set_get_all_factors:
  assumes n: "0 < n"
  shows "set (get_all_factors n) = {d. d dvd n}"
proof
  show "set (get_all_factors n) \<subseteq> {d. d dvd n}"
    by (auto simp: get_all_factors_split set_small_factors split: if_splits)
      (metis dvd_triv_left)
next
  show "{d. d dvd n} \<subseteq> set (get_all_factors n)"
  proof
    fix d assume "d \<in> {d. d dvd n}"
    then obtain w where w: "d * w = n" by (auto elim!: dvdE)
    then have pos: "0 < d" "0 < w" using n by auto
    consider "d < ceil_sqrt n" | "w < ceil_sqrt n" | "ceil_sqrt n \<le> d" "ceil_sqrt n \<le> w"
      by linarith
    then show "d \<in> set (get_all_factors n)"
    proof cases
      case 1
      with w pos show ?thesis by (auto simp: get_all_factors_split set_small_factors)
    next
      case 2
      then have "w \<in> set (small_factors n)" using w pos by (auto simp: set_small_factors)
      moreover have "d = n div w" using w pos by auto
      ultimately show ?thesis by (auto simp: get_all_factors_split)
    next
      case 3
      have "ceil_sqrt n * ceil_sqrt n \<le> d * ceil_sqrt n" "d * ceil_sqrt n \<le> d * w"
        using 3 by simp_all
      moreover have "d * w \<le> ceil_sqrt n * ceil_sqrt n" using ceil_sqrt_ge [of n] w by simp
      ultimately have eq: "d * ceil_sqrt n = ceil_sqrt n * ceil_sqrt n"
        and sq: "ceil_sqrt n * ceil_sqrt n = n" using w by linarith+
      have "ceil_sqrt n \<noteq> 0" using sq n by (metis mult_0 less_irrefl)
      with eq have "d = ceil_sqrt n" by simp
      with sq show ?thesis by (simp add: get_all_factors_split)
    qed
  qed
qed

lemma div_antimono_strict:
  assumes "v dvd n" "v' dvd n" "0 < (n::nat)" "v < v'"
  shows "n div v' < n div v"
proof -
  from assms(1) obtain w where w1: "n = v * w" by (rule dvdE)
  from assms(2) obtain w' where w2: "n = v' * w'" by (rule dvdE)
  note w = w1 w2
  have pos: "0 < v" using w1 assms(3) by simp
  have pos': "0 < v'" "0 < w'" using w2 assms(3) by simp_all
  have "w' < w"
  proof (rule ccontr)
    assume "\<not> w' < w"
    then have "v * w \<le> v * w'" by simp
    also have "\<dots> < v' * w'" using assms(4) pos' by simp
    finally show False using w by simp
  qed
  moreover have "n div v = w" using w1 pos by simp
  moreover have "n div v' = w'" using w2 pos' by simp
  ultimately show ?thesis by simp
qed

lemma sorted_wrt_large_factors:
  assumes "0 < (n::nat)" and "sorted_wrt (<) vs" and "\<forall>v \<in> set vs. v dvd n"
  shows "sorted_wrt (<) (map (\<lambda>v. n div v) (rev vs))"
  using assms(2,3)
proof (induction vs)
  case Nil
  then show ?case by simp
next
  case (Cons v vs)
  then have "\<forall>x \<in> set vs. n div x < n div v"
    using assms(1) by (intro ballI div_antimono_strict) auto
  with Cons show ?case by (simp add: sorted_wrt_append)
qed

lemma sorted_get_all_factors:
  assumes n: "0 < n"
  shows "sorted_wrt (<) (get_all_factors n)"
proof -
  have large: "ceil_sqrt n \<le> n div v \<and> (ceil_sqrt n * ceil_sqrt n = n \<longrightarrow> ceil_sqrt n < n div v)"
    if "v \<in> set (small_factors n)" for v
  proof -
    from that obtain w where w: "v * w = n" and v: "0 < v" "v < ceil_sqrt n"
      by (auto simp: set_small_factors elim!: dvdE)
    then have "n div v = w" by auto
    with partner_ge [OF w v(2)] show ?thesis by auto
  qed
  have small: "v < ceil_sqrt n" if "v \<in> set (small_factors n)" for v
    using that by (simp add: set_small_factors)
  have "sorted_wrt (<) (map (\<lambda>v. n div v) (rev (small_factors n)))"
    using n sorted_small_factors by (rule sorted_wrt_large_factors) (simp add: set_small_factors)
  then show ?thesis
    unfolding get_all_factors_split sorted_wrt_append
    using sorted_small_factors [of n] large small less_le_trans by (auto split: if_splits) blast+
qed


section \<open>The factorisation is the prime factorisation\<close>

text \<open>No number below \<open>i\<close> divides \<open>n\<close>: the loop's invariant on its candidate.\<close>

definition no_divisor_below :: "nat \<Rightarrow> nat \<Rightarrow> bool" where
  "no_divisor_below i n \<longleftrightarrow> (\<forall>p. 2 \<le> p \<longrightarrow> p < i \<longrightarrow> \<not> p dvd n)"

definition is_prime :: "nat \<Rightarrow> bool" where
  "is_prime p \<longleftrightarrow> 1 < p \<and> (\<forall>m. m dvd p \<longrightarrow> m = 1 \<or> m = p)"

lemma least_divisor_prime:
  assumes "no_divisor_below i n" and "i dvd n" and "2 \<le> i" and "0 < n"
  shows "is_prime i"
  unfolding is_prime_def
proof (intro conjI allI impI)
  show "1 < i" using assms(3) by simp
  fix m assume m: "m dvd i"
  then have "m \<noteq> 0" "m \<le> i" using assms(3) by (auto intro: dvd_imp_le intro!: Nat.gr0I)
  moreover have "m dvd n" using m assms(2) by (rule dvd_trans)
  then have "\<not> (2 \<le> m \<and> m < i)" using assms(1) by (auto simp: no_divisor_below_def)
  ultimately show "m = 1 \<or> m = i" by linarith
qed

lemma factorize_loop_correct:
  assumes "0 < n" and "2 \<le> i" and "no_divisor_below i n"
  shows "\<exists>ps. factorize_loop n i acc = Some (acc @ ps) \<and> prod_list ps = n \<and>
           sorted ps \<and> (\<forall>p \<in> set ps. is_prime p \<and> i \<le> p)"
  using assms
proof (induction "n + (n - i)" arbitrary: n i acc rule: less_induct)
  case less
  show ?case
  proof (cases "n > 1")
    case False
    then have "n = 1" using less.prems(1) by simp
    then show ?thesis by (simp add: factorize_loop.simps)
  next
    case n1: True
    show ?thesis
    proof (cases "n mod i = 0")
      case True
      then have dvd: "i dvd n" by (simp add: dvd_eq_mod_eq_0)
      define n' where "n' = n div i"
      have n: "n = i * n'" using dvd by (simp add: n'_def)
      have n': "0 < n'" "n' < n" using n less.prems n1 by (auto intro: Nat.gr0I)
      have nd: "no_divisor_below i n'"
        using less.prems(3) n by (auto simp: no_divisor_below_def)
      have "n' + (n' - i) < n + (n - i)" using n'(2) by linarith
      from less.hyps [OF this n'(1) less.prems(2) nd, of "acc @ [i]"] obtain ps where
        ps: "factorize_loop n' i (acc @ [i]) = Some ((acc @ [i]) @ ps)" "prod_list ps = n'"
          "sorted ps" "\<forall>p \<in> set ps. is_prime p \<and> i \<le> p" by blast
      have "is_prime i" using less.prems dvd by (intro least_divisor_prime)
      moreover have "factorize_loop n i acc = factorize_loop n' i (acc @ [i])"
        using n1 True by (subst factorize_loop.simps) (simp add: n'_def)
      ultimately show ?thesis using ps n
        by (intro exI [of _ "i # ps"]) auto
    next
      case False
      then have ni: "\<not> i dvd n" by (simp add: dvd_eq_mod_eq_0)
      have "i \<le> n"
        using less.prems(3) n1 unfolding no_divisor_below_def
        by (metis Suc_1 Suc_leI dvd_refl leI One_nat_def)
      then have "i < n" using ni by (cases "i = n") auto
      then have dec: "n + (n - Suc i) < n + (n - i)" by simp
      have nd: "no_divisor_below (Suc i) n"
        using less.prems(3) ni by (auto simp: no_divisor_below_def less_Suc_eq)
      have "2 \<le> Suc i" using less.prems(2) by simp
      from less.hyps [OF dec less.prems(1) this nd, of acc] obtain ps where
        ps: "factorize_loop n (Suc i) acc = Some (acc @ ps)" "prod_list ps = n"
          "sorted ps" "\<forall>p \<in> set ps. is_prime p \<and> Suc i \<le> p" by blast
      moreover have "factorize_loop n i acc = factorize_loop n (Suc i) acc"
        using n1 False by (subst factorize_loop.simps) simp
      ultimately show ?thesis by (intro exI [of _ ps]) (auto dest: Suc_leD)
    qed
  qed
qed

section \<open>Coalescing\<close>

text \<open>
  What the recursion computes: the product of the trailing extents of the subtensor up to
  and including the first (from the right) that differs from the tensor's, written on the
  reversed shapes.
\<close>

fun run_product :: "nat list \<Rightarrow> nat list \<Rightarrow> nat" where
  "run_product (x # xs) (y # ys) = (if x \<noteq> y \<or> xs = [] then x else x * run_product xs ys)"
| "run_product _ _ = 1"

lemma coalesced_factor_run_product:
  "0 < length s \<Longrightarrow> length s \<le> length t \<Longrightarrow>
     coalesced_factor s t = Inr (run_product (rev s) (rev t))"
proof (induction s arbitrary: t rule: rev_induct)
  case Nil
  then show ?case by simp
next
  case (snoc x s)
  then obtain y t' where t: "t = t' @ [y]" by (cases t rule: rev_cases) auto
  show ?case
  proof (cases "x \<noteq> y \<or> s = []")
    case True
    then show ?thesis by (auto simp: t coalesced_factor.simps [of "s @ [x]"])
  next
    case False
    then have "coalesced_factor s t' = Inr (run_product (rev s) (rev t'))"
      using snoc by (auto simp: t)
    with False show ?thesis
      by (simp add: t coalesced_factor.simps [of "s @ [y]" "t' @ [y]"])
  qed
qed

lemma run_product_dvd: "run_product xs ys dvd prod_list xs"
  by (induction xs ys rule: run_product.induct) auto

lemma run_product_same: "run_product xs xs = prod_list xs"
  by (induction xs) auto

lemma run_product_pos: "0 \<notin> set xs \<Longrightarrow> 0 < run_product xs ys"
  by (induction xs ys rule: run_product.induct) auto

lemma coalesced_factor_errors:
  "coalesced_factor s t = Inl e \<Longrightarrow> e = IndexError \<and> (s = [] \<or> length t < length s)"
proof -
  assume err: "coalesced_factor s t = Inl e"
  have "s = [] \<or> length t < length s"
    using err coalesced_factor_run_product [of s t] by (cases s) (auto simp flip: not_le)
  moreover have "e = IndexError" using err
  proof (induction s t rule: coalesced_factor.induct)
    case (1 s t)
    then show ?case
      by (subst (asm) (2) coalesced_factor.simps) (auto simp: rbind_Inl_iff split: if_splits)
  qed
  ultimately show ?thesis by blast
qed


section \<open>Properties\<close>

text \<open>
  The tile-size candidates of an extent are exactly its divisors, in strictly
  increasing order (so without duplicates); in particular the search can step through
  them by index.
\<close>

theorem get_all_factors_divisors:
  assumes "0 < n"
  shows "sorted_wrt (<) (get_all_factors n) \<and> set (get_all_factors n) = {d. d dvd n}"
  using sorted_get_all_factors [OF assms] set_get_all_factors [OF assms] by simp

theorem get_all_factors_divisors_witness:
  "sorted_wrt (<) (get_all_factors 36) \<and> set (get_all_factors 36) = {d. d dvd 36} \<and>
   get_all_factors 36 = [1, 2, 3, 4, 6, 9, 12, 18, 36]"
proof -
  have "get_all_factors 36 = [1, 2, 3, 4, 6, 9, 12, 18, 36]" by code_simp
  then show ?thesis using get_all_factors_divisors [of 36] by simp
qed

text \<open>
  C32: \<open>factorize\<close> returns for every positive number, and its result is the sorted list
  of the number's prime factors with multiplicity.
\<close>

theorem factorize_prime_factors:
  assumes "0 < n"
  shows "\<exists>ps. factorize n = Some ps \<and> prod_list ps = n \<and> sorted ps \<and> (\<forall>p \<in> set ps. is_prime p)"
proof -
  have "no_divisor_below 2 n" by (simp add: no_divisor_below_def)
  from factorize_loop_correct [OF assms _ this, of "[]"] show ?thesis
    by (auto simp: factorize_def)
qed

theorem factorize_prime_factors_witness:
  "\<exists>ps. factorize 360 = Some ps \<and> prod_list ps = 360 \<and> sorted ps \<and> (\<forall>p \<in> set ps. is_prime p)"
  using factorize_prime_factors [of 360] by simp

text \<open>
  The coalesced factor reads the two shapes from the right: it multiplies the
  subtensor's extents over the suffix on which the shapes agree, includes the first
  extent that differs and stops there (or at the subtensor's outermost dimension);
  when that extent agrees too, the factor of what lies to its left is multiplied in,
  and an error found there is the result.
\<close>

theorem coalesced_factor_runs:
  "coalesced_factor (pre @ x # suf) (pre' @ y # suf) =
     (if x = y \<and> pre \<noteq> []
      then rbind (coalesced_factor pre pre') (\<lambda>f. Inr (f * x * prod_list suf))
      else Inr (x * prod_list suf))"
proof (induction suf rule: rev_induct)
  case Nil
  then show ?case
    by (auto simp: coalesced_factor.simps [of "pre @ [x]"] coalesced_factor.simps [of "pre @ [y]"]
        rbind_def mult.commute split: sum.splits)
next
  case (snoc z suf)
  have "coalesced_factor (pre @ x # suf @ [z]) (pre' @ y # suf @ [z]) =
      rbind (coalesced_factor (pre @ x # suf) (pre' @ y # suf)) (\<lambda>f. Inr (z * f))"
    by (subst coalesced_factor.simps) (simp add: butlast_append)
  also have "\<dots> = (if x = y \<and> pre \<noteq> []
      then rbind (coalesced_factor pre pre') (\<lambda>f. Inr (f * x * prod_list (suf @ [z])))
      else Inr (x * prod_list (suf @ [z])))"
    unfolding snoc by (simp add: rbind_def algebra_simps split: sum.splits)
  finally show ?case by simp
qed

text \<open>
  The transaction estimate never undercounts: it is at least the number of elements,
  equal to it when the contiguous runs are at least a transaction long, and at most a
  whole transaction per element.
\<close>

theorem coalesced_tensor_shape_bounds:
  assumes "coalesced_tensor_shape s t ts = Inr r" and "0 < ts"
  shows "of_nat (prod_list s) \<le> r \<and> r \<le> of_nat (ts * prod_list s) \<and>
    (\<forall>f. coalesced_factor s t = Inr f \<longrightarrow> ts \<le> f \<longrightarrow> r = of_nat (prod_list s))"
proof (cases "prod_list s = 0")
  case True
  then show ?thesis using assms(1) by (simp add: coalesced_tensor_shape_def)
next
  case False
  from assms(1) False obtain f where f: "coalesced_factor s t = Inr f" "min ts f \<noteq> 0"
    and r: "r = of_nat (ts * prod_list s) / of_nat (min ts f)"
    by (auto simp: coalesced_tensor_shape_def Let_def rbind_Inr_iff split: if_splits)
  define m where "m = min ts f"
  have m: "1 \<le> m" "m \<le> ts" using f(2) by (auto simp: m_def)
  have "prod_list s * m \<le> ts * prod_list s" using m by (simp add: mult.commute)
  then have "(of_nat (prod_list s) :: rat) * of_nat m \<le> of_nat (ts * prod_list s)"
    by (metis of_nat_le_iff of_nat_mult)
  moreover have "(of_nat (ts * prod_list s) :: rat) \<le> of_nat (ts * prod_list s) * of_nat m"
    using m by (simp add: mult_le_cancel_left1 flip: of_nat_mult)
  ultimately have "of_nat (prod_list s) \<le> r" "r \<le> of_nat (ts * prod_list s)"
    using m unfolding r m_def [symmetric] by (simp_all add: field_simps)
  moreover have "r = of_nat (prod_list s)" if "ts \<le> f"
    using that assms(2) r by (simp add: min_absorb1)
  ultimately show ?thesis using f(1) by auto
qed

theorem coalesced_tensor_shape_bounds_witness:
  "of_nat (prod_list [4, 8]) \<le> (64 :: rat) \<and> (64 :: rat) \<le> of_nat (16 * prod_list [4, 8]) \<and>
   coalesced_tensor_shape [4, 8] [64, 64] 16 = Inr 64"
proof -
  have c: "coalesced_tensor_shape [4, 8] [64, 64] 16 = Inr 64" by code_simp
  then show ?thesis using coalesced_tensor_shape_bounds [OF c] by simp
qed

end
