(* ===== verification/LayoutMaps.thy ===== *)
theory LayoutMaps
  imports Prelude "HOL-Library.Word" "HOL-Library.Code_Target_Nat"
begin

text \<open>
  The index maps of \<^verbatim>\<open>tilelang/intrinsics\<close>: the thread/register fragments of the MMA and
  MFMA instructions (\<^verbatim>\<open>mma_layout.py\<close>, \<^verbatim>\<open>mfma_layout.py\<close>, \<^verbatim>\<open>utils.py\<close>), the swizzled shared
  memory layouts, and the fractal layouts of the Ascend cube unit (\<^verbatim>\<open>ascend_layout.py\<close>).
  Indices are natural numbers; \<^verbatim>\<open>DataType(dtype).bits\<close> is an argument. A layout is its
  transform function on index tuples (\<^verbatim>\<open>T.Layout(shape, f)\<close>), which may raise.

  The locale \<open>fragment_pair\<close> is the contract of a map between a tile and a fragment: its
  lemma gives the bijection, and it is interpreted on every pair of maps of the sources.
\<close>

unbundle bit_operations_syntax

section \<open>Fragments of the MMA instructions\<close>

definition ldmatrix_32x8_to_shared_16x16_layout :: "nat \<Rightarrow> nat \<Rightarrow> nat \<times> nat" where
  "ldmatrix_32x8_to_shared_16x16_layout thread_id local_id =
     (thread_id mod 16, 8 * (thread_id div 16) + local_id mod 8)"

definition ldmatrix_trans_32x8_to_shared_16x16_layout :: "nat \<Rightarrow> nat \<Rightarrow> nat \<times> nat" where
  "ldmatrix_trans_32x8_to_shared_16x16_layout thread_id local_id =
     (8 * (thread_id div 16) + thread_id mod 8,
      8 * ((thread_id mod 16) div 8) + local_id mod 8)"

definition ldmatrix_16x32_to_shared_16x32_layout_a :: "nat \<Rightarrow> nat \<Rightarrow> nat \<times> nat" where
  "ldmatrix_16x32_to_shared_16x32_layout_a thread_id local_id =
     (thread_id mod 16, 16 * (thread_id div 16) + local_id mod 16)"

definition ldmatrix_16x32_to_shared_16x32_layout_b :: "nat \<Rightarrow> nat \<Rightarrow> nat \<times> nat" where
  "ldmatrix_16x32_to_shared_16x32_layout_b thread_id local_id =
     (8 * (thread_id div 16) + thread_id mod 8,
      16 * ((thread_id mod 16) div 8) + local_id mod 16)"

definition ldmatrix_32x16_to_shared_16x32_layout_a :: "nat \<Rightarrow> nat \<Rightarrow> nat \<times> nat" where
  "ldmatrix_32x16_to_shared_16x32_layout_a thread_id local_id =
     (thread_id mod 16, local_id + thread_id div 16 * 16)"

definition ldmatrix_32x16_to_shared_16x32_layout_b :: "nat \<Rightarrow> nat \<Rightarrow> nat \<times> nat" where
  "ldmatrix_32x16_to_shared_16x32_layout_b thread_id local_id =
     (thread_id div 16 * 8 + thread_id mod 8,
      local_id + 16 * ((thread_id mod 16) div 8))"

definition mma_store_32x8_to_shared_16x16_layout :: "nat \<Rightarrow> nat \<Rightarrow> nat \<times> nat" where
  "mma_store_32x8_to_shared_16x16_layout thread_id local_id =
     (8 * (local_id mod 4 div 2) + thread_id div 4,
      8 * (local_id div 4) + thread_id mod 4 * 2 + local_id mod 2)"

definition shared_16x16_to_mma_32x8_layout_sr :: "nat \<Rightarrow> nat \<Rightarrow> nat \<times> nat" where
  "shared_16x16_to_mma_32x8_layout_sr i j =
     (4 * (i mod 8) + (j mod 8) div 2, 4 * (j div 8) + i div 8 * 2 + j mod 2)"

definition shared_16x16_to_mma_32x8_layout_rs :: "nat \<Rightarrow> nat \<Rightarrow> nat \<times> nat" where
  "shared_16x16_to_mma_32x8_layout_rs i j =
     (4 * (j mod 8) + (i mod 8) div 2, 4 * (i div 8) + j div 8 * 2 + i mod 2)"

definition shared_16x32_to_mma_32x16_layout :: "nat \<Rightarrow> nat \<Rightarrow> nat \<times> nat" where
  "shared_16x32_to_mma_32x16_layout i j =
     (4 * (i mod 8) + (j mod 16) div 4, 8 * (j div 16) + i div 8 * 4 + j mod 4)"

definition shared_32x16_to_mma_32x16_layout :: "nat \<Rightarrow> nat \<Rightarrow> nat \<times> nat" where
  "shared_32x16_to_mma_32x16_layout i j =
     ((i mod 16) div 4 + 4 * (j mod 8), 8 * (j div 8) + i div 16 * 4 + i mod 4)"

definition mma_32x8_to_shared_16x16_layout :: "nat \<Rightarrow> nat \<Rightarrow> nat \<times> nat" where
  "mma_32x8_to_shared_16x16_layout thread_id local_id =
     (8 * (local_id mod 4 div 2) + thread_id div 4,
      8 * (local_id div 4) + thread_id mod 4 * 2 + local_id mod 2)"

definition shared_16x16_to_mma_32x8_smoothlayout :: "nat \<Rightarrow> nat \<Rightarrow> nat \<times> nat" where
  "shared_16x16_to_mma_32x8_smoothlayout i j = (i * 2 + j div 8, j mod 8)"

definition shared_16x32_to_mma_32x16_smoothlayout :: "nat \<Rightarrow> nat \<Rightarrow> nat \<times> nat" where
  "shared_16x32_to_mma_32x16_smoothlayout i j = (i * 2 + j div 16, j mod 16)"

definition shared_32x16_to_mma_32x16_smoothlayout :: "nat \<Rightarrow> nat \<Rightarrow> nat \<times> nat" where
  "shared_32x16_to_mma_32x16_smoothlayout i j = (i * 2 + j div 16, j mod 16)"

section \<open>Fragments of the MFMA instructions\<close>

definition shared_16x4_to_local_64x1_layout_A :: "nat \<Rightarrow> nat \<Rightarrow> nat \<times> nat" where
  "shared_16x4_to_local_64x1_layout_A i j = (j * 16 + i, 0)"

definition thread_id_shared_access_64x1_to_16x4_layout_A :: "nat \<Rightarrow> nat \<Rightarrow> nat \<times> nat" where
  "thread_id_shared_access_64x1_to_16x4_layout_A thread_id local_id =
     (thread_id mod 16, thread_id div 16)"

definition shared_4x16_to_local_64x1_layout_B :: "nat \<Rightarrow> nat \<Rightarrow> nat \<times> nat" where
  "shared_4x16_to_local_64x1_layout_B i j = (i * 16 + j, 0)"

definition thread_id_shared_access_64x1_to_4x16_layout_B :: "nat \<Rightarrow> nat \<Rightarrow> nat \<times> nat" where
  "thread_id_shared_access_64x1_to_4x16_layout_B thread_id local_id =
     (thread_id div 16, thread_id mod 16)"

definition shared_16x16_to_local_64x4_layout_C :: "nat \<Rightarrow> nat \<Rightarrow> nat \<times> nat" where
  "shared_16x16_to_local_64x4_layout_C i j = (j + i div 4 * 16, i mod 4)"

definition shared_16x16_to_ldmatrix_64x4_layout :: "nat list \<Rightarrow> nat list res" where
  "shared_16x16_to_ldmatrix_64x4_layout ind =
     rbind (py_nth ind 0) (\<lambda>i. rbind (py_nth ind 1) (\<lambda>j.
       let (thread_id, local_id) = shared_16x16_to_local_64x4_layout_C i j
       in Inr [thread_id, local_id]))"

definition thread_id_shared_access_64x4_to_16x16_layout_A :: "nat \<Rightarrow> nat \<Rightarrow> nat \<times> nat" where
  "thread_id_shared_access_64x4_to_16x16_layout_A thread_id local_id =
     (thread_id mod 16, thread_id div 16 * 4 + local_id)"

definition shared_16x16_to_local_64x4_layout_A :: "nat \<Rightarrow> nat \<Rightarrow> nat \<times> nat" where
  "shared_16x16_to_local_64x4_layout_A i j = (i + 16 * (j div 4), j mod 4)"

definition thread_id_shared_access_64x4_to_16x16_layout_B :: "nat \<Rightarrow> nat \<Rightarrow> nat \<times> nat" where
  "thread_id_shared_access_64x4_to_16x16_layout_B thread_id local_id =
     (local_id + thread_id div 16 * 4, thread_id mod 16)"

definition shared_16x16_to_local_64x4_layout_B :: "nat \<Rightarrow> nat \<Rightarrow> nat \<times> nat" where
  "shared_16x16_to_local_64x4_layout_B i j = (j + i div 4 * 16, i mod 4)"

definition thread_id_shared_access_64x4_to_16x16_layout_C_m_n :: "nat \<Rightarrow> nat \<Rightarrow> nat \<times> nat" where
  "thread_id_shared_access_64x4_to_16x16_layout_C_m_n thread_id local_id =
     (local_id + thread_id div 16 * 4, thread_id mod 16)"

definition thread_id_shared_access_64x4_to_16x16_layout_C_n_m :: "nat \<Rightarrow> nat \<Rightarrow> nat \<times> nat" where
  "thread_id_shared_access_64x4_to_16x16_layout_C_n_m thread_id local_id =
     (thread_id mod 16, local_id + thread_id div 16 * 4)"

definition thread_id_shared_access_64x8_to_16x32_layout_A :: "nat \<Rightarrow> nat \<Rightarrow> nat \<times> nat" where
  "thread_id_shared_access_64x8_to_16x32_layout_A thread_id local_id =
     (thread_id mod 16, thread_id div 16 * 8 + local_id)"

definition shared_16x32_to_local_64x8_layout_A :: "nat \<Rightarrow> nat \<Rightarrow> nat \<times> nat" where
  "shared_16x32_to_local_64x8_layout_A i j = (i + 16 * (j div 8), j mod 8)"

definition thread_id_shared_access_64x8_to_16x32_layout_B :: "nat \<Rightarrow> nat \<Rightarrow> nat \<times> nat" where
  "thread_id_shared_access_64x8_to_16x32_layout_B thread_id local_id =
     (local_id + thread_id div 16 * 8, thread_id mod 16)"

definition shared_16x32_to_local_64x8_layout_B :: "nat \<Rightarrow> nat \<Rightarrow> nat \<times> nat" where
  "shared_16x32_to_local_64x8_layout_B i j = (j + i div 8 * 16, i mod 8)"

section \<open>Offsets and micro tiles\<close>

definition mma_store_index_map :: "nat \<Rightarrow> nat \<Rightarrow> nat \<times> nat" where
  "mma_store_index_map thread_id local_id =
     mma_store_32x8_to_shared_16x16_layout thread_id local_id"

definition mfma_store_index_map :: "nat \<Rightarrow> nat \<Rightarrow> nat \<times> nat" where
  "mfma_store_index_map thread_id local_id =
     thread_id_shared_access_64x4_to_16x16_layout_C_n_m thread_id local_id"

definition get_ldmatrix_offset ::
  "string \<Rightarrow> nat \<Rightarrow> nat \<Rightarrow> nat \<Rightarrow> nat \<Rightarrow> bool \<Rightarrow> nat res" where
  "get_ldmatrix_offset matrix row_idx col_idx stride dtype_bits transposed =
     rbind (guard AssertionError (matrix \<in> {''A'', ''B''})) (\<lambda>_.
       let offset = (\<lambda>(new_row_idx, new_col_idx). new_row_idx * stride + new_col_idx)
       in if dtype_bits = 16 then
            if transposed
            then Inr (offset (ldmatrix_trans_32x8_to_shared_16x16_layout row_idx col_idx))
            else Inr (offset (ldmatrix_32x8_to_shared_16x16_layout row_idx col_idx))
          else if dtype_bits = 8 then
            if matrix = ''B'' \<and> transposed
            then Inr (offset (ldmatrix_16x32_to_shared_16x32_layout_b row_idx col_idx))
            else if matrix = ''A'' \<and> \<not> transposed
            then Inr (offset (ldmatrix_16x32_to_shared_16x32_layout_a row_idx col_idx))
            else Inl ValueError
          else Inl ValueError)"

definition get_mma_micro_size :: "string \<Rightarrow> nat \<times> nat \<times> nat" where
  "get_mma_micro_size dtype =
     (16, 16, if dtype \<in> {''e4m3_float8'', ''e5m2_float8'', ''int8''} then 32 else 16)"

text \<open>The loop reads the shape from its last extent; the coordinates come out reversed.\<close>

fun index_to_coordinates_loop :: "nat \<Rightarrow> nat list \<Rightarrow> nat list res" where
  "index_to_coordinates_loop index [] = Inr []"
| "index_to_coordinates_loop index (d # rev_shape) =
     (if d = 0 then Inl ZeroDivisionError
      else rbind (index_to_coordinates_loop (index div d) rev_shape)
             (\<lambda>cs. Inr (index mod d # cs)))"

definition index_to_coordinates :: "nat \<Rightarrow> nat list \<Rightarrow> nat list res" where
  "index_to_coordinates index shape =
     rbind (index_to_coordinates_loop index (rev shape)) (\<lambda>cs. Inr (rev cs))"

section \<open>Swizzled layouts of shared memory\<close>

text \<open>\<^verbatim>\<open>i, j = args[-2:]\<close>: the leading indices and the last two.\<close>

definition last_two :: "nat list \<Rightarrow> (nat list \<times> nat \<times> nat) res" where
  "last_two args =
     (case rev args of
        j # i # pre \<Rightarrow> Inr (rev pre, i, j)
      | _ \<Rightarrow> Inl ValueError)"

definition get_swizzle_layout ::
  "nat \<Rightarrow> nat \<Rightarrow> nat \<Rightarrow> nat \<Rightarrow> nat option \<Rightarrow> (nat \<times> nat) res" where
  "get_swizzle_layout row_idx col_idx row_size bits swizzle_bytes0 =
     (let row_bytes = bits * row_size div 8
      in rbind (guard AssertionError (row_bytes mod 32 = 0)) (\<lambda>_.
        let swizzle_bytes = (case swizzle_bytes0 of None \<Rightarrow> min 128 row_bytes | Some b \<Rightarrow> b)
        in if bits = 0 \<or> 128 div bits = 0 \<or> swizzle_bytes div 16 = 0
           then Inl ZeroDivisionError
           else
             let elem_per_16B = 128 div bits;
                 col_idx_16B = col_idx div elem_per_16B;
                 col_idx_in_16B = col_idx mod elem_per_16B;
                 new_col_idx_16B = col_idx_16B XOR (row_idx mod (swizzle_bytes div 16))
             in Inr (row_idx, new_col_idx_16B * elem_per_16B + col_idx_in_16B)))"

definition make_mma_swizzle_layout ::
  "nat list \<Rightarrow> nat \<Rightarrow> bool \<Rightarrow> (nat list \<Rightarrow> nat list res) res" where
  "make_mma_swizzle_layout shape bits is_smooth =
     rbind (py_nth shape (-1)) (\<lambda>row_size.
       let can_swizzle = (row_size * bits mod 512 = 0)
       in if is_smooth \<or> \<not> can_swizzle then Inr (\<lambda>args. Inr args)
          else Inr (\<lambda>args.
            rbind (last_two args) (\<lambda>(pre, i, j).
              rbind (get_swizzle_layout i j row_size bits None) (\<lambda>(new_i, new_j).
                Inr (pre @ [new_i, new_j])))))"

definition make_mfma_swizzle_layout ::
  "nat list \<Rightarrow> nat \<Rightarrow> nat \<Rightarrow> (nat \<Rightarrow> nat \<Rightarrow> (nat \<times> nat) res) res" where
  "make_mfma_swizzle_layout shape bits vecSize =
     (let numBanks = 32; bankBitWidth = 32; SIMDWidth = 16
      in rbind (py_nth shape (-1)) (\<lambda>innerDimLength.
        if bits = 0 \<or> innerDimLength = 0 \<or> vecSize = 0 then Inl ZeroDivisionError
        else
          let elemsPerOneBanksRow = numBanks * bankBitWidth div bits;
              perPhase = max 1 (elemsPerOneBanksRow div innerDimLength);
              maxPhase = min (SIMDWidth div perPhase) (innerDimLength div vecSize)
          in Inr (\<lambda>row col.
               if maxPhase = 0 then Inl ZeroDivisionError
               else
                 let phase = row div perPhase mod maxPhase;
                     colOffSwizzled = (col div vecSize XOR phase) * vecSize;
                     colOffOrdered = col mod vecSize
                 in Inr (row, colOffSwizzled + colOffOrdered))))"

section \<open>Fractal layouts of the cube unit\<close>

datatype ascend_layout = kRowMajor | kColMajor | kzN | kzZ | knZ

definition BYTE_PER_C0 :: nat where "BYTE_PER_C0 = 32"

definition C0_NUM_PER_FRACTAL :: nat where "C0_NUM_PER_FRACTAL = 16"

definition BYTE_PER_FRACTAL :: nat where
  "BYTE_PER_FRACTAL = BYTE_PER_C0 * C0_NUM_PER_FRACTAL"

definition ceil_div :: "nat \<Rightarrow> nat \<Rightarrow> nat" where
  "ceil_div a b = (a + b - 1) div b"

definition round_up :: "nat \<Rightarrow> nat \<Rightarrow> nat" where
  "round_up a b = ceil_div a b * b"

definition ele_num_per_c0 :: "nat \<Rightarrow> nat" where
  "ele_num_per_c0 bits = BYTE_PER_C0 div bits * 8"

definition ele_num_per_fractal :: "nat \<Rightarrow> nat" where
  "ele_num_per_fractal bits = BYTE_PER_FRACTAL div bits * 8"

record tagged_layout =
  tl_shape :: "nat list"
  tl_transform :: "nat list \<Rightarrow> nat list res"
  tl_tag :: ascend_layout

text \<open>The coordinate computation of the fractal layouts, given shape and stride pairs.\<close>

definition fractal_offset ::
  "nat \<Rightarrow> nat \<Rightarrow> nat \<times> nat \<Rightarrow> nat \<times> nat \<Rightarrow> nat \<Rightarrow> nat \<Rightarrow> nat" where
  "fractal_offset rowInFractal colInFractal strideRow strideCol i j =
     i div rowInFractal * snd strideRow + j div colInFractal * snd strideCol +
     i mod rowInFractal * fst strideRow + j mod colInFractal * fst strideCol"

definition make_zn_layout :: "nat list \<Rightarrow> nat \<Rightarrow> tagged_layout res" where
  "make_zn_layout shape bits =
     (if bits = 0 then Inl ZeroDivisionError else
      Inr \<lparr>tl_shape = shape,
        tl_transform = (\<lambda>args. rbind (last_two args) (\<lambda>(pre, i, j).
          rbind (py_nth shape (-2)) (\<lambda>rows. rbind (py_nth shape (-1)) (\<lambda>cols.
            let c0 = ele_num_per_c0 bits in
            if c0 = 0 then Inl ZeroDivisionError else
            Inr (pre @ [fractal_offset C0_NUM_PER_FRACTAL c0
              (c0, ele_num_per_fractal bits)
              (1, round_up rows C0_NUM_PER_FRACTAL * c0) i j]))))),
        tl_tag = kzN\<rparr>)"

definition make_col_major_layout :: "nat list \<Rightarrow> tagged_layout" where
  "make_col_major_layout shape =
     \<lparr>tl_shape = shape,
      tl_transform = (\<lambda>args. rbind (last_two args) (\<lambda>(pre, i, j). Inr (pre @ [j, i]))),
      tl_tag = kColMajor\<rparr>"

definition make_nz_layout :: "nat list \<Rightarrow> nat \<Rightarrow> tagged_layout res" where
  "make_nz_layout shape bits =
     (if bits = 0 then Inl ZeroDivisionError else
      Inr \<lparr>tl_shape = shape,
        tl_transform = (\<lambda>args. rbind (last_two args) (\<lambda>(pre, i, j).
          rbind (py_nth shape (-2)) (\<lambda>rows. rbind (py_nth shape (-1)) (\<lambda>cols.
            let c0 = ele_num_per_c0 bits; c0_num = BYTE_PER_FRACTAL div BYTE_PER_C0 in
            if c0 = 0 then Inl ZeroDivisionError else
            Inr (pre @ [fractal_offset c0 c0_num
              (1, round_up cols c0_num * c0)
              (c0, ele_num_per_fractal bits) i j]))))),
        tl_tag = knZ\<rparr>)"


section \<open>The contract of a fragment map\<close>

text \<open>
  A tile of \<open>m\<close> by \<open>n\<close> elements and a fragment of \<open>p\<close> threads with \<open>q\<close> registers each
  have the same number of slots, the forward map stays in the fragment, and the backward
  map undoes it. The other direction follows by counting.
\<close>

locale fragment_pair =
  fixes fwd bwd :: "nat \<Rightarrow> nat \<Rightarrow> nat \<times> nat" and m n p q :: nat
  assumes same_slots: "m * n = p * q"
    and fwd_range: "i < m \<Longrightarrow> j < n \<Longrightarrow> fwd i j \<in> {..<p} \<times> {..<q}"
    and bwd_fwd: "i < m \<Longrightarrow> j < n \<Longrightarrow> case_prod bwd (fwd i j) = (i, j)"
begin

lemma fwd_inj: "inj_on (case_prod fwd) ({..<m} \<times> {..<n})"
  by (rule inj_on_inverseI [where g = "case_prod bwd"]) (use bwd_fwd in auto)

lemma fragment_bij: "bij_betw (case_prod fwd) ({..<m} \<times> {..<n}) ({..<p} \<times> {..<q})"
proof -
  have sub: "case_prod fwd ` ({..<m} \<times> {..<n}) \<subseteq> {..<p} \<times> {..<q}"
    unfolding image_subset_iff by (auto simp del: mem_Sigma_iff intro!: fwd_range)
  have "card (case_prod fwd ` ({..<m} \<times> {..<n})) = card ({..<p} \<times> {..<q})"
    using card_image [OF fwd_inj] same_slots by (simp add: card_cartesian_product)
  then have "case_prod fwd ` ({..<m} \<times> {..<n}) = {..<p} \<times> {..<q}"
    using sub by (intro card_subset_eq) auto
  then show ?thesis using fwd_inj by (simp add: bij_betw_def)
qed

lemma fwd_bwd:
  assumes "t < p" "l < q"
  shows "bwd t l \<in> {..<m} \<times> {..<n}" and "case_prod fwd (bwd t l) = (t, l)"
proof -
  have "(t, l) \<in> case_prod fwd ` ({..<m} \<times> {..<n})"
    using assms fragment_bij by (simp add: bij_betw_def)
  then obtain i j where ij: "i < m" "j < n" "fwd i j = (t, l)" by auto
  then have "bwd t l = (i, j)" using bwd_fwd [of i j] by simp
  with ij show "bwd t l \<in> {..<m} \<times> {..<n}" "case_prod fwd (bwd t l) = (t, l)" by auto
qed

lemma fragment_bij_back: "bij_betw (case_prod bwd) ({..<p} \<times> {..<q}) ({..<m} \<times> {..<n})"
  by (rule bij_betw_byWitness [where f' = "case_prod fwd"])
    (auto simp: fwd_bwd bwd_fwd image_subset_iff simp del: mem_Sigma_iff intro!: fwd_bwd fwd_range)

end

text \<open>
  The contract is decidable on concrete sizes, which is how the interpretations
  discharge it.
\<close>

definition fragment_ok ::
  "(nat \<Rightarrow> nat \<Rightarrow> nat \<times> nat) \<Rightarrow> (nat \<Rightarrow> nat \<Rightarrow> nat \<times> nat) \<Rightarrow> nat \<Rightarrow> nat \<Rightarrow> nat \<Rightarrow> nat \<Rightarrow> bool" where
  "fragment_ok fwd bwd m n p q \<longleftrightarrow>
     m * n = p * q \<and>
     list_all (\<lambda>i. list_all (\<lambda>j.
       case fwd i j of (t, l) \<Rightarrow> t < p \<and> l < q \<and> bwd t l = (i, j)) [0..<n]) [0..<m]"

lemma fragment_pairI:
  assumes "fragment_ok fwd bwd m n p q"
  shows "fragment_pair fwd bwd m n p q"
proof
  show "m * n = p * q" using assms by (simp add: fragment_ok_def)
next
  fix i j assume "i < m" "j < n"
  then have "case fwd i j of (t, l) \<Rightarrow> t < p \<and> l < q \<and> bwd t l = (i, j)"
    using assms by (simp add: fragment_ok_def list_all_iff)
  then show "fwd i j \<in> {..<p} \<times> {..<q}" and "case_prod bwd (fwd i j) = (i, j)"
    by (auto split: prod.splits)
qed

lemmas fragment_bijI = fragment_pair.fragment_bij [OF fragment_pairI]

interpretation mma16: fragment_pair
  shared_16x16_to_mma_32x8_layout_sr mma_32x8_to_shared_16x16_layout 16 16 32 8
  by (rule fragment_pairI) code_simp

interpretation mfma_a1: fragment_pair shared_16x4_to_local_64x1_layout_A
  thread_id_shared_access_64x1_to_16x4_layout_A 16 4 64 1
  by (rule fragment_pairI) code_simp

interpretation mfma_b1: fragment_pair shared_4x16_to_local_64x1_layout_B
  thread_id_shared_access_64x1_to_4x16_layout_B 4 16 64 1
  by (rule fragment_pairI) code_simp

interpretation mfma_a4: fragment_pair shared_16x16_to_local_64x4_layout_A
  thread_id_shared_access_64x4_to_16x16_layout_A 16 16 64 4
  by (rule fragment_pairI) code_simp

interpretation mfma_b4: fragment_pair shared_16x16_to_local_64x4_layout_B
  thread_id_shared_access_64x4_to_16x16_layout_B 16 16 64 4
  by (rule fragment_pairI) code_simp

interpretation mfma_c4: fragment_pair shared_16x16_to_local_64x4_layout_C
  thread_id_shared_access_64x4_to_16x16_layout_C_m_n 16 16 64 4
  by (rule fragment_pairI) code_simp

interpretation mfma_a8: fragment_pair shared_16x32_to_local_64x8_layout_A
  thread_id_shared_access_64x8_to_16x32_layout_A 16 32 64 8
  by (rule fragment_pairI) code_simp

interpretation mfma_b8: fragment_pair shared_16x32_to_local_64x8_layout_B
  thread_id_shared_access_64x8_to_16x32_layout_B 32 16 64 8
  by (rule fragment_pairI) code_simp

text \<open>The maps whose inverse the sources do not spell out.\<close>

lemma ldmatrix_16_ok:
  "fragment_ok ldmatrix_32x8_to_shared_16x16_layout (\<lambda>i j. (i + 16 * (j div 8), j mod 8)) 32 8 16 16"
  by code_simp

lemma ldmatrix_trans_16_ok:
  "fragment_ok ldmatrix_trans_32x8_to_shared_16x16_layout
     (\<lambda>i j. (16 * (i div 8) + 8 * (j div 8) + i mod 8, j mod 8)) 32 8 16 16"
  by code_simp

lemma ldmatrix_8a_ok:
  "fragment_ok ldmatrix_16x32_to_shared_16x32_layout_a
     (\<lambda>i j. (i + 16 * (j div 16), j mod 16)) 32 16 16 32"
  by code_simp

lemma ldmatrix_8b_ok:
  "fragment_ok ldmatrix_16x32_to_shared_16x32_layout_b
     (\<lambda>i j. (16 * (i div 8) + 8 * (j div 16) + i mod 8, j mod 16)) 32 16 16 32"
  by code_simp

lemma mma_32x16_ok:
  "fragment_ok shared_16x32_to_mma_32x16_layout
     (\<lambda>t l. (t div 4 + 8 * (l mod 8 div 4), 16 * (l div 8) + t mod 4 * 4 + l mod 4)) 16 32 32 16"
  by code_simp

lemma mma_32x16_trans_ok:
  "fragment_ok shared_32x16_to_mma_32x16_layout
     (\<lambda>t l. (t mod 4 * 4 + 16 * (l mod 8 div 4) + l mod 4, 8 * (l div 8) + t div 4)) 32 16 32 16"
  by code_simp

lemma smooth_16_ok:
  "fragment_ok shared_16x16_to_mma_32x8_smoothlayout
     (\<lambda>t l. (t div 2, 8 * (t mod 2) + l)) 16 16 32 8"
  by code_simp

lemma smooth_32_ok:
  "fragment_ok shared_16x32_to_mma_32x16_smoothlayout
     (\<lambda>t l. (t div 2, 16 * (t mod 2) + l)) 16 32 32 16"
  by code_simp

section \<open>Swizzling\<close>

lemma xor_block: "x < 2 ^ k \<Longrightarrow> (c XOR x) div 2 ^ k = c div (2 ^ k :: nat)"
  by (simp add: drop_bit_xor flip: drop_bit_eq_div)
    (simp add: drop_bit_eq_div)

lemma xor_stays: 
  assumes "c < w * 2 ^ k" and "x < (2 ^ k :: nat)"
  shows "c XOR x < w * 2 ^ k"
proof -
  have "(c XOR x) div 2 ^ k < w"
    unfolding xor_block [OF assms(2)] using assms(1) by (simp add: less_mult_imp_div_less)
  then show ?thesis by (simp add: div_less_iff_less_mult)
qed

lemma xor_cancel: "(c XOR x) XOR x = (c :: nat)"
  by (simp add: xor.assoc)

text \<open>
  Exchanging whole groups of \<open>e\<close> elements by an exclusive or: the result stays in the row
  and the exchange is its own inverse.
\<close>

lemma group_xor:
  fixes e :: nat
  assumes e: "0 < e" and col: "col < w * 2 ^ k * e" and x: "x < 2 ^ k"
  defines "c' \<equiv> (col div e XOR x) * e + col mod e"
  shows "c' < w * 2 ^ k * e" and "(c' div e XOR x) * e + c' mod e = col"
proof -
  have "col div e < w * 2 ^ k" using col by (simp add: less_mult_imp_div_less)
  then have "col div e XOR x < w * 2 ^ k" using x by (rule xor_stays)
  then have "Suc (col div e XOR x) * e \<le> w * 2 ^ k * e" by (intro mult_le_mono1) simp
  then show "c' < w * 2 ^ k * e"
    using mod_less_divisor [OF e, of col] unfolding c'_def by simp
  have "c' div e = col div e XOR x" "c' mod e = col mod e"
    using e by (simp_all add: c'_def)
  then show "(c' div e XOR x) * e + c' mod e = col" by (simp add: xor_cancel)
qed

lemma swizzle_involution:
  assumes bits: "bits dvd 128" and width: "bits * row_size = 128 * (w * 2 ^ k)" and w: "0 < w" 
    and sb: "min 128 (16 * (w * 2 ^ k)) = 16 * 2 ^ k" and even: "0 < k"
    and col: "col < row_size"
  shows "\<exists>col' < row_size. get_swizzle_layout row col row_size bits None = Inr (row, col') \<and>
           get_swizzle_layout row col' row_size bits None = Inr (row, col)"
proof -
  from bits obtain e where e: "128 = bits * e" by (rule dvdE)
  then have pos: "0 < bits" "0 < e" by (auto intro: Nat.gr0I)
  have ediv: "128 div bits = e" by (metis e nonzero_mult_div_cancel_left not_gr0 pos(1))
  have rs: "row_size = w * 2 ^ k * e"
    using width pos unfolding e by (simp add: mult.assoc mult.left_commute)
  have rb: "bits * row_size div 8 = 16 * (w * 2 ^ k)" using width by simp
  have "even (w * 2 ^ k)" using even by (cases k) simp_all
  then have rb32: "16 * (w * 2 ^ k) mod 32 = 0" by (auto elim!: evenE)
  have swz: "get_swizzle_layout row c row_size bits None =
      Inr (row, (c div e XOR row mod 2 ^ k) * e + c mod e)" for c
    using pos ediv by (simp add: get_swizzle_layout_def rb rb32 sb)
  note g = group_xor [OF pos(2) col [unfolded rs], of "row mod 2 ^ k"]
  show ?thesis unfolding swz using g [folded rs]
    by (intro exI [of _ "(col div e XOR row mod 2 ^ k) * e + col mod e"]) simp
qed

section \<open>Mixed radix indices\<close>

text \<open>The row-major position of a coordinate.\<close>

fun row_major :: "nat list \<Rightarrow> nat list \<Rightarrow> nat" where
  "row_major (d # ds) (c # cs) = c * prod_list ds + row_major ds cs"
| "row_major _ _ = 0"

lemma row_major_append:
  "length cs = length ds \<Longrightarrow>
     row_major (ds @ [d]) (cs @ [c]) = row_major ds cs * d + c"
  by (induction ds cs rule: list_induct2')  (auto simp: algebra_simps)

lemma row_major_less: "list_all2 (<) cs ds \<Longrightarrow> row_major ds cs < prod_list ds"
proof (induction cs ds rule: list_all2_induct)
  case Nil
  then show ?case by simp
next
  case (Cons c cs d ds)
  then have "Suc c * prod_list ds \<le> d * prod_list ds" by (intro mult_le_mono1) simp
  with Cons show ?case by simp
qed

lemma index_to_coordinates_snoc:
  "index_to_coordinates index (ds @ [d]) =
     (if d = 0 then Inl ZeroDivisionError
      else rbind (index_to_coordinates (index div d) ds) (\<lambda>cs. Inr (cs @ [index mod d])))"
  by (simp add: index_to_coordinates_def rbind_assoc)

lemma coordinates_of_row_major:
  "list_all2 (<) cs ds \<Longrightarrow> index_to_coordinates (row_major ds cs) ds = Inr cs"
proof (induction ds arbitrary: cs rule: rev_induct)
  case Nil
  then show ?case by (simp add: index_to_coordinates_def)
next
  case (snoc d ds)
  then obtain c cs' where cs: "cs = cs' @ [c]" "c < d" "list_all2 (<) cs' ds"
    by (auto simp: list_all2_append2 list_all2_Cons2)
  moreover have "row_major (ds @ [d]) (cs' @ [c]) = row_major ds cs' * d + c"
    using cs by (intro row_major_append) (simp add: list_all2_lengthD)
  ultimately show ?case using snoc.IH [OF cs(3)]
    by (simp add: index_to_coordinates_snoc)
qed

lemma row_major_of_coordinates:
  assumes "0 \<notin> set ds"
  shows "\<exists>cs. index_to_coordinates index ds = Inr cs \<and> list_all2 (<) cs ds \<and>
    row_major ds cs = index mod prod_list ds"
  using assms
proof (induction ds arbitrary: index rule: rev_induct)
  case Nil
  then show ?case by (simp add: index_to_coordinates_def)
next
  case (snoc d ds)
  then obtain cs where cs: "index_to_coordinates (index div d) ds = Inr cs"
    "list_all2 (<) cs ds" "row_major ds cs = index div d mod prod_list ds"
    by fastforce
  have "index mod (prod_list ds * d) = index div d mod prod_list ds * d + index mod d"
    by (simp add: mod_mult2_eq mult.commute)
  with cs snoc.prems show ?case
    by (simp add: index_to_coordinates_snoc list_all2_lengthD row_major_append
        list_all2_appendI)
qed

section \<open>Fractal layouts\<close>

lemma last_two_append [simp]: "last_two (pre @ [i, j]) = Inr (pre, i, j)"
  by (simp add: last_two_def)

lemma py_nth_last_two [simp]:
  "py_nth (ds @ [x, y]) (-2) = Inr x" "py_nth (ds @ [x, y]) (-1) = Inr y"
  by (auto simp: py_nth_def nth_append)

lemma round_up_ge: "0 < b \<Longrightarrow> a \<le> round_up a b"
  using cdiv_mult_ge [of b a] by (simp add: round_up_def ceil_div_def cdiv_def)

lemma fractal_sizes:
  assumes "bits dvd 32"
  shows "0 < ele_num_per_c0 bits" "ele_num_per_fractal bits = 16 * ele_num_per_c0 bits" "bits \<noteq> 0"
proof -
  from assms obtain k where k: "32 = bits * k" by (rule dvdE)
  then have pos: "0 < bits" "0 < k" by (auto intro: Nat.gr0I)
  have "32 div bits = k" by (metis k nonzero_mult_div_cancel_left not_gr0 pos(1))
  moreover have "512 = bits * (16 * k)" using k by simp
  then have "512 div bits = 16 * k" by (metis nonzero_mult_div_cancel_left not_gr0 pos(1))
  ultimately show "0 < ele_num_per_c0 bits" "ele_num_per_fractal bits = 16 * ele_num_per_c0 bits" 
    "bits \<noteq> 0"
    using pos by (simp_all add: ele_num_per_c0_def ele_num_per_fractal_def BYTE_PER_C0_def
        BYTE_PER_FRACTAL_def C0_NUM_PER_FRACTAL_def)
qed

text \<open>The position in a zN tile: column groups of \<open>c0\<close> elements, each a full column of rows.\<close>

definition zn_position :: "nat \<Rightarrow> nat \<Rightarrow> nat \<Rightarrow> nat \<Rightarrow> nat" where
  "zn_position r16 c0 i j = (j div c0 * r16 + i) * c0 + j mod c0"

lemma fractal_offset_zn:
  "fractal_offset 16 c0 (c0, 16 * c0) (Suc 0, r16 * c0) i j = zn_position r16 c0 i j"
proof -
  have "i div 16 * (16 * c0) + i mod 16 * c0 = (i div 16 * 16 + i mod 16) * c0"
    by (simp only: distrib_right mult.assoc)
  then have "i div 16 * (16 * c0) + i mod 16 * c0 = i * c0" by simp
  then show ?thesis by (simp add: fractal_offset_def zn_position_def algebra_simps)
qed

lemma fractal_offset_nz:
  "fractal_offset c0 16 (Suc 0, r16 * c0) (c0, 16 * c0) j i = 
     fractal_offset 16 c0 (c0, 16 * c0) (Suc 0, r16 * c0) i j"
  by (simp add: fractal_offset_def)

lemma zn_position_bij:
  assumes c0: "0 < c0"
  shows "bij_betw (\<lambda>(i, j). zn_position r16 c0 i j) ({..<r16} \<times> {..<n * c0}) {..<r16 * (n * c0)}"
proof (rule bij_betw_byWitness [where
      f' = "\<lambda>t. (t div c0 mod r16, t div c0 div r16 * c0 + t mod c0)"])
  let ?f = "\<lambda>(i, j). zn_position r16 c0 i j"
  show "\<forall>a \<in> {..<r16} \<times> {..<n * c0}.
      (?f a div c0 mod r16, ?f a div c0 div r16 * c0 + ?f a mod c0) = a"
    using c0 by (auto simp: zn_position_def)
  show "\<forall>t \<in> {..<r16 * (n * c0)}.
      ?f (t div c0 mod r16, t div c0 div r16 * c0 + t mod c0) = t"
    using c0 by (auto simp: zn_position_def)
  show "?f ` ({..<r16} \<times> {..<n * c0}) \<subseteq> {..<r16 * (n * c0)}"
  proof clarsimp
    fix i j assume i: "i < r16" and j: "j < n * c0"
    have "j div c0 < n" using j by (simp add: less_mult_imp_div_less)
    then have "Suc (j div c0) * r16 \<le> n * r16" by (intro mult_le_mono1) simp
    then have "Suc (j div c0 * r16 + i) \<le> n * r16" using i by simp
    then have "Suc (j div c0 * r16 + i) * c0 \<le> n * r16 * c0" by (intro mult_le_mono1)
    then show "zn_position r16 c0 i j < r16 * (n * c0)"
      using mod_less_divisor [OF c0, of j] by (simp add: zn_position_def mult_ac)
  qed
  show "(\<lambda>t. (t div c0 mod r16, t div c0 div r16 * c0 + t mod c0)) ` {..<r16 * (n * c0)}
      \<subseteq> {..<r16} \<times> {..<n * c0}"
  proof clarsimp
    fix t assume t: "t < r16 * (n * c0)"
    then have r: "0 < r16" by (auto intro: Nat.gr0I)
    have "t div c0 < n * r16" using t by (intro less_mult_imp_div_less) (simp add: mult_ac)
    then have "t div c0 div r16 < n" by (rule less_mult_imp_div_less)
    then have "Suc (t div c0 div r16) * c0 \<le> n * c0" by (intro mult_le_mono1) simp
    then show "t div c0 mod r16 < r16 \<and> t div c0 div r16 * c0 + t mod c0 < n * c0"
      using mod_less_divisor [OF c0, of t] r by simp
  qed
qed

lemma make_zn_layout_transform:
  assumes "bits dvd 32"
  shows "\<exists>L. make_zn_layout (ds @ [rows, cols]) bits = Inr L \<and> tl_tag L = kzN \<and>
    (\<forall>pre i j. tl_transform L (pre @ [i, j]) =
       Inr (pre @ [zn_position (round_up rows 16) (ele_num_per_c0 bits) i j]))"
  using fractal_sizes [OF assms]
  by (simp add: make_zn_layout_def fractal_offset_zn C0_NUM_PER_FRACTAL_def Let_def)

lemma make_nz_layout_transform:
  assumes "bits dvd 32"
  shows "\<exists>L. make_nz_layout (ds @ [rows, cols]) bits = Inr L \<and> tl_tag L = knZ \<and>
    (\<forall>pre i j. tl_transform L (pre @ [i, j]) =
       Inr (pre @ [zn_position (round_up cols 16) (ele_num_per_c0 bits) j i]))"
  using fractal_sizes [OF assms]
  by (simp add: make_nz_layout_def fractal_offset_nz fractal_offset_zn BYTE_PER_FRACTAL_def
      BYTE_PER_C0_def C0_NUM_PER_FRACTAL_def Let_def)


section \<open>Offsets of the matrix loads\<close>

lemma inj_offset:
  assumes "bij_betw (case_prod f) D ({..<r} \<times> {..<c :: nat})" and "c \<le> stride"
  shows "inj_on (\<lambda>(t, l). case f t l of (a, b) \<Rightarrow> a * stride + b) D"
proof -
  have inj: "inj_on (\<lambda>(a, b). a * stride + b) ({..<r} \<times> {..<c})"
  proof (rule inj_onI, clarsimp)
    fix a b a' b' :: nat
    assume "b < c" "b' < c" and eq: "a * stride + b = a' * stride + b'"
    then have b: "b < stride" "b' < stride" using assms(2) by simp_all
    have "(a * stride + b) div stride = a" "(a' * stride + b') div stride = a'"
      using b by simp_all
    then show "a = a' \<and> b = b'" using eq by simp
  qed
  have "inj_on ((\<lambda>(a, b). a * stride + b) \<circ> case_prod f) D"
    using assms(1) inj by (intro comp_inj_on) (auto simp: bij_betw_def)
  then show ?thesis by (simp add: comp_def case_prod_beta')
qed

lemmas ldmatrix_bij =
  fragment_bijI [OF ldmatrix_16_ok] fragment_bijI [OF ldmatrix_trans_16_ok]
  fragment_bijI [OF ldmatrix_8a_ok] fragment_bijI [OF ldmatrix_8b_ok]

lemmas ldmatrix_inj = ldmatrix_bij [THEN inj_offset]


section \<open>Properties\<close>

text \<open>
  C20: The tensor core fragments tile their shared memory tiles exactly: each of the six maps
  from a tile to the thread and register that hold an element is a bijection onto the
  threads of a warp and their registers, and the map of the stores from the fragment back is a
  bijection onto the 16x16 tile.
\<close>

theorem mma_fragments_bijective:
  "bij_betw (case_prod shared_16x16_to_mma_32x8_layout_sr) ({..<16} \<times> {..<16}) ({..<32} \<times> {..<8}) \<and>
   bij_betw (case_prod shared_16x16_to_mma_32x8_layout_rs) ({..<16} \<times> {..<16}) ({..<32} \<times> {..<8}) \<and>
   bij_betw (case_prod shared_16x32_to_mma_32x16_layout) ({..<16} \<times> {..<32}) ({..<32} \<times> {..<16}) \<and>
   bij_betw (case_prod shared_32x16_to_mma_32x16_layout) ({..<32} \<times> {..<16}) ({..<32} \<times> {..<16}) \<and>
   bij_betw (case_prod shared_16x16_to_mma_32x8_smoothlayout) ({..<16} \<times> {..<16}) ({..<32} \<times> {..<8}) \<and>
   bij_betw (case_prod shared_16x32_to_mma_32x16_smoothlayout) ({..<16} \<times> {..<32}) ({..<32} \<times> {..<16}) \<and>
   bij_betw (case_prod mma_store_index_map) ({..<32} \<times> {..<8}) ({..<16} \<times> {..<16})"
proof (intro conjI)
  show "bij_betw (case_prod shared_16x16_to_mma_32x8_layout_rs) ({..<16} \<times> {..<16}) ({..<32} \<times> {..<8})"
  proof -
    have "bij_betw (case_prod shared_16x16_to_mma_32x8_layout_sr \<circ> prod.swap)
        ({..<16} \<times> {..<16}) ({..<32} \<times> {..<8})"
      by (rule bij_betw_trans [OF _ mma16.fragment_bij]) (simp add: bij_betw_def product_swap)
    moreover have "case_prod shared_16x16_to_mma_32x8_layout_sr \<circ> prod.swap =
        case_prod shared_16x16_to_mma_32x8_layout_rs"
      by (auto simp: fun_eq_iff shared_16x16_to_mma_32x8_layout_sr_def
          shared_16x16_to_mma_32x8_layout_rs_def)
    ultimately show ?thesis by simp
  qed
  have store: "mma_store_index_map t l = mma_32x8_to_shared_16x16_layout t l" for t l
    by (simp add: mma_store_index_map_def mma_store_32x8_to_shared_16x16_layout_def
        mma_32x8_to_shared_16x16_layout_def)
  show "bij_betw (case_prod mma_store_index_map) ({..<32} \<times> {..<8}) ({..<16} \<times> {..<16})"
    unfolding store by (rule mma16.fragment_bij_back)
qed (rule mma16.fragment_bij fragment_bijI [OF mma_32x16_ok] fragment_bijI [OF mma_32x16_trans_ok]
    fragment_bijI [OF smooth_16_ok] fragment_bijI [OF smooth_32_ok])+

text \<open>
  The matrix core fragments: each forward map of the MFMA layouts and its access map
  are bijections between the tile and the 64 lanes with their registers, and the access
  map inverts the forward map. The 8-register layout called \<^verbatim>\<open>16x32 ... B\<close> covers a tile
  of 32 rows and 16 columns.
\<close>

theorem mfma_fragments_inverse:
  "(\<forall>i < 16. \<forall>j < 4. case_prod thread_id_shared_access_64x1_to_16x4_layout_A
      (shared_16x4_to_local_64x1_layout_A i j) = (i, j)) \<and>
   (\<forall>i < 4. \<forall>j < 16. case_prod thread_id_shared_access_64x1_to_4x16_layout_B
      (shared_4x16_to_local_64x1_layout_B i j) = (i, j)) \<and>
   (\<forall>t < 64. \<forall>l < 4. case_prod shared_16x16_to_local_64x4_layout_A
      (thread_id_shared_access_64x4_to_16x16_layout_A t l) = (t, l)) \<and>
   (\<forall>t < 64. \<forall>l < 4. case_prod shared_16x16_to_local_64x4_layout_B
      (thread_id_shared_access_64x4_to_16x16_layout_B t l) = (t, l)) \<and>
   (\<forall>t < 64. \<forall>l < 4. case_prod shared_16x16_to_local_64x4_layout_C
      (thread_id_shared_access_64x4_to_16x16_layout_C_m_n t l) = (t, l)) \<and>
   bij_betw (case_prod shared_16x32_to_local_64x8_layout_A) ({..<16} \<times> {..<32}) ({..<64} \<times> {..<8}) \<and>
   bij_betw (case_prod shared_16x32_to_local_64x8_layout_B) ({..<32} \<times> {..<16}) ({..<64} \<times> {..<8}) \<and>
   bij_betw (case_prod mfma_store_index_map) ({..<64} \<times> {..<4}) ({..<16} \<times> {..<16})"
proof (intro conjI)
  have store: "case_prod mfma_store_index_map =
      prod.swap \<circ> case_prod thread_id_shared_access_64x4_to_16x16_layout_C_m_n"
    by (auto simp: fun_eq_iff mfma_store_index_map_def
        thread_id_shared_access_64x4_to_16x16_layout_C_n_m_def
        thread_id_shared_access_64x4_to_16x16_layout_C_m_n_def)
  show "bij_betw (case_prod mfma_store_index_map) ({..<64} \<times> {..<4}) ({..<16} \<times> {..<16})"
    unfolding store by (rule bij_betw_trans [OF mfma_c4.fragment_bij_back])
      (simp add: bij_betw_def product_swap)
qed (use mfma_a1.bwd_fwd mfma_b1.bwd_fwd mfma_a4.fwd_bwd mfma_b4.fwd_bwd mfma_c4.fwd_bwd
    mfma_a8.fragment_bij mfma_b8.fragment_bij in blast)+

theorem mfma_fragments_inverse_witness:
  "case_prod thread_id_shared_access_64x1_to_16x4_layout_A
      (shared_16x4_to_local_64x1_layout_A 13 3) = (13, 3) \<and>
   case_prod shared_16x16_to_local_64x4_layout_A
      (thread_id_shared_access_64x4_to_16x16_layout_A 61 2) = (61, 2)"
  using mfma_fragments_inverse by simp

text \<open>
  The loads of a matrix fragment hit distinct addresses: for 16-bit elements (either
  operand, transposed or not) and for the two supported 8-bit cases the offset is defined
  for every thread and element and, once the stride is at least the width of the tile,
  injective; the other 8-bit cases, and other widths, are rejected with an error.
\<close>

theorem ldmatrix_offsets_distinct:
  "(\<forall>m \<in> {''A'', ''B''}. \<forall>tr. \<forall>stride \<ge> 16. \<exists>off.
      (\<forall>t l. get_ldmatrix_offset m t l stride 16 tr = Inr (off (t, l))) \<and>
      inj_on off ({..<32} \<times> {..<8})) \<and>
   (\<forall>(m, tr) \<in> {(''A'', False), (''B'', True)}. \<forall>stride \<ge> 32. \<exists>off.
      (\<forall>t l. get_ldmatrix_offset m t l stride 8 tr = Inr (off (t, l))) \<and>
      inj_on off ({..<32} \<times> {..<16})) \<and>
   (\<forall>(m, tr) \<in> {(''A'', True), (''B'', False)}. \<forall>t l stride.
      get_ldmatrix_offset m t l stride 8 tr = Inl ValueError) \<and>
   (\<forall>m \<in> {''A'', ''B''}. \<forall>t l stride bits tr. bits \<notin> {8, 16} \<longrightarrow>
      get_ldmatrix_offset m t l stride bits tr = Inl ValueError)"
proof (intro conjI)
  show "\<forall>m \<in> {''A'', ''B''}. \<forall>tr. \<forall>stride \<ge> 16. \<exists>off.
      (\<forall>t l. get_ldmatrix_offset m t l stride 16 tr = Inr (off (t, l))) \<and>
      inj_on off ({..<32} \<times> {..<8})"
  proof (intro ballI allI impI)
    fix m tr and stride :: nat assume "m \<in> {''A'', ''B''}" "16 \<le> stride"
    then show "\<exists>off. (\<forall>t l. get_ldmatrix_offset m t l stride 16 tr = Inr (off (t, l))) \<and>
        inj_on off ({..<32} \<times> {..<8})"
      using ldmatrix_inj(1,2) by (cases tr) (force simp: get_ldmatrix_offset_def Let_def)+
  qed
  show "\<forall>(m, tr) \<in> {(''A'', False), (''B'', True)}. \<forall>stride \<ge> 32. \<exists>off.
      (\<forall>t l. get_ldmatrix_offset m t l stride 8 tr = Inr (off (t, l))) \<and>
      inj_on off ({..<32} \<times> {..<16})"
  proof (clarify)
    fix m tr and stride :: nat
    assume "(m, tr) \<in> {(''A'', False), (''B'', True)}" "32 \<le> stride"
    then show "\<exists>off. (\<forall>t l. get_ldmatrix_offset m t l stride 8 tr = Inr (off (t, l))) \<and>
        inj_on off ({..<32} \<times> {..<16})"
      using ldmatrix_inj(3,4) by (force simp: get_ldmatrix_offset_def Let_def)
  qed
qed (auto simp: get_ldmatrix_offset_def)

theorem ldmatrix_offsets_distinct_witness:
  "(\<exists>off. (\<forall>t l. get_ldmatrix_offset ''B'' t l 64 16 True = Inr (off (t, l))) \<and>
      inj_on off ({..<32} \<times> {..<8})) \<and>
   get_ldmatrix_offset ''A'' 3 5 64 32 False = Inl ValueError"
  using ldmatrix_offsets_distinct by simp

text \<open>
  C5: the zN layout of a tile places the elements of the tile, padded to whole fractals,
  without overlap and without a gap: for every element width that divides 32 bits the
  transform never fails, keeps the leading indices, and is a bijection from the padded tile
  onto the positions of the buffer.
\<close>

theorem zn_layout_bijective:
  assumes "bits dvd 32"
  shows "\<exists>L off. make_zn_layout (ds @ [rows, cols]) bits = Inr L \<and> tl_tag L = kzN \<and>
    (\<forall>pre i j. tl_transform L (pre @ [i, j]) = Inr (pre @ [off (i, j)])) \<and>
    rows \<le> round_up rows 16 \<and> cols \<le> round_up cols (ele_num_per_c0 bits) \<and>
    bij_betw off ({..<round_up rows 16} \<times> {..<round_up cols (ele_num_per_c0 bits)})
      {..<round_up rows 16 * round_up cols (ele_num_per_c0 bits)}"
proof -
  define c0 where "c0 = ele_num_per_c0 bits"
  have pos: "0 < c0" using fractal_sizes [OF assms] by (simp add: c0_def)
  obtain L where L: "make_zn_layout (ds @ [rows, cols]) bits = Inr L" "tl_tag L = kzN"
    "\<And>pre i j. tl_transform L (pre @ [i, j]) =
       Inr (pre @ [zn_position (round_up rows 16) c0 i j])"
    using make_zn_layout_transform [OF assms] unfolding c0_def by blast
  have "bij_betw (\<lambda>(i, j). zn_position (round_up rows 16) c0 i j)
      ({..<round_up rows 16} \<times> {..<round_up cols c0}) {..<round_up rows 16 * round_up cols c0}"
    unfolding round_up_def [of cols] by (rule zn_position_bij [OF pos])
  then show ?thesis unfolding c0_def [symmetric] using L round_up_ge pos
    by (intro exI [of _ L] exI [of _ "\<lambda>(i, j). zn_position (round_up rows 16) c0 i j"]) simp
qed

theorem zn_layout_bijective_witness:
  "\<exists>L off. make_zn_layout [2, 40, 20] 16 = Inr L \<and> tl_tag L = kzN \<and>
    (\<forall>pre i j. tl_transform L (pre @ [i, j]) = Inr (pre @ [off (i, j)])) \<and>
    40 \<le> round_up 40 16 \<and> 20 \<le> round_up 20 (ele_num_per_c0 16) \<and>
    bij_betw off ({..<round_up 40 16} \<times> {..<round_up 20 (ele_num_per_c0 16)})
      {..<round_up 40 16 * round_up 20 (ele_num_per_c0 16)}"
  using zn_layout_bijective [of 16 "[2]" 40 20] by simp

text \<open>
  The nZ layout of a tile is the zN layout of the transposed tile.
\<close>

theorem nz_layout_transposes_zn:
  assumes "bits dvd 32"
  shows "\<exists>L L'. make_nz_layout (ds @ [rows, cols]) bits = Inr L \<and>
    make_zn_layout (ds @ [cols, rows]) bits = Inr L' \<and> tl_tag L = knZ \<and> tl_tag L' = kzN \<and>
    (\<forall>pre i j. tl_transform L (pre @ [i, j]) = tl_transform L' (pre @ [j, i]))"
  using make_zn_layout_transform [OF assms, of ds cols rows]
    make_nz_layout_transform [OF assms, of ds rows cols] by fastforce

theorem nz_layout_transposes_zn_witness:
  "\<exists>L L'. make_nz_layout [64, 32] 8 = Inr L \<and> make_zn_layout [32, 64] 8 = Inr L' \<and>
    tl_tag L = knZ \<and> tl_tag L' = kzN \<and>
    (\<forall>pre i j. tl_transform L (pre @ [i, j]) = tl_transform L' (pre @ [j, i]))"
  using nz_layout_transposes_zn [of 8 "[]" 64 32] by simp

text \<open>
  Elements wider than 32 bits have no fractal layout: \<^verbatim>\<open>BYTE_PER_C0 // bits * 8\<close> is
  zero, the layout object is built, and every use of its transform divides by zero.
\<close>

theorem zn_layout_wide_elements:
  assumes "32 < bits"
  shows "\<exists>L. make_zn_layout (ds @ [rows, cols]) bits = Inr L \<and>
    (\<forall>pre i j. tl_transform L (pre @ [i, j]) = Inl ZeroDivisionError)"
proof -
  have "ele_num_per_c0 bits = 0" using assms by (simp add: ele_num_per_c0_def BYTE_PER_C0_def)
  then show ?thesis using assms by (simp add: make_zn_layout_def Let_def)
qed

theorem zn_layout_wide_elements_witness:
  "\<exists>L. make_zn_layout [16, 16] 64 = Inr L \<and>
    (\<forall>pre i j. tl_transform L (pre @ [i, j]) = Inl ZeroDivisionError)"
  using zn_layout_wide_elements [of 64 "[]" 16 16] by simp

text \<open>
  The swizzled shared memory layout permutes every row: for a row of 64 bytes or of a
  positive multiple of 128 bytes, each index keeps its leading indices and its row, its
  column moves to a column of the same row, and applying the layout again moves it back.
\<close>

theorem mma_swizzle_permutes_rows:
  assumes "bits dvd 128" and "0 < row_size"
    and "bits * row_size = 512 \<or> 1024 dvd bits * row_size"
  shows "\<exists>f. make_mma_swizzle_layout (ds @ [rows, row_size]) bits False = Inr f \<and>
    (\<forall>pre i j. j < row_size \<longrightarrow>
      (\<exists>j' < row_size. f (pre @ [i, j]) = Inr (pre @ [i, j']) \<and>
                       f (pre @ [i, j']) = Inr (pre @ [i, j])))"
proof -
  have can: "row_size * bits mod 512 = 0"
    using assms(3) by (auto simp: mult.commute elim!: dvdE)
  have swz: "\<exists>j' < row_size. get_swizzle_layout i j row_size bits None = Inr (i, j') \<and>
           get_swizzle_layout i j' row_size bits None = Inr (i, j)" if j: "j < row_size" for i j
    using assms(3)
  proof
    assume "bits * row_size = 512"
    then show ?thesis using assms(1) j by (intro swizzle_involution [of _ _ 1 2]) simp_all
  next
    assume "1024 dvd bits * row_size"
    then obtain w where w: "bits * row_size = 1024 * w" by (rule dvdE)
    moreover have "0 < w" using w assms(1,2) by (auto intro: Nat.gr0I)
    ultimately show ?thesis
      using assms(1) j by (intro swizzle_involution [of _ _ w 3]) simp_all
  qed
  define f where "f = (\<lambda>args. rbind (last_two args) (\<lambda>(pre, i, j).
    rbind (get_swizzle_layout i j row_size bits None) (\<lambda>(new_i, new_j). Inr (pre @ [new_i, new_j]))))"
  have "make_mma_swizzle_layout (ds @ [rows, row_size]) bits False = Inr f"
    using can by (simp add: make_mma_swizzle_layout_def f_def)
  moreover have "\<exists>j' < row_size. f (pre @ [i, j]) = Inr (pre @ [i, j']) \<and>
      f (pre @ [i, j']) = Inr (pre @ [i, j])" if "j < row_size" for pre i j
    using swz [OF that, of i] by (auto simp: f_def)
  ultimately show ?thesis by blast
qed

theorem mma_swizzle_permutes_rows_witness:
  "\<exists>f. make_mma_swizzle_layout [128, 64] 16 False = Inr f \<and>
    (\<forall>pre i j. j < 64 \<longrightarrow>
      (\<exists>j' < 64. f (pre @ [i, j]) = Inr (pre @ [i, j']) \<and>
                 f (pre @ [i, j']) = Inr (pre @ [i, j])))"
  using mma_swizzle_permutes_rows [of 16 64 "[]" 128] by simp

text \<open>
  The test for swizzling accepts every row of a multiple of 64 bytes, which is too
  weak: in a tile of 16 rows of 96 half-precision elements (192 bytes) the layout moves
  element (4, 88) to column 120, outside the row.
\<close>

theorem mma_swizzle_leaves_row:
  "rbind (make_mma_swizzle_layout [16, 96] 16 False) (\<lambda>f. f [4, 88]) = Inr [4, 120]"
  by code_simp


text \<open>
  C36: \<open>index_to_coordinates\<close> inverts the row-major numbering of a shape: for a shape
  without a zero extent it returns, for every index, coordinates inside the shape whose
  row-major position is the index modulo the number of elements, and it returns exactly
  the coordinates a position was computed from.
\<close>

theorem index_to_coordinates_row_major:
  assumes "0 \<notin> set shape"
  shows "(\<exists>cs. index_to_coordinates index shape = Inr cs \<and> list_all2 (<) cs shape \<and>
      row_major shape cs = index mod prod_list shape) \<and>
    (\<forall>cs. list_all2 (<) cs shape \<longrightarrow> index_to_coordinates (row_major shape cs) shape = Inr cs)"
  using row_major_of_coordinates [OF assms] coordinates_of_row_major by blast

theorem index_to_coordinates_row_major_witness:
  "(\<exists>cs. index_to_coordinates 37 [2, 3, 4] = Inr cs \<and> list_all2 (<) cs [2, 3, 4] \<and>
      row_major [2, 3, 4] cs = 37 mod prod_list [2, 3, 4]) \<and>
    index_to_coordinates (row_major [2, 3, 4] [1, 2, 0]) [2, 3, 4] = Inr [1, 2, 0]"
proof -
  have "list_all2 (<) [1, 2, 0 :: nat] [2, 3, 4]" by simp
  then show ?thesis using index_to_coordinates_row_major [of "[2, 3, 4]" 37] 
    by (metis (no_types, lifting) list.set(1) list.simps(15) insert_iff empty_iff zero_neq_numeral)
qed

text \<open>
  With a phase count that is a power of two dividing the vectors of a row, the MFMA
  swizzle exchanges whole vectors inside their row and undoes itself.
\<close>

theorem mfma_swizzle_permutes_rows:
  assumes "0 < bits" and "0 < vecSize" and "inner = w * 2 ^ k * vecSize" and "0 < w"
    and "min (16 div max 1 (1024 div bits div inner)) (inner div vecSize) = 2 ^ k"
  shows "\<exists>f. make_mfma_swizzle_layout (ds @ [inner]) bits vecSize = Inr f \<and>
    (\<forall>row col. col < inner \<longrightarrow>
      (\<exists>col' < inner. f row col = Inr (row, col') \<and> f row col' = Inr (row, col)))"
proof -
  let ?per = "max 1 (1024 div bits div inner)"
  define f where "f = (\<lambda>row col. Inr (row,
    (col div vecSize XOR (row div ?per mod 2 ^ k)) * vecSize + col mod vecSize) :: (nat \<times> nat) res)"
  have "0 < inner" using assms(2-4) by simp
  then have "make_mfma_swizzle_layout (ds @ [inner]) bits vecSize = Inr f"
    using assms(1,2,5) by (simp add: make_mfma_swizzle_layout_def f_def py_nth_last)
  moreover have "\<exists>col' < inner. f row col = Inr (row, col') \<and> f row col' = Inr (row, col)"
    if "col < inner" for row col
    using group_xor [OF assms(2) that [unfolded assms(3)], of "row div ?per mod 2 ^ k"]
    unfolding assms(3) [symmetric] by (simp add: f_def)
  ultimately show ?thesis by blast
qed

theorem mfma_swizzle_permutes_rows_witness:
  "\<exists>f. make_mfma_swizzle_layout [64, 32] 16 8 = Inr f \<and>
    (\<forall>row col. col < 32 \<longrightarrow>
      (\<exists>col' < 32. f row col = Inr (row, col') \<and> f row col' = Inr (row, col)))"
proof -
  have "min (16 div max 1 (1024 div 16 div 32)) (32 div 8) = (2 :: nat) ^ 2" by code_simp
  then show ?thesis using mfma_swizzle_permutes_rows [of 16 8 32 1 2 "[64]"] by simp
qed


end
