(* ===== verification/TileRegion.thy ===== *)
theory TileRegion
  imports Prelude
begin

text \<open>
  The operands of tile operations and how they become region descriptors:
  \<^verbatim>\<open>language/copy.py\<close>, \<^verbatim>\<open>language/allocate.py\<close>, the let frames of \<^verbatim>\<open>language/frame.py\<close>, and
  the helpers at the head of \<^verbatim>\<open>language/customize_npuir.py\<close>.

  TVM's objects appear as the data the sources read of them: a buffer is its name, element
  type, shape and scope; a primitive expression is one of the classes the sources test for
  with \<^verbatim>\<open>isinstance\<close>, or some other expression; a call is its operator and its arguments.
  Python integers that reach TVM as extents or indices become \<^verbatim>\<open>int32\<close> constants.
\<close>

section \<open>Expressions, buffers and operands\<close>

text \<open>
  Floating constants are kept symbolic where the source computes them with \<^verbatim>\<open>math.log\<close>.
\<close>

datatype float_val = Flit rat | Fln2 | Finv_ln2

datatype expr =
    IntImm string int
  | FloatImm string float_val
  | EVar string string
  | Ramp expr expr nat
  | ELoad buf "expr list"
  | EOther string string nat
and buf = Buffer (buf_name: string) (buf_dtype: string) (buf_shape: "expr list") (buf_scope: string)

text \<open>What a user passes to a tile operation.\<close>

datatype data =
    DBuffer buf
  | DRegion buf "(expr \<times> expr) list"
  | DExpr expr
  | DInt int
  | DFloat float_val

abbreviation int32 :: "int \<Rightarrow> expr" where
  "int32 n \<equiv> IntImm ''int32'' n"

text \<open>Arguments of an intrinsic call, and the call.\<close>

datatype arg =
    ARegion buf "expr list" nat "expr list"
  | AData data
  | AExpr expr
  | AStr string
  | ABool bool
  | AInt int

datatype call = Call (call_op: string) (call_args: "arg list")

text \<open>The class of an operand's variable, if it is one.\<close>

definition is_var :: "data \<Rightarrow> bool" where
  "is_var d = (case d of DExpr (EVar _ _) \<Rightarrow> True | _ \<Rightarrow> False)"

definition is_prim_expr :: "data \<Rightarrow> bool" where
  "is_prim_expr d = (case d of DExpr _ \<Rightarrow> True | _ \<Rightarrow> False)"

text \<open>The buffer an operand reads or writes: the attribute \<^verbatim>\<open>data.buffer\<close>.\<close>

definition data_buffer :: "data \<Rightarrow> buf res" where
  "data_buffer d =
     (case d of DRegion b _ \<Rightarrow> Inr b | DExpr (ELoad b _) \<Rightarrow> Inr b | _ \<Rightarrow> Inl AttributeError)"

section \<open>Let frames\<close>

text \<open>
  The stack of active let frames and the map from their variables to their values. A frame
  carries its identity. Variables are compared by name, which is their identity here.
\<close>

record let_frame =
  lf_id :: nat
  lf_var :: string
  lf_value :: data

record let_stack =
  ls_stack :: "let_frame list"
  ls_map :: "string \<rightharpoonup> data"

definition let_stack_init :: let_stack where
  "let_stack_init = \<lparr>ls_stack = [], ls_map = Map.empty\<rparr>"

definition ls_push :: "let_frame \<Rightarrow> let_stack \<Rightarrow> let_stack" where
  "ls_push item s =
     s\<lparr>ls_stack := ls_stack s @ [item], ls_map := (ls_map s)(lf_var item \<mapsto> lf_value item)\<rparr>"

definition ls_pop :: "let_stack \<Rightarrow> (let_frame \<times> let_stack) res" where
  "ls_pop s =
     (if ls_stack s \<noteq> []
      then let item = last (ls_stack s)
           in Inr (item, s\<lparr>ls_stack := butlast (ls_stack s), ls_map := (ls_map s)(lf_var item := None)\<rparr>)
      else Inl IndexError)"

definition ls_top :: "let_stack \<Rightarrow> let_frame res" where
  "ls_top s = (if ls_stack s \<noteq> [] then Inr (last (ls_stack s)) else Inl IndexError)"

definition get_let_value :: "let_stack \<Rightarrow> string \<Rightarrow> data option" where
  "get_let_value s v = ls_map s v"

definition has_let_value :: "let_stack \<Rightarrow> string \<Rightarrow> bool" where
  "has_let_value s v = (ls_map s v \<noteq> None)"

fun expr_lanes :: "expr \<Rightarrow> nat" where
  "expr_lanes (Ramp _ _ n) = n"
| "expr_lanes (EOther _ _ n) = n"
| "expr_lanes _ = 1"

definition ramp_range :: "expr \<Rightarrow> (expr \<times> expr) res" where
  "ramp_range x = (case x of Ramp b _ n \<Rightarrow> Inr (b, int32 (int n)) | _ \<Rightarrow> Inl AttributeError)"

text \<open>A block load is rewritten to the region it covers when the frame is entered.\<close>

definition let_enter :: "let_frame \<Rightarrow> let_stack \<Rightarrow> (string \<times> let_stack) res" where
  "let_enter f s =
     rbind
       (case lf_value f of
          DExpr (ELoad b indices) \<Rightarrow>
            if list_ex (\<lambda>i. 1 < expr_lanes i) (butlast indices)
            then rbind (rmap ramp_range indices) (\<lambda>rs. Inr (f\<lparr>lf_value := DRegion b rs\<rparr>))
            else Inr f
        | _ \<Rightarrow> Inr f)
       (\<lambda>f'. Inr (lf_var f', ls_push f' s))"

definition let_exit :: "nat \<Rightarrow> let_stack \<Rightarrow> let_stack res" where
  "let_exit fid s =
     rbind (ls_top s) (\<lambda>f. if lf_id f = fid then rbind (ls_pop s) (\<lambda>(_, s'). Inr s') else Inr s)"

section \<open>Region descriptors\<close>

definition access_code :: "string \<Rightarrow> nat res" where
  "access_code access_type =
     (if access_type = ''r'' then Inr 1
      else if access_type = ''w'' then Inr 2
      else if access_type = ''rw'' then Inr 3
      else Inl KeyError)"

definition region :: "buf \<Rightarrow> expr list \<Rightarrow> string \<Rightarrow> expr list \<Rightarrow> arg res" where
  "region buffer indices access_type args =
     rbind (access_code access_type) (\<lambda>code. Inr (ARegion buffer indices code args))"

definition buffer_to_tile_region :: "buf \<Rightarrow> string \<Rightarrow> arg res" where
  "buffer_to_tile_region buffer access_type =
     region buffer (map (\<lambda>_. int32 0) (buf_shape buffer)) access_type (buf_shape buffer)"

definition index_head :: "expr \<Rightarrow> expr" where
  "index_head idx = (case idx of Ramp base _ _ \<Rightarrow> base | _ \<Rightarrow> idx)"

definition buffer_load_to_tile_region ::
  "buf \<Rightarrow> expr list \<Rightarrow> string \<Rightarrow> expr list \<Rightarrow> arg res" where
  "buffer_load_to_tile_region buffer indices access_type extents0 =
     (let extents = (if length indices > length extents0
                     then replicate (length indices - length extents0) (int32 1) @ extents0
                     else extents0)
      in rbind (guard AssertionError (length indices = length extents)) (\<lambda>_.
           region buffer (map index_head indices) access_type extents))"

definition buffer_region_to_tile_region ::
  "buf \<Rightarrow> (expr \<times> expr) list \<Rightarrow> string \<Rightarrow> expr list \<Rightarrow> arg res" where
  "buffer_region_to_tile_region buffer ranges access_type extents =
     rbind (guard AssertionError (length extents \<le> length ranges)) (\<lambda>_.
       region buffer (map fst ranges) access_type (map snd ranges))"

section \<open>Copies between memory levels\<close>

text \<open>The resolution of a let-bound variable that opens every helper.\<close>

definition resolve_let :: "let_stack \<Rightarrow> data \<Rightarrow> data" where
  "resolve_let ls d =
     (case d of
        DExpr (EVar v _) \<Rightarrow> (case get_let_value ls v of Some d' \<Rightarrow> d' | None \<Rightarrow> d)
      | _ \<Rightarrow> d)"

definition copy_get_extent :: "let_stack \<Rightarrow> data \<Rightarrow> expr list option" where
  "copy_get_extent ls d0 =
     (case resolve_let ls d0 of
        DBuffer b \<Rightarrow> Some (buf_shape b)
      | DRegion b r \<Rightarrow> Some (map snd r)
      | _ \<Rightarrow> None)"

definition is_slice :: "let_stack \<Rightarrow> data \<Rightarrow> bool" where
  "is_slice ls d = (case resolve_let ls d of DRegion _ _ \<Rightarrow> True | _ \<Rightarrow> False)"

definition borrowed_extent :: "expr list option \<Rightarrow> data \<Rightarrow> expr list option \<Rightarrow> expr list res" where
  "borrowed_extent explicit d peer_extent =
     (case explicit of
        Some sz \<Rightarrow> Inr sz
      | None \<Rightarrow>
          (case d of
             DBuffer b \<Rightarrow> Inr (buf_shape b)
           | DRegion b r \<Rightarrow> Inr (map snd r)
           | _ \<Rightarrow> (case peer_extent of Some e \<Rightarrow> Inr e | None \<Rightarrow> Inl AssertionError)))"

definition trailing_extent :: "expr list \<Rightarrow> nat \<Rightarrow> expr list" where
  "trailing_extent extent ndim =
     (if ndim \<le> length extent then py_last_n ndim extent else extent)"

definition copy_to_region ::
  "let_stack \<Rightarrow> expr list option \<Rightarrow> data \<Rightarrow> string \<Rightarrow> expr list option \<Rightarrow> bool \<Rightarrow> arg res" where
  "copy_to_region ls explicit d0 access_type peer_extent peer_is_slice =
     (case resolve_let ls d0 of
        DBuffer b \<Rightarrow>
          let ndim = length (buf_shape b); zeros = replicate ndim (int32 0)
          in if explicit = None
             then (case peer_extent of
                     Some pe \<Rightarrow>
                       if peer_is_slice \<and> length pe = ndim
                       then buffer_load_to_tile_region b zeros access_type pe
                       else buffer_to_tile_region b access_type
                   | None \<Rightarrow> buffer_to_tile_region b access_type)
             else rbind (borrowed_extent explicit (DBuffer b) peer_extent) (\<lambda>extent.
                    buffer_load_to_tile_region b zeros access_type (trailing_extent extent ndim))
      | DRegion b r \<Rightarrow> buffer_region_to_tile_region b r access_type (map snd r)
      | d \<Rightarrow>
          rbind (data_buffer d) (\<lambda>b.
            rbind (borrowed_extent explicit d peer_extent) (\<lambda>extent.
              case d of
                DExpr (ELoad _ indices) \<Rightarrow>
                  buffer_load_to_tile_region b indices access_type
                    (trailing_extent extent (length (buf_shape b)))
              | _ \<Rightarrow> Inl AttributeError)))"

text \<open>
  \<^verbatim>\<open>size=None\<close> and an empty size both mean that no size was given.
\<close>

definition explicit_size :: "expr list option \<Rightarrow> expr list option" where
  "explicit_size sz = (case sz of Some (e # es) \<Rightarrow> Some (e # es) | _ \<Rightarrow> None)"

definition copy :: "let_stack \<Rightarrow> data \<Rightarrow> data \<Rightarrow> int option \<Rightarrow> expr list option \<Rightarrow> call res" where
  "copy ls src dst coalesced_width sz =
     (let explicit = explicit_size sz
      in if explicit \<noteq> None \<and> (is_slice ls src \<or> is_slice ls dst) then Inl ValueError
         else
           let src_extent = copy_get_extent ls src; dst_extent = copy_get_extent ls dst
           in rbind (copy_to_region ls explicit src ''r'' dst_extent (is_slice ls dst)) (\<lambda>s.
              rbind (copy_to_region ls explicit dst ''w'' src_extent (is_slice ls src)) (\<lambda>d.
                Inr (Call ''tl.copy''
                  ([s, d] @ (case coalesced_width of Some w \<Rightarrow> [AInt w] | None \<Rightarrow> []))))))"

section \<open>Allocation\<close>

text \<open>
  \<^verbatim>\<open>T.alloc_buffer\<close> returns a new buffer; its name is an argument.
\<close>

definition alloc_buffer :: "string \<Rightarrow> expr list \<Rightarrow> string \<Rightarrow> string \<Rightarrow> buf" where
  "alloc_buffer name shape dtype scope = Buffer name dtype shape scope"

definition alloc_shared :: "string \<Rightarrow> expr list \<Rightarrow> string \<Rightarrow> string \<Rightarrow> buf" where
  "alloc_shared name shape dtype scope0 =
     (let scope = (if dtype = ''bool'' then ''shared'' else scope0)
      in alloc_buffer name shape dtype scope)"

definition alloc_local :: "string \<Rightarrow> expr list \<Rightarrow> string \<Rightarrow> string \<Rightarrow> buf" where
  "alloc_local name shape dtype scope = alloc_buffer name shape dtype scope"

definition alloc_fragment :: "string \<Rightarrow> expr list \<Rightarrow> string \<Rightarrow> string \<Rightarrow> buf" where
  "alloc_fragment name shape dtype scope = alloc_buffer name shape dtype scope"

definition alloc_var :: "string \<Rightarrow> string \<Rightarrow> string \<Rightarrow> buf" where
  "alloc_var name dtype scope = alloc_buffer name [int32 1] dtype scope"

definition alloc_L1 :: "string \<Rightarrow> expr list \<Rightarrow> string \<Rightarrow> buf" where
  "alloc_L1 name shape dtype = alloc_buffer name shape dtype ''shared.dyn''"

definition alloc_L0A :: "string \<Rightarrow> expr list \<Rightarrow> string \<Rightarrow> buf" where
  "alloc_L0A name shape dtype = alloc_buffer name shape dtype ''wmma.matrix_a''"

definition alloc_L0B :: "string \<Rightarrow> expr list \<Rightarrow> string \<Rightarrow> buf" where
  "alloc_L0B name shape dtype = alloc_buffer name shape dtype ''wmma.matrix_b''"

definition alloc_L0C :: "string \<Rightarrow> expr list \<Rightarrow> string \<Rightarrow> buf" where
  "alloc_L0C name shape dtype = alloc_buffer name shape dtype ''wmma.accumulator''"

definition alloc_ub :: "string \<Rightarrow> expr list \<Rightarrow> string \<Rightarrow> buf" where
  "alloc_ub name shape dtype = alloc_buffer name shape dtype ''shared''"

section \<open>The operands of the NPU operations\<close>

definition get_extent_load :: "expr list \<Rightarrow> expr list" where
  "get_extent_load indices =
     concat (map (\<lambda>idx. case idx of
         EVar _ _ \<Rightarrow> [int32 1]
       | IntImm _ _ \<Rightarrow> [int32 1]
       | Ramp _ _ lanes \<Rightarrow> [int32 (int lanes)]
       | _ \<Rightarrow> []) indices)"

definition get_extent :: "let_stack \<Rightarrow> data \<Rightarrow> expr list" where
  "get_extent ls d0 =
     (case resolve_let ls d0 of
        DBuffer b \<Rightarrow> buf_shape b
      | DRegion b r \<Rightarrow> map snd r
      | DExpr (ELoad b indices) \<Rightarrow> get_extent_load indices
      | _ \<Rightarrow> [])"

definition buffer_to_tile_region_with_extent :: "buf \<Rightarrow> string \<Rightarrow> expr list \<Rightarrow> arg res" where
  "buffer_to_tile_region_with_extent buffer access_type extent =
     region buffer (map (\<lambda>_. int32 0) (buf_shape buffer)) access_type extent"

definition to_region :: "let_stack \<Rightarrow> data \<Rightarrow> string \<Rightarrow> expr list \<Rightarrow> arg res" where
  "to_region ls d access_type extent =
     (case d of
        DExpr (EVar v _) \<Rightarrow>
          (case get_let_value ls v of
             Some d' \<Rightarrow> Inr (AData d')
           | None \<Rightarrow> Inl AttributeError)
      | DBuffer b \<Rightarrow> buffer_to_tile_region_with_extent b access_type extent
      | DRegion b r \<Rightarrow>
          buffer_region_to_tile_region b r access_type
            (py_last_n (length (buf_shape b)) extent)
      | DExpr (IntImm t n) \<Rightarrow> Inr (AExpr (IntImm t n))
      | DExpr (FloatImm t x) \<Rightarrow> Inr (AExpr (FloatImm t x))
      | DExpr (ELoad b indices) \<Rightarrow>
          buffer_load_to_tile_region b indices access_type
            (py_last_n (length (buf_shape b)) extent)
      | _ \<Rightarrow> Inl AttributeError)"

definition legalize_dim :: "buf \<Rightarrow> int \<Rightarrow> int" where
  "legalize_dim buffer axis =
     (if axis < 0 then int (length (buf_shape buffer)) + axis else axis)"


section \<open>Well-formed operands and descriptors\<close>

text \<open>
  TVM builds loads and regions with one index or range per dimension of their buffer. A
  descriptor is well formed when it has one index and one extent per dimension.
\<close>

definition wf_data :: "data \<Rightarrow> bool" where
  "wf_data d =
     (case d of
        DRegion b r \<Rightarrow> length r = length (buf_shape b)
      | DExpr (ELoad b indices) \<Rightarrow> length indices = length (buf_shape b)
      | _ \<Rightarrow> True)"

definition wf_lets :: "let_stack \<Rightarrow> bool" where
  "wf_lets ls \<longleftrightarrow> (\<forall>v d. get_let_value ls v = Some d \<longrightarrow> wf_data d)"

definition wf_arg :: "arg \<Rightarrow> bool" where
  "wf_arg a =
     (case a of
        ARegion b mins code extents \<Rightarrow>
          length mins = length (buf_shape b) \<and> length extents = length (buf_shape b) \<and>
          code \<in> {1, 2, 3}
      | _ \<Rightarrow> True)"

definition arg_extents :: "arg \<Rightarrow> expr list" where
  "arg_extents a = (case a of ARegion _ _ _ e \<Rightarrow> e | _ \<Rightarrow> [])"

definition arg_access :: "arg \<Rightarrow> nat" where
  "arg_access a = (case a of ARegion _ _ c _ \<Rightarrow> c | _ \<Rightarrow> 0)"

lemma access_code_simps [simp]:
  "access_code ''r'' = Inr 1" "access_code ''w'' = Inr 2" "access_code ''rw'' = Inr 3"
  by (simp_all add: access_code_def)

lemma access_code_range: "access_code s = Inr c \<Longrightarrow> c \<in> {1, 2, 3}"
  by (auto simp: access_code_def split: if_splits)

lemma region_Inr_iff:
  "region b mins acc ext = Inr a \<longleftrightarrow> (\<exists>c. access_code acc = Inr c \<and> a = ARegion b mins c ext)"
  by (auto simp: region_def rbind_Inr_iff)

lemma length_trailing_extent: "length (trailing_extent e n) \<le> max n (length e)"
  by (simp add: trailing_extent_def py_last_n_def)

lemma buffer_to_tile_region_wf: "buffer_to_tile_region b acc = Inr a \<Longrightarrow> wf_arg a"
  using access_code_range by (fastforce simp: buffer_to_tile_region_def region_Inr_iff wf_arg_def)

lemma buffer_load_to_tile_region_wf:
  "buffer_load_to_tile_region b idx acc ext = Inr a \<Longrightarrow> length idx = length (buf_shape b) \<Longrightarrow> wf_arg a"
  using access_code_range
  by (fastforce simp: buffer_load_to_tile_region_def region_Inr_iff rbind_Inr_iff wf_arg_def
      Let_def split: if_splits)

lemma buffer_region_to_tile_region_wf:
  "buffer_region_to_tile_region b r acc ext = Inr a \<Longrightarrow> length r = length (buf_shape b) \<Longrightarrow> wf_arg a"
  using access_code_range
  by (fastforce simp: buffer_region_to_tile_region_def region_Inr_iff rbind_Inr_iff wf_arg_def)

lemmas tile_region_wf =
  buffer_to_tile_region_wf buffer_load_to_tile_region_wf buffer_region_to_tile_region_wf

lemma resolve_let_wf: "wf_lets ls \<Longrightarrow> wf_data d \<Longrightarrow> wf_data (resolve_let ls d)"
  by (auto simp: resolve_let_def wf_lets_def split: data.splits expr.splits option.splits)

lemma copy_to_region_wf:
  assumes "copy_to_region ls ex d acc pe sl = Inr a" and "wf_lets ls" and "wf_data d"
  shows "wf_arg a"
  using assms(1) resolve_let_wf [OF assms(2,3)]
  by (auto simp: copy_to_region_def Let_def rbind_Inr_iff data_buffer_def wf_data_def
      intro: tile_region_wf split: data.splits option.splits if_splits expr.splits)

lemma tile_region_access:
  "buffer_to_tile_region b acc = Inr a \<Longrightarrow> access_code acc = Inr (arg_access a)"
  "buffer_load_to_tile_region b idx acc ext = Inr a \<Longrightarrow> access_code acc = Inr (arg_access a)"
  "buffer_region_to_tile_region b r acc ext = Inr a \<Longrightarrow> access_code acc = Inr (arg_access a)"
  by (auto simp: buffer_to_tile_region_def buffer_load_to_tile_region_def Let_def
      buffer_region_to_tile_region_def region_Inr_iff rbind_Inr_iff arg_access_def)

lemma copy_to_region_access:
  assumes "copy_to_region ls ex d acc pe sl = Inr a"
  shows "access_code acc = Inr (arg_access a)"
  using assms
  by (auto simp: copy_to_region_def Let_def rbind_Inr_iff data_buffer_def
      intro: tile_region_access split: data.splits option.splits if_splits expr.splits)

lemma copy_Inr:
  assumes "copy ls src dst w sz = Inr c"
  obtains s d where "call_op c = ''tl.copy''"
    "call_args c = [s, d] @ (case w of Some n \<Rightarrow> [AInt n] | None \<Rightarrow> [])"
    "copy_to_region ls (explicit_size sz) src ''r'' (copy_get_extent ls dst) (is_slice ls dst) = Inr s"
    "copy_to_region ls (explicit_size sz) dst ''w'' (copy_get_extent ls src) (is_slice ls src) = Inr d"
  using assms by (auto simp: copy_def Let_def rbind_Inr_iff split: if_splits)

section \<open>Extents of a load\<close>

definition plain_index :: "expr \<Rightarrow> bool" where
  "plain_index i = (case i of EVar _ _ \<Rightarrow> True | IntImm _ _ \<Rightarrow> True | Ramp _ _ _ \<Rightarrow> True | _ \<Rightarrow> False)"

lemma get_extent_load_plain:
  "list_all plain_index idx \<Longrightarrow>
     get_extent_load idx = map (\<lambda>i. int32 (int (expr_lanes i))) idx"
  by (induction idx) (auto simp: get_extent_load_def plain_index_def split: expr.splits)

lemma length_get_extent_load: "length (get_extent_load idx) \<le> length idx"
  by (induction idx) (auto simp: get_extent_load_def split: expr.splits)

lemma py_last_n_length_le: "length (py_last_n n xs) \<le> length xs"
  by (simp add: py_last_n_def)

section \<open>The let stack\<close>

definition let_inv :: "let_stack \<Rightarrow> bool" where
  "let_inv s \<longleftrightarrow> distinct (map lf_var (ls_stack s)) \<and> distinct (map lf_id (ls_stack s)) \<and>
     ls_map s = map_of (map (\<lambda>f. (lf_var f, lf_value f)) (ls_stack s))"

lemma map_of_snoc_fresh:
  "k \<notin> fst ` set xs \<Longrightarrow> map_of (xs @ [(k, v)]) = (map_of xs)(k \<mapsto> v)"
  by (induction xs) (auto simp: fun_upd_twist simp del: map_of_append)

lemma map_of_del_fresh:
  "k \<notin> fst ` set xs \<Longrightarrow> (map_of (xs @ [(k, v)]))(k := None) = map_of xs"
  by (simp add: map_of_snoc_fresh fun_upd_idem map_of_eq_None_iff del: map_of_append)

lemma ls_push_inv:
  assumes "let_inv s" and "lf_var f \<notin> lf_var ` set (ls_stack s)"
    and "lf_id f \<notin> lf_id ` set (ls_stack s)"
  shows "let_inv (ls_push f s)"
proof -
  have "lf_var f \<notin> fst ` set (map (\<lambda>f. (lf_var f, lf_value f)) (ls_stack s))"
    using assms(2) by (auto simp: image_image)
  from map_of_snoc_fresh [OF this, of "lf_value f"] show ?thesis
    using assms by (simp add: let_inv_def ls_push_def del: map_of_append)
qed

lemma ls_pop_push:
  assumes "lf_var f \<notin> dom (ls_map s)"
  shows "ls_pop (ls_push f s) = Inr (f, s)"
  using assms by (simp add: ls_pop_def ls_push_def fun_upd_idem domIff)

lemma ls_pop_inv:
  assumes "let_inv s" and "ls_pop s = Inr (f, s')"
  shows "let_inv s' \<and> ls_stack s = ls_stack s' @ [f]"
proof -
  from assms(2) have ne: "ls_stack s \<noteq> []" and f: "f = last (ls_stack s)"
    and s': "s' = s\<lparr>ls_stack := butlast (ls_stack s), ls_map := (ls_map s)(lf_var f := None)\<rparr>"
    by (auto simp: ls_pop_def Let_def split: if_splits)
  have st: "ls_stack s = ls_stack s' @ [f]" using ne f s' by simp
  have "lf_var f \<notin> fst ` set (map (\<lambda>f. (lf_var f, lf_value f)) (ls_stack s'))"
    using assms(1) unfolding let_inv_def st by (auto simp: image_image)
  from map_of_del_fresh [OF this, of "lf_value f"]
  have "ls_map s' = map_of (map (\<lambda>f. (lf_var f, lf_value f)) (ls_stack s'))"
    using assms(1) unfolding let_inv_def st by (subst s') (simp del: map_of_append)
  then show ?thesis using assms(1) st by (simp add: let_inv_def)
qed

text \<open>States reached by entering frames of new variables and leaving frames in any order.\<close>

inductive let_reachable :: "let_stack \<Rightarrow> bool" where
  let_start: "let_reachable let_stack_init"
| let_entered: "let_reachable s \<Longrightarrow> lf_var f \<notin> lf_var ` set (ls_stack s) \<Longrightarrow>
    lf_id f \<notin> lf_id ` set (ls_stack s) \<Longrightarrow> let_enter f s = Inr (v, s') \<Longrightarrow> let_reachable s'"
| let_left: "let_reachable s \<Longrightarrow> let_exit i s = Inr s' \<Longrightarrow> let_reachable s'"

inductive_cases let_reachableE: "let_reachable s"

lemma let_enter_push:
  assumes "let_enter f s = Inr (v, s')"
  shows "v = lf_var f \<and> (\<exists>d. s' = ls_push (f\<lparr>lf_value := d\<rparr>) s)"
  using assms
  by (auto simp: let_enter_def rbind_Inr_iff split: data.splits expr.splits if_splits)
    (metis let_frame.surjective let_frame.update_convs(3))+

lemma let_reachable_inv: "let_reachable s \<Longrightarrow> let_inv s"
proof (induction rule: let_reachable.induct)
  case let_start
  then show ?case by (simp add: let_inv_def let_stack_init_def)
next
  case (let_entered s f v s')
  then obtain d where "s' = ls_push (f\<lparr>lf_value := d\<rparr>) s" using let_enter_push by blast
  then show ?case using let_entered by (simp add: ls_push_inv)
next
  case (let_left s i s')
  then show ?case
    by (auto simp: let_exit_def rbind_Inr_iff dest: ls_pop_inv split: if_splits prod.splits)
qed


section \<open>Properties\<close>

text \<open>
  Every copy call carries two well-formed region descriptors, one index and one extent
  per dimension of its buffer, the first read-only and the second write-only.
\<close>

theorem copy_descriptors_wf:
  assumes "copy ls src dst w sz = Inr c" and "wf_lets ls" and "wf_data src" and "wf_data dst"
  shows "\<exists>s d rest. call_op c = ''tl.copy'' \<and> call_args c = s # d # rest \<and>
    wf_arg s \<and> wf_arg d \<and> arg_access s = 1 \<and> arg_access d = 2"
proof -
  from assms(1) obtain s d where c: "call_op c = ''tl.copy''"
    "call_args c = [s, d] @ (case w of Some n \<Rightarrow> [AInt n] | None \<Rightarrow> [])"
    and s: "copy_to_region ls (explicit_size sz) src ''r'' (copy_get_extent ls dst) (is_slice ls dst) = Inr s"
    and d: "copy_to_region ls (explicit_size sz) dst ''w'' (copy_get_extent ls src) (is_slice ls src) = Inr d"
    by (rule copy_Inr)
  have "wf_arg s" "wf_arg d"
    using s d assms(2-4) by (auto intro: copy_to_region_wf)
  moreover have "arg_access s = 1" "arg_access d = 2"
    using copy_to_region_access [OF s] copy_to_region_access [OF d] by simp_all
  ultimately show ?thesis using c by auto
qed

theorem copy_descriptors_wf_witness:
  "\<exists>s d rest. call_args (Call ''tl.copy''
      [ARegion (Buffer ''A'' ''float16'' [int32 64, int32 64] ''global'') [EVar ''bx'' ''int32'', int32 0] 1
         [int32 1, int32 16],
       ARegion (Buffer ''U'' ''float16'' [int32 16] ''shared'') [int32 0] 2 [int32 16]]) = s # d # rest \<and>
    wf_arg s \<and> wf_arg d \<and> arg_access s = 1 \<and> arg_access d = 2"
proof -
  let ?A = "Buffer ''A'' ''float16'' [int32 64, int32 64] ''global''"
  let ?U = "Buffer ''U'' ''float16'' [int32 16] ''shared''"
  have c: "copy let_stack_init (DExpr (ELoad ?A [EVar ''bx'' ''int32'', int32 0])) (DBuffer ?U) None None =
      Inr (Call ''tl.copy'' [ARegion ?A [EVar ''bx'' ''int32'', int32 0] 1 [int32 1, int32 16],
        ARegion ?U [int32 0] 2 [int32 16]])"
    by code_simp
  have "wf_lets let_stack_init" by (simp add: wf_lets_def get_let_value_def let_stack_init_def)
  then show ?thesis using copy_descriptors_wf [OF c] by (simp add: wf_data_def)
qed

text \<open>
  Copying a slice to or from a whole buffer of the same rank moves the same number of
  elements along every dimension: the plain buffer borrows the extents of the slice and is
  addressed from its origin.
\<close>

theorem copy_slice_extents_agree:
  assumes "length r = length (buf_shape b)" and "length (buf_shape c) = length r"
  shows "copy ls (DRegion b r) (DBuffer c) None None =
      Inr (Call ''tl.copy'' [ARegion b (map fst r) 1 (map snd r),
        ARegion c (replicate (length r) (int32 0)) 2 (map snd r)]) \<and>
    copy ls (DBuffer c) (DRegion b r) None None =
      Inr (Call ''tl.copy'' [ARegion c (replicate (length r) (int32 0)) 1 (map snd r),
        ARegion b (map fst r) 2 (map snd r)])"
  using assms
  by (simp add: copy_def explicit_size_def is_slice_def resolve_let_def copy_get_extent_def
      copy_to_region_def buffer_region_to_tile_region_def buffer_load_to_tile_region_def
      region_def index_head_def map_replicate_const)

theorem copy_slice_extents_agree_witness:
  "copy let_stack_init (DRegion (Buffer ''A'' ''float16'' [int32 64, int32 64] ''global'')
        [(int32 8, int32 4), (int32 0, int32 32)])
      (DBuffer (Buffer ''U'' ''float16'' [int32 16, int32 64] ''shared'')) None None =
    Inr (Call ''tl.copy''
      [ARegion (Buffer ''A'' ''float16'' [int32 64, int32 64] ''global'') [int32 8, int32 0] 1
         [int32 4, int32 32],
       ARegion (Buffer ''U'' ''float16'' [int32 16, int32 64] ''shared'') [int32 0, int32 0] 2
         [int32 4, int32 32]])"
  using copy_slice_extents_agree [of "[(int32 8, int32 4), (int32 0, int32 32)]"
      "Buffer ''A'' ''float16'' [int32 64, int32 64] ''global''"
      "Buffer ''U'' ''float16'' [int32 16, int32 64] ''shared''" let_stack_init]
  by (simp add: numeral_2_eq_2)

text \<open>
  The copies that have no extent are refused: two loads without a size fail the
  assertion, and a size together with a slice on either side is an error.
\<close>

theorem copy_refused:
  "copy ls (DExpr (ELoad b i)) (DExpr (ELoad c j)) w None = Inl AssertionError \<and>
   copy ls (DRegion b r) d w (Some (e # es)) = Inl ValueError \<and>
   copy ls d (DRegion b r) w (Some (e # es)) = Inl ValueError"
  by (simp add: copy_def explicit_size_def is_slice_def resolve_let_def copy_get_extent_def
      copy_to_region_def data_buffer_def borrowed_extent_def)

text \<open>
  C13: the variables that resolve to a value are those of the active let frames: in every
  state reached by entering frames of new variables and leaving frames, a variable has a
  value exactly if it belongs to a frame on the stack, and the value is that frame's; and
  leaving the frame entered last restores the previous state.
\<close>

theorem let_values_are_active_frames:
  assumes "let_reachable s"
  shows "(get_let_value s v = Some d) =
      (\<exists>f \<in> set (ls_stack s). lf_var f = v \<and> lf_value f = d) \<and>
    (lf_var f \<notin> lf_var ` set (ls_stack s) \<longrightarrow> let_enter f s = Inr (u, s') \<longrightarrow>
      let_exit (lf_id f) s' = Inr s)"
proof
  have inv: "let_inv s" using assms by (rule let_reachable_inv)
  then have "distinct (map fst (map (\<lambda>f. (lf_var f, lf_value f)) (ls_stack s)))"
    by (simp add: let_inv_def comp_def)
  then show "(get_let_value s v = Some d) =
      (\<exists>f \<in> set (ls_stack s). lf_var f = v \<and> lf_value f = d)"
    using inv by (auto simp: get_let_value_def let_inv_def)
  show "lf_var f \<notin> lf_var ` set (ls_stack s) \<longrightarrow> let_enter f s = Inr (u, s') \<longrightarrow>
      let_exit (lf_id f) s' = Inr s"
  proof (intro impI)
    assume fresh: "lf_var f \<notin> lf_var ` set (ls_stack s)" and "let_enter f s = Inr (u, s')"
    then obtain d where s': "s' = ls_push (f\<lparr>lf_value := d\<rparr>) s" using let_enter_push by blast
    have "lf_var f \<notin> dom (ls_map s)"
      using inv fresh by (auto simp: let_inv_def dom_map_of_conv_image_fst image_image)
    then have "ls_pop s' = Inr (f\<lparr>lf_value := d\<rparr>, s)" unfolding s' by (intro ls_pop_push) simp
    then show "let_exit (lf_id f) s' = Inr s" by (simp add: let_exit_def ls_top_def s' ls_push_def)
  qed
qed

theorem let_values_are_active_frames_witness:
  "(get_let_value let_stack_init ''x'' = Some (DInt 1)) =
     (\<exists>f \<in> set (ls_stack let_stack_init). lf_var f = ''x'' \<and> lf_value f = DInt 1) \<and>
   let_exit 7 (ls_push \<lparr>lf_id = 7, lf_var = ''x'', lf_value = DInt 1\<rparr> let_stack_init) =
     Inr let_stack_init"
proof -
  let ?f = "\<lparr>lf_id = 7, lf_var = ''x'', lf_value = DInt 1\<rparr>"
  have "let_enter ?f let_stack_init = Inr (''x'', ls_push ?f let_stack_init)"
    by (simp add: let_enter_def)
  moreover have "lf_var ?f \<notin> lf_var ` set (ls_stack let_stack_init)"
    by (simp add: let_stack_init_def)
  ultimately show ?thesis
    using let_values_are_active_frames [OF let_start, of "''x''" "DInt 1" ?f "''x''"
        "ls_push ?f let_stack_init"] by simp
qed

text \<open>
  The extents derived for a load describe it dimension by dimension when all its
  indices are variables, constants or ramps: the descriptor starts at the base of each index
  and covers its lanes. For an index that is any other expression no extent is recorded,
  and the extents of the dimensions before it move one position to the right: a ramp over
  eight rows followed by a computed column becomes one row and eight columns.
\<close>

theorem to_region_load_extents:
  assumes "list_all plain_index idx" and "length idx = length (buf_shape b)"
  shows "to_region ls (DExpr (ELoad b idx)) ''r'' (get_extent ls (DExpr (ELoad b idx))) =
      Inr (ARegion b (map index_head idx) 1 (map (\<lambda>i. int32 (int (expr_lanes i))) idx)) \<and>
    to_region ls (DExpr (ELoad (Buffer n t [h, w] sc) [Ramp (int32 0) (int32 1) 8, EOther e ty 1])) ''r''
        (get_extent ls (DExpr (ELoad (Buffer n t [h, w] sc) [Ramp (int32 0) (int32 1) 8, EOther e ty 1]))) =
      Inr (ARegion (Buffer n t [h, w] sc) [int32 0, EOther e ty 1] 1 [int32 1, int32 8])"
proof
  show "to_region ls (DExpr (ELoad b idx)) ''r'' (get_extent ls (DExpr (ELoad b idx))) =
      Inr (ARegion b (map index_head idx) 1 (map (\<lambda>i. int32 (int (expr_lanes i))) idx))"
    using assms
    by (simp add: to_region_def get_extent_def resolve_let_def get_extent_load_plain
        buffer_load_to_tile_region_def region_def)
qed (simp add: to_region_def get_extent_def resolve_let_def get_extent_load_def py_last_n_def
    buffer_load_to_tile_region_def region_def index_head_def)

theorem to_region_load_extents_witness:
  "to_region let_stack_init (DExpr (ELoad (Buffer ''A'' ''float16'' [int32 64, int32 64] ''global'')
       [EVar ''i'' ''int32'', Ramp (int32 4) (int32 1) 16])) ''r''
     (get_extent let_stack_init (DExpr (ELoad (Buffer ''A'' ''float16'' [int32 64, int32 64] ''global'')
       [EVar ''i'' ''int32'', Ramp (int32 4) (int32 1) 16]))) =
   Inr (ARegion (Buffer ''A'' ''float16'' [int32 64, int32 64] ''global'')
     [EVar ''i'' ''int32'', int32 4] 1 [int32 1, int32 16])"
  using to_region_load_extents [of "[EVar ''i'' ''int32'', Ramp (int32 4) (int32 1) 16]"
      "Buffer ''A'' ''float16'' [int32 64, int32 64] ''global''" let_stack_init]
  by (simp add: plain_index_def index_head_def)

end
