(* ===== verification/NpuirOps.thy ===== *)
theory NpuirOps
  imports TileRegion
begin

text \<open>
  The tile operations of \<^verbatim>\<open>language/customize_npuir.py\<close>: each builds one or more intrinsic
  calls from its operands, or raises. An operation that emits statements with \<^verbatim>\<open>T.evaluate\<close>
  returns the emitted calls in order; an operation that changes a list of its caller returns
  the changed list too.

  What TVM computes is a parameter, gathered in the record \<open>tvm_env\<close> together with the let
  stack: the constant of an element type, the truth of an equality between extents, the
  width of a type, and arithmetic on extents.
\<close>

record tvm_env =
  lets :: let_stack
  tir_const :: "data \<Rightarrow> string \<Rightarrow> expr"
  expr_eq :: "expr \<Rightarrow> expr \<Rightarrow> bool"
  dtype_bits :: "string \<Rightarrow> nat"
  expr_times :: "expr \<Rightarrow> int \<Rightarrow> expr"
  expr_half :: "expr \<Rightarrow> expr"
  expr_divides :: "int \<Rightarrow> expr \<Rightarrow> bool"
  expr_str :: "expr \<Rightarrow> string"

section \<open>Shared helpers\<close>

text \<open>The attribute \<^verbatim>\<open>.dtype\<close> of an operand, and \<^verbatim>\<open>.shape\<close>.\<close>

fun expr_dtype :: "expr \<Rightarrow> string" where
  "expr_dtype (IntImm t _) = t"
| "expr_dtype (FloatImm t _) = t"
| "expr_dtype (EVar _ t) = t"
| "expr_dtype (Ramp b _ n) = expr_dtype b @ ''x'' @ str_nat n"
| "expr_dtype (ELoad b idx) =
     (let n = prod_list (map expr_lanes idx)
      in if n = 1 then buf_dtype b else buf_dtype b @ ''x'' @ str_nat n)"
| "expr_dtype (EOther _ t _) = t"

definition data_dtype :: "data \<Rightarrow> string res" where
  "data_dtype d =
     (case d of DBuffer b \<Rightarrow> Inr (buf_dtype b) | DExpr e \<Rightarrow> Inr (expr_dtype e)
      | _ \<Rightarrow> Inl AttributeError)"

definition data_shape :: "data \<Rightarrow> expr list res" where
  "data_shape d = (case d of DBuffer b \<Rightarrow> Inr (buf_shape b) | _ \<Rightarrow> Inl AttributeError)"

text \<open>A row of operands, each with its access mode and extent, turned into descriptors.\<close>

definition regions :: "tvm_env \<Rightarrow> (data \<times> string \<times> expr list) list \<Rightarrow> arg list res" where
  "regions E specs = rmap (\<lambda>(d, acc, ext). to_region (lets E) d acc ext) specs"

definition intrin :: "string \<Rightarrow> arg list \<Rightarrow> arg list \<Rightarrow> call" where
  "intrin opname args extra = Call (''tl.'' @ opname) (args @ extra)"

text \<open>\<^verbatim>\<open>_get_extent(d) if size is None else size\<close>.\<close>

definition size_or_extent :: "tvm_env \<Rightarrow> expr list option \<Rightarrow> data \<Rightarrow> expr list" where
  "size_or_extent E sz d = (case sz of None \<Rightarrow> get_extent (lets E) d | Some s \<Rightarrow> s)"

definition binary_op :: "tvm_env \<Rightarrow> string \<Rightarrow> data \<Rightarrow> data \<Rightarrow> data \<Rightarrow> call res" where
  "binary_op E opName src0 src1 dst =
     rbind (to_region (lets E) src0 ''r'' (get_extent (lets E) src0)) (\<lambda>a.
     rbind (case src1 of
              DInt n \<Rightarrow> rbind (data_dtype dst) (\<lambda>t. Inr (AExpr (tir_const E (DInt n) t)))
            | DFloat x \<Rightarrow> rbind (data_dtype dst) (\<lambda>t. Inr (AExpr (tir_const E (DFloat x) t)))
            | DExpr (EVar v t) \<Rightarrow> Inr (AExpr (EVar v t))
            | _ \<Rightarrow> to_region (lets E) src1 ''r'' (get_extent (lets E) src1)) (\<lambda>b.
     rbind (to_region (lets E) dst ''w'' (get_extent (lets E) dst)) (\<lambda>c.
       Inr (intrin (''npuir_'' @ opName) [a, b, c] []))))"

definition unary_op :: "tvm_env \<Rightarrow> string \<Rightarrow> data \<Rightarrow> data \<Rightarrow> call res" where
  "unary_op E opName src dst =
     rbind (regions E [(src, ''r'', get_extent (lets E) src), (dst, ''w'', get_extent (lets E) dst)])
       (\<lambda>as. Inr (intrin (''npuir_'' @ opName) as []))"

section \<open>Element-wise operations\<close>

definition npuir_add :: "tvm_env \<Rightarrow> data \<Rightarrow> data \<Rightarrow> data \<Rightarrow> call res" where
  "npuir_add E A B C = binary_op E ''add'' A B C"

definition npuir_sub :: "tvm_env \<Rightarrow> data \<Rightarrow> data \<Rightarrow> data \<Rightarrow> call res" where
  "npuir_sub E A B C = binary_op E ''sub'' A B C"

definition npuir_mul :: "tvm_env \<Rightarrow> data \<Rightarrow> data \<Rightarrow> data \<Rightarrow> call res" where
  "npuir_mul E A B C = binary_op E ''mul'' A B C"

definition npuir_div :: "tvm_env \<Rightarrow> data \<Rightarrow> data \<Rightarrow> data \<Rightarrow> call res" where
  "npuir_div E A B C = binary_op E ''div'' A B C"

definition npuir_max :: "tvm_env \<Rightarrow> data \<Rightarrow> data \<Rightarrow> data \<Rightarrow> call res" where
  "npuir_max E A B C = binary_op E ''max'' A B C"

definition npuir_min :: "tvm_env \<Rightarrow> data \<Rightarrow> data \<Rightarrow> data \<Rightarrow> call res" where
  "npuir_min E A B C = binary_op E ''min'' A B C"

definition npuir_or :: "tvm_env \<Rightarrow> data \<Rightarrow> data \<Rightarrow> data \<Rightarrow> call res" where
  "npuir_or E A B C = binary_op E ''or'' A B C"

definition npuir_and :: "tvm_env \<Rightarrow> data \<Rightarrow> data \<Rightarrow> data \<Rightarrow> call res" where
  "npuir_and E A B C = binary_op E ''and'' A B C"

definition npuir_xor :: "tvm_env \<Rightarrow> data \<Rightarrow> data \<Rightarrow> data \<Rightarrow> call res" where
  "npuir_xor E A B C = binary_op E ''xor'' A B C"

definition npuir_pow :: "tvm_env \<Rightarrow> data \<Rightarrow> data \<Rightarrow> data \<Rightarrow> call res" where
  "npuir_pow E A B C = binary_op E ''pow'' A B C"

definition npuir_shl :: "tvm_env \<Rightarrow> data \<Rightarrow> data \<Rightarrow> data \<Rightarrow> call res" where
  "npuir_shl E A B C = binary_op E ''shl'' A B C"

definition npuir_floordiv :: "tvm_env \<Rightarrow> data \<Rightarrow> data \<Rightarrow> data \<Rightarrow> call res" where
  "npuir_floordiv E A B C = binary_op E ''floordiv'' A B C"

definition npuir_exp :: "tvm_env \<Rightarrow> data \<Rightarrow> data \<Rightarrow> call res" where
  "npuir_exp E A B = unary_op E ''exp'' A B"

definition npuir_relu :: "tvm_env \<Rightarrow> data \<Rightarrow> data \<Rightarrow> call res" where
  "npuir_relu E A B = unary_op E ''relu'' A B"

definition npuir_sigmoid :: "tvm_env \<Rightarrow> data \<Rightarrow> data \<Rightarrow> call res" where
  "npuir_sigmoid E A B = unary_op E ''sigmoid'' A B"

definition npuir_ln :: "tvm_env \<Rightarrow> data \<Rightarrow> data \<Rightarrow> call res" where
  "npuir_ln E A B = unary_op E ''ln'' A B"

definition npuir_sqrt :: "tvm_env \<Rightarrow> data \<Rightarrow> data \<Rightarrow> call res" where
  "npuir_sqrt E A B = unary_op E ''sqrt'' A B"

definition npuir_rsqrt :: "tvm_env \<Rightarrow> data \<Rightarrow> data \<Rightarrow> call res" where
  "npuir_rsqrt E A B = unary_op E ''rsqrt'' A B"

definition npuir_abs :: "tvm_env \<Rightarrow> data \<Rightarrow> data \<Rightarrow> call res" where
  "npuir_abs E A B = unary_op E ''abs'' A B"

definition npuir_rec :: "tvm_env \<Rightarrow> data \<Rightarrow> data \<Rightarrow> call res" where
  "npuir_rec E A B = unary_op E ''rec'' A B"

definition npuir_not :: "tvm_env \<Rightarrow> data \<Rightarrow> data \<Rightarrow> call res" where
  "npuir_not E A B = unary_op E ''not'' A B"

definition npuir_floor :: "tvm_env \<Rightarrow> data \<Rightarrow> data \<Rightarrow> call res" where
  "npuir_floor E A B = unary_op E ''floor'' A B"

definition npuir_exp2 :: "tvm_env \<Rightarrow> data \<Rightarrow> data \<Rightarrow> data \<Rightarrow> call list res" where
  "npuir_exp2 E A B Tmp =
     rbind (data_dtype A) (\<lambda>t.
       let ln2 = tir_const E (DFloat Fln2) t
       in rbind (binary_op E ''mul'' A (DExpr ln2) Tmp) (\<lambda>mul_call.
          rbind (unary_op E ''exp'' Tmp B) (\<lambda>exp_call. Inr [mul_call, exp_call])))"

definition npuir_log2 :: "tvm_env \<Rightarrow> data \<Rightarrow> data \<Rightarrow> data \<Rightarrow> call list res" where
  "npuir_log2 E A B Tmp =
     rbind (unary_op E ''ln'' A Tmp) (\<lambda>log_call.
     rbind (data_dtype A) (\<lambda>t.
       let inv_ln2 = tir_const E (DFloat Finv_ln2) t
       in rbind (binary_op E ''mul'' Tmp (DExpr inv_ln2) B) (\<lambda>mul_call.
            Inr [log_call, mul_call])))"

definition npuir_select :: "tvm_env \<Rightarrow> data \<Rightarrow> data \<Rightarrow> data \<Rightarrow> data \<Rightarrow> call res" where
  "npuir_select E Cond A B Out =
     (let ext = get_extent (lets E)
      in rbind (regions E [(Cond, ''r'', ext A), (A, ''r'', ext A), (B, ''r'', ext B),
                           (Out, ''w'', ext Out)]) (\<lambda>as.
           Inr (intrin ''npuir_select'' as [])))"

definition npuir_cmp :: "tvm_env \<Rightarrow> data \<Rightarrow> data \<Rightarrow> data \<Rightarrow> string \<Rightarrow> call res" where
  "npuir_cmp E A B C cmp_mod =
     (let ext = get_extent (lets E)
      in rbind (guard AssertionError
           (cmp_mod \<in> {''eq'', ''ne'', ''lt'', ''gt'', ''ge'', ''le''})) (\<lambda>_.
         rbind (regions E [(A, ''r'', ext A), (B, ''r'', ext B), (C, ''w'', ext C)]) (\<lambda>as.
           Inr (intrin ''npuir_cmp'' as [AStr cmp_mod]))))"

definition npuir_shr :: "tvm_env \<Rightarrow> data \<Rightarrow> data \<Rightarrow> data \<Rightarrow> bool \<Rightarrow> call res" where
  "npuir_shr E A B C rnd =
     (let ext = get_extent (lets E)
      in rbind (regions E [(A, ''r'', ext A), (B, ''r'', ext B), (C, ''w'', ext C)]) (\<lambda>as.
           Inr (intrin ''npuir_shr'' as [ABool rnd])))"

section \<open>Matrix operations and moves\<close>

definition npuir_dot ::
  "tvm_env \<Rightarrow> data \<Rightarrow> data \<Rightarrow> data \<Rightarrow> expr list option \<Rightarrow> bool \<Rightarrow> bool \<Rightarrow> bool \<Rightarrow> call res" where
  "npuir_dot E A B C sz initC a_transpose b_transpose =
     rbind (case sz of
              None \<Rightarrow> Inr (get_extent (lets E) A, get_extent (lets E) B, get_extent (lets E) C)
            | Some [m, k, n] \<Rightarrow>
                Inr (if a_transpose then [k, m] else [m, k],
                     if b_transpose then [n, k] else [k, n],
                     [m, n])
            | Some _ \<Rightarrow> Inl AssertionError) (\<lambda>(A_extent, B_extent, C_extent).
     rbind (regions E [(A, ''r'', A_extent), (B, ''r'', B_extent), (C, ''rw'', C_extent)]) (\<lambda>as.
       Inr (intrin ''npuir_dot'' as [ABool initC, ABool a_transpose, ABool b_transpose])))"

definition npuir_load_nd2nz :: "tvm_env \<Rightarrow> data \<Rightarrow> data \<Rightarrow> expr list option \<Rightarrow> call res" where
  "npuir_load_nd2nz E src dst sz =
     rbind (regions E [(src, ''r'', size_or_extent E sz src), (dst, ''w'', size_or_extent E sz dst)])
       (\<lambda>as. Inr (intrin ''npuir_load_nd2nz'' as [ABool True]))"

definition npuir_store_nz2nd :: "tvm_env \<Rightarrow> data \<Rightarrow> data \<Rightarrow> expr list option \<Rightarrow> call res" where
  "npuir_store_nz2nd E src dst sz =
     rbind (regions E [(src, ''r'', size_or_extent E sz src), (dst, ''w'', size_or_extent E sz dst)])
       (\<lambda>as. Inr (intrin ''npuir_store_nz2nd'' as []))"

definition pre_relu_map :: "string \<Rightarrow> int res" where
  "pre_relu_map m =
     (if m = '''' then Inr 0 else if m = ''relu'' then Inr 1
      else if m = ''leaky_relu'' then Inr 2 else if m = ''prelu'' then Inr 3
      else Inl KeyError)"

definition fixpipe_dtypes_ok :: "string \<Rightarrow> string \<Rightarrow> bool" where
  "fixpipe_dtypes_ok s d \<longleftrightarrow>
     s = d \<or> (s = ''float32'' \<and> d = ''float16'') \<or> (s = ''float32'' \<and> d = ''bfloat16'') \<or>
     (s = ''int32'' \<and> d = ''int8'')"

definition npuir_store_fixpipe ::
  "tvm_env \<Rightarrow> data \<Rightarrow> data \<Rightarrow> expr list option \<Rightarrow> bool \<Rightarrow> bool \<Rightarrow> string \<Rightarrow> call res" where
  "npuir_store_fixpipe E src dst sz enable_nz2nd channel_split pre_relu_mode =
     rbind (data_dtype src) (\<lambda>st. rbind (data_dtype dst) (\<lambda>dt.
     rbind (guard AssertionError (fixpipe_dtypes_ok st dt)) (\<lambda>_.
     rbind (regions E [(src, ''r'', size_or_extent E sz src), (dst, ''w'', size_or_extent E sz dst)])
       (\<lambda>as.
     rbind (pre_relu_map pre_relu_mode) (\<lambda>relu.
       Inr (intrin ''npuir_store_fixpipe'' as
         [ABool enable_nz2nd, ABool channel_split, AInt relu]))))))"

section \<open>Broadcast, fill and cast\<close>

text \<open>The loop over the dimensions: an extent other than one has to agree with the target.\<close>

fun broadcast_check :: "tvm_env \<Rightarrow> expr list \<Rightarrow> expr list \<Rightarrow> unit res" where
  "broadcast_check E (s # ss) (d # ds) =
     rbind (guard AssertionError (expr_eq E s (int32 1) \<or> expr_eq E s d)) (\<lambda>_.
       broadcast_check E ss ds)"
| "broadcast_check E _ _ = Inr ()"

definition npuir_brc :: "tvm_env \<Rightarrow> data \<Rightarrow> data \<Rightarrow> call res" where
  "npuir_brc E src dst =
     (let src_extent = get_extent (lets E) src; dst_extent = get_extent (lets E) dst
      in rbind (if is_prim_expr src then Inr ()
                else rbind (guard AssertionError (length src_extent = length dst_extent))
                       (\<lambda>_. broadcast_check E src_extent dst_extent)) (\<lambda>_.
         rbind (if src_extent = [] then Inr (AData src)
                else to_region (lets E) src ''r'' src_extent) (\<lambda>s.
         rbind (to_region (lets E) dst ''w'' dst_extent) (\<lambda>d.
           Inr (intrin ''npuir_brc'' [s, d] [])))))"

definition npuir_fill :: "tvm_env \<Rightarrow> data \<Rightarrow> data \<Rightarrow> call res" where
  "npuir_fill E buffer val =
     rbind (guard TypeError (case buffer of DBuffer _ \<Rightarrow> True | DRegion _ _ \<Rightarrow> True | _ \<Rightarrow> False)) (\<lambda>_.
     rbind (guard TypeError (is_prim_expr val)) (\<lambda>_. npuir_brc E val buffer))"

definition npuir_clear :: "tvm_env \<Rightarrow> data \<Rightarrow> call res" where
  "npuir_clear E buffer =
     (let zero = DExpr (tir_const E (DInt 0) ''int32'')
      in case buffer of
           DExpr (EVar v t) \<Rightarrow>
             (case get_let_value (lets E) v of
                Some (DRegion b r) \<Rightarrow> npuir_fill E (DRegion b r) zero
              | Some _ \<Rightarrow> Inl ValueError
              | None \<Rightarrow> npuir_fill E buffer zero)
         | _ \<Rightarrow> npuir_fill E buffer zero)"

definition npuir_cast :: "tvm_env \<Rightarrow> data \<Rightarrow> data \<Rightarrow> expr list option \<Rightarrow> string \<Rightarrow> call res" where
  "npuir_cast E src dst sz round_mode =
     (let src_extent = size_or_extent E sz src; dst_extent = size_or_extent E sz dst
      in rbind (guard AssertionError (\<not> is_var src)) (\<lambda>_.
         rbind (guard AssertionError (length src_extent = length dst_extent)) (\<lambda>_.
         rbind (guard AssertionError
           (round_mode \<in> {''round'', ''rint'', ''floor'', ''ceil'', ''trunc'', ''odd''})) (\<lambda>_.
         rbind (broadcast_check E src_extent dst_extent) (\<lambda>_.
         rbind (regions E [(src, ''r'', src_extent), (dst, ''w'', dst_extent)]) (\<lambda>as.
           Inr (intrin ''npuir_cast'' as [AStr round_mode])))))))"

section \<open>Reductions\<close>

datatype dims_arg = DimInt int | DimList "int list"

definition dims_list :: "dims_arg \<Rightarrow> int list" where
  "dims_list d = (case d of DimInt i \<Rightarrow> [i] | DimList is \<Rightarrow> is)"

text \<open>\<^verbatim>\<open>xs[i] = v\<close> with a possibly negative index.\<close>

definition py_set :: "'a list \<Rightarrow> int \<Rightarrow> 'a \<Rightarrow> 'a list res" where
  "py_set xs i v =
     (if - int (length xs) \<le> i \<and> i < int (length xs)
      then Inr (xs[(if i \<ge> 0 then nat i else length xs - nat (- i)) := v])
      else Inl IndexError)"

definition valid_reduce_mode :: "string list" where
  "valid_reduce_mode =
     [''sum'', ''prod'', ''max'', ''min'', ''max_with_index_left'', ''max_with_index_right'',
      ''min_with_index_left'', ''min_with_index_right'', ''any'', ''all'', ''xori'', ''ori'',
      ''abssum'', ''absmax'', ''none'']"

definition valid_reduce_clear_false_mode :: "string list" where
  "valid_reduce_clear_false_mode = [''sum'', ''max'', ''min'', ''abssum'', ''absmax'']"

definition reduce_op_for_clear_map :: "string \<Rightarrow> string res" where
  "reduce_op_for_clear_map m =
     (if m = ''sum'' then Inr ''add'' else if m = ''max'' then Inr ''max''
      else if m = ''min'' then Inr ''min'' else Inl KeyError)"

definition expert_mode :: "string option \<Rightarrow> bool" where
  "expert_mode mode =
     (case mode of None \<Rightarrow> True
      | Some m \<Rightarrow> py_strip (map lower_char m) \<in> {''expert'', ''exp'', ''e''})"

definition get_tmp_buffer_exp :: "string \<Rightarrow> data \<Rightarrow> buf res" where
  "get_tmp_buffer_exp name d =
     (case d of
        DBuffer b \<Rightarrow> Inr (alloc_ub name (buf_shape b) (buf_dtype b))
      | DExpr (ELoad b idx) \<Rightarrow> Inr (alloc_ub name (buf_shape b) (expr_dtype (ELoad b idx)))
      | _ \<Rightarrow> Inl TypeError)"

definition get_tmp_buffer_dev :: "string \<Rightarrow> data \<Rightarrow> buf res" where
  "get_tmp_buffer_dev name d =
     (case d of
        DBuffer b \<Rightarrow> Inr (alloc_shared name (buf_shape b) (buf_dtype b) ''shared.dyn'')
      | DExpr (ELoad b idx) \<Rightarrow>
          Inr (alloc_shared name (buf_shape b) (expr_dtype (ELoad b idx)) ''shared.dyn'')
      | DRegion b r \<Rightarrow> Inr (alloc_shared name (buf_shape b) (buf_dtype b) ''shared.dyn'')
      | _ \<Rightarrow> Inl TypeError)"

text \<open>
  The temporary buffer's name and the value of \<^verbatim>\<open>TILELANG_ASCEND_MODE\<close> are arguments. The
  result carries the emitted calls and the caller's size list, in which the reduced
  extents have become one. \<open>reduce_calls\<close> is the part after the treatment of the
  absolute-value modes.
\<close>

definition reduce_calls ::
  "tvm_env \<Rightarrow> string option \<Rightarrow> string \<Rightarrow> data \<Rightarrow> data \<Rightarrow> dims_arg \<Rightarrow> string \<Rightarrow> expr list option \<Rightarrow> bool
     \<Rightarrow> (call list \<times> expr list option) res" where
  "reduce_calls E mode tmp_name src dst dims0 reduce_mode sz clear =
     (let dims = dims_list dims0;
          src_extent = size_or_extent E sz src
      in rbind (case sz of
                  None \<Rightarrow> Inr None
                | Some s \<Rightarrow> rbind (rfold (\<lambda>i xs. py_set xs i (int32 1)) dims s) (\<lambda>s'. Inr (Some s')))
          (\<lambda>sz'.
        let dst_extent = size_or_extent E sz' dst
        in rbind (guard AssertionError (length src_extent = length dst_extent)) (\<lambda>_.
           rbind (guard AssertionError (reduce_mode \<in> set valid_reduce_mode)) (\<lambda>_.
           rbind (guard AssertionError (dims \<noteq> [])) (\<lambda>_.
           rbind (to_region (lets E) src ''r'' src_extent) (\<lambda>src_region.
           rbind (to_region (lets E) dst ''w'' dst_extent) (\<lambda>dst_region.
             let reduce_dims = join_comma (map str_int dims)
             in if \<not> clear then
                  rbind (if expert_mode mode then get_tmp_buffer_exp tmp_name dst
                         else get_tmp_buffer_dev tmp_name dst) (\<lambda>tmp.
                  let tmp_extent = get_extent (lets E) (DBuffer tmp)
                  in rbind (guard AssertionError (length dst_extent = length tmp_extent)) (\<lambda>_.
                     rbind (guard AssertionError
                       (reduce_mode \<in> set valid_reduce_clear_false_mode)) (\<lambda>_.
                     rbind (to_region (lets E) (DBuffer tmp) ''w'' tmp_extent) (\<lambda>tmp_region.
                     rbind (reduce_op_for_clear_map reduce_mode) (\<lambda>bop.
                     rbind (binary_op E bop dst (DBuffer tmp) dst) (\<lambda>binary_call.
                       Inr ([intrin ''npuir_reduce'' [src_region, tmp_region]
                              [AStr reduce_dims, AStr reduce_mode], binary_call], sz')))))))
                else
                  Inr ([intrin ''npuir_reduce'' [src_region, dst_region]
                         [AStr reduce_dims, AStr reduce_mode]], sz'))))))))"

definition npuir_reduce ::
  "tvm_env \<Rightarrow> string option \<Rightarrow> string \<Rightarrow> data \<Rightarrow> data \<Rightarrow> dims_arg \<Rightarrow> string \<Rightarrow> expr list option \<Rightarrow> bool
     \<Rightarrow> (call list \<times> expr list option) res" where
  "npuir_reduce E mode tmp_name src dst dims reduce_mode sz clear =
     (if reduce_mode \<in> {''abssum'', ''absmax''}
      then rbind (unary_op E ''abs'' src src) (\<lambda>abs_call.
           rbind (reduce_calls E mode tmp_name src dst dims
                   (if reduce_mode = ''abssum'' then ''sum'' else ''max'') sz clear) (\<lambda>(calls, sz').
             Inr (abs_call # calls, sz')))
      else reduce_calls E mode tmp_name src dst dims reduce_mode sz clear)"

definition reduce_max ::
  "tvm_env \<Rightarrow> string option \<Rightarrow> string \<Rightarrow> buf \<Rightarrow> buf \<Rightarrow> int \<Rightarrow> expr list option \<Rightarrow> bool
     \<Rightarrow> (call list \<times> expr list option) res" where
  "reduce_max E mode tmp buffer out axis sz clear =
     npuir_reduce E mode tmp (DBuffer buffer) (DBuffer out) (DimInt (legalize_dim buffer axis))
       ''max'' sz clear"

definition reduce_min ::
  "tvm_env \<Rightarrow> string option \<Rightarrow> string \<Rightarrow> buf \<Rightarrow> buf \<Rightarrow> int \<Rightarrow> expr list option \<Rightarrow> bool
     \<Rightarrow> (call list \<times> expr list option) res" where
  "reduce_min E mode tmp buffer out axis sz clear =
     npuir_reduce E mode tmp (DBuffer buffer) (DBuffer out) (DimInt (legalize_dim buffer axis))
       ''min'' sz clear"

definition reduce_sum ::
  "tvm_env \<Rightarrow> string option \<Rightarrow> string \<Rightarrow> buf \<Rightarrow> buf \<Rightarrow> int \<Rightarrow> expr list option \<Rightarrow> bool
     \<Rightarrow> (call list \<times> expr list option) res" where
  "reduce_sum E mode tmp buffer out axis sz clear =
     npuir_reduce E mode tmp (DBuffer buffer) (DBuffer out) (DimInt (legalize_dim buffer axis))
       ''sum'' sz clear"

definition reduce_abssum ::
  "tvm_env \<Rightarrow> string option \<Rightarrow> string \<Rightarrow> buf \<Rightarrow> buf \<Rightarrow> int \<Rightarrow> (call list \<times> expr list option) res" where
  "reduce_abssum E mode tmp buffer out axis =
     npuir_reduce E mode tmp (DBuffer buffer) (DBuffer out) (DimInt (legalize_dim buffer axis))
       ''abssum'' None True"

definition reduce_absmax ::
  "tvm_env \<Rightarrow> string option \<Rightarrow> string \<Rightarrow> buf \<Rightarrow> buf \<Rightarrow> int \<Rightarrow> bool
     \<Rightarrow> (call list \<times> expr list option) res" where
  "reduce_absmax E mode tmp buffer out axis clear =
     npuir_reduce E mode tmp (DBuffer buffer) (DBuffer out) (DimInt (legalize_dim buffer axis))
       ''absmax'' None clear"

section \<open>Scans, sorting, clamping, atomics\<close>

definition npuir_cumsum :: "tvm_env \<Rightarrow> buf \<Rightarrow> buf option \<Rightarrow> int \<Rightarrow> bool \<Rightarrow> call res" where
  "npuir_cumsum E src dst0 axis0 reverse =
     (let shape = buf_shape src; n = int (length shape)
      in if axis0 \<ge> n \<or> axis0 \<le> - n then Inl ValueError
         else
           let axis = (if axis0 < 0 then n + axis0 else axis0);
               dst = (case dst0 of None \<Rightarrow> src | Some d \<Rightarrow> d)
           in rbind (regions E [(DBuffer src, ''r'', buf_shape src), (DBuffer dst, ''w'', buf_shape dst)])
                (\<lambda>as. Inr (intrin ''npuir_cumsum'' as [AStr (str_int axis), ABool reverse])))"

definition npuir_sort :: "tvm_env \<Rightarrow> data \<Rightarrow> data \<Rightarrow> data \<Rightarrow> bool \<Rightarrow> int \<Rightarrow> call res" where
  "npuir_sort E src dst_value dst_index descending sort_axis =
     (let ext = get_extent (lets E)
      in rbind (regions E [(src, ''r'', ext src), (dst_value, ''w'', ext dst_value),
                           (dst_index, ''w'', ext dst_index)])
           (\<lambda>as. Inr (intrin ''npuir_sort'' as [ABool descending, AInt sort_axis])))"

definition clamp_bound :: "tvm_env \<Rightarrow> data \<Rightarrow> arg res" where
  "clamp_bound E v =
     (case v of DBuffer b \<Rightarrow> to_region (lets E) v ''rw'' (buf_shape b) | _ \<Rightarrow> Inr (AData v))"

definition npuir_clamp :: "tvm_env \<Rightarrow> data \<Rightarrow> data \<Rightarrow> data \<Rightarrow> data \<Rightarrow> call list res" where
  "npuir_clamp E src dst min_val max_val =
     rbind (data_shape src) (\<lambda>src_extent.
     rbind (to_region (lets E) src ''rw'' src_extent) (\<lambda>src_tmp.
     rbind (data_shape dst) (\<lambda>dst_extent.
     rbind (to_region (lets E) dst ''rw'' dst_extent) (\<lambda>dst_tmp.
     rbind (clamp_bound E min_val) (\<lambda>min_ub_tmp.
     rbind (clamp_bound E max_val) (\<lambda>max_ub_tmp.
       Inr [intrin ''npuir_max'' [src_tmp, min_ub_tmp, dst_tmp] [],
            intrin ''npuir_min'' [dst_tmp, max_ub_tmp, dst_tmp] []]))))))"

definition npuir_atomic_add :: "tvm_env \<Rightarrow> data \<Rightarrow> data \<Rightarrow> expr list option \<Rightarrow> call res" where
  "npuir_atomic_add E dst src sz =
     rbind (to_region (lets E) src ''r'' (size_or_extent E sz src)) (\<lambda>s.
     rbind (to_region (lets E) dst ''w'' (size_or_extent E sz dst)) (\<lambda>d.
       Inr (intrin ''npuir_atomic_add'' [d, s] [])))"

definition npuir_atomic_addx4 :: "tvm_env \<Rightarrow> data \<Rightarrow> data \<Rightarrow> expr list option \<Rightarrow> call res" where
  "npuir_atomic_addx4 E dst src sz =
     rbind (to_region (lets E) src ''r'' (size_or_extent E sz src)) (\<lambda>s.
     rbind (to_region (lets E) dst ''w'' (size_or_extent E sz dst)) (\<lambda>d.
       Inr (intrin ''npuir_atomic_add'' [d, s] [])))"

definition npuir_gather :: "tvm_env \<Rightarrow> data \<Rightarrow> data \<Rightarrow> data \<Rightarrow> expr list option \<Rightarrow> call res" where
  "npuir_gather E src dst indices sz =
     rbind (to_region (lets E) src ''r'' (size_or_extent E sz src)) (\<lambda>s.
     rbind (to_region (lets E) indices ''r'' (size_or_extent E sz indices)) (\<lambda>i.
     rbind (to_region (lets E) dst ''w'' (size_or_extent E sz dst)) (\<lambda>d.
       Inr (intrin ''npuir_gather'' [s, d, i] []))))"

section \<open>Data movement within tiles\<close>

text \<open>\<^verbatim>\<open>*srcs, dst = args\<close>.\<close>

definition unpack_last :: "'a list \<Rightarrow> ('a list \<times> 'a) res" where
  "unpack_last args = (if args = [] then Inl ValueError else Inr (butlast args, last args))"

definition npuir_interleave :: "tvm_env \<Rightarrow> data list \<Rightarrow> int \<Rightarrow> expr list option \<Rightarrow> call res" where
  "npuir_interleave E args channel_nums sz =
     rbind (unpack_last args) (\<lambda>(srcs, dst).
     rbind (case sz of
              None \<Rightarrow> Inr (get_extent (lets E) dst)
            | Some [] \<Rightarrow> Inl IndexError
            | Some s \<Rightarrow> Inr (butlast s @ [expr_times E (last s) 2])) (\<lambda>dst_extent.
     rbind (to_region (lets E) dst ''w'' dst_extent) (\<lambda>d.
     rbind (rmap (\<lambda>src.
         let src_extent = size_or_extent E sz src
         in rbind (guard AssertionError (length src_extent = length dst_extent)) (\<lambda>_.
              to_region (lets E) src ''r'' src_extent)) srcs) (\<lambda>ss.
       Inr (intrin ''npuir_interleave'' (AInt channel_nums # d # ss) [])))))"

definition npuir_deinterleave ::
  "tvm_env \<Rightarrow> data list \<Rightarrow> int \<Rightarrow> string \<Rightarrow> expr list option \<Rightarrow> call res" where
  "npuir_deinterleave E args channel_nums index_mode sz =
     (case args of
        [] \<Rightarrow> Inl ValueError
      | src # dsts \<Rightarrow>
          rbind (guard AssertionError
            (index_mode \<in> {''CHANNEL_0'', ''CHANNEL_1'', ''ALL_CHANNELS''})) (\<lambda>_.
          let src_extent = size_or_extent E sz src
          in rbind (py_nth src_extent (-1)) (\<lambda>last_extent.
             if channel_nums = 0 then Inl ZeroDivisionError else
             rbind (guard AssertionError (expr_divides E channel_nums last_extent)) (\<lambda>_.
             rbind (to_region (lets E) src ''r'' src_extent) (\<lambda>s.
             rbind (case sz of
                      None \<Rightarrow> Inr []
                    | Some [] \<Rightarrow> Inl IndexError
                    | Some z \<Rightarrow> Inr (butlast z @ [expr_half E (last z)])) (\<lambda>dst_size.
             rbind (rmap (\<lambda>dst.
                 let dst_extent = (case sz of None \<Rightarrow> get_extent (lets E) dst | Some _ \<Rightarrow> dst_size)
                 in rbind (guard AssertionError (length src_extent = length dst_extent)) (\<lambda>_.
                      to_region (lets E) dst ''w'' dst_extent)) dsts) (\<lambda>ds.
               Inr (intrin ''npuir_deinterleave''
                 (AInt channel_nums # AStr index_mode # s # ds) []))))))))"

text \<open>
  With a size, the loop assigns into the empty list \<^verbatim>\<open>dst_size\<close>: its first round raises.
\<close>

definition assign_into_empty :: "expr list option \<Rightarrow> expr list res" where
  "assign_into_empty sz = (case sz of Some (_ # _) \<Rightarrow> Inl IndexError | _ \<Rightarrow> Inr [])"

definition npuir_transpose :: "tvm_env \<Rightarrow> data \<Rightarrow> data \<Rightarrow> int list \<Rightarrow> expr list option \<Rightarrow> call res" where
  "npuir_transpose E src dst permutation sz =
     (let src_extent = size_or_extent E sz src
      in rbind (assign_into_empty sz) (\<lambda>dst_size.
         let dst_extent = (case sz of None \<Rightarrow> get_extent (lets E) dst | Some _ \<Rightarrow> dst_size)
         in rbind (guard AssertionError (length src_extent = length dst_extent)) (\<lambda>_.
            rbind (regions E [(src, ''r'', src_extent), (dst, ''w'', dst_extent)]) (\<lambda>as.
              Inr (intrin ''npuir_transpose'' as [AStr (join_comma (map str_int permutation))])))))"

definition npuir_arange :: "tvm_env \<Rightarrow> data \<Rightarrow> expr list \<Rightarrow> expr \<Rightarrow> call res" where
  "npuir_arange E dst strides offset =
     rbind (to_region (lets E) dst ''w'' (get_extent (lets E) dst)) (\<lambda>d.
       Inr (intrin ''npuir_arange'' (d # map AExpr strides) [AExpr offset]))"

text \<open>
  \<^verbatim>\<open>dst_size = size\<close> is the caller's list itself: the multiplication in round \<^verbatim>\<open>dim\<close> is seen by
  the copies taken in the later rounds.
\<close>

fun concat_loop ::
  "tvm_env \<Rightarrow> int \<Rightarrow> nat \<Rightarrow> data \<Rightarrow> nat \<Rightarrow> data list \<Rightarrow> expr list option
     \<Rightarrow> (arg list \<times> expr list option) res" where
  "concat_loop E axis n dst i [] sz = Inr ([], sz)"
| "concat_loop E axis n dst i (src # srcs) sz =
     (let src_extent = size_or_extent E sz src
      in rbind (if sz = None
                then guard AssertionError (length src_extent = length (get_extent (lets E) dst))
                else Inr ()) (\<lambda>_.
         rbind (to_region (lets E) src ''r'' src_extent) (\<lambda>s.
         rbind (case sz of
                  Some z \<Rightarrow>
                    if int i = axis
                    then if i < length z
                         then Inr (Some (z[i := expr_times E (z ! i) (int n)])) else Inl IndexError
                    else Inr (Some z)
                | None \<Rightarrow> Inr None) (\<lambda>sz'.
         rbind (concat_loop E axis n dst (Suc i) srcs sz') (\<lambda>(ss, sz'').
           Inr (s # ss, sz''))))))"

definition npuir_concat ::
  "tvm_env \<Rightarrow> data list \<Rightarrow> data \<Rightarrow> int \<Rightarrow> expr list option \<Rightarrow> (call \<times> expr list option) res" where
  "npuir_concat E srcs dst axis sz =
     rbind (concat_loop E axis (length srcs) dst 0 srcs sz) (\<lambda>(ss, sz').
     rbind (to_region (lets E) dst ''w'' (size_or_extent E sz' dst)) (\<lambda>d.
       Inr (intrin ''npuir_concat'' (AInt axis # d # ss) [], sz')))"

text \<open>The padding loop: at most one dimension may be padded; variables are passed at the end.\<close>

record pad_state =
  pad_dim :: int
  pad_dynamic :: "expr list"
  pad_dyn_low :: nat
  pad_low :: "expr list"
  pad_high :: "expr list"

definition is_evar :: "expr \<Rightarrow> bool" where
  "is_evar e = (case e of EVar _ _ \<Rightarrow> True | _ \<Rightarrow> False)"

definition is_padded :: "tvm_env \<Rightarrow> expr \<times> expr \<Rightarrow> bool" where
  "is_padded E p = (case p of (l, h) \<Rightarrow>
     is_evar l \<or> is_evar h \<or> \<not> expr_eq E l (int32 0) \<or> \<not> expr_eq E h (int32 0))"

definition pad_low_step :: "expr \<Rightarrow> pad_state \<Rightarrow> pad_state" where
  "pad_low_step l s =
     (if is_evar l
      then s\<lparr>pad_dynamic := pad_dynamic s @ [l], pad_low := pad_low s @ [int32 0],
             pad_dyn_low := pad_dyn_low s + 1\<rparr>
      else s\<lparr>pad_low := pad_low s @ [l]\<rparr>)"

definition pad_high_step :: "expr \<Rightarrow> pad_state \<Rightarrow> pad_state" where
  "pad_high_step h s =
     (if is_evar h
      then s\<lparr>pad_dynamic := pad_dynamic s @ [h], pad_high := pad_high s @ [int32 0]\<rparr>
      else s\<lparr>pad_high := pad_high s @ [h]\<rparr>)"

fun pad_loop :: "tvm_env \<Rightarrow> int \<Rightarrow> (expr \<times> expr) list \<Rightarrow> pad_state \<Rightarrow> pad_state res" where
  "pad_loop E idx [] s = Inr s"
| "pad_loop E idx ((l, h) # rest) s =
     (if is_padded E (l, h) \<and> \<not> pad_dim s < 0 then Inl ValueError
      else pad_loop E (idx + 1) rest
             (pad_high_step h (pad_low_step l (if is_padded E (l, h) then s\<lparr>pad_dim := idx\<rparr> else s))))"

definition pad_init :: pad_state where
  "pad_init = \<lparr>pad_dim = -1, pad_dynamic = [], pad_dyn_low = 0, pad_low = [], pad_high = []\<rparr>"

definition npuir_pad ::
  "tvm_env \<Rightarrow> data \<Rightarrow> data \<Rightarrow> data \<Rightarrow> expr list \<Rightarrow> expr list \<Rightarrow> expr list option \<Rightarrow> call res" where
  "npuir_pad E src dst pad_value low high sz =
     (let src_extent = size_or_extent E sz src
      in rbind (assign_into_empty sz) (\<lambda>dst_size.
         let dst_extent = (case sz of None \<Rightarrow> get_extent (lets E) dst | Some _ \<Rightarrow> dst_size)
         in rbind (guard AssertionError (length src_extent = length dst_extent)) (\<lambda>_.
            rbind (guard AssertionError (length src_extent = length low)) (\<lambda>_.
            rbind (guard AssertionError (length src_extent = length high)) (\<lambda>_.
            rbind (regions E [(src, ''r'', src_extent), (dst, ''w'', dst_extent)]) (\<lambda>as.
            rbind (pad_loop E 0 (zip low high) pad_init) (\<lambda>s.
              Inr (intrin ''npuir_pad'' as
                ([AData pad_value, AInt (pad_dim s), AStr (join_comma (map (expr_str E) (pad_low s))),
                  AStr (join_comma (map (expr_str E) (pad_high s))), AInt (int (pad_dyn_low s))] @
                 map AExpr (pad_dynamic s))))))))))"

definition npuir_flip :: "tvm_env \<Rightarrow> data \<Rightarrow> data \<Rightarrow> int \<Rightarrow> expr list option \<Rightarrow> call res" where
  "npuir_flip E src dst axis sz =
     rbind (regions E [(src, ''r'', size_or_extent E sz src), (dst, ''w'', size_or_extent E sz dst)])
       (\<lambda>as. Inr (intrin ''npuir_flip'' as [AInt axis]))"

definition npuir_bitcast :: "tvm_env \<Rightarrow> data \<Rightarrow> string \<Rightarrow> expr list option \<Rightarrow> call res" where
  "npuir_bitcast E src dtype sz =
     rbind (case src of DBuffer b \<Rightarrow> Inr (buf_dtype b)
            | _ \<Rightarrow> rbind (data_buffer src) (\<lambda>b. Inr (buf_dtype b))) (\<lambda>src_dtype.
     rbind (to_region (lets E) src ''rw'' (size_or_extent E sz src)) (\<lambda>s.
     rbind (guard AssertionError (dtype_bits E dtype = dtype_bits E src_dtype)) (\<lambda>_.
       Inr (intrin ''npuir_bitcast'' [s] [AStr dtype]))))"

text \<open>The four transcendental functions have one body with different operator names.\<close>

definition vector_fn :: "tvm_env \<Rightarrow> string \<Rightarrow> data list \<Rightarrow> expr list option \<Rightarrow> call res" where
  "vector_fn E opname args sz =
     rbind (unpack_last args) (\<lambda>(srcs, dst).
     rbind (rmap (\<lambda>src.
         let src_extent = size_or_extent E sz src
         in rbind (if sz = None
                   then guard AssertionError (length src_extent = length (get_extent (lets E) dst))
                   else Inr ()) (\<lambda>_. to_region (lets E) src ''r'' src_extent)) srcs) (\<lambda>ss.
     rbind (to_region (lets E) dst ''w'' (size_or_extent E sz dst)) (\<lambda>d.
       Inr (intrin opname (d # ss) []))))"

definition npuir_vcos :: "tvm_env \<Rightarrow> data list \<Rightarrow> expr list option \<Rightarrow> call res" where
  "npuir_vcos E args sz = vector_fn E ''npuir_vcos'' args sz"

definition npuir_vsin :: "tvm_env \<Rightarrow> data list \<Rightarrow> expr list option \<Rightarrow> call res" where
  "npuir_vsin E args sz = vector_fn E ''npuir_vsin'' args sz"

definition npuir_verf :: "tvm_env \<Rightarrow> data list \<Rightarrow> expr list option \<Rightarrow> call res" where
  "npuir_verf E args sz = vector_fn E ''npuir_verf'' args sz"

definition npuir_vtanh :: "tvm_env \<Rightarrow> data list \<Rightarrow> expr list option \<Rightarrow> call res" where
  "npuir_vtanh E args sz = vector_fn E ''npuir_vtanh'' args sz"

section \<open>Debug output and reshape\<close>

fun contains :: "string \<Rightarrow> string \<Rightarrow> bool" where
  "contains pat [] = (pat = [])"
| "contains pat (c # cs) = (take (length pat) (c # cs) = pat \<or> contains pat cs)"

definition npuir_print :: "tvm_env \<Rightarrow> data \<Rightarrow> string \<Rightarrow> bool \<Rightarrow> call res" where
  "npuir_print E obj msg hex =
     (let label = (\<lambda>kind b. if msg = []
                   then kind @ ''<'' @ buf_name b @ '', '' @ buf_dtype b @ ''>'' else msg);
          print_value = (\<lambda>m. rbind (to_region (lets E) obj ''r'' (get_extent (lets E) obj)) (\<lambda>o'.
            Inr (intrin ''npuir_debug_print_buffer_value'' [o'] [AStr m, ABool hex])))
      in case obj of
           DExpr (EVar v t) \<Rightarrow>
             rbind (guard AssertionError (contains ''int'' t \<or> contains ''float'' t)) (\<lambda>_.
               Inr (intrin ''npuir_debug_print_var'' [AExpr (EVar v t)]
                 [AStr (if msg = [] then ''expr<'' @ v @ ''>'' else msg), ABool hex]))
         | DBuffer b \<Rightarrow>
             if buf_scope b \<in> {''shared'', ''shared.dyn'', ''global''}
             then print_value (label ''buffer'' b) else Inl ValueError
         | DExpr (ELoad b _) \<Rightarrow> print_value (label ''subview'' b)
         | DRegion b _ \<Rightarrow> print_value (label ''subview'' b)
         | _ \<Rightarrow> Inl ValueError)"

definition npuir_reshape :: "tvm_env \<Rightarrow> data \<Rightarrow> data \<Rightarrow> call res" where
  "npuir_reshape E src dst =
     rbind (regions E [(src, ''w'', get_extent (lets E) src), (dst, ''r'', get_extent (lets E) dst)])
       (\<lambda>as. Inr (intrin ''npuir_reshape'' as []))"

section \<open>Descriptors of the operands\<close>

lemma to_region_buffer [simp]:
  "to_region ls (DBuffer b) acc ext = region b (map (\<lambda>_. int32 0) (buf_shape b)) acc ext"
  by (simp add: to_region_def buffer_to_tile_region_with_extent_def)

lemma get_extent_buffer [simp]: "get_extent ls (DBuffer b) = buf_shape b"
  by (simp add: get_extent_def resolve_let_def)

lemma region_simps [simp]:
  "region b mins ''r'' ext = Inr (ARegion b mins 1 ext)"
  "region b mins ''w'' ext = Inr (ARegion b mins 2 ext)"
  "region b mins ''rw'' ext = Inr (ARegion b mins 3 ext)"
  by (simp_all add: region_def)

lemma to_region_wf:
  assumes "to_region ls d acc (get_extent ls d) = Inr a" and "wf_data d"
  shows "wf_arg a \<and> (arg_access a = 0 \<or> access_code acc = Inr (arg_access a))"
proof (cases d)
  case (DBuffer b)
  then show ?thesis using assms(1) access_code_range
    by (fastforce simp: region_Inr_iff wf_arg_def arg_access_def)
next
  case (DRegion b r)
  then have "buffer_region_to_tile_region b r acc (py_last_n (length (buf_shape b)) (get_extent ls d)) = Inr a"
    using assms(1) by (simp add: to_region_def)
  then show ?thesis
    using tile_region_wf(3) tile_region_access(3) assms(2) DRegion by (fastforce simp: wf_data_def)
next
  case (DExpr e)
  show ?thesis
  proof (cases e)
    case (ELoad b idx)
    then have "buffer_load_to_tile_region b idx acc (py_last_n (length (buf_shape b)) (get_extent ls d)) = Inr a"
      using assms(1) DExpr by (simp add: to_region_def)
    then show ?thesis
      using tile_region_wf(2) tile_region_access(2) assms(2) DExpr ELoad by (fastforce simp: wf_data_def)
  qed (use DExpr assms(1) in \<open>auto simp: to_region_def wf_arg_def arg_access_def split: option.splits\<close>)
qed (use assms(1) in \<open>simp_all add: to_region_def\<close>)

lemma binary_op_wf:
  assumes "binary_op E opName A B C = Inr c" and "wf_data A" and "wf_data B" and "wf_data C"
  shows "\<exists>a b d. c = Call (''tl.npuir_'' @ opName) [a, b, d] \<and> wf_arg a \<and> wf_arg b \<and> wf_arg d \<and>
    arg_access a \<in> {0, 1} \<and> arg_access b \<in> {0, 1} \<and> arg_access d \<in> {0, 2}"
proof -
  from assms(1) obtain a b d where a: "to_region (lets E) A ''r'' (get_extent (lets E) A) = Inr a"
    and b: "(\<exists>x. b = AExpr x) \<or> to_region (lets E) B ''r'' (get_extent (lets E) B) = Inr b"
    and d: "to_region (lets E) C ''w'' (get_extent (lets E) C) = Inr d"
    and c: "c = Call (''tl.npuir_'' @ opName) [a, b, d]"
    by (auto simp: binary_op_def rbind_Inr_iff intrin_def split: data.splits expr.splits)
  have "wf_arg b \<and> arg_access b \<in> {0, 1}"
    using b to_region_wf assms(3) by (auto simp: wf_arg_def arg_access_def) force+
  then show ?thesis using c to_region_wf [OF a assms(2)] to_region_wf [OF d assms(4)] by auto
qed

section \<open>Helper lemmas of the operations\<close>

lemma py_set_nonneg: "0 \<le> i \<Longrightarrow> i < int (length xs) \<Longrightarrow> py_set xs i v = Inr (xs[nat i := v])"
  by (simp add: py_set_def)

definition with_ones :: "int list \<Rightarrow> expr list \<Rightarrow> expr list" where
  "with_ones dims s = map (\<lambda>i. if int i \<in> set dims then int32 1 else s ! i) [0..<length s]"

lemma with_ones_Nil [simp]: "with_ones [] s = s"
  by (simp add: with_ones_def map_nth)

lemma with_ones_Cons:
  "0 \<le> i \<Longrightarrow> i < int (length s) \<Longrightarrow> with_ones dims (s[nat i := int32 1]) = with_ones (i # dims) s"
  by (auto simp: with_ones_def nth_list_update intro!: map_cong)

lemma rfold_py_set:
  "\<forall>i \<in> set dims. 0 \<le> i \<and> i < int (length s) \<Longrightarrow>
     rfold (\<lambda>i xs. py_set xs i (int32 1)) dims s = Inr (with_ones dims s)"
proof (induction dims arbitrary: s)
  case Nil
  then show ?case by simp
next
  case (Cons i dims)
  then have "rfold (\<lambda>i xs. py_set xs i (int32 1)) dims (s[nat i := int32 1]) =
      Inr (with_ones dims (s[nat i := int32 1]))"
    by (intro Cons.IH) auto
  with Cons.prems show ?case by (simp add: py_set_nonneg with_ones_Cons)
qed

lemma length_with_ones [simp]: "length (with_ones dims s) = length s"
  by (simp add: with_ones_def)

text \<open>The padding loop, before and after the padded dimension has been met.\<close>

lemma pad_steps_dim [simp]:
  "pad_dim (pad_high_step h s) = pad_dim s" "pad_dim (pad_low_step l s) = pad_dim s"
  by (simp_all add: pad_high_step_def pad_low_step_def)

lemma pad_loop_after:
  "0 \<le> pad_dim s \<Longrightarrow>
     (if list_ex (is_padded E) ps then pad_loop E idx ps s = Inl ValueError
      else \<exists>s'. pad_loop E idx ps s = Inr s' \<and> pad_dim s' = pad_dim s)"
proof (induction ps arbitrary: idx s)
  case Nil
  then show ?case by simp
next
  case (Cons p ps)
  obtain l h where p: "p = (l, h)" by (cases p)
  have "0 \<le> pad_dim (pad_high_step h (pad_low_step l s))" using Cons.prems by simp
  from Cons.IH [OF this, of "idx + 1"] show ?case using Cons.prems by (auto simp: p)
qed

definition first_padded :: "tvm_env \<Rightarrow> (expr \<times> expr) list \<Rightarrow> int" where
  "first_padded E ps =
     (if list_ex (is_padded E) ps then int (length (takeWhile (\<lambda>p. \<not> is_padded E p) ps)) else -1)"

lemma pad_loop_before:
  "pad_dim s = -1 \<Longrightarrow> 0 \<le> idx \<Longrightarrow>
     (if 1 < length (filter (is_padded E) ps) then pad_loop E idx ps s = Inl ValueError
      else \<exists>s'. pad_loop E idx ps s = Inr s' \<and>
        pad_dim s' = (if list_ex (is_padded E) ps then idx + first_padded E ps else -1))"
proof (induction ps arbitrary: idx s)
  case Nil
  then show ?case by simp
next
  case (Cons p ps)
  obtain l h where p: "p = (l, h)" by (cases p)
  show ?case
  proof (cases "is_padded E p")
    case True
    let ?s = "pad_high_step h (pad_low_step l (s\<lparr>pad_dim := idx\<rparr>))"
    have "0 \<le> pad_dim ?s" using Cons.prems by simp
    from pad_loop_after [OF this, where ps = ps and idx = "idx + 1" and E = E] show ?thesis
      using True Cons.prems by (auto simp: p first_padded_def list_ex_iff filter_empty_conv split: if_splits)
  next
    case False
    let ?s = "pad_high_step h (pad_low_step l s)"
    have "pad_dim ?s = -1" "0 \<le> idx + 1" using Cons.prems by simp_all
    from Cons.IH [OF this] show ?thesis
      using False Cons.prems by (auto simp: p first_padded_def split: if_splits)
  qed
qed

section \<open>Properties\<close>

text \<open>A concrete environment: structural equality and arithmetic on integer constants.\<close>

definition demo_env :: tvm_env where
  "demo_env = \<lparr>lets = let_stack_init,
     tir_const = (\<lambda>d t. case d of DInt n \<Rightarrow> IntImm t n | DFloat x \<Rightarrow> FloatImm t x | _ \<Rightarrow> IntImm t 0),
     expr_eq = (\<lambda>a b. a = b),
     dtype_bits = (\<lambda>t. if t = ''float32'' then 32 else 16),
     expr_times = (\<lambda>e k. case e of IntImm t n \<Rightarrow> IntImm t (n * k) | _ \<Rightarrow> e),
     expr_half = (\<lambda>e. case e of IntImm t n \<Rightarrow> FloatImm ''float32'' (Flit (of_int n / 2)) | _ \<Rightarrow> e),
     expr_divides = (\<lambda>k e. case e of IntImm t n \<Rightarrow> n mod k = 0 | _ \<Rightarrow> False),
     expr_str = (\<lambda>e. case e of IntImm t n \<Rightarrow> str_int n | _ \<Rightarrow> [])\<rparr>"

definition buf2 :: "string \<Rightarrow> int \<Rightarrow> int \<Rightarrow> buf" where
  "buf2 name h w = Buffer name ''float16'' [int32 h, int32 w] ''shared''"

text \<open>
  The element-wise operations on two operands build one call of their operator with
  three well-formed arguments: two that are read (or are scalars, or the value a variable
  is bound to) and one that is written.
\<close>

theorem npuir_binary_calls:
  assumes "(opName, r) \<in> {(''add'', npuir_add E A B C), (''sub'', npuir_sub E A B C),
      (''mul'', npuir_mul E A B C), (''div'', npuir_div E A B C), (''max'', npuir_max E A B C),
      (''min'', npuir_min E A B C), (''or'', npuir_or E A B C), (''and'', npuir_and E A B C),
      (''xor'', npuir_xor E A B C), (''pow'', npuir_pow E A B C), (''shl'', npuir_shl E A B C),
      (''floordiv'', npuir_floordiv E A B C)}"
    and "r = Inr c" and "wf_data A" and "wf_data B" and "wf_data C"
  shows "\<exists>a b d. c = Call (''tl.npuir_'' @ opName) [a, b, d] \<and> wf_arg a \<and> wf_arg b \<and> wf_arg d \<and>
    arg_access a \<in> {0, 1} \<and> arg_access b \<in> {0, 1} \<and> arg_access d \<in> {0, 2}"
proof -
  have "r = binary_op E opName A B C"
    using assms(1)
    by (elim insertE)
      (simp_all add: npuir_add_def npuir_sub_def npuir_mul_def npuir_div_def npuir_max_def
        npuir_min_def npuir_or_def npuir_and_def npuir_xor_def npuir_pow_def npuir_shl_def
        npuir_floordiv_def)
  then show ?thesis using binary_op_wf assms(2-5) by blast
qed

theorem npuir_binary_calls_witness:
  "\<exists>a b d. Call ''tl.npuir_mul'' [ARegion (buf2 ''A'' 4 8) [int32 0, int32 0] 1 [int32 4, int32 8],
      AExpr (IntImm ''float16'' 3), ARegion (buf2 ''C'' 4 8) [int32 0, int32 0] 2 [int32 4, int32 8]] =
    Call (''tl.npuir_'' @ ''mul'') [a, b, d] \<and> wf_arg a \<and> wf_arg b \<and> wf_arg d \<and>
    arg_access a \<in> {0, 1} \<and> arg_access b \<in> {0, 1} \<and> arg_access d \<in> {0, 2}"
proof -
  have "npuir_mul demo_env (DBuffer (buf2 ''A'' 4 8)) (DInt 3) (DBuffer (buf2 ''C'' 4 8)) =
    Inr (Call ''tl.npuir_mul'' [ARegion (buf2 ''A'' 4 8) [int32 0, int32 0] 1 [int32 4, int32 8],
      AExpr (IntImm ''float16'' 3), ARegion (buf2 ''C'' 4 8) [int32 0, int32 0] 2 [int32 4, int32 8]])"
    by code_simp
  then show ?thesis
    by (intro npuir_binary_calls [of "''mul''" _ demo_env "DBuffer (buf2 ''A'' 4 8)" "DInt 3"
          "DBuffer (buf2 ''C'' 4 8)"]) (simp_all add: wf_data_def)
qed

text \<open>
  A reduction with an explicit size reads the region of that size and writes the region
  in which the reduced extents are one; it reports the axes as given, and it leaves the
  reduced extents in the caller's list.
\<close>

theorem npuir_reduce_with_size:
  assumes "dims \<noteq> []" and "\<forall>i \<in> set dims. 0 \<le> i \<and> i < int (length s)"
    and "rmode \<in> set valid_reduce_mode - {''abssum'', ''absmax''}"
  shows "npuir_reduce E mode tmp (DBuffer src) (DBuffer dst) (DimList dims) rmode (Some s) True =
    Inr ([Call ''tl.npuir_reduce''
        [ARegion src (map (\<lambda>_. int32 0) (buf_shape src)) 1 s,
         ARegion dst (map (\<lambda>_. int32 0) (buf_shape dst)) 2 (with_ones dims s),
         AStr (join_comma (map str_int dims)), AStr rmode]],
      Some (with_ones dims s))"
  using assms
  by (auto simp: npuir_reduce_def reduce_calls_def Let_def dims_list_def size_or_extent_def
      rfold_py_set intrin_def)

theorem npuir_reduce_with_size_witness:
  "npuir_reduce demo_env None ''tmp'' (DBuffer (buf2 ''A'' 4 8)) (DBuffer (buf2 ''B'' 4 1)) (DimList [1])
     ''max'' (Some [int32 4, int32 8]) True =
   Inr ([Call ''tl.npuir_reduce''
       [ARegion (buf2 ''A'' 4 8) [int32 0, int32 0] 1 [int32 4, int32 8],
        ARegion (buf2 ''B'' 4 1) [int32 0, int32 0] 2 [int32 4, int32 1],
        AStr ''1'', AStr ''max'']], Some [int32 4, int32 1])"
proof -
  have "with_ones [1] [int32 4, int32 8] = [int32 4, int32 1]" by code_simp
  moreover have "join_comma (map str_int [1]) = ''1''" by code_simp
  moreover have "''max'' \<in> set valid_reduce_mode - {''abssum'', ''absmax''}"
    by (simp add: valid_reduce_mode_def)
  ultimately show ?thesis
    using npuir_reduce_with_size [of "[1]" "[int32 4, int32 8]" "''max''" demo_env None "''tmp''"
        "buf2 ''A'' 4 8" "buf2 ''B'' 4 1"] by (simp add: buf2_def)
qed

text \<open>
  What the emitted calls do to the buffers, for any meaning of the element-wise operations and of the
  reduction.  A call counts only if it reads and writes whole buffers, with the access codes to match.
\<close>

record 'v tile_ops =
  op_abs :: "'v \<Rightarrow> 'v"
  op_reduce :: "string \<Rightarrow> string \<Rightarrow> 'v \<Rightarrow> 'v"
  op_binary :: "string \<Rightarrow> 'v \<Rightarrow> 'v \<Rightarrow> 'v"

definition whole :: "nat \<Rightarrow> arg \<Rightarrow> buf option" where
  "whole code a =
     (case a of
        ARegion b mins c ext \<Rightarrow>
          (if c = code \<and> mins = map (\<lambda>_. int32 0) (buf_shape b) \<and> ext = buf_shape b then Some b else None)
      | _ \<Rightarrow> None)"

definition text_of :: "arg \<Rightarrow> string option" where
  "text_of a = (case a of AStr t \<Rightarrow> Some t | _ \<Rightarrow> None)"

definition exec_call :: "'v tile_ops \<Rightarrow> call \<Rightarrow> (buf \<Rightarrow> 'v) \<Rightarrow> (buf \<Rightarrow> 'v) option" where
  "exec_call ops c mem =
     (let op = call_op c; as = call_args c in
      if op = ''tl.npuir_abs'' \<and> length as = 2 then
        Option.bind (whole 1 (as ! 0)) (\<lambda>x. Option.bind (whole 2 (as ! 1)) (\<lambda>y.
          Some (mem(y := op_abs ops (mem x)))))
      else if op = ''tl.npuir_reduce'' \<and> length as = 4 then
        Option.bind (whole 1 (as ! 0)) (\<lambda>x. Option.bind (whole 2 (as ! 1)) (\<lambda>y.
        Option.bind (text_of (as ! 2)) (\<lambda>dims. Option.bind (text_of (as ! 3)) (\<lambda>m.
          Some (mem(y := op_reduce ops dims m (mem x)))))))
      else if take 9 op = ''tl.npuir_'' \<and> drop 9 op \<in> {''add'', ''max'', ''min''} \<and> length as = 3 then
        Option.bind (whole 1 (as ! 0)) (\<lambda>x. Option.bind (whole 1 (as ! 1)) (\<lambda>y. Option.bind (whole 2 (as ! 2)) (\<lambda>z.
          Some (mem(z := op_binary ops (drop 9 op) (mem x) (mem y))))))
      else None)"

fun exec_calls :: "'v tile_ops \<Rightarrow> call list \<Rightarrow> (buf \<Rightarrow> 'v) \<Rightarrow> (buf \<Rightarrow> 'v) option" where
  "exec_calls ops [] mem = Some mem"
| "exec_calls ops (c # cs) mem = Option.bind (exec_call ops c mem) (exec_calls ops cs)"

lemma exec_calls_append:
  "exec_calls ops (as @ bs) mem = Option.bind (exec_calls ops as mem) (exec_calls ops bs)"
proof (induction as arbitrary: mem)
  case (Cons a as)
  then show ?case by (cases "exec_call ops a mem") simp_all
qed simp

definition whole_region :: "nat \<Rightarrow> buf \<Rightarrow> arg" where
  "whole_region code b = ARegion b (map (\<lambda>_. int32 0) (buf_shape b)) code (buf_shape b)"

lemma whole_region_iff [simp]: "whole code (whole_region c b) = (if c = code then Some b else None)"
  by (simp add: whole_def whole_region_def)

lemma exec_abs:
  "exec_call ops (Call ''tl.npuir_abs'' [whole_region 1 x, whole_region 2 y]) mem = Some (mem(y := op_abs ops (mem x)))"
  by (simp add: exec_call_def Let_def)

lemma exec_reduce:
  "exec_call ops (Call ''tl.npuir_reduce'' [whole_region 1 x, whole_region 2 y, AStr dims, AStr m]) mem =
     Some (mem(y := op_reduce ops dims m (mem x)))"
  by (simp add: exec_call_def text_of_def Let_def)

lemma exec_binary:
  "bop \<in> {''add'', ''max'', ''min''} \<Longrightarrow>
   exec_call ops (Call (''tl.npuir_'' @ bop) [whole_region 1 x, whole_region 1 y, whole_region 2 z]) mem =
     Some (mem(z := op_binary ops bop (mem x) (mem y)))"
  by (auto simp: exec_call_def Let_def)

lemmas exec_whole = exec_abs [unfolded One_nat_def] exec_reduce [unfolded One_nat_def]

lemma binary_op_whole:
  "binary_op E bop (DBuffer x) (DBuffer y) (DBuffer z) =
     Inr (Call (''tl.npuir_'' @ bop) [whole_region 1 x, whole_region 1 y, whole_region 2 z])"
  by (simp add: binary_op_def intrin_def whole_region_def)

lemma unary_op_whole:
  "unary_op E op (DBuffer x) (DBuffer y) = Inr (Call (''tl.npuir_'' @ op) [whole_region 1 x, whole_region 2 y])"
  by (simp add: unary_op_def regions_def intrin_def whole_region_def)

text \<open>The reduction proper: one call, or a reduction into a temporary and its combination with the output.\<close>

lemma reduce_calls_whole:
  assumes "length (buf_shape src) = length (buf_shape dst)" and "dims \<noteq> []"
    and "(m, bop) \<in> {(''sum'', ''add''), (''max'', ''max''), (''min'', ''min'')}"
  obtains t where "buf_name t = tmp" and "buf_shape t = buf_shape dst" and "buf_dtype t = buf_dtype dst"
    and "reduce_calls E mode tmp (DBuffer src) (DBuffer dst) (DimList dims) m None clear =
      Inr (let red = (\<lambda>d. Call ''tl.npuir_reduce''
                 [whole_region 1 src, whole_region 2 d, AStr (join_comma (map str_int dims)), AStr m]) in
           if clear then [red dst]
           else [red t, Call (''tl.npuir_'' @ bop) [whole_region 1 dst, whole_region 1 t, whole_region 2 dst]], None)"
proof -
  define t where "t = (if expert_mode mode then alloc_ub tmp (buf_shape dst) (buf_dtype dst)
      else alloc_shared tmp (buf_shape dst) (buf_dtype dst) ''shared.dyn'')"
  have t: "buf_name t = tmp" "buf_shape t = buf_shape dst" "buf_dtype t = buf_dtype dst"
    by (simp_all add: t_def alloc_ub_def alloc_shared_def alloc_buffer_def Let_def)
  have tmp: "(if expert_mode mode then get_tmp_buffer_exp tmp (DBuffer dst)
      else get_tmp_buffer_dev tmp (DBuffer dst)) = Inr t"
    by (simp add: t_def get_tmp_buffer_exp_def get_tmp_buffer_dev_def)
  show thesis
    by (rule that [OF t]) (use assms t in \<open>auto simp: reduce_calls_def Let_def dims_list_def size_or_extent_def tmp
        binary_op_whole intrin_def whole_region_def valid_reduce_mode_def valid_reduce_clear_false_mode_def
        reduce_op_for_clear_map_def\<close>)
qed


text \<open>An example: matrices as lists of rows, reduced along the second axis.\<close>

definition demo_ops :: "int list list tile_ops" where
  "demo_ops = \<lparr>op_abs = map (map abs),
     op_reduce = (\<lambda>dims m rows. if m = ''sum'' then map (\<lambda>r. [sum_list r]) rows else map (\<lambda>r. [Max (set r)]) rows),
     op_binary = (\<lambda>bop. map2 (map2 (if bop = ''add'' then (+) else if bop = ''max'' then max else min)))\<rparr>"

definition demo_mem :: "buf \<Rightarrow> int list list" where
  "demo_mem b = (if buf_name b = ''A'' then [[1, -2], [3, -4]] else [[10], [20]])"


text \<open>
  A matrix product with an explicit size covers matching regions: A is m by k, B is k by
  n and C is m by n, each transposed operand with its two extents exchanged; the accumulator
  is read and written. A size that is not a triple is refused.
\<close>

theorem npuir_dot_extents:
  "npuir_dot E (DBuffer a) (DBuffer b) (DBuffer c) (Some [m, k, n]) init ta tb =
     Inr (Call ''tl.npuir_dot''
       [ARegion a (map (\<lambda>_. int32 0) (buf_shape a)) 1 (if ta then rev [m, k] else [m, k]),
        ARegion b (map (\<lambda>_. int32 0) (buf_shape b)) 1 (if tb then rev [k, n] else [k, n]),
        ARegion c (map (\<lambda>_. int32 0) (buf_shape c)) 3 [m, n], ABool init, ABool ta, ABool tb]) \<and>
   (npuir_dot E A B C (Some sz) init ta tb = Inl AssertionError \<or> length sz = 3)"
  by (auto simp: npuir_dot_def regions_def intrin_def split: list.splits)

text \<open>
  Padding is accepted exactly when at most one dimension is padded, and the call then
  names that dimension (or -1); with two padded dimensions it is refused.
\<close>

theorem npuir_pad_one_dimension:
  assumes "length (buf_shape a) = length (buf_shape b)" and "length low = length (buf_shape a)"
    and "length high = length (buf_shape a)"
  shows "if length (filter (is_padded E) (zip low high)) \<le> 1
    then \<exists>c. npuir_pad E (DBuffer a) (DBuffer b) v low high None = Inr c \<and>
      call_args c ! 3 = AInt (first_padded E (zip low high))
    else npuir_pad E (DBuffer a) (DBuffer b) v low high None = Inl ValueError"
proof -
  have dim: "pad_dim pad_init = -1" by (simp add: pad_init_def)
  have fp: "\<not> list_ex (is_padded E) ps \<Longrightarrow> first_padded E ps = -1" for ps
    by (simp add: first_padded_def)
  show ?thesis
    using pad_loop_before [OF dim, where idx = 0 and ps = "zip low high" and E = E] assms
    by (auto simp: npuir_pad_def Let_def assign_into_empty_def size_or_extent_def regions_def
        intrin_def fp split: if_splits)
qed

theorem npuir_pad_one_dimension_witness:
  "npuir_pad demo_env (DBuffer (buf2 ''A'' 4 8)) (DBuffer (buf2 ''B'' 4 8)) (DInt 0)
     [int32 1, int32 0] [int32 0, int32 2] None = Inl ValueError \<and>
   (\<exists>c. npuir_pad demo_env (DBuffer (buf2 ''A'' 4 8)) (DBuffer (buf2 ''B'' 4 10)) (DInt 0)
     [int32 0, int32 0] [int32 0, int32 2] None = Inr c \<and> call_args c ! 3 = AInt 1)"
proof -
  have "length (filter (is_padded demo_env) (zip [int32 1, int32 0] [int32 0, int32 2])) = 2"
    and "length (filter (is_padded demo_env) (zip [int32 0, int32 0] [int32 0, int32 2])) = 1"
    and "first_padded demo_env (zip [int32 0, int32 0] [int32 0, int32 2]) = 1"
    by code_simp+
  then show ?thesis
    using npuir_pad_one_dimension [of "buf2 ''A'' 4 8" "buf2 ''B'' 4 8" "[int32 1, int32 0]"
        "[int32 0, int32 2]" demo_env "DInt 0"]
      npuir_pad_one_dimension [of "buf2 ''A'' 4 8" "buf2 ''B'' 4 10" "[int32 0, int32 0]"
        "[int32 0, int32 2]" demo_env "DInt 0"]
    by (simp add: buf2_def)
qed

text \<open>
  Broadcasting one buffer to another is accepted exactly when the ranks agree and every
  source extent is one or equal to the target's; the call then reads the whole source and
  writes the whole target, and in all other cases the assertion fails.
\<close>

theorem npuir_brc_shapes:
  "npuir_brc E (DBuffer a) (DBuffer b) =
     (if list_all2 (\<lambda>s d. expr_eq E s (int32 1) \<or> expr_eq E s d) (buf_shape a) (buf_shape b)
      then Inr (Call ''tl.npuir_brc''
        [if buf_shape a = [] then AData (DBuffer a)
         else ARegion a (map (\<lambda>_. int32 0) (buf_shape a)) 1 (buf_shape a),
         ARegion b (map (\<lambda>_. int32 0) (buf_shape b)) 2 (buf_shape b)])
      else Inl AssertionError)"
proof -
  have "length ss = length ds \<Longrightarrow> broadcast_check E ss ds =
      (if list_all2 (\<lambda>s d. expr_eq E s (int32 1) \<or> expr_eq E s d) ss ds then Inr ()
       else Inl AssertionError)" for ss ds
    by (induction ss ds rule: list_induct2) (auto simp: guard_def)
  then show ?thesis
    by (auto simp: npuir_brc_def Let_def is_prim_expr_def intrin_def guard_def
        dest: list_all2_lengthD)
qed

text \<open>
  The cumulative sum along an axis counted from either end: an axis is accepted exactly
  when it lies strictly between minus the rank and the rank, and it is passed on modulo the
  rank. The first axis written as minus the rank is refused.
\<close>

theorem npuir_cumsum_axes:
  "npuir_cumsum E src dst axis reverse =
     (if - int (length (buf_shape src)) < axis \<and> axis < int (length (buf_shape src))
      then Inr (Call ''tl.npuir_cumsum''
        [ARegion src (map (\<lambda>_. int32 0) (buf_shape src)) 1 (buf_shape src),
         (case dst of None \<Rightarrow> ARegion src (map (\<lambda>_. int32 0) (buf_shape src)) 2 (buf_shape src)
          | Some d \<Rightarrow> ARegion d (map (\<lambda>_. int32 0) (buf_shape d)) 2 (buf_shape d)),
         AStr (str_int (axis mod int (length (buf_shape src)))), ABool reverse])
      else Inl ValueError)"
proof -
  have "(if axis < 0 then n + axis else axis) = axis mod n" if "- n < axis" "axis < n" for n :: int
  proof (cases "axis < 0")
    case True
    have "axis mod n = (axis + n) mod n" by simp
    also have "\<dots> = axis + n" using True that by (intro mod_pos_pos_trivial) simp_all
    finally show ?thesis using True by simp
  qed (use that in simp)
  then show ?thesis
    by (auto simp: npuir_cumsum_def Let_def regions_def intrin_def split: option.splits)
qed

text \<open>
  Concatenating two buffers along the first axis with an explicit size describes the
  second source wrongly: the list of extents is shared with the target and scaled after the
  first source, so the second source's region has twice its rows, and the caller's list is
  changed.
\<close>

theorem npuir_concat_shares_size:
  assumes "expr_times E h 2 = h2"
  shows "npuir_concat E [DBuffer a, DBuffer b] (DBuffer c) 0 (Some [h, w]) =
    Inr (Call ''tl.npuir_concat''
      [AInt 0, ARegion c (map (\<lambda>_. int32 0) (buf_shape c)) 2 [h2, w],
       ARegion a (map (\<lambda>_. int32 0) (buf_shape a)) 1 [h, w],
       ARegion b (map (\<lambda>_. int32 0) (buf_shape b)) 1 [h2, w]], Some [h2, w])"
  using assms by (simp add: npuir_concat_def size_or_extent_def intrin_def numeral_2_eq_2)

theorem npuir_concat_shares_size_witness:
  "npuir_concat demo_env [DBuffer (buf2 ''A'' 4 8), DBuffer (buf2 ''B'' 4 8)] (DBuffer (buf2 ''C'' 8 8)) 0
     (Some [int32 4, int32 8]) =
   Inr (Call ''tl.npuir_concat''
     [AInt 0, ARegion (buf2 ''C'' 8 8) (map (\<lambda>_. int32 0) (buf_shape (buf2 ''C'' 8 8))) 2 [int32 8, int32 8],
      ARegion (buf2 ''A'' 4 8) (map (\<lambda>_. int32 0) (buf_shape (buf2 ''A'' 4 8))) 1 [int32 4, int32 8],
      ARegion (buf2 ''B'' 4 8) (map (\<lambda>_. int32 0) (buf_shape (buf2 ''B'' 4 8))) 1 [int32 8, int32 8]],
     Some [int32 8, int32 8])"
  by (rule npuir_concat_shares_size) (simp add: demo_env_def)

text \<open>
  Transposing or padding with an explicit non-empty size always fails, whatever the
  operands: the target extents are assigned into an empty list.
\<close>

theorem transpose_pad_with_size_fail:
  "npuir_transpose E src dst perm (Some (e # es)) = Inl IndexError \<and>
   npuir_pad E src dst v low high (Some (e # es)) = Inl IndexError"
  by (simp add: npuir_transpose_def npuir_pad_def Let_def assign_into_empty_def)

end
