(* ===== verification/Frames.thy ===== *)
theory Frames
  imports TileRegion
begin

text \<open>
  The frame stacks of the language front end: the kernel launch frames of
  \<^verbatim>\<open>language/kernel.py\<close> and the resource frames at the end of
  \<^verbatim>\<open>language/customize_npuir.py\<close>, with the synchronisation calls that read the current frame.
  The stacks are thread local; a state here is the state of one thread.

  The frames that \<^verbatim>\<open>KernelLaunch\<close> creates come from the C++ side; here they are given as a
  list of launch frames (a variable and an extent), loop frames and the final block frame.
  The locale \<open>frame_stack\<close> is what entering and leaving a frame relies on; it is interpreted
  on the kernel stack, on the resource stack and on the let stack.
\<close>

section \<open>The stack\<close>

text \<open>\<^verbatim>\<open>FrameStack\<close>: a deque whose right end is the top.\<close>

definition fs_push :: "'f \<Rightarrow> 'f list \<Rightarrow> 'f list" where
  "fs_push item s = s @ [item]"

definition fs_pop :: "'f list \<Rightarrow> ('f \<times> 'f list) res" where
  "fs_pop s = (if s \<noteq> [] then Inr (last s, butlast s) else Inl IndexError)"

definition fs_top :: "'f list \<Rightarrow> 'f res" where
  "fs_top s = (if s \<noteq> [] then Inr (last s) else Inl IndexError)"

definition fs_size :: "'f list \<Rightarrow> nat" where
  "fs_size s = length s"

text \<open>\<^verbatim>\<open>stack.top() if stack else None\<close>.\<close>

definition fs_current :: "'f list \<Rightarrow> 'f option" where
  "fs_current s = (if s \<noteq> [] then Some (last s) else None)"

section \<open>Kernel launch frames\<close>

datatype sub_frame =
    LaunchFrame (sf_var: string) (sf_extent: int)
  | ForFrame "string list"
  | BlockFrame bool bool

record kernel_frame =
  kf_id :: nat
  kf_frames :: "sub_frame list"

definition iter_var :: "sub_frame \<Rightarrow> (string \<times> int) res" where
  "iter_var f = (case f of LaunchFrame v e \<Rightarrow> Inr (v, e) | _ \<Rightarrow> Inl AttributeError)"

definition frame_var :: "sub_frame \<Rightarrow> string res" where
  "frame_var f = rbind (iter_var f) (\<lambda>(v, _). Inr v)"

definition for_var :: "sub_frame \<Rightarrow> string res" where
  "for_var f =
     (case f of ForFrame (v # _) \<Rightarrow> Inr v | ForFrame [] \<Rightarrow> Inl IndexError | _ \<Rightarrow> Inl AttributeError)"

text \<open>\<^verbatim>\<open>frames[0:-n]\<close>, and \<^verbatim>\<open>frames[-4:-1]\<close>.\<close>

definition drop_last :: "nat \<Rightarrow> 'a list \<Rightarrow> 'a list" where
  "drop_last n xs = take (length xs - n) xs"

datatype entered = OneVar string | VarList "string list"

definition kernel_enter :: "kernel_frame \<Rightarrow> kernel_frame list \<Rightarrow> (entered \<times> kernel_frame list) res" where
  "kernel_enter self s =
     (let frames = kf_frames self; s' = fs_push self s
      in if length frames = 5
         then rbind (py_nth frames 0) (\<lambda>f. rbind (frame_var f) (\<lambda>v. Inr (OneVar v, s')))
         else rbind (py_nth frames (-1)) (\<lambda>last_block_frame.
           case last_block_frame of
             BlockFrame maybe_cpu maybe_npu \<Rightarrow>
               if maybe_cpu
               then rbind (rmap for_var (drop_last 1 frames)) (\<lambda>vs. Inr (VarList vs, s'))
               else if maybe_npu
               then rbind (rmap frame_var (drop_last 1 frames)) (\<lambda>vs. Inr (VarList vs, s'))
               else rbind (rmap frame_var (drop_last 4 frames)) (\<lambda>vs. Inr (VarList vs, s'))
           | _ \<Rightarrow> Inl AssertionError))"

definition kernel_exit :: "nat \<Rightarrow> kernel_frame list \<Rightarrow> kernel_frame list res" where
  "kernel_exit self s =
     rbind (fs_top s) (\<lambda>f. if kf_id f = self then rbind (fs_pop s) (\<lambda>(_, s'). Inr s') else Inr s)"

definition get_block_extent :: "kernel_frame \<Rightarrow> int \<Rightarrow> int res" where
  "get_block_extent k axis =
     rbind (py_nth (kf_frames k) axis) (\<lambda>f. rbind (iter_var f) (\<lambda>(_, e). Inr e))"

definition get_block_extents :: "kernel_frame \<Rightarrow> int list res" where
  "get_block_extents k = rmap (get_block_extent k) [0, 1, 2]"

definition get_thread_extent :: "kernel_frame \<Rightarrow> int \<Rightarrow> int res" where
  "get_thread_extent k axis =
     rbind (py_nth (kf_frames k) (- 4 + axis)) (\<lambda>f. rbind (iter_var f) (\<lambda>(_, e). Inr e))"

definition get_thread_extents :: "kernel_frame \<Rightarrow> int list res" where
  "get_thread_extents k = rmap (get_thread_extent k) [0, 1, 2]"

definition get_thread_binding :: "kernel_frame \<Rightarrow> int \<Rightarrow> string res" where
  "get_thread_binding k axis = rbind (py_nth (kf_frames k) (- 4 + axis)) frame_var"

definition get_thread_bindings :: "kernel_frame \<Rightarrow> string list res" where
  "get_thread_bindings k = rmap frame_var (drop_last 1 (py_last_n 4 (kf_frames k)))"

definition get_num_threads :: "kernel_frame \<Rightarrow> int res" where
  "get_num_threads k =
     rfold (\<lambda>thread_dim n. rbind (get_thread_extent k thread_dim) (\<lambda>e. Inr (n * e))) [0, 1, 2] 1"

definition get_block_binding :: "kernel_frame \<Rightarrow> int \<Rightarrow> string res" where
  "get_block_binding k axis = rbind (py_nth (kf_frames k) axis) frame_var"

definition get_block_bindings :: "kernel_frame \<Rightarrow> string list res" where
  "get_block_bindings k = rmap frame_var (drop_last 4 (kf_frames k))"

definition kernel_blocks :: "kernel_frame \<Rightarrow> string list res" where
  "kernel_blocks k = rmap frame_var (drop_last 4 (kf_frames k))"

definition kernel_threads :: "kernel_frame \<Rightarrow> string list res" where
  "kernel_threads k = rmap frame_var (py_last_n 4 (kf_frames k))"

text \<open>The module-level accessors read the current frame; without one they raise.\<close>

definition with_current :: "'f list \<Rightarrow> ('f \<Rightarrow> 'a res) \<Rightarrow> 'a res" where
  "with_current s f = (case fs_current s of None \<Rightarrow> Inl AttributeError | Some k \<Rightarrow> f k)"

text \<open>The arguments of \<^verbatim>\<open>T.Kernel\<close>, and what it passes to the launcher.\<close>

datatype threads_arg = ThreadsNone | ThreadsInt int | ThreadsSeq "int list"

record launch =
  l_blocks :: "expr list"
  l_threads :: threads_arg
  l_is_npu :: bool
  l_is_cpu :: bool
  l_prelude :: "string option"

definition Kernel :: "expr list \<Rightarrow> threads_arg \<Rightarrow> bool \<Rightarrow> string option \<Rightarrow> bool \<Rightarrow> launch res" where
  "Kernel blocks threads is_cpu prelude is_npu =
     (if is_npu then
        rbind (guard AssertionError (length blocks \<le> 2)) (\<lambda>_.
          Inr \<lparr>l_blocks = blocks,
               l_threads = threads, l_is_npu = True, l_is_cpu = False, l_prelude = None\<rparr>)
      else
        let threads1 = (if \<not> is_cpu \<and> threads = ThreadsNone then ThreadsInt 128 else threads)
        in rbind (case threads1 of
                    ThreadsInt n \<Rightarrow> Inr (ThreadsSeq [n, 1, 1])
                  | ThreadsSeq ts \<Rightarrow> Inr (ThreadsSeq (ts @ replicate (3 - length ts) 1))
                  | ThreadsNone \<Rightarrow> rbind (guard AssertionError is_cpu) (\<lambda>_. Inr ThreadsNone)) (\<lambda>threads2.
             Inr \<lparr>l_blocks = blocks, l_threads = threads2, l_is_npu = False, l_is_cpu = is_cpu,
                  l_prelude = prelude\<rparr>))"

section \<open>Resource frames and synchronisation\<close>

record resource_frame =
  rf_id :: nat
  rf_name :: string

definition resource_enter :: "resource_frame \<Rightarrow> resource_frame list \<Rightarrow> resource_frame list" where
  "resource_enter self s = fs_push self s"

definition resource_exit :: "nat \<Rightarrow> resource_frame list \<Rightarrow> resource_frame list res" where
  "resource_exit self s =
     rbind (fs_top s) (\<lambda>f. if rf_id f = self then rbind (fs_pop s) (\<lambda>(_, s'). Inr s') else Inr s)"

definition rf_set :: "resource_frame \<Rightarrow> string \<Rightarrow> int \<Rightarrow> call" where
  "rf_set self other event_id = Call ''tl.npuir_set_flag'' [AStr (rf_name self), AStr other, AInt event_id]"

definition rf_wait :: "resource_frame \<Rightarrow> string \<Rightarrow> int \<Rightarrow> call" where
  "rf_wait self other event_id = Call ''tl.npuir_wait_flag'' [AStr other, AStr (rf_name self), AInt event_id]"

definition rf_block_barrier :: "resource_frame \<Rightarrow> int \<Rightarrow> call" where
  "rf_block_barrier self i = Call ''tl.npuir_sync_block'' [AInt 0, AStr (rf_name self), AInt i]"

definition rf_subblock_barrier :: "resource_frame \<Rightarrow> int \<Rightarrow> call" where
  "rf_subblock_barrier self i = Call ''tl.npuir_sync_block'' [AInt 1, AStr (rf_name self), AInt i]"

definition rf_sync_block_set :: "resource_frame \<Rightarrow> int \<Rightarrow> call" where
  "rf_sync_block_set self i = Call ''tl.npuir_sync_block_set'' [AInt 2, AStr (rf_name self), AInt i]"

definition rf_sync_block_wait :: "resource_frame \<Rightarrow> int \<Rightarrow> call" where
  "rf_sync_block_wait self i = Call ''tl.npuir_sync_block_wait'' [AStr (rf_name self), AInt i]"

definition set_flag :: "resource_frame list \<Rightarrow> string \<Rightarrow> int \<Rightarrow> call res" where
  "set_flag s other event_id = with_current s (\<lambda>f. Inr (rf_set f other event_id))"

definition wait_flag :: "resource_frame list \<Rightarrow> string \<Rightarrow> int \<Rightarrow> call res" where
  "wait_flag s other event_id = with_current s (\<lambda>f. Inr (rf_wait f other event_id))"

definition pipe_barrier :: "string \<Rightarrow> call" where
  "pipe_barrier pipe = Call ''tl.npuir_pipe_barrier'' [AStr pipe]"

definition block_barrier :: "resource_frame list \<Rightarrow> int \<Rightarrow> call res" where
  "block_barrier s i = with_current s (\<lambda>f. Inr (rf_block_barrier f i))"

definition subblock_barrier :: "resource_frame list \<Rightarrow> int \<Rightarrow> call res" where
  "subblock_barrier s i = with_current s (\<lambda>f. Inr (rf_subblock_barrier f i))"

definition sync_block_set :: "resource_frame list \<Rightarrow> int \<Rightarrow> call res" where
  "sync_block_set s i = with_current s (\<lambda>f. Inr (rf_sync_block_set f i))"

definition sync_block_wait :: "resource_frame list \<Rightarrow> int \<Rightarrow> call res" where
  "sync_block_wait s i = with_current s (\<lambda>f. Inr (rf_sync_block_wait f i))"

section \<open>The contract of a frame stack\<close>

text \<open>
  What entering and leaving a frame needs of a stack: the frame pushed last is on top, and
  popping it restores the state, provided the state admitted the frame.
\<close>

locale frame_stack =
  fixes push :: "'f \<Rightarrow> 's \<Rightarrow> 's" and pop :: "'s \<Rightarrow> ('f \<times> 's) res" and top :: "'s \<Rightarrow> 'f res"
    and ident :: "'f \<Rightarrow> nat" and admits :: "'f \<Rightarrow> 's \<Rightarrow> bool"
  assumes top_push: "top (push f s) = Inr f"
    and pop_push: "admits f s \<Longrightarrow> pop (push f s) = Inr (f, s)"
begin

text \<open>Leaving a frame: only the frame on top is removed.\<close>

definition leave :: "nat \<Rightarrow> 's \<Rightarrow> 's res" where
  "leave i s = rbind (top s) (\<lambda>f. if ident f = i then rbind (pop s) (\<lambda>(_, s'). Inr s') else Inr s)"

fun all_admitted :: "'f list \<Rightarrow> 's \<Rightarrow> bool" where
  "all_admitted [] s = True"
| "all_admitted (f # fs) s = (admits f s \<and> all_admitted fs (push f s))"

lemma leave_push: "admits f s \<Longrightarrow> leave (ident f) (push f s) = Inr s"
  by (simp add: leave_def top_push pop_push)

lemma leave_other: "ident f \<noteq> i \<Longrightarrow> leave i (push f s) = Inr (push f s)"
  by (simp add: leave_def top_push)

text \<open>Frames left in the reverse order of their entry restore the state.\<close>

lemma nested_restore:
  "all_admitted fs s \<Longrightarrow> rfold leave (map ident (rev fs)) (fold push fs s) = Inr s"
proof (induction fs arbitrary: s)
  case Nil
  then show ?case by simp
next
  case (Cons f fs)
  then have "rfold leave (map ident (rev fs)) (fold push fs (push f s)) = Inr (push f s)" by simp
  with Cons.prems show ?case by (simp add: rfold_append leave_push)
qed

end

interpretation kernel_stack: frame_stack fs_push fs_pop fs_top kf_id "\<lambda>_ _. True"
  by unfold_locales (simp_all add: fs_push_def fs_pop_def fs_top_def)

interpretation resource_stack: frame_stack fs_push fs_pop fs_top rf_id "\<lambda>_ _. True"
  by unfold_locales (simp_all add: fs_push_def fs_pop_def fs_top_def)

interpretation let_frames: frame_stack ls_push ls_pop ls_top lf_id
  "\<lambda>f s. lf_var f \<notin> dom (ls_map s)"
  by unfold_locales (simp_all add: ls_pop_push, simp add: ls_top_def ls_push_def)

lemma kernel_frames_admitted: "kernel_stack.all_admitted ks s"
  by (induction ks arbitrary: s) simp_all

lemma resource_frames_admitted: "resource_stack.all_admitted fs s"
  by (induction fs arbitrary: s) simp_all

lemma kernel_exit_leave: "kernel_exit = kernel_stack.leave"
  by (simp add: fun_eq_iff kernel_exit_def kernel_stack.leave_def)

lemma resource_exit_leave: "resource_exit = resource_stack.leave"
  by (simp add: fun_eq_iff resource_exit_def resource_stack.leave_def)

lemma let_exit_leave: "let_exit = let_frames.leave"
  by (simp add: fun_eq_iff let_exit_def let_frames.leave_def)

section \<open>Launch frames\<close>

lemma rmap_frame_var: "rmap frame_var (map (\<lambda>(v, e). LaunchFrame v e) bs) = Inr (map fst bs)"
  by (induction bs) (auto simp: frame_var_def iter_var_def)

text \<open>The frames of a GPU kernel: the grid, three thread dimensions and the block.\<close>

definition gpu_frame :: "nat \<Rightarrow> (string \<times> int) list \<Rightarrow> (string \<times> int) list \<Rightarrow> kernel_frame" where
  "gpu_frame i blocks threads =
     \<lparr>kf_id = i, kf_frames = map (\<lambda>(v, e). LaunchFrame v e) (blocks @ threads) @ [BlockFrame False False]\<rparr>"

section \<open>Properties\<close>

text \<open>
  Frames nest: entering resource frames and leaving them in the reverse order restores
  the stack, in between the flags are set for the frame entered last, and outside every
  frame setting a flag fails. The same holds of kernel frames, and of let frames whose
  variables are new.
\<close>

theorem frames_nest:
  "rfold resource_exit (map rf_id (rev fs)) (fold resource_enter fs s) = Inr s \<and>
   set_flag (fold resource_enter (fs @ [f]) s) other e =
     Inr (Call ''tl.npuir_set_flag'' [AStr (rf_name f), AStr other, AInt e]) \<and>
   wait_flag (fold resource_enter (fs @ [f]) s) other e =
     Inr (Call ''tl.npuir_wait_flag'' [AStr other, AStr (rf_name f), AInt e]) \<and>
   set_flag [] other e = Inl AttributeError \<and>
   rfold kernel_exit (map kf_id (rev ks)) (fold fs_push ks s') = Inr s' \<and>
   (if let_frames.all_admitted ls t
    then rfold let_exit (map lf_id (rev ls)) (fold ls_push ls t) = Inr t else True)"
proof -
  have enter: "resource_enter = fs_push" by (simp add: fun_eq_iff resource_enter_def)
  show ?thesis
    unfolding kernel_exit_leave resource_exit_leave let_exit_leave enter
    using kernel_stack.nested_restore [OF kernel_frames_admitted, of ks s']
      resource_stack.nested_restore [OF resource_frames_admitted, of fs s]
      let_frames.nested_restore [of ls t]
    by (simp add: set_flag_def wait_flag_def with_current_def fs_current_def fs_push_def
        rf_set_def rf_wait_def)
qed

text \<open>
  The geometry of a GPU kernel frame: entering it returns the variables of the grid (a
  single variable for a one-dimensional grid), the number of threads is the product of the
  three thread extents, and the thread bindings are the three thread variables. The property
  \<^verbatim>\<open>threads\<close> fails on every such frame, because it includes the block frame, and for a
  one-dimensional grid the block extents of the second and third dimension are those of the
  threads.
\<close>

theorem gpu_kernel_geometry:
  assumes "length ts = 3"
  shows "kernel_enter (gpu_frame i bs ts) s =
      Inr (if length bs = 1 then OneVar (fst (hd bs)) else VarList (map fst bs), s @ [gpu_frame i bs ts]) \<and>
    get_num_threads (gpu_frame i bs ts) = Inr (snd (ts ! 0) * snd (ts ! 1) * snd (ts ! 2)) \<and>
    get_thread_bindings (gpu_frame i bs ts) = Inr (map fst ts) \<and>
    kernel_threads (gpu_frame i bs ts) = Inl AttributeError \<and>
    (length bs = 1 \<longrightarrow>
      get_block_extents (gpu_frame i bs ts) = Inr [snd (hd bs), snd (ts ! 0), snd (ts ! 1)])"
proof -
  obtain x y z where ts: "ts = [x, y, z]"
    using assms by (auto simp: numeral_3_eq_3 length_Suc_conv)
  let ?L = "\<lambda>(v, e). LaunchFrame v e"
  have fv: "frame_var (?L p) = Inr (fst p)" for p
    by (cases p) (simp add: frame_var_def iter_var_def)
  have lt: "py_last_n 4 (kf_frames (gpu_frame i bs ts)) = map ?L ts @ [BlockFrame False False]"
    by (simp add: gpu_frame_def py_last_n_def ts)
  have "kernel_enter (gpu_frame i bs ts) s =
      Inr (if length bs = 1 then OneVar (fst (hd bs)) else VarList (map fst bs), s @ [gpu_frame i bs ts])"
  proof (cases "length bs = 1")
    case True
    then obtain b where "bs = [b]" by (auto simp: length_Suc_conv)
    then show ?thesis by (simp add: kernel_enter_def gpu_frame_def ts py_nth_def fv fs_push_def)
  next
    case False
    have l: "drop_last 4 (kf_frames (gpu_frame i bs ts)) = map ?L bs"
      by (simp add: drop_last_def gpu_frame_def ts)
    have n: "length (kf_frames (gpu_frame i bs ts)) \<noteq> 5"
      using False by (simp add: gpu_frame_def ts)
    have b: "py_nth (kf_frames (gpu_frame i bs ts)) (-1) = Inr (BlockFrame False False)"
      by (simp add: gpu_frame_def py_nth_last)
    show ?thesis using False n by (simp add: kernel_enter_def Let_def b l rmap_frame_var fs_push_def)
  qed
  moreover have "get_num_threads (gpu_frame i bs ts) = Inr (snd (ts ! 0) * snd (ts ! 1) * snd (ts ! 2))"
    by (simp add: get_num_threads_def get_thread_extent_def gpu_frame_def ts py_nth_def nth_append
        iter_var_def case_prod_beta)
  moreover have "get_thread_bindings (gpu_frame i bs ts) = Inr (map fst ts)"
    unfolding get_thread_bindings_def lt by (simp add: drop_last_def rmap_frame_var)
  moreover have "kernel_threads (gpu_frame i bs ts) = Inl AttributeError"
    unfolding kernel_threads_def lt by (simp add: ts fv) (simp add: frame_var_def iter_var_def)
  moreover have "get_block_extents (gpu_frame i bs ts) = Inr [snd (hd bs), snd (ts ! 0), snd (ts ! 1)]"
    if "length bs = 1"
  proof -
    from that obtain b where b: "bs = [b]" by (auto simp: length_Suc_conv)
    then show ?thesis
      by (simp add: get_block_extents_def get_block_extent_def gpu_frame_def ts py_nth_def iter_var_def
          case_prod_beta)
  qed
  ultimately show ?thesis by blast
qed

theorem gpu_kernel_geometry_witness:
  "get_num_threads (gpu_frame 0 [(''bx'', 64)] [(''tx'', 128), (''ty'', 2), (''tz'', 1)]) = Inr 256 \<and>
   get_block_extents (gpu_frame 0 [(''bx'', 64)] [(''tx'', 128), (''ty'', 2), (''tz'', 1)]) =
     Inr [64, 128, 2]"
  using gpu_kernel_geometry [of "[(''tx'', 128), (''ty'', 2), (''tz'', 1)]" 0 "[(''bx'', 64)]" "[]"]
  by simp

end
