(* ===== verification/NodeGraph.thy ===== *)
theory NodeGraph
  imports Prelude
begin

text \<open>
  The graph of operators of \<^verbatim>\<open>carver/roller/node.py\<close>: nodes, edges and the orders in which the
  policies visit them. A node object is its number in the list of nodes, and the two edge
  lists of a node name other nodes by their numbers. Tags are strings with string values.

  The recursive searches carry a fuel argument that bounds the depth of the recursion; a
  search that runs out of it returns \<open>None\<close> (Python would exceed its recursion limit). The
  theorems show that one more than the number of nodes is always enough.
\<close>

section \<open>Nodes and edges\<close>

datatype node_kind = PlainNode | PlaceHolder | PrimFunc | OutputK

record edge =
  e_src :: nat
  e_dst :: nat
  e_src_id :: nat
  e_dst_id :: nat

record gnode =
  n_name :: string
  n_kind :: node_kind
  n_in :: "edge list"
  n_out :: "edge list"
  n_shapes :: "nat list option list"
  n_dtypes :: "string option list"
  n_tags :: "string \<rightharpoonup> string"

type_synonym graph = "gnode list"

definition add_tag :: "string \<Rightarrow> string \<Rightarrow> gnode \<Rightarrow> gnode" where
  "add_tag k v n = n\<lparr>n_tags := (n_tags n)(k \<mapsto> v)\<rparr>"

definition update_tags :: "(string \<times> string) list \<Rightarrow> gnode \<Rightarrow> gnode" where
  "update_tags tags n = fold (\<lambda>(k, v). add_tag k v) tags n"

definition set_tag :: "string \<Rightarrow> string \<Rightarrow> gnode \<Rightarrow> gnode" where
  "set_tag k v n = add_tag k v n"

definition get_tag :: "string \<Rightarrow> gnode \<Rightarrow> string option" where
  "get_tag k n = n_tags n k"

definition is_placeholder :: "gnode \<Rightarrow> bool" where
  "is_placeholder n = (n_kind n = PlaceHolder)"

definition is_output :: "gnode \<Rightarrow> bool" where
  "is_output n = (n_kind n = OutputK)"

definition new_node :: "string \<Rightarrow> node_kind \<Rightarrow> (string \<times> string) list \<Rightarrow> gnode" where
  "new_node name kind tags =
     update_tags tags \<lparr>n_name = name, n_kind = kind, n_in = [], n_out = [], n_shapes = [],
       n_dtypes = [], n_tags = Map.empty\<rparr>"

definition placeholder_node :: "string \<Rightarrow> gnode" where
  "placeholder_node name = new_node (''PlaceHolder_'' @ name) PlaceHolder []"

definition set_inputs :: "nat \<Rightarrow> edge \<Rightarrow> gnode \<Rightarrow> gnode res" where
  "set_inputs i e n =
     rbind (guard AssertionError (i < length (n_in n))) (\<lambda>_. Inr (n\<lparr>n_in := (n_in n)[i := e]\<rparr>))"

definition set_outputs :: "nat \<Rightarrow> edge \<Rightarrow> gnode \<Rightarrow> gnode res" where
  "set_outputs i e n =
     rbind (guard AssertionError (i < length (n_out n))) (\<lambda>_. Inr (n\<lparr>n_out := (n_out n)[i := e]\<rparr>))"

text \<open>Growing a list with \<^verbatim>\<open>None\<close> so that the index exists.\<close>

definition extend_to :: "nat \<Rightarrow> 'a option list \<Rightarrow> 'a option list" where
  "extend_to i xs = (if length xs \<le> i then xs @ replicate (i - length xs + 1) None else xs)"

definition node_dtype :: "gnode \<Rightarrow> nat \<Rightarrow> string option res" where
  "node_dtype n i = (if i < length (n_dtypes n) then Inr (n_dtypes n ! i) else Inl IndexError)"

definition set_dtype :: "string \<Rightarrow> nat \<Rightarrow> gnode \<Rightarrow> gnode res" where
  "set_dtype dtype0 i n =
     (let dtype = (if dtype0 = ''bool'' then ''int8'' else dtype0)
      in rbind (if i < length (n_dtypes n) \<and> n_dtypes n ! i \<noteq> None
                then guard AssertionError (n_dtypes n ! i = Some dtype) else Inr ()) (\<lambda>_.
           Inr (n\<lparr>n_dtypes := (extend_to i (n_dtypes n))[i := Some dtype]\<rparr>)))"

definition node_shape :: "gnode \<Rightarrow> nat \<Rightarrow> nat list option res" where
  "node_shape n i = (if i < length (n_shapes n) then Inr (n_shapes n ! i) else Inl IndexError)"

definition set_shape :: "nat list \<Rightarrow> nat \<Rightarrow> gnode \<Rightarrow> gnode" where
  "set_shape shape i n = n\<lparr>n_shapes := (extend_to i (n_shapes n))[i := Some shape]\<rparr>"

definition num_outputs :: "gnode \<Rightarrow> nat" where
  "num_outputs n =
     (if n_out n = [] then 0 else Max (set (map e_src_id (n_out n))) + 1)"

text \<open>
  Constructing an output node connects it to its producer: the graph grows by one node and
  the producer by one edge.
\<close>

definition add_output_node :: "nat \<Rightarrow> nat \<Rightarrow> graph \<Rightarrow> (nat \<times> graph) res" where
  "add_output_node node i g =
     (if \<not> node < length g then Inl IndexError else
      rbind (guard AssertionError (n_kind (g ! node) = PrimFunc)) (\<lambda>_.
        let self = length g;
            e = \<lparr>e_src = node, e_dst = self, e_src_id = i, e_dst_id = 0\<rparr>;
            out = (new_node ''OutputNode'' OutputK [])\<lparr>n_in := [e]\<rparr>;
            producer = (g ! node)\<lparr>n_out := n_out (g ! node) @ [e]\<rparr>
        in rbind (node_shape (g ! node) i) (\<lambda>shape.
           rbind (case shape of Some s \<Rightarrow> Inr (set_shape s 0 out) | None \<Rightarrow> Inl TypeError) (\<lambda>out1.
           rbind (node_dtype (g ! node) i) (\<lambda>dtype.
           rbind (case dtype of Some t \<Rightarrow> set_dtype t 0 out1 | None \<Rightarrow> Inl AssertionError) (\<lambda>out2.
             Inr (self, g[node := producer] @ [out2])))))))"

section \<open>Orders\<close>

text \<open>The depth-first search from a node, over given predecessor lists.\<close>

fun topo_sort_dfs ::
  "nat \<Rightarrow> (nat \<Rightarrow> nat list) \<Rightarrow> nat \<Rightarrow> nat list \<times> nat list \<Rightarrow> (nat list \<times> nat list) option"
and topo_sort_list ::
  "nat \<Rightarrow> (nat \<Rightarrow> nat list) \<Rightarrow> nat list \<Rightarrow> nat list \<times> nat list \<Rightarrow> (nat list \<times> nat list) option" where
  "topo_sort_dfs 0 pre node st = None"
| "topo_sort_dfs (Suc k) pre node (visited, order) =
     (if node \<in> set visited then Some (visited, order)
      else case topo_sort_list k pre (pre node) (node # visited, order) of
             None \<Rightarrow> None
           | Some (visited', order') \<Rightarrow> Some (visited', order' @ [node]))"
| "topo_sort_list k pre [] st = Some st"
| "topo_sort_list k pre (n # ns) st =
     (case topo_sort_dfs k pre n st of
        None \<Rightarrow> None
      | Some st' \<Rightarrow> topo_sort_list k pre ns st')"

definition input_nodes :: "graph \<Rightarrow> nat \<Rightarrow> nat list" where
  "input_nodes g n = (if n < length g then map e_src (n_in (g ! n)) else [])"

definition find_topo_sort :: "graph \<Rightarrow> nat list \<Rightarrow> nat list option" where
  "find_topo_sort g outs =
     map_option snd (topo_sort_list (length g + 1) (input_nodes g) outs ([], []))"

text \<open>
  The layer of a node is the length of the longest path to it; the priority order visits
  the inputs of a node from the highest layer down.
\<close>

fun topo_sort_get_layer ::
  "nat \<Rightarrow> (nat \<Rightarrow> nat list) \<Rightarrow> nat \<Rightarrow> (nat \<rightharpoonup> nat) \<Rightarrow> (nat \<rightharpoonup> nat) option"
and layer_inputs ::
  "nat \<Rightarrow> (nat \<Rightarrow> nat list) \<Rightarrow> nat \<Rightarrow> nat list \<Rightarrow> (nat \<rightharpoonup> nat) \<Rightarrow> (nat \<rightharpoonup> nat) option" where
  "topo_sort_get_layer 0 pre node topo_layer = None"
| "topo_sort_get_layer (Suc k) pre node topo_layer =
     (if topo_layer node \<noteq> None then Some topo_layer
      else layer_inputs k pre node (pre node) (topo_layer(node \<mapsto> 0)))"
| "layer_inputs k pre node [] topo_layer = Some topo_layer"
| "layer_inputs k pre node (m # ms) topo_layer =
     (case topo_sort_get_layer k pre m topo_layer of
        None \<Rightarrow> None
      | Some l \<Rightarrow>
          (case (l node, l m) of
             (Some a, Some b) \<Rightarrow> layer_inputs k pre node ms (l(node \<mapsto> max a (b + 1)))
           | _ \<Rightarrow> None))"

fun all_layers ::
  "nat \<Rightarrow> (nat \<Rightarrow> nat list) \<Rightarrow> nat list \<Rightarrow> (nat \<rightharpoonup> nat) \<Rightarrow> (nat \<rightharpoonup> nat) option" where
  "all_layers k pre [] l = Some l"
| "all_layers k pre (n # ns) l =
     (case topo_sort_get_layer k pre n l of None \<Rightarrow> None | Some l' \<Rightarrow> all_layers k pre ns l')"

definition layer_of :: "(nat \<rightharpoonup> nat) \<Rightarrow> nat \<Rightarrow> nat" where
  "layer_of l n = (case l n of Some k \<Rightarrow> k | None \<Rightarrow> 0)"

definition by_layer :: "(nat \<rightharpoonup> nat) \<Rightarrow> nat list \<Rightarrow> nat list" where
  "by_layer l ns = sort_key (\<lambda>n. - int (layer_of l n)) ns"

definition find_topo_sort_priority :: "graph \<Rightarrow> nat list \<Rightarrow> nat list option" where
  "find_topo_sort_priority g outs =
     (case all_layers (length g + 1) (input_nodes g) outs Map.empty of
        None \<Rightarrow> None
      | Some l \<Rightarrow>
          map_option snd
            (topo_sort_list (length g + 1) (\<lambda>n. by_layer l (input_nodes g n)) outs ([], [])))"

text \<open>
  The queue-driven order. The counters and the list of nodes grow with the successors met;
  the assertions are the source's. The fuel bounds the rounds of the loop.
\<close>

record kahn =
  k_count :: "nat \<rightharpoonup> int"
  k_nodes :: "nat list"
  k_ready :: "nat list"
  k_out :: "nat list"

definition kahn_edge :: "graph \<Rightarrow> nat \<Rightarrow> kahn \<Rightarrow> kahn res" where
  "kahn_edge g d s =
     (let (counts, nodes) =
            (case k_count s d of
               Some _ \<Rightarrow> (k_count s, k_nodes s)
             | None \<Rightarrow> ((k_count s)(d \<mapsto> int (length (n_in (g ! d)))), k_nodes s @ [d]));
          c = (case counts d of Some x \<Rightarrow> x - 1 | None \<Rightarrow> -1)
      in rbind (guard AssertionError (0 \<le> c)) (\<lambda>_.
           Inr (s\<lparr>k_count := counts(d \<mapsto> c), k_nodes := nodes,
                  k_ready := (if c = 0 then k_ready s @ [d] else k_ready s)\<rparr>)))"

fun kahn_loop :: "nat \<Rightarrow> graph \<Rightarrow> kahn \<Rightarrow> kahn res option" where
  "kahn_loop 0 g s = None"
| "kahn_loop (Suc k) g s =
     (case k_ready s of
        [] \<Rightarrow> Some (Inr s)
      | node # ready \<Rightarrow>
          (case rfold (kahn_edge g) (map e_dst (n_out (g ! node)))
                  (s\<lparr>k_ready := ready, k_out := k_out s @ [node]\<rparr>) of
             Inl e \<Rightarrow> Some (Inl e)
           | Inr s' \<Rightarrow> kahn_loop k g s'))"

definition topo_order :: "nat \<Rightarrow> graph \<Rightarrow> nat list \<Rightarrow> nat list res option" where
  "topo_order fuel g nodes =
     map_option (\<lambda>r. rbind r (\<lambda>s.
        rbind (guard AssertionError (length (k_nodes s) = length (k_out s))) (\<lambda>_. Inr (k_out s))))
       (kahn_loop fuel g
          \<lparr>k_count = map_of (map (\<lambda>n. (n, int (length (n_in (g ! n))))) nodes), k_nodes = nodes,
           k_ready = filter (\<lambda>n. n_in (g ! n) = []) nodes, k_out = []\<rparr>)"

section \<open>What a search returns\<close>

text \<open>The relation from a node to its predecessors.\<close>

definition pre_rel :: "(nat \<Rightarrow> nat list) \<Rightarrow> (nat \<times> nat) set" where
  "pre_rel pre = {(a, b). b \<in> set (pre a)}"

definition reach :: "(nat \<Rightarrow> nat list) \<Rightarrow> nat list \<Rightarrow> nat set" where
  "reach pre roots = {n. \<exists>r \<in> set roots. (r, n) \<in> (pre_rel pre)\<^sup>*}"

text \<open>
  What a search adds: the new nodes in order, each visited once, closed under predecessors
  up to what is visited, and reachable from the roots.
\<close>

definition dfs_post ::
  "(nat \<Rightarrow> nat list) \<Rightarrow> nat list \<Rightarrow> nat list \<times> nat list \<Rightarrow> nat list \<times> nat list \<Rightarrow> nat list \<Rightarrow> bool" where
  "dfs_post pre roots s s' new \<longleftrightarrow>
     snd s' = snd s @ new \<and> set (fst s') = set (fst s) \<union> set new \<and> distinct new \<and>
     set new \<inter> set (fst s) = {} \<and> set roots \<subseteq> set (fst s') \<and>
     (\<forall>x \<in> set new. set (pre x) \<subseteq> set (fst s')) \<and> set new \<subseteq> reach pre roots"

lemma reach_Cons: "reach pre (n # ns) = reach pre [n] \<union> reach pre ns"
  by (auto simp: reach_def)

lemma reach_step: "reach pre (pre n) \<subseteq> reach pre [n]"
  by (auto simp: reach_def pre_rel_def intro: converse_rtrancl_into_rtrancl)

lemma reach_self: "n \<in> reach pre [n]"
  by (auto simp: reach_def)

lemma dfs_post_Cons:
  assumes "dfs_post pre [n] s s1 new1" and "dfs_post pre ns s1 s2 new2"
  shows "dfs_post pre (n # ns) s s2 (new1 @ new2)"
  using assms unfolding dfs_post_def reach_Cons [of pre n ns] by (simp, blast)

lemma dfs_post_node:
  assumes "dfs_post pre (pre n) (n # V, ord) s' new" and "n \<notin> set V"
  shows "dfs_post pre [n] (V, ord) (fst s', snd s' @ [n]) (new @ [n])"
  using assms reach_step [of pre n] reach_self [of n pre] unfolding dfs_post_def by (simp, blast)

lemma topo_sort_post:
  "topo_sort_dfs k pre n s = Some s' \<Longrightarrow> \<exists>new. dfs_post pre [n] s s' new"
  "topo_sort_list k pre ns s = Some s' \<Longrightarrow> \<exists>new. dfs_post pre ns s s' new"
proof (induction k pre n s and k pre ns s arbitrary: s' and s'
    rule: topo_sort_dfs_topo_sort_list.induct)
  case (2 k pre n V ord)
  show ?case
  proof (cases "n \<in> set V")
    case True
    then show ?thesis using "2.prems" by (intro exI [of _ "[]"]) (auto simp: dfs_post_def)
  next
    case False
    with "2.prems" obtain t where t: "topo_sort_list k pre (pre n) (n # V, ord) = Some t"
      and s': "s' = (fst t, snd t @ [n])" by (auto split: option.splits)
    from "2.IH" [OF False t] obtain new where "dfs_post pre (pre n) (n # V, ord) t new" ..
    from dfs_post_node [OF this False] show ?thesis unfolding s' by blast
  qed
next
  case (4 k pre n ns s)
  from "4.prems" obtain t where t: "topo_sort_dfs k pre n s = Some t"
    and rest: "topo_sort_list k pre ns t = Some s'" by (auto split: option.splits)
  from "4.IH"(1) [OF t] "4.IH"(2) [OF t rest] show ?case using dfs_post_Cons by blast
qed (auto simp: dfs_post_def intro!: exI [of _ "[]"])

text \<open>Enough fuel: one more than the nodes not yet visited.\<close>

definition closed_below :: "nat \<Rightarrow> (nat \<Rightarrow> nat list) \<Rightarrow> bool" where
  "closed_below N pre \<longleftrightarrow> (\<forall>n < N. \<forall>m \<in> set (pre n). m < N)"

lemma unvisited_less:
  fixes N :: nat
  assumes "n < N" "n \<notin> set V"
  shows "card ({..<N} - set (n # V)) < card ({..<N} - set V)"
  using assms by (intro psubset_card_mono) auto

lemma unvisited_mono:
  "set V \<subseteq> set V' \<Longrightarrow> card ({..<N :: nat} - set V') \<le> card ({..<N} - set V)"
  by (intro card_mono) auto

lemma topo_sort_total:
  "closed_below N pre \<Longrightarrow> n < N \<Longrightarrow> card ({..<N} - set (fst s)) < k \<Longrightarrow>
     \<exists>s'. topo_sort_dfs k pre n s = Some s'"
  "closed_below N pre \<Longrightarrow> set ns \<subseteq> {..<N} \<Longrightarrow> card ({..<N} - set (fst s)) < k \<Longrightarrow>
     \<exists>s'. topo_sort_list k pre ns s = Some s'"
proof (induction k pre n s and k pre ns s rule: topo_sort_dfs_topo_sort_list.induct)
  case (2 k pre n V ord)
  show ?case
  proof (cases "n \<in> set V")
    case False
    have "card ({..<N} - set (n # V)) < k"
      using unvisited_less [OF "2.prems"(2) False] "2.prems"(3) by simp
    moreover have "set (pre n) \<subseteq> {..<N}" using "2.prems"(1,2) by (auto simp: closed_below_def)
    ultimately obtain s' where "topo_sort_list k pre (pre n) (n # V, ord) = Some s'"
      using "2.IH" [OF False "2.prems"(1)] by auto
    then show ?thesis using False by (cases s') auto
  qed simp
next
  case (4 k pre n ns s)
  then obtain t where t: "topo_sort_dfs k pre n s = Some t" by auto
  from topo_sort_post(1) [OF t] have "set (fst s) \<subseteq> set (fst t)" by (auto simp: dfs_post_def)
  from unvisited_mono [OF this, of N] have "card ({..<N} - set (fst t)) < k"
    using "4.prems"(3) by simp
  then show ?case using "4.IH"(2) [OF t "4.prems"(1)] "4.prems"(2) t by auto
qed simp_all

text \<open>
  In a graph without cycles every node comes after its predecessors. The nodes that are
  being searched (visited, not yet in the order) have a larger rank than the node at hand.
\<close>

definition ordered_after :: "(nat \<Rightarrow> nat list) \<Rightarrow> nat list \<Rightarrow> bool" where
  "ordered_after pre ord \<longleftrightarrow> (\<forall>i < length ord. set (pre (ord ! i)) \<subseteq> set (take i ord))"

lemma ordered_after_snoc:
  "ordered_after pre ord \<Longrightarrow> set (pre n) \<subseteq> set ord \<Longrightarrow> ordered_after pre (ord @ [n])"
  by (auto simp: ordered_after_def nth_append less_Suc_eq)

definition ranked :: "(nat \<Rightarrow> nat) \<Rightarrow> (nat \<Rightarrow> nat list) \<Rightarrow> bool" where
  "ranked rk pre \<longleftrightarrow> (\<forall>n. \<forall>m \<in> set (pre n). rk m < rk n)"

definition grey :: "nat list \<times> nat list \<Rightarrow> nat set" where
  "grey s = set (fst s) - set (snd s)"

lemma topo_sort_ordered:
  "topo_sort_dfs k pre n s = Some s' \<Longrightarrow> ranked rk pre \<Longrightarrow> ordered_after pre (snd s) \<Longrightarrow>
     set (snd s) \<subseteq> set (fst s) \<Longrightarrow> \<forall>v \<in> grey s. rk n < rk v \<Longrightarrow>
     ordered_after pre (snd s') \<and> grey s' = grey s \<and> n \<in> set (snd s') \<and>
     set (snd s) \<subseteq> set (snd s') \<and> set (snd s') \<subseteq> set (fst s')"
  "topo_sort_list k pre ns s = Some s' \<Longrightarrow> ranked rk pre \<Longrightarrow> ordered_after pre (snd s) \<Longrightarrow>
     set (snd s) \<subseteq> set (fst s) \<Longrightarrow> \<forall>v \<in> grey s. \<forall>n \<in> set ns. rk n < rk v \<Longrightarrow>
     ordered_after pre (snd s') \<and> grey s' = grey s \<and> set ns \<subseteq> set (snd s') \<and>
     set (snd s) \<subseteq> set (snd s') \<and> set (snd s') \<subseteq> set (fst s')"
proof (induction k pre n s and k pre ns s arbitrary: s' and s'
    rule: topo_sort_dfs_topo_sort_list.induct)
  case (2 k pre n V ord)
  show ?case
  proof (cases "n \<in> set V")
    case True
    then have "n \<in> set ord" using "2.prems"(5) by (auto simp: grey_def)
    then show ?thesis using True "2.prems" by auto
  next
    case False
    with "2.prems"(1) obtain t where t: "topo_sort_list k pre (pre n) (n # V, ord) = Some t"
      and s': "s' = (fst t, snd t @ [n])" by (auto split: option.splits)
    have nord: "n \<notin> set ord" using False "2.prems"(4) by auto
    then have g: "grey (n # V, ord) = insert n (grey (V, ord))" by (auto simp: grey_def)
    have "\<forall>v \<in> grey (n # V, ord). \<forall>m \<in> set (pre n). rk m < rk v"
      using "2.prems"(2,5) unfolding g ranked_def by (auto intro: less_trans)
    then have IH: "ordered_after pre (snd t)" "grey t = insert n (grey (V, ord))"
      "set (pre n) \<subseteq> set (snd t)" "set ord \<subseteq> set (snd t)" "set (snd t) \<subseteq> set (fst t)"
      using "2.IH" [OF False t "2.prems"(2)] "2.prems"(3,4) g by auto
    have "n \<in> grey t" using IH(2) by simp
    then have "n \<in> set (fst t)" "n \<notin> set (snd t)" by (auto simp: grey_def)
    moreover have "n \<notin> grey (V, ord)" using False by (auto simp: grey_def)
    ultimately show ?thesis using IH ordered_after_snoc unfolding s' by (auto simp: grey_def)
  qed
next
  case (4 k pre n ns s)
  from "4.prems"(1) obtain t where t: "topo_sort_dfs k pre n s = Some t"
    and rest: "topo_sort_list k pre ns t = Some s'" by (auto split: option.splits)
  have 1: "ordered_after pre (snd t) \<and> grey t = grey s \<and> n \<in> set (snd t) \<and>
      set (snd s) \<subseteq> set (snd t) \<and> set (snd t) \<subseteq> set (fst t)"
    using "4.IH"(1) [OF t "4.prems"(2,3,4)] "4.prems"(5) by auto
  then have "ordered_after pre (snd s') \<and> grey s' = grey t \<and> set ns \<subseteq> set (snd s') \<and>
      set (snd t) \<subseteq> set (snd s') \<and> set (snd s') \<subseteq> set (fst s')"
    using "4.IH"(2) [OF t rest "4.prems"(2)] "4.prems"(5) by auto
  with 1 show ?case by auto
qed auto

section \<open>The layers\<close>

lemma upd_lambda: "(\<lambda>c. if c = n then Some v else t c) = t(n \<mapsto> v)"
  by (rule ext) simp

lemma layer_dom:
  "topo_sort_get_layer k pre n l = Some l' \<Longrightarrow> dom l \<subseteq> dom l' \<and> n \<in> dom l'"
  "layer_inputs k pre n ms l = Some l' \<Longrightarrow> n \<in> dom l \<Longrightarrow> dom l \<subseteq> dom l'"
proof (induction k pre n l and k pre n ms l arbitrary: l' and l'
    rule: topo_sort_get_layer_layer_inputs.induct)
  case (2 k pre n l)
  show ?case
  proof (cases "l n")
    case None
    from None have li: "layer_inputs k pre n (pre n) (l(n \<mapsto> 0)) = Some l'" using "2.prems" by simp
    then have "dom (\<lambda>a. if a = n then Some 0 else l a) \<subseteq> dom l'"
      using "2.IH" None by (simp add: domIff upd_lambda)
    then have "dom (l(n \<mapsto> 0)) \<subseteq> dom l'" unfolding upd_lambda .
    then show ?thesis by auto
  qed (use "2.prems" in auto)
next
  case (4 k pre n m ms l)
  from "4.prems"(1) obtain t a b where t: "topo_sort_get_layer k pre m l = Some t"
    "t n = Some a" "t m = Some b" and rest: "layer_inputs k pre n ms (t(n \<mapsto> max a (b + 1))) = Some l'"
    by (auto split: option.splits)
  have "dom l \<subseteq> dom t" using "4.IH"(1) [OF t(1)] by simp
  moreover have "dom (\<lambda>c. if c = n then Some (max a (b + 1)) else t c) \<subseteq> dom l'"
    using "4.IH"(2) [OF t(1) _ t(2,3)] rest by (simp add: domIff upd_lambda)
  then have "dom (t(n \<mapsto> max a (b + 1))) \<subseteq> dom l'" unfolding upd_lambda .
  ultimately show ?case by auto
qed auto

lemma unlayered_less:
  fixes N :: nat
  assumes "n < N" "l n = None"
  shows "card ({..<N} - dom (l(n \<mapsto> v))) < card ({..<N} - dom l)"
  using assms by (intro psubset_card_mono) auto

lemma unlayered_mono:
  "dom l \<subseteq> dom l' \<Longrightarrow> card ({..<N :: nat} - dom l') \<le> card ({..<N} - dom l)"
  by (intro card_mono) auto

lemma layer_total:
  "closed_below N pre \<Longrightarrow> n < N \<Longrightarrow> card ({..<N} - dom l) < k \<Longrightarrow>
     \<exists>l'. topo_sort_get_layer k pre n l = Some l'"
  "closed_below N pre \<Longrightarrow> set ms \<subseteq> {..<N} \<Longrightarrow> n \<in> dom l \<Longrightarrow> card ({..<N} - dom l) < k \<Longrightarrow>
     \<exists>l'. layer_inputs k pre n ms l = Some l'"
proof (induction k pre n l and k pre n ms l rule: topo_sort_get_layer_layer_inputs.induct)
  case (2 k pre n l)
  show ?case
  proof (cases "l n")
    case None
    have "card ({..<N} - dom (l(n \<mapsto> 0))) < k"
      using unlayered_less [of n N l 0, OF "2.prems"(2) None] "2.prems"(3) by linarith
    then show ?thesis
      using "2.IH" [OF _ "2.prems"(1)] None "2.prems"(1,2)
      unfolding fun_upd_def domIff closed_below_def by (simp add: subset_iff fun_upd_def)
  qed simp
next
  case (4 k pre n m ms l)
  then obtain t where t: "topo_sort_get_layer k pre m l = Some t" by auto
  from layer_dom(1) [OF t] have d: "dom l \<subseteq> dom t" "m \<in> dom t" by auto
  then obtain a b where ab: "t n = Some a" "t m = Some b" using "4.prems"(3) by blast
  have "dom l \<subseteq> dom (t(n \<mapsto> max a (b + 1)))" using d by auto
  from unlayered_mono [OF this, of N] have "card ({..<N} - dom (t(n \<mapsto> max a (b + 1)))) < k"
    using "4.prems"(4) by linarith
  then have "\<exists>l'. layer_inputs k pre n ms (t(n \<mapsto> max a (b + 1))) = Some l'"
    using "4.IH"(2) [OF t _ ab "4.prems"(1)] "4.prems"(2)
    unfolding fun_upd_def domIff by (simp add: fun_upd_def)
  then show ?case using t ab by auto
qed simp_all

lemma all_layers_total:
  "closed_below N pre \<Longrightarrow> set ns \<subseteq> {..<N} \<Longrightarrow> card ({..<N} - dom l) < k \<Longrightarrow>
     \<exists>l'. all_layers k pre ns l = Some l' \<and> dom l \<subseteq> dom l' \<and> set ns \<subseteq> dom l'"
proof (induction ns arbitrary: l)
  case Nil
  then show ?case by simp
next
  case (Cons n ns)
  then obtain t where t: "topo_sort_get_layer k pre n l = Some t"
    using layer_total(1) [of N pre n l k] by auto
  from layer_dom(1) [OF t] have d: "dom l \<subseteq> dom t" "n \<in> dom t" by auto
  from unlayered_mono [OF d(1), of N] have "card ({..<N} - dom t) < k"
    using Cons.prems(3) by linarith
  then obtain l' where "all_layers k pre ns t = Some l'" "dom t \<subseteq> dom l'" "set ns \<subseteq> dom l'"
    using Cons.IH [of t] Cons.prems by auto
  then show ?case using t d by (simp, blast)
qed

section \<open>Both orders\<close>

lemma closed_set_reach:
  assumes "set roots \<subseteq> S" and "\<forall>x \<in> S. set (pre x) \<subseteq> S"
  shows "reach pre roots \<subseteq> S"
proof
  fix n assume "n \<in> reach pre roots"
  then obtain r where "r \<in> set roots" and "(r, n) \<in> (pre_rel pre)\<^sup>*" by (auto simp: reach_def)
  from this(2) show "n \<in> S"
  proof (induction rule: rtrancl_induct)
    case base
    then show ?case using assms(1) \<open>r \<in> set roots\<close> by blast
  next
    case (step y z)
    then show ?case using assms(2) by (auto simp: pre_rel_def)
  qed
qed

lemma topo_sort_list_correct:
  assumes closed: "closed_below N pre" and roots: "set outs \<subseteq> {..<N}" and rk: "ranked rk pre"
  shows "\<exists>s. topo_sort_list (N + 1) pre outs ([], []) = Some s \<and> distinct (snd s) \<and>
    set (snd s) = reach pre outs \<and> ordered_after pre (snd s)"
proof -
  obtain s where s: "topo_sort_list (N + 1) pre outs ([], []) = Some s"
    using topo_sort_total(2) [OF closed roots, of "([], [])" "N + 1"] by auto
  from topo_sort_post(2) [OF s] have post: "distinct (snd s)" "set (fst s) = set (snd s)"
    "set outs \<subseteq> set (snd s)" "\<forall>x \<in> set (snd s). set (pre x) \<subseteq> set (snd s)"
    "set (snd s) \<subseteq> reach pre outs"
    by (auto simp: dfs_post_def)
  have "reach pre outs \<subseteq> set (snd s)" using post(3,4) by (rule closed_set_reach)
  moreover have "ordered_after pre (snd s)"
    using topo_sort_ordered(2) [OF s rk] by (simp add: ordered_after_def grey_def)
  ultimately show ?thesis using s post by blast
qed

lemma same_sets:
  assumes "\<And>n. set (pre' n) = set (pre n)"
  shows "reach pre' outs = reach pre outs" "ordered_after pre' ord = ordered_after pre ord"
    "closed_below N pre' = closed_below N pre" "ranked rk pre' = ranked rk pre"
  by (simp_all add: reach_def pre_rel_def ordered_after_def closed_below_def ranked_def assms)

definition wf_graph :: "graph \<Rightarrow> bool" where
  "wf_graph g \<longleftrightarrow> (\<forall>n < length g. \<forall>e \<in> set (n_in (g ! n)). e_src e < length g)"

lemma wf_graph_closed: "wf_graph g \<Longrightarrow> closed_below (length g) (input_nodes g)"
  by (auto simp: wf_graph_def closed_below_def input_nodes_def)

text \<open>
  C6: both depth-first orders list the nodes the outputs depend on, each once, every node
  after all its inputs: for a well-formed graph without cycles the searches always return
  (their recursion never goes deeper than the number of nodes), the plain one and the one
  that visits high layers first.
\<close>

theorem topo_sorts_correct:
  assumes "wf_graph g" and "set outs \<subseteq> {..<length g}" and "ranked rk (input_nodes g)"
  shows "(\<exists>ord. find_topo_sort g outs = Some ord \<and> distinct ord \<and>
      set ord = reach (input_nodes g) outs \<and> ordered_after (input_nodes g) ord) \<and>
    (\<exists>ord. find_topo_sort_priority g outs = Some ord \<and> distinct ord \<and>
      set ord = reach (input_nodes g) outs \<and> ordered_after (input_nodes g) ord)"
proof
  note closed = wf_graph_closed [OF assms(1)]
  show "\<exists>ord. find_topo_sort g outs = Some ord \<and> distinct ord \<and>
      set ord = reach (input_nodes g) outs \<and> ordered_after (input_nodes g) ord"
    using topo_sort_list_correct [OF closed assms(2,3)] by (auto simp: find_topo_sort_def)
  obtain l where l: "all_layers (length g + 1) (input_nodes g) outs Map.empty = Some l"
    using all_layers_total [OF closed assms(2), of Map.empty "length g + 1"] by auto
  let ?pre = "\<lambda>n. by_layer l (input_nodes g n)"
  have same: "set (?pre n) = set (input_nodes g n)" for n by (simp add: by_layer_def)
  have "\<exists>s. topo_sort_list (length g + 1) ?pre outs ([], []) = Some s \<and> distinct (snd s) \<and>
      set (snd s) = reach ?pre outs \<and> ordered_after ?pre (snd s)"
    using closed assms(2,3) unfolding same_sets(3,4) [of ?pre "input_nodes g", OF same, symmetric]
    by (rule topo_sort_list_correct)
  then show "\<exists>ord. find_topo_sort_priority g outs = Some ord \<and> distinct ord \<and>
      set ord = reach (input_nodes g) outs \<and> ordered_after (input_nodes g) ord"
    unfolding same_sets(1,2) [of ?pre "input_nodes g", OF same]
    using l by (auto simp: find_topo_sort_priority_def)
qed

lemma ranked_input_nodes:
  "ranked rk (input_nodes g) \<longleftrightarrow> (\<forall>n < length g. \<forall>e \<in> set (n_in (g ! n)). rk (e_src e) < rk n)"
  by (auto simp: ranked_def input_nodes_def)

text \<open>A diamond: node 0 is read by 1 and 2, both read by 3, and 4 is the output.\<close>

definition demo_node :: "nat list \<Rightarrow> gnode" where
  "demo_node srcs = (new_node ''n'' PrimFunc [])\<lparr>n_in :=
     map (\<lambda>s. \<lparr>e_src = s, e_dst = 0, e_src_id = 0, e_dst_id = 0\<rparr>) srcs\<rparr>"

definition diamond :: graph where
  "diamond = [demo_node [], demo_node [0], demo_node [0], demo_node [1, 2], demo_node [3]]"

theorem topo_sorts_correct_witness:
  "(\<exists>ord. find_topo_sort diamond [4] = Some ord \<and> distinct ord \<and>
      set ord = reach (input_nodes diamond) [4] \<and> ordered_after (input_nodes diamond) ord) \<and>
   find_topo_sort diamond [4] = Some [0, 1, 2, 3, 4]"
proof -
  have "wf_graph diamond"
    by (simp add: wf_graph_def diamond_def demo_node_def All_less_Suc)
  moreover have "ranked id (input_nodes diamond)"
    by (simp add: ranked_input_nodes diamond_def demo_node_def All_less_Suc)
  moreover have "find_topo_sort diamond [4] = Some [0, 1, 2, 3, 4]" by code_simp
  ultimately show ?thesis using topo_sorts_correct [of diamond "[4]" id] by (simp add: diamond_def)
qed

end
