(* ===== verification/Hints.thy ===== *)
theory Hints
  imports Prelude
begin

text \<open>
  The data that the tile policies produce, from \<^verbatim>\<open>carver/roller/hint.py\<close>: strides that pad an
  axis, the tile dictionary of one candidate, and the hint with its conversion to and from a
  dictionary. The architecture and the rasterisation plan of a hint are stored unread and are
  not part of the model.
\<close>

section \<open>Strides\<close>

record stride =
  s_stride :: int
  s_ax :: int

definition default_stride :: stride where
  "default_stride = \<lparr>s_stride = 1, s_ax = -1\<rparr>"

definition stride_valid :: "stride \<Rightarrow> bool" where
  "stride_valid s \<longleftrightarrow> 0 \<le> s_ax s"

text \<open>The loop runs from the second last axis to the first; \<open>i\<close> is the number of the first axis.\<close>

fun strides_from :: "stride \<Rightarrow> nat \<Rightarrow> nat list \<Rightarrow> int list" where
  "strides_from s i [] = []"
| "strides_from s i [x] = [1]"
| "strides_from s i (x # y # ys) =
     (let rest = strides_from s (Suc i) (y # ys)
      in (if int i = s_ax s then s_stride s else hd rest * int y) # rest)"

definition compute_strides_from_shape :: "stride \<Rightarrow> nat list \<Rightarrow> int list" where
  "compute_strides_from_shape s shape = strides_from s 0 shape"

definition compute_elements_from_shape :: "stride \<Rightarrow> nat list \<Rightarrow> int res" where
  "compute_elements_from_shape s shape =
     (let original_shape = int (prod_list shape)
      in if \<not> stride_valid s then Inr original_shape
         else rbind (guard AssertionError (s_ax s < int (length shape))) (\<lambda>_.
           let strided_elem = int (prod_list (take (nat (s_ax s + 1)) shape)) * s_stride s
           in rbind (guard AssertionError (original_shape \<le> strided_elem)) (\<lambda>_. Inr strided_elem)))"

section \<open>Tile dictionaries\<close>

text \<open>Nodes are numbers; the traffic is a ratio of transactions.\<close>

type_synonym rsteps = "(string \<times> nat) list"

record tile_dict =
  td_output_tile :: "nat list"
  td_tile_map :: "(nat \<times> nat list) list"
  td_rstep_map :: "(nat \<times> rsteps) list"
  td_cached_tensors_map :: "(nat \<times> string list) list"
  td_traffic :: rat
  td_smem_cost :: rat
  td_block_per_SM :: int
  td_num_wave :: int
  td_grid_size :: int
  td_valid :: bool

definition tile_dict_init :: "nat list \<Rightarrow> tile_dict" where
  "tile_dict_init output_tile =
     \<lparr>td_output_tile = output_tile, td_tile_map = [], td_rstep_map = [], td_cached_tensors_map = [],
      td_traffic = -1, td_smem_cost = -1, td_block_per_SM = -1, td_num_wave = -1, td_grid_size = -1,
      td_valid = True\<rparr>"

definition dict_get :: "('k \<times> 'v) list \<Rightarrow> 'k \<Rightarrow> 'v res" where
  "dict_get m k = (case map_of m k of Some v \<Rightarrow> Inr v | None \<Rightarrow> Inl KeyError)"

definition get_tile :: "tile_dict \<Rightarrow> nat \<Rightarrow> nat list res" where
  "get_tile td n = dict_get (td_tile_map td) n"

definition get_rstep :: "tile_dict \<Rightarrow> nat \<Rightarrow> rsteps res" where
  "get_rstep td n = dict_get (td_rstep_map td) n"

section \<open>Intrinsics\<close>

record intrin_info =
  ii_in_dtype :: string
  ii_out_dtype :: string
  ii_trans_a :: bool
  ii_trans_b :: bool
  ii_input_transform_kind :: int
  ii_weight_transform_kind :: int

definition intrin_info_init :: "string \<Rightarrow> string \<Rightarrow> bool \<Rightarrow> intrin_info" where
  "intrin_info_init in_dtype out_dtype trans_b =
     \<lparr>ii_in_dtype = in_dtype, ii_out_dtype = out_dtype, ii_trans_a = False, ii_trans_b = trans_b,
      ii_input_transform_kind = 0, ii_weight_transform_kind = 0\<rparr>"

definition is_input_8bit :: "(string \<Rightarrow> nat) \<Rightarrow> intrin_info \<Rightarrow> bool" where
  "is_input_8bit bits i = (bits (ii_in_dtype i) = 8)"

definition smooth_a :: "intrin_info \<Rightarrow> bool" where
  "smooth_a i = (2 \<le> ii_input_transform_kind i)"

definition smooth_b :: "intrin_info \<Rightarrow> bool" where
  "smooth_b i = (2 \<le> ii_weight_transform_kind i)"

definition inter_transform_a :: "intrin_info \<Rightarrow> bool" where
  "inter_transform_a i = (1 \<le> ii_input_transform_kind i)"

definition inter_transform_b :: "intrin_info \<Rightarrow> bool" where
  "inter_transform_b i = (1 \<le> ii_weight_transform_kind i)"

text \<open>\<^verbatim>\<open>__repr__\<close> reads an attribute that no constructor sets.\<close>

definition intrin_info_repr :: "intrin_info \<Rightarrow> string res" where
  "intrin_info_repr i = Inl AttributeError"

section \<open>Hints\<close>

text \<open>
  A value of the dictionary. \<open>h_extra\<close> holds the attributes that \<^verbatim>\<open>setattr\<close> adds to a hint
  beside the ones of its constructor.
\<close>

datatype hval =
    VNats "nat list"
  | VBool bool
  | VNat nat
  | VVec "(string \<times> nat) list"
  | VStrides "(nat \<times> stride) list"

record hint =
  h_use_tc :: "bool option"
  h_block :: "nat list"
  h_thread :: "nat list"
  h_warp :: "nat list"
  h_rstep :: "nat list"
  h_reduce_thread :: "nat list"
  h_cached_tensors :: "string list"
  h_output_strides :: "(nat \<times> stride) list"
  h_block_reduction_depth :: "nat option"
  h_split_k_factor :: nat
  h_raxis_order :: "nat list"
  h_step :: "nat list"
  h_vectorize :: "(string \<times> nat) list"
  h_pipeline_stage :: nat
  h_use_async :: bool
  h_opt_shapes :: "(string \<times> nat) list"
  h_intrin_info :: intrin_info
  h_shared_scope :: string
  h_pass_context :: "(string \<times> bool) list"
  h_extra :: "(string \<times> hval) list"

definition hint_init :: hint where
  "hint_init =
     \<lparr>h_use_tc = None, h_block = [], h_thread = [], h_warp = [], h_rstep = [], h_reduce_thread = [],
      h_cached_tensors = [], h_output_strides = [], h_block_reduction_depth = None,
      h_split_k_factor = 1, h_raxis_order = [], h_step = [], h_vectorize = [], h_pipeline_stage = 1,
      h_use_async = False, h_opt_shapes = [], h_intrin_info = intrin_info_init ''float16'' ''float16'' True,
      h_shared_scope = ''shared'', h_pass_context = [], h_extra = []\<rparr>"

definition uses_tc :: "hint \<Rightarrow> bool" where
  "uses_tc h \<longleftrightarrow> h_use_tc h = Some True"

text \<open>The dictionary, as the list of its items in the order in which they are added.\<close>

definition to_dict :: "hint \<Rightarrow> (string \<times> hval) list" where
  "to_dict h =
     (let strides = filter (\<lambda>(_, s). stride_valid s) (h_output_strides h)
      in [(''block'', VNats (h_block h))] @
         [if uses_tc h then (''warp'', VNats (h_warp h)) else (''thread'', VNats (h_thread h))] @
         [(''rstep'', VNats (h_rstep h))] @
         (if 1 < prod_list (h_reduce_thread h) then [(''reduce_thread'', VNats (h_reduce_thread h))] else []) @
         (if uses_tc h then [(''use_tc'', VBool True)] else []) @
         (if strides \<noteq> [] then [(''strides'', VStrides strides)] else []) @
         (if 1 < prod_list (h_step h) then [(''step'', VNats (h_step h))] else []) @
         (if h_raxis_order h \<noteq> [] then [(''raxis_order'', VNats (h_raxis_order h))] else []) @
         (if h_vectorize h \<noteq> [] then [(''vectorize'', VVec (h_vectorize h))] else []) @
         (if h_pipeline_stage h \<noteq> 1 then [(''pipeline_stage'', VNat (h_pipeline_stage h))] else []) @
         (case h_block_reduction_depth h of Some d \<Rightarrow> [(''block_reduction_depth'', VNat d)] | None \<Rightarrow> []))"

text \<open>
  \<^verbatim>\<open>setattr\<close> on a hint. \<^verbatim>\<open>step\<close> and \<^verbatim>\<open>raxis_order\<close> are properties without a setter. Python
  would also store a value of another type under a key; \<open>to_dict\<close> never builds such an item,
  and the model refuses it.
\<close>

definition set_attr :: "string \<Rightarrow> hval \<Rightarrow> hint \<Rightarrow> hint res" where
  "set_attr k v h =
     (if k = ''step'' \<or> k = ''raxis_order'' then Inl AttributeError
      else if k = ''block'' then (case v of VNats x \<Rightarrow> Inr (h\<lparr>h_block := x\<rparr>) | _ \<Rightarrow> Inl TypeError)
      else if k = ''warp'' then (case v of VNats x \<Rightarrow> Inr (h\<lparr>h_warp := x\<rparr>) | _ \<Rightarrow> Inl TypeError)
      else if k = ''thread'' then (case v of VNats x \<Rightarrow> Inr (h\<lparr>h_thread := x\<rparr>) | _ \<Rightarrow> Inl TypeError)
      else if k = ''rstep'' then (case v of VNats x \<Rightarrow> Inr (h\<lparr>h_rstep := x\<rparr>) | _ \<Rightarrow> Inl TypeError)
      else if k = ''reduce_thread''
        then (case v of VNats x \<Rightarrow> Inr (h\<lparr>h_reduce_thread := x\<rparr>) | _ \<Rightarrow> Inl TypeError)
      else if k = ''use_tc'' then (case v of VBool b \<Rightarrow> Inr (h\<lparr>h_use_tc := Some b\<rparr>) | _ \<Rightarrow> Inl TypeError)
      else if k = ''vectorize'' then (case v of VVec x \<Rightarrow> Inr (h\<lparr>h_vectorize := x\<rparr>) | _ \<Rightarrow> Inl TypeError)
      else if k = ''pipeline_stage''
        then (case v of VNat n \<Rightarrow> Inr (h\<lparr>h_pipeline_stage := n\<rparr>) | _ \<Rightarrow> Inl TypeError)
      else if k = ''block_reduction_depth''
        then (case v of VNat n \<Rightarrow> Inr (h\<lparr>h_block_reduction_depth := Some n\<rparr>) | _ \<Rightarrow> Inl TypeError)
      else if k = ''split_k_factor''
        then (case v of VNat n \<Rightarrow> Inr (h\<lparr>h_split_k_factor := n\<rparr>) | _ \<Rightarrow> Inl TypeError)
      else if k = ''use_async'' then (case v of VBool b \<Rightarrow> Inr (h\<lparr>h_use_async := b\<rparr>) | _ \<Rightarrow> Inl TypeError)
      else if k = ''opt_shapes'' then (case v of VVec x \<Rightarrow> Inr (h\<lparr>h_opt_shapes := x\<rparr>) | _ \<Rightarrow> Inl TypeError)
      else if k = ''output_strides''
        then (case v of VStrides x \<Rightarrow> Inr (h\<lparr>h_output_strides := x\<rparr>) | _ \<Rightarrow> Inl TypeError)
      else if k = ''_step'' then (case v of VNats x \<Rightarrow> Inr (h\<lparr>h_step := x\<rparr>) | _ \<Rightarrow> Inl TypeError)
      else if k = ''_raxis_order''
        then (case v of VNats x \<Rightarrow> Inr (h\<lparr>h_raxis_order := x\<rparr>) | _ \<Rightarrow> Inl TypeError)
      else Inr (h\<lparr>h_extra := h_extra h @ [(k, v)]\<rparr>))"

definition from_dict :: "(string \<times> hval) list \<Rightarrow> hint res" where
  "from_dict dic = rfold (\<lambda>(k, v). set_attr k v) dic hint_init"

definition tensorcore_legalization :: "hint \<Rightarrow> hint" where
  "tensorcore_legalization h =
     h\<lparr>h_warp := py_last_n 2 (h_warp h), h_block := py_last_n 2 (h_block h)\<rparr>"

definition raxis_order :: "hint \<Rightarrow> nat list" where
  "raxis_order h = (if h_raxis_order h \<noteq> [] then h_raxis_order h else [0..<length (h_rstep h)])"

definition hint_step :: "hint \<Rightarrow> nat list" where
  "hint_step h = (if h_step h \<noteq> [] then h_step h else map (\<lambda>_. 1) (h_block h))"

definition complete_config :: "hint \<Rightarrow> hint" where
  "complete_config h =
     (let merge0 = uses_tc h \<and> ii_out_dtype (h_intrin_info h) \<in> {''float32'', ''int32''};
          merge_static_smem = (if h_shared_scope h = ''shared.dyn'' then True else merge0)
      in h\<lparr>h_pass_context := [(''tir.merge_static_smem'', merge_static_smem)]\<rparr>)"

section \<open>Strided offsets\<close>

definition offset_of :: "int list \<Rightarrow> nat list \<Rightarrow> int" where
  "offset_of strides idx = sum_list (map2 (\<lambda>s i. s * int i) strides idx)"

lemma offset_of_Cons [simp]: "offset_of (s # ss) (i # is) = s * int i + offset_of ss is"
  by (simp add: offset_of_def)

lemma offset_of_Nil [simp]: "offset_of [] is = 0"
  by (simp add: offset_of_def)

lemma length_strides_from [simp]: "length (strides_from s i shape) = length shape"
  by (induction s i shape rule: strides_from.induct) (auto simp: Let_def)

text \<open>An axis with a stride above everything below it keeps the offsets apart.\<close>

lemma offset_step:
  fixes s :: int
  assumes "0 \<le> r" and "r < s" and "i < x"
  shows "0 \<le> s * int i + r \<and> s * int i + r < s * int x"
proof
  show "0 \<le> s * int i + r" using assms by (intro add_nonneg_nonneg mult_nonneg_nonneg) auto
  have "s * int i + s \<le> s * int x"
    using mult_left_mono [of "int i + 1" "int x" s] assms by (simp add: distrib_left)
  then show "s * int i + r < s * int x" using assms(2) by linarith
qed

lemma offset_step_inj:
  fixes s :: int
  assumes "0 \<le> r" "r < s" "0 \<le> r'" "r' < s" and "s * int i + r = s * int i' + r'"
  shows "i = i' \<and> r = r'"
proof -
  have s: "0 < s" using assms by linarith
  have "(int i * s + r) div s = int i" "(int i' * s + r') div s = int i'"
    using assms(1-4) s by simp_all
  then have "int i = int i'" using assms(5) by (simp add: mult.commute)
  then show ?thesis using assms(5) by simp
qed

text \<open>
  The extent of a suffix of the shape: with a stride at or below it, the stride times the
  axes down to it; otherwise the product.
\<close>

fun stride_span :: "stride \<Rightarrow> nat \<Rightarrow> nat list \<Rightarrow> int" where
  "stride_span s i [] = 1"
| "stride_span s i [x] = int x"
| "stride_span s i (x # y # ys) = (if int i = s_ax s then s_stride s else stride_span s (Suc i) (y # ys)) * int x"

text \<open>The stride covers what lies below its axis.\<close>

fun covers :: "stride \<Rightarrow> nat \<Rightarrow> nat list \<Rightarrow> bool" where
  "covers s i (x # y # ys) \<longleftrightarrow>
     (int i = s_ax s \<longrightarrow> stride_span s (Suc i) (y # ys) \<le> s_stride s) \<and> covers s (Suc i) (y # ys)"
| "covers s i _ \<longleftrightarrow> True"

lemma hd_strides_from: "shape \<noteq> [] \<Longrightarrow> hd (strides_from s i shape) * int (hd shape) = stride_span s i shape"
  by (induction s i shape rule: strides_from.induct) (auto simp: Let_def)

lemma strides_from_span:
  "strides_from s i (x # y # ys) =
     (if int i = s_ax s then s_stride s else stride_span s (Suc i) (y # ys)) # strides_from s (Suc i) (y # ys)"
  using hd_strides_from [of "y # ys" s "Suc i"] by (simp add: Let_def)

lemma strided_offsets:
  assumes "covers s i shape" and "list_all2 (<) idx shape"
  shows "0 \<le> offset_of (strides_from s i shape) idx \<and> offset_of (strides_from s i shape) idx < stride_span s i shape"
  using assms
proof (induction s i shape arbitrary: idx rule: strides_from.induct)
  case (1 s i)
  then show ?case by simp
next
  case (2 s i x)
  then show ?case by (auto simp: list_all2_Cons2 offset_of_def)
next
  case (3 s i x y ys)
  let ?rest = "strides_from s (Suc i) (y # ys)"
  obtain k ks where idx: "idx = k # ks" "k < x" "list_all2 (<) ks (y # ys)"
    using "3.prems"(2) by (auto simp: list_all2_Cons2)
  have c: "covers s (Suc i) (y # ys)" using "3.prems"(1) by simp
  have r: "0 \<le> offset_of ?rest ks" "offset_of ?rest ks < stride_span s (Suc i) (y # ys)"
    using "3.IH" [OF c idx(3)] by auto
  let ?h = "if int i = s_ax s then s_stride s else stride_span s (Suc i) (y # ys)"
  have "offset_of ?rest ks < ?h" using r(2) "3.prems"(1) by auto
  from offset_step [OF r(1) this idx(2)] show ?case
    unfolding idx(1) strides_from_span offset_of_Cons stride_span.simps .
qed

lemma strided_offsets_inj:
  assumes "covers s i shape" and "list_all2 (<) idx shape" and "list_all2 (<) jdx shape"
    and "offset_of (strides_from s i shape) idx = offset_of (strides_from s i shape) jdx"
  shows "idx = jdx"
  using assms
proof (induction s i shape arbitrary: idx jdx rule: strides_from.induct)
  case (1 s i)
  then show ?case by simp
next
  case (2 s i x)
  then show ?case by (auto simp: list_all2_Cons2 offset_of_def)
next
  case (3 s i x y ys)
  let ?rest = "strides_from s (Suc i) (y # ys)"
  obtain k ks where idx: "idx = k # ks" "list_all2 (<) ks (y # ys)"
    using "3.prems"(2) by (auto simp: list_all2_Cons2)
  obtain l ls where jdx: "jdx = l # ls" "list_all2 (<) ls (y # ys)"
    using "3.prems"(3) by (auto simp: list_all2_Cons2)
  have c: "covers s (Suc i) (y # ys)" using "3.prems"(1) by simp
  let ?h = "if int i = s_ax s then s_stride s else stride_span s (Suc i) (y # ys)"
  have le: "stride_span s (Suc i) (y # ys) \<le> ?h" using "3.prems"(1) by auto
  have "?h * int k + offset_of ?rest ks = ?h * int l + offset_of ?rest ls"
    using "3.prems"(4) unfolding idx(1) jdx(1) strides_from_span offset_of_Cons .
  then have "k = l \<and> offset_of ?rest ks = offset_of ?rest ls"
    using strided_offsets [OF c idx(2)] strided_offsets [OF c jdx(2)] le
    by (intro offset_step_inj [of _ ?h]) auto
  then show ?case using "3.IH" [OF c idx(2) jdx(2)] by (simp add: idx(1) jdx(1))
qed

lemma no_stride_below:
  "s_ax s < int i \<or> int i + int (length shape) \<le> s_ax s + 1 \<Longrightarrow>
     stride_span s i shape = int (prod_list shape) \<and> covers s i shape"
proof (induction s i shape rule: strides_from.induct)
  case (3 s i x y ys)
  from "3.prems" have "int i \<noteq> s_ax s"
    and "s_ax s < int (Suc i) \<or> int (Suc i) + int (length (y # ys)) \<le> s_ax s + 1" by auto
  with "3.IH" show ?case by simp
qed simp_all

lemma stride_at:
  "s_ax s = int i + int k \<Longrightarrow> Suc k < length shape \<Longrightarrow> int (prod_list (drop (Suc k) shape)) \<le> s_stride s \<Longrightarrow>
     stride_span s i shape = int (prod_list (take (Suc k) shape)) * s_stride s \<and> covers s i shape"
proof (induction k arbitrary: i shape)
  case 0
  then obtain x y ys where shape: "shape = x # y # ys"
    by (cases shape; cases "tl shape") auto
  then show ?case using 0 no_stride_below [of s "Suc i" "y # ys"] by simp
next
  case (Suc k)
  then obtain x y ys where shape: "shape = x # y # ys"
    by (cases shape; cases "tl shape") auto
  then show ?case using Suc.IH [of "Suc i" "y # ys"] Suc.prems by simp
qed

lemma elements_cover:
  assumes "compute_elements_from_shape s shape = Inr n" and "\<forall>x \<in> set shape. 0 < x" and "shape \<noteq> []"
  shows "covers s 0 shape \<and> stride_span s 0 shape \<le> n"
proof (cases "stride_valid s")
  case False
  then show ?thesis using no_stride_below [of s 0 shape] assms(1)
    by (simp add: compute_elements_from_shape_def stride_valid_def)
next
  case True
  let ?k = "nat (s_ax s)"
  have ax: "s_ax s = int 0 + int ?k" "?k < length shape" "nat (s_ax s + 1) = Suc ?k"
    and n: "n = int (prod_list (take (Suc ?k) shape)) * s_stride s" "int (prod_list shape) \<le> n"
    using True assms(1) by (auto simp: compute_elements_from_shape_def stride_valid_def Let_def rbind_Inr_iff
      nat_add_distrib)
  show ?thesis
  proof (cases "Suc ?k < length shape")
    case True
    have pos: "0 < prod_list (take (Suc ?k) shape)"
      using assms(2) by (intro prod_list_pos) (auto dest: in_set_takeD)
    have "prod_list shape = prod_list (take (Suc ?k) shape) * prod_list (drop (Suc ?k) shape)"
      by (metis append_take_drop_id prod_list.append)
    then have "int (prod_list (take (Suc ?k) shape)) * int (prod_list (drop (Suc ?k) shape)) \<le>
        int (prod_list (take (Suc ?k) shape)) * s_stride s" using n by simp
    then have "int (prod_list (drop (Suc ?k) shape)) \<le> s_stride s"
      using pos by (simp only: mult_le_cancel_left of_nat_0_less_iff)
    from stride_at [OF ax(1) True this] n show ?thesis by simp
  next
    case False
    then have "int 0 + int (length shape) \<le> s_ax s + 1" using ax by linarith
    then show ?thesis using no_stride_below [of s 0 shape] n(2) by simp
  qed
qed

section \<open>Round trip through the dictionary\<close>

text \<open>What \<open>from_dict\<close> rebuilds of a hint.\<close>

definition restored :: "hint \<Rightarrow> hint" where
  "restored h =
     (let strides = filter (\<lambda>(_, s). stride_valid s) (h_output_strides h)
      in hint_init\<lparr>h_use_tc := (if uses_tc h then Some True else None), h_block := h_block h,
          h_thread := (if uses_tc h then [] else h_thread h), h_warp := (if uses_tc h then h_warp h else []),
          h_rstep := h_rstep h,
          h_reduce_thread := (if 1 < prod_list (h_reduce_thread h) then h_reduce_thread h else []),
          h_vectorize := h_vectorize h, h_pipeline_stage := h_pipeline_stage h,
          h_block_reduction_depth := h_block_reduction_depth h,
          h_extra := (if strides \<noteq> [] then [(''strides'', VStrides strides)] else [])\<rparr>)"

section \<open>Properties\<close>

text \<open>
  The element count that a stride reports for a tile is enough for it. If the count is
  returned (the two assertions hold) and the extents are positive, then the strides computed
  for the tile send every index inside the tile to an offset below the count, and different
  indices to different offsets.
\<close>

theorem strided_tile_fits:
  assumes "compute_elements_from_shape s shape = Inr n" and "\<forall>x \<in> set shape. 0 < x" and "shape \<noteq> []"
    and "list_all2 (<) idx shape" and "list_all2 (<) jdx shape"
  shows "0 \<le> offset_of (compute_strides_from_shape s shape) idx \<and>
    offset_of (compute_strides_from_shape s shape) idx < n \<and>
    (offset_of (compute_strides_from_shape s shape) idx = offset_of (compute_strides_from_shape s shape) jdx
       \<longleftrightarrow> idx = jdx)"
proof -
  have c: "covers s 0 shape" "stride_span s 0 shape \<le> n" using elements_cover [OF assms(1-3)] by auto
  show ?thesis
    unfolding compute_strides_from_shape_def
    using strided_offsets [OF c(1) assms(4)] c(2) strided_offsets_inj [OF c(1) assms(4,5)] by auto
qed

text \<open>A tile of 4 by 16 with rows padded to 24.\<close>

theorem strided_tile_fits_witness:
  "compute_elements_from_shape \<lparr>s_stride = 24, s_ax = 0\<rparr> [4, 16] = Inr 96 \<and>
   compute_strides_from_shape \<lparr>s_stride = 24, s_ax = 0\<rparr> [4, 16] = [24, 1] \<and>
   offset_of (compute_strides_from_shape \<lparr>s_stride = 24, s_ax = 0\<rparr> [4, 16]) [3, 15] < 96"
proof -
  have "compute_elements_from_shape \<lparr>s_stride = 24, s_ax = 0\<rparr> [4, 16] = Inr 96" by code_simp
  moreover have "compute_strides_from_shape \<lparr>s_stride = 24, s_ax = 0\<rparr> [4, 16] = [24, 1]" by code_simp
  ultimately show ?thesis
    using strided_tile_fits [of "\<lparr>s_stride = 24, s_ax = 0\<rparr>" "[4, 16]" 96 "[3, 15]" "[3, 15]"] by simp
qed

text \<open>
  A hint survives the round trip through its dictionary only without a step and without
  an order of the reduction axes: both are written under the names of read-only properties,
  so reading them back raises \<^verbatim>\<open>AttributeError\<close>. Otherwise the block, the threads or the warp,
  the steps and the pipeline settings come back, and the strides become an attribute that
  nothing reads.
\<close>

theorem hint_dict_round_trip:
  "from_dict (to_dict h) =
     (if prod_list (h_step h) \<le> 1 \<and> h_raxis_order h = [] then Inr (restored h) else Inl AttributeError)"
  unfolding to_dict_def Let_def from_dict_def
  by (simp add: set_attr_def restored_def Let_def hint_init_def rfold_append split: option.splits)

end
