(* ===== verification/ThreadAssign.thy ===== *)
theory ThreadAssign
  imports TileFactors Hints "HOL-Library.Product_Lexorder"
begin

text \<open>
  How the default policy chooses a block size and distributes it over the axes of a tile,
  from \<^verbatim>\<open>carver/roller/policy/default.py\<close>: scoring and recommending block sizes, the
  candidates for a reduction step, the assignment of threads to axes, the step of narrow
  element types and the vector widths. Ratios that the source computes in floating point
  are rational numbers here.
\<close>

section \<open>Scores\<close>

record gpu_arch =
  warp_size :: nat
  sm_partition :: nat

definition score_block_size :: "gpu_arch \<Rightarrow> nat \<Rightarrow> (rat \<times> rat) res" where
  "score_block_size a n =
     (if warp_size a = 0 then Inl ZeroDivisionError else
      let num_wrap = (n + warp_size a - 1) div warp_size a
      in if sm_partition a = 0 \<or> num_wrap = 0 \<or> n = 0 then Inl ZeroDivisionError
         else Inr (max (of_nat num_wrap / of_nat (sm_partition a))
                       (of_nat (sm_partition a) / of_nat num_wrap),
                   (of_nat (num_wrap * warp_size a) - of_nat n) / of_nat n))"

text \<open>\<^verbatim>\<open>sorted(xs, key=f)\<close> where the key may raise: a stable sort of the scored elements.\<close>

definition sorted_by :: "('a \<Rightarrow> 'k::linorder res) \<Rightarrow> 'a list \<Rightarrow> 'a list res" where
  "sorted_by f xs =
     rbind (rmap (\<lambda>x. rbind (f x) (\<lambda>k. Inr (k, x))) xs) (\<lambda>kxs. Inr (map snd (sort_key fst kxs)))"

definition get_block_size :: "gpu_arch \<Rightarrow> nat \<Rightarrow> nat res" where
  "get_block_size a n =
     rbind (sorted_by (score_block_size a) (filter (\<lambda>x. x \<le> 1024) (get_all_factors n))) (\<lambda>xs.
       case xs of [] \<Rightarrow> Inl IndexError | x # _ \<Rightarrow> Inr x)"

section \<open>Candidates for a reduction step\<close>

function powers_upto :: "nat \<Rightarrow> nat \<Rightarrow> nat list" where
  "powers_upto n x = (if 0 < x \<and> x < n then x # powers_upto n (x * 2) else [x])"
  by auto

termination
  by (relation "measure (\<lambda>(n, x). n - x)") auto

declare powers_upto.simps [simp del]

definition reduce_step_candidates :: "(string \<times> nat) list \<Rightarrow> (string \<times> nat list) list" where
  "reduce_step_candidates raxis =
     map (\<lambda>(name, extent).
       let all_factors = get_all_factors extent
       in (name, if length all_factors = 2 \<and> 64 < extent then powers_upto extent 1 else all_factors))
     raxis"

section \<open>Recommended block sizes\<close>

text \<open>
  The sizes of the nodes' tiles and of their reduction steps come in the order of the nodes.
\<close>

definition gcd_all :: "nat list \<Rightarrow> nat res" where
  "gcd_all xs = (case xs of [] \<Rightarrow> Inl TypeError | y # ys \<Rightarrow> Inr (foldl gcd y ys))"

definition recommend_block_size :: "gpu_arch \<Rightarrow> nat list \<Rightarrow> nat list \<Rightarrow> nat list res" where
  "recommend_block_size a node_space_sizes node_reduce_sizes =
     rbind (gcd_all node_space_sizes) (\<lambda>max_block_size.
       if max_block_size < warp_size a * sm_partition a \<and>
          max_block_size = Min (set node_space_sizes)
       then
         if length node_space_sizes \<noteq> length node_reduce_sizes then Inl ValueError
         else
           let total_sizes = map2 (*) node_space_sizes node_reduce_sizes
           in rbind (gcd_all total_sizes) (\<lambda>max_possible_size.
                let factors = get_all_factors max_possible_size
                in if max_block_size = 0 \<and> factors \<noteq> [] then Inl ZeroDivisionError
                   else
                     let possible = filter (\<lambda>x. x mod max_block_size = 0 \<and> x \<le> 1024) factors;
                         covering = filter (\<lambda>x. list_all (\<lambda>s. x mod s = 0 \<or> s mod x = 0) node_space_sizes)
                                      possible
                     in sorted_by (score_block_size a) covering)
       else
         sorted_by (score_block_size a) (filter (\<lambda>x. x \<le> 1024) (get_all_factors max_block_size)))"

section \<open>Vector widths\<close>

function is_cont :: "nat list \<Rightarrow> nat \<Rightarrow> bool" where
  "is_cont shape vec =
     (if shape = [] then vec = 1
      else if last shape = 1 then is_cont (butlast shape) (vec div last shape)
      else last shape mod vec = 0)"
  by auto

termination
  by (relation "measure (\<lambda>(s, v). length s)") auto

declare is_cont.simps [simp del]

text \<open>
  The widest vector that divides the tensor over the block, is contiguous and fits 128
  bits. The element type of a tensor is looked up only after the first two tests.
\<close>

fun first_vector :: "nat \<Rightarrow> nat list \<Rightarrow> nat option \<Rightarrow> nat list \<Rightarrow> nat option res" where
  "first_vector block_size shape bits [] = Inr None"
| "first_vector block_size shape bits (v # vs) =
     (if block_size * v = 0 then Inl ZeroDivisionError
      else if prod_list shape mod (block_size * v) = 0 \<and> is_cont shape v
      then (case bits of
              None \<Rightarrow> Inl KeyError
            | Some b \<Rightarrow> if b * v \<le> 128 then Inr (Some v) else first_vector block_size shape bits vs)
      else first_vector block_size shape bits vs)"

definition plan_vectorize ::
  "nat \<Rightarrow> (string \<times> nat list) list \<Rightarrow> (string \<rightharpoonup> nat) \<Rightarrow> (string \<times> nat) list res" where
  "plan_vectorize block_size shapes dtypes =
     rfold (\<lambda>(tensor, shape) result.
       rbind (first_vector block_size shape (dtypes tensor) [16, 8, 4, 2]) (\<lambda>v.
         Inr (case v of Some k \<Rightarrow> result @ [(tensor, k)] | None \<Rightarrow> result))) shapes []"

section \<open>Assignment of threads to axes\<close>

text \<open>
  One round of the loop over the prime factors: the spatial axes that can take the factor
  are scored and the best one is enlarged; if there is none, the last reduction axis that
  can take it is. The score of a thread shape reads the node's analysis and is an argument.
\<close>

text \<open>
  The score of a thread shape: the elements read over the second bandwidth and the
  coalesced transactions written over the first. How a tile propagates to the shapes of the
  inputs is the node's analysis, an argument. Both bandwidths of an architecture are positive
  constants; the infinite score that a bandwidth of zero would give is not modelled.
\<close>

definition thread_score ::
  "(nat list \<Rightarrow> nat list list) \<Rightarrow> nat \<Rightarrow> nat list list \<Rightarrow> rat \<Rightarrow> rat \<Rightarrow> nat list \<Rightarrow> nat list \<Rightarrow> rat res" where
  "thread_score propagate_inputs n_inputs output_shapes bw0 bw1 tile thread =
     (let block_tile = map2 cdiv tile thread;
          shape = propagate_inputs block_tile
      in rbind (rmap (\<lambda>i. if i < length shape then Inr (of_nat (prod_list (shape ! i)) / bw1)
                          else Inl IndexError) [0..<n_inputs]) (\<lambda>reads.
         rbind (rmap (\<lambda>s. rbind (coalesced_tensor_shape thread s 8) (\<lambda>c. Inr (c / bw0)))
                  output_shapes) (\<lambda>writes.
           Inr (sum_list reads + sum_list writes))))"

definition space_candidates :: "nat list \<Rightarrow> nat \<Rightarrow> nat list \<Rightarrow> nat list" where
  "space_candidates tile factor cur =
     filter (\<lambda>i. cur ! i < tile ! i \<and> tile ! i mod (cur ! i * factor) = 0) [0..<length tile]"

definition assign_factor ::
  "(nat list \<Rightarrow> rat res) \<Rightarrow> nat list \<Rightarrow> rsteps \<Rightarrow> nat \<Rightarrow> nat list \<times> (string \<Rightarrow> nat)
     \<Rightarrow> (nat list \<times> (string \<Rightarrow> nat)) res" where
  "assign_factor score tile rs factor st =
     (case st of (cur, red) \<Rightarrow>
        rbind (rmap (\<lambda>i. rbind (score (cur[i := cur ! i * factor])) (\<lambda>s. Inr (s, i)))
                 (space_candidates tile factor cur)) (\<lambda>score_map.
          case sort score_map of
            (_, i) # _ \<Rightarrow> Inr (cur[i := cur ! i * factor], red)
          | [] \<Rightarrow>
              (case find (\<lambda>(ax, ax_len). ax_len mod (red ax * factor) = 0) (rev rs) of
                 Some (ax, _) \<Rightarrow>
                   if ax = [] then Inl AssertionError else Inr (cur, red(ax := red ax * factor))
               | None \<Rightarrow> Inl AssertionError)))"

definition assign_threads ::
  "(nat list \<Rightarrow> rat res) \<Rightarrow> nat list \<Rightarrow> rsteps \<Rightarrow> nat list \<Rightarrow> (nat list \<times> (string \<Rightarrow> nat)) res" where
  "assign_threads score tile rs factors =
     rfold (assign_factor score tile rs) (rev factors) (map (\<lambda>_. 1) tile, \<lambda>_. 1)"

text \<open>
  The step of the innermost axis that allows it: two elements for 16-bit types and four for
  8-bit types.
\<close>

definition set_step :: "nat \<Rightarrow> nat list \<Rightarrow> nat list \<Rightarrow> nat list" where
  "set_step k block thread =
     (case find (\<lambda>i. block ! i div thread ! i mod k = 0) (rev [0..<length block]) of
        Some i \<Rightarrow> (map (\<lambda>_. 1) block)[i := k]
      | None \<Rightarrow> map (\<lambda>_. 1) block)"

definition plan_step :: "nat \<Rightarrow> nat list \<Rightarrow> nat list \<Rightarrow> nat list" where
  "plan_step bits block thread =
     (if bits = 16 then set_step 2 block thread
      else if bits = 8 then set_step 4 block thread else [])"

definition lookup_all :: "('k \<times> 'v) list \<Rightarrow> 'k list \<Rightarrow> 'v list res" where
  "lookup_all m ks = rmap (\<lambda>k. case map_of m k of Some v \<Rightarrow> Inr v | None \<Rightarrow> Inl KeyError) ks"

text \<open>
  What the node and its analysis contribute: the names of the reduction axes, the width of
  the element type, the tensors cached for it, the shapes and element widths of the inputs
  of its reduction and its tag of optimisation shapes. A block size of zero or one has
  an empty factorisation.
\<close>

record node_view =
  nv_raxis :: "string list"
  nv_bits :: nat
  nv_cached :: "string list"
  nv_shapes :: "(string \<times> nat list) list"
  nv_dtypes :: "string \<rightharpoonup> nat"
  nv_opt_shapes :: "(string \<times> nat) list"

definition assign_block_size ::
  "(nat list \<Rightarrow> rat res) \<Rightarrow> node_view \<Rightarrow> nat list \<Rightarrow> rsteps \<Rightarrow> nat \<Rightarrow> hint res" where
  "assign_block_size score nv tile rs block_size =
     (case factorize block_size of
        None \<Rightarrow> Inl ValueError
      | Some factors \<Rightarrow>
          rbind (assign_threads score tile rs factors) (\<lambda>(cur, red).
          rbind (lookup_all rs (nv_raxis nv)) (\<lambda>rstep.
          rbind (plan_vectorize block_size (nv_shapes nv) (nv_dtypes nv)) (\<lambda>vec.
            Inr (hint_init\<lparr>h_block := tile, h_thread := cur, h_rstep := rstep,
                   h_reduce_thread := map red (nv_raxis nv), h_cached_tensors := nv_cached nv,
                   h_step := plan_step (nv_bits nv) tile cur, h_vectorize := vec,
                   h_opt_shapes := nv_opt_shapes nv\<rparr>)))))"

section \<open>Prime factors of a product\<close>

lemma prime_dvd_mult:
  assumes "is_prime p" and "p dvd a * b"
  shows "p dvd a \<or> p dvd b"
proof (cases "p dvd a")
  case False
  have "gcd p a dvd p" by simp
  then have "gcd p a = 1 \<or> gcd p a = p" using assms(1) by (auto simp: is_prime_def)
  moreover have "gcd p a \<noteq> p" using False by (metis gcd_dvd2)
  ultimately have "coprime p a" by (simp add: coprime_iff_gcd_eq_1)
  then show ?thesis using assms(2) by (simp add: coprime_dvd_mult_right_iff)
qed simp

text \<open>
  If the shares divide the extents and a prime still fits into the product, then it fits
  into one of the extents.
\<close>

lemma prime_fits_somewhere:
  assumes "is_prime p" and "list_all2 (dvd) ys xs" and "\<forall>x \<in> set xs. 0 < x"
    and "p * prod_list ys dvd prod_list xs"
  shows "\<exists>i < length xs. ys ! i * p dvd xs ! i"
  using assms(2,3,4)
proof (induction ys xs rule: list_all2_induct)
  case Nil
  then show ?case using assms(1) by (simp add: is_prime_def)
next
  case (Cons y ys x xs)
  then obtain q where q: "x = y * q" by (auto elim: dvdE)
  have y: "0 < y" using q Cons.prems(1) by (auto intro: Nat.gr0I)
  have "prod_list ys dvd prod_list xs"
    using Cons.hyps(2) by (induction rule: list_all2_induct) (auto intro: mult_dvd_mono)
  then obtain Q where Q: "prod_list xs = prod_list ys * Q" by (rule dvdE)
  have pos: "0 < prod_list ys"
    using Q Cons.prems(1) prod_list_pos [of xs] by (auto intro: Nat.gr0I)
  have "(y * prod_list ys) * p dvd (y * prod_list ys) * (q * Q)"
    using Cons.prems(2) unfolding q prod_list.Cons Q by (simp add: mult_ac)
  then have "p dvd q * Q" using y pos by (simp add: nat_mult_dvd_cancel1 del: mult_dvd_mono)
  then consider "p dvd q" | "p dvd Q" using prime_dvd_mult [OF assms(1)] by blast
  then show ?case
  proof cases
    case 1
    then have "y * p dvd x" unfolding q by (simp add: mult_dvd_mono)
    then show ?thesis by (intro exI [of _ 0]) simp
  next
    case 2
    then have "p * prod_list ys dvd prod_list xs" unfolding Q by (simp add: mult.commute mult_dvd_mono)
    with Cons obtain i where "i < length xs" "ys ! i * p dvd xs ! i" by auto
    then show ?thesis by (intro exI [of _ "Suc i"]) simp
  qed
qed

lemma prod_list_update:
  "i < length xs \<Longrightarrow> prod_list (xs[i := xs ! i * (p :: nat)]) = prod_list xs * p"
  by (induction xs arbitrary: i) (auto split: nat.splits simp: mult_ac)

section \<open>The assignment keeps its shares\<close>

text \<open>
  The state after some factors have been assigned: every axis has a divisor of its extent,
  and the product of the shares is the product of the factors so far.
\<close>

definition extents :: "nat list \<Rightarrow> rsteps \<Rightarrow> nat list" where
  "extents tile rs = tile @ map snd rs"

definition shares :: "rsteps \<Rightarrow> nat list \<times> (string \<Rightarrow> nat) \<Rightarrow> nat list" where
  "shares rs st = fst st @ map (\<lambda>(ax, _). snd st ax) rs"

definition assign_inv :: "nat list \<Rightarrow> rsteps \<Rightarrow> nat \<Rightarrow> nat list \<times> (string \<Rightarrow> nat) \<Rightarrow> bool" where
  "assign_inv tile rs done st \<longleftrightarrow>
     list_all2 (dvd) (fst st) tile \<and> (\<forall>(ax, ax_len) \<in> set rs. snd st ax dvd ax_len) \<and>
     prod_list (shares rs st) = done"

definition wf_axes :: "nat list \<Rightarrow> rsteps \<Rightarrow> bool" where
  "wf_axes tile rs \<longleftrightarrow> (\<forall>x \<in> set (extents tile rs). 0 < x) \<and> distinct (map fst rs) \<and>
     (\<forall>(ax, _) \<in> set rs. ax \<noteq> [])"

lemma assign_inv_shares:
  assumes "assign_inv tile rs d st"
  shows "list_all2 (dvd) (shares rs st) (extents tile rs)"
proof -
  have "\<forall>(ax, ax_len) \<in> set rs. snd st ax dvd ax_len" using assms by (simp add: assign_inv_def)
  then have "list_all2 (dvd) (map (\<lambda>(ax, _). snd st ax) rs) (map snd rs)"
    by (induction rs) auto
  then show ?thesis using assms
    unfolding shares_def extents_def assign_inv_def by (simp add: list_all2_appendI)
qed

lemma prod_red_update:
  "distinct (map fst rs) \<Longrightarrow> (ax, l) \<in> set rs \<Longrightarrow>
     prod_list (map (\<lambda>(a, _). (red(ax := red ax * p)) a) rs) =
     prod_list (map (\<lambda>(a, _). red a) rs) * (p :: nat)"
proof (induction rs)
  case Nil
  then show ?case by simp
next
  case (Cons r rs)
  obtain a k where r: "r = (a, k)" by (cases r)
  show ?case
  proof (cases "a = ax")
    case True
    then have "ax \<notin> set (map fst rs)" using Cons.prems(1) r by simp
    then have "prod_list (map (\<lambda>(b, _). (red(ax := red ax * p)) b) rs) =
        prod_list (map (\<lambda>(b, _). red b) rs)" by (induction rs) auto
    then show ?thesis using True r by (simp add: mult_ac)
  next
    case False
    then show ?thesis using Cons r by (simp add: mult_ac)
  qed
qed

lemma dvd_update:
  "list_all2 (dvd) cur tile \<Longrightarrow> i < length tile \<Longrightarrow> v dvd tile ! i \<Longrightarrow> list_all2 (dvd) (cur[i := v]) tile"
  by (auto simp: list_all2_conv_all_nth nth_list_update)

lemma assign_inv_space:
  assumes "assign_inv tile rs d (cur, red)" and "i < length tile" and "cur ! i * p dvd tile ! i"
  shows "assign_inv tile rs (d * p) (cur[i := cur ! i * p], red)"
proof -
  have "length cur = length tile" using assms(1) by (auto simp: assign_inv_def dest: list_all2_lengthD)
  then show ?thesis using assms
    by (auto simp: assign_inv_def shares_def dvd_update prod_list_update)
qed

lemma assign_inv_reduce:
  assumes "assign_inv tile rs d (cur, red)" and "distinct (map fst rs)" and "(ax, l) \<in> set rs"
    and "red ax * p dvd l"
  shows "assign_inv tile rs (d * p) (cur, red(ax := red ax * p))"
proof -
  have "(red(ax := red ax * p)) a dvd k" if "(a, k) \<in> set rs" for a k
    using that assms eq_key_imp_eq_value [OF assms(2), of ax] by (auto simp: assign_inv_def)
  then show ?thesis
    using assms(1) prod_red_update [OF assms(2,3), of red p]
    by (auto simp: assign_inv_def shares_def mult.assoc)
qed

lemma space_candidates_iff:
  assumes "wf_axes tile rs" and "assign_inv tile rs d (cur, red)" and "is_prime p"
  shows "i \<in> set (space_candidates tile p cur) \<longleftrightarrow> i < length tile \<and> cur ! i * p dvd tile ! i"
proof -
  have "cur ! i < tile ! i" if "i < length tile" "cur ! i * p dvd tile ! i"
  proof -
    have pos: "0 < tile ! i" using assms(1) that(1) by (auto simp: wf_axes_def extents_def)
    have "cur ! i dvd tile ! i" using assms(2) that(1) by (auto simp: assign_inv_def list_all2_conv_all_nth)
    then have "0 < cur ! i" using pos by (auto intro: Nat.gr0I)
    moreover have "cur ! i * p \<le> tile ! i" using that(2) pos by (rule dvd_imp_le)
    moreover have "2 \<le> p" using assms(3) by (simp add: is_prime_def)
    ultimately show ?thesis by (metis (no_types, lifting) le_eq_less_or_eq less_le_trans
          mult.right_neutral mult_less_cancel1 numeral_le_one_iff semiring_norm(69) not_le)
  qed
  then show ?thesis by (auto simp: space_candidates_def dvd_eq_mod_eq_0)
qed

lemma find_not_None: "x \<in> set xs \<Longrightarrow> P x \<Longrightarrow> find P xs \<noteq> None"
  by (induction xs) auto

lemma find_SomeD: "find P xs = Some r \<Longrightarrow> P r \<and> r \<in> set xs"
  by (induction xs) (auto split: if_splits)

lemma reduce_candidate:
  assumes "wf_axes tile rs" and "assign_inv tile rs d (cur, red)" and "is_prime p"
    and "p * d dvd prod_list (extents tile rs)" and "space_candidates tile p cur = []"
  shows "\<exists>ax l. find (\<lambda>(ax, ax_len). ax_len mod (red ax * p) = 0) (rev rs) = Some (ax, l) \<and>
    (ax, l) \<in> set rs \<and> red ax * p dvd l"
proof -
  have d: "prod_list (shares rs (cur, red)) = d" using assms(2) by (simp add: assign_inv_def)
  have len: "length cur = length tile"
    using assms(2) by (auto simp: assign_inv_def dest: list_all2_lengthD)
  obtain i where i: "i < length (extents tile rs)" "shares rs (cur, red) ! i * p dvd extents tile rs ! i"
    using prime_fits_somewhere [OF assms(3) assign_inv_shares [OF assms(2)]] assms(1,4) d
    by (auto simp: wf_axes_def)
  have "\<not> i < length tile"
  proof
    assume "i < length tile"
    then have "i \<in> set (space_candidates tile p cur)"
      using i(2) len space_candidates_iff [OF assms(1-3)] by (simp add: shares_def extents_def nth_append)
    then show False using assms(5) by simp
  qed
  then have "i - length tile < length rs"
    "(case rs ! (i - length tile) of (ax, l) \<Rightarrow> red ax * p dvd l)"
    using i len by (auto simp: shares_def extents_def nth_append split: prod.splits)
  then obtain ax l where al: "(ax, l) \<in> set rs" "red ax * p dvd l"
    by (metis (no_types, lifting) case_prodE nth_mem)
  then have "find (\<lambda>(ax, ax_len). ax_len mod (red ax * p) = 0) (rev rs) \<noteq> None"
    by (intro find_not_None [of "(ax, l)"]) (simp_all add: dvd_eq_mod_eq_0)
  then obtain r where r: "find (\<lambda>(ax, ax_len). ax_len mod (red ax * p) = 0) (rev rs) = Some r" by blast
  from find_SomeD [OF r] have "r \<in> set rs" "(case r of (ax, l) \<Rightarrow> red ax * p dvd l)"
    by (auto simp: dvd_eq_mod_eq_0)
  then show ?thesis using r by (cases r) auto
qed

lemma assign_inv_pos:
  assumes "wf_axes tile rs" and "assign_inv tile rs d (cur, red)"
  shows "length cur = length tile \<and> (\<forall>x \<in> set cur. 0 < x)"
proof -
  have "list_all2 (dvd) cur tile" "\<forall>x \<in> set tile. 0 < x"
    using assms by (auto simp: assign_inv_def wf_axes_def extents_def)
  then show ?thesis by (induction rule: list_all2_induct) (auto intro: Nat.gr0I)
qed

lemma list_all2_in_right:
  "list_all2 P xs ys \<Longrightarrow> y \<in> set ys \<Longrightarrow> \<exists>x \<in> set xs. P x y"
  by (induction rule: list_all2_induct) auto

lemma assign_factor_step:
  assumes wf: "wf_axes tile rs" and inv: "assign_inv tile rs d st" and p: "is_prime p"
    and total: "\<And>t. length t = length tile \<Longrightarrow> \<forall>x \<in> set t. 0 < x \<Longrightarrow> \<exists>s. score t = Inr s"
    and fits: "p * d dvd prod_list (extents tile rs)"
  shows "\<exists>st'. assign_factor score tile rs p st = Inr st' \<and> assign_inv tile rs (d * p) st'"
proof -
  obtain cur red where st: "st = (cur, red)" by (cases st)
  note inv' = inv [unfolded st]
  let ?f = "\<lambda>i. rbind (score (cur[i := cur ! i * p])) (\<lambda>s. Inr (s, i))"
  have "length cur = length tile" "\<forall>x \<in> set cur. 0 < x" using assign_inv_pos [OF wf inv'] by auto
  moreover have "0 < p" using p by (simp add: is_prime_def)
  ultimately have "\<forall>x \<in> set (cur[i := cur ! i * p]). 0 < x" if "i < length tile" for i
    using that by (auto dest!: set_update_subset_insert [THEN subsetD])
  then have "\<exists>y. ?f i = Inr y" if "i \<in> set (space_candidates tile p cur)" for i
    using that total [of "cur[i := cur ! i * p]"] \<open>length cur = length tile\<close>
      space_candidates_iff [OF wf inv' p, of i] by auto
  then obtain sm where sm: "rmap ?f (space_candidates tile p cur) = Inr sm"
    using rmap_total [of "space_candidates tile p cur" ?f] by blast
  then have rel: "list_all2 (\<lambda>i y. ?f i = Inr y) (space_candidates tile p cur) sm"
    by (simp add: rmap_Inr_iff)
  show ?thesis
  proof (cases "sort sm")
    case Nil
    then have "sm = []" by (metis length_0_conv length_sort)
    then have "space_candidates tile p cur = []" using rel by simp
    from reduce_candidate [OF wf inv' p fits this] obtain ax l where
      ax: "find (\<lambda>(ax, ax_len). ax_len mod (red ax * p) = 0) (rev rs) = Some (ax, l)"
        "(ax, l) \<in> set rs" "red ax * p dvd l" by blast
    have "ax \<noteq> []" and dist: "distinct (map fst rs)" using wf ax(2) by (auto simp: wf_axes_def)
    then have "assign_factor score tile rs p st = Inr (cur, red(ax := red ax * p))"
      using sm Nil ax(1) by (simp add: assign_factor_def st)
    then show ?thesis using assign_inv_reduce [OF inv' dist ax(2,3)] by blast
  next
    case (Cons y ys)
    obtain s i where y: "y = (s, i)" by (cases y)
    have "y \<in> set sm" using Cons by (metis list.set_intros(1) set_sort)
    then obtain j where "j \<in> set (space_candidates tile p cur)" "?f j = Inr y"
      using list_all2_in_right [OF rel] by blast
    then have "i \<in> set (space_candidates tile p cur)" using y by (auto simp: rbind_Inr_iff)
    then have i: "i < length tile" "cur ! i * p dvd tile ! i"
      using space_candidates_iff [OF wf inv' p] by blast+
    have "assign_factor score tile rs p st = Inr (cur[i := cur ! i * p], red)"
      using sm Cons y by (simp add: assign_factor_def st)
    then show ?thesis using assign_inv_space [OF inv' i] by blast
  qed
qed

lemma assign_factors_loop:
  assumes wf: "wf_axes tile rs" and total: "\<And>t. length t = length tile \<Longrightarrow> \<forall>x \<in> set t. 0 < x \<Longrightarrow> \<exists>s. score t = Inr s"
  shows "assign_inv tile rs d st \<Longrightarrow> \<forall>p \<in> set ps. is_prime p \<Longrightarrow>
    prod_list ps * d dvd prod_list (extents tile rs) \<Longrightarrow>
    \<exists>st'. rfold (assign_factor score tile rs) ps st = Inr st' \<and> assign_inv tile rs (d * prod_list ps) st'"
proof (induction ps arbitrary: d st)
  case Nil
  then show ?case by simp
next
  case (Cons p ps)
  have "p * d dvd prod_list (extents tile rs)"
    using Cons.prems(3) by (metis dvd_mult_left mult.commute mult.left_commute prod_list.Cons)
  then obtain st' where st': "assign_factor score tile rs p st = Inr st'" "assign_inv tile rs (d * p) st'"
    using assign_factor_step [where score = score, OF wf Cons.prems(1) _ total] Cons.prems(2)
    by (meson list.set_intros(1))
  have "prod_list ps * (d * p) dvd prod_list (extents tile rs)"
    using Cons.prems(3) by (simp add: mult_ac)
  from Cons.IH [OF st'(2) _ this] Cons.prems(2) st'(1) show ?case by (auto simp: mult_ac)
qed

lemma assign_inv_init: "assign_inv tile rs 1 (map (\<lambda>_. 1) tile, \<lambda>_. 1)"
proof -
  have "prod_list (map (\<lambda>_. 1) xs) = (1 :: nat)" for xs :: "'a list" by (induction xs) auto
  moreover have "list_all2 (dvd) (map (\<lambda>_. 1) tile) tile" by (induction tile) auto
  moreover have "prod_list (map (\<lambda>(_, _). 1) rs) = (1 :: nat)" by (induction rs) auto
  ultimately show ?thesis by (auto simp: assign_inv_def shares_def)
qed

lemma prod_list_rev_nat: "prod_list (rev xs) = prod_list (xs :: nat list)"
  by (induction xs) (auto simp: mult_ac)

lemma assign_threads_exact:
  assumes "wf_axes tile rs"
    and "\<And>t. length t = length tile \<Longrightarrow> \<forall>x \<in> set t. 0 < x \<Longrightarrow> \<exists>s. score t = Inr s"
    and "\<forall>p \<in> set ps. is_prime p"
    and "prod_list ps dvd prod_list (extents tile rs)"
  shows "\<exists>st. assign_threads score tile rs ps = Inr st \<and> assign_inv tile rs (prod_list ps) st"
  using assign_factors_loop [where score = score and ps = "rev ps", OF assms(1,2) assign_inv_init] assms(3,4)
  by (simp add: assign_threads_def prod_list_rev_nat)

lemma factorize_primes:
  assumes "0 < n"
  shows "\<exists>ps. factorize n = Some ps \<and> prod_list ps = n \<and> (\<forall>p \<in> set ps. is_prime p)"
  using factorize_loop_correct [OF assms, of 2 "[]"]
  by (fastforce simp: factorize_def no_divisor_below_def)

lemma lookup_all_own:
  assumes "distinct (map fst rs)"
  shows "lookup_all rs (map fst rs) = Inr (map snd rs)"
proof -
  have "list_all2 (\<lambda>k v. (case map_of rs k of Some v \<Rightarrow> Inr v | None \<Rightarrow> Inl KeyError) = Inr v)
      (map fst rs) (map snd rs)"
    using map_of_is_SomeI [OF assms, of "fst (rs ! i)" "snd (rs ! i)" for i]
    by (simp add: list_all2_conv_all_nth)
  then show ?thesis by (simp add: lookup_all_def rmap_Inr_iff)
qed

section \<open>Scores of thread shapes are defined\<close>

lemma coalesced_factor_total:
  "s \<noteq> [] \<Longrightarrow> length s \<le> length t \<Longrightarrow> \<forall>x \<in> set s. 0 < x \<Longrightarrow> \<exists>f. coalesced_factor s t = Inr f \<and> 0 < f"
proof (induction s arbitrary: t rule: rev_induct)
  case Nil
  then show ?case by simp
next
  case (snoc x s)
  then have t: "t \<noteq> []" by auto
  show ?case
  proof (cases "x \<noteq> last t \<or> s = []")
    case True
    then show ?thesis using t snoc.prems(3) by (subst coalesced_factor.simps) auto
  next
    case False
    then obtain f where "coalesced_factor s (butlast t) = Inr f" "0 < f"
      using snoc.IH [of "butlast t"] snoc.prems by fastforce
    then show ?thesis using False t snoc.prems(3) by (subst coalesced_factor.simps) auto
  qed
qed

lemma thread_score_total:
  assumes "\<And>b. n_in \<le> length (prop b)" and "\<forall>s \<in> set outs. length t \<le> length s"
    and "t \<noteq> []" and "\<forall>x \<in> set t. 0 < x"
  shows "\<exists>s. thread_score prop n_in outs bw0 bw1 tile t = Inr s"
proof -
  let ?g = "\<lambda>s. rbind (coalesced_tensor_shape t s 8) (\<lambda>c. Inr (c / bw0))"
  have "\<exists>y. ?g s = Inr y" if "s \<in> set outs" for s
    using coalesced_factor_total [OF assms(3) _ assms(4), of s] that assms(2)
    by (auto simp: coalesced_tensor_shape_def Let_def)
  then obtain ws where "rmap ?g outs = Inr ws" using rmap_total [of outs ?g] by blast
  moreover have "rmap (\<lambda>i. if i < length (prop b) then Inr (of_nat (prod_list (prop b ! i)) / bw1)
      else Inl IndexError) [0..<n_in] = Inr (map (\<lambda>i. of_nat (prod_list (prop b ! i)) / bw1) [0..<n_in])"
    for b using assms(1) [of b] by (subst rmap_pure [symmetric]) (rule rmap_cong, auto)
  ultimately show ?thesis by (simp add: thread_score_def Let_def)
qed

section \<open>Vector widths are admissible\<close>

definition vector_ok :: "nat \<Rightarrow> (string \<times> nat list) list \<Rightarrow> (string \<rightharpoonup> nat) \<Rightarrow> (string \<times> nat) list \<Rightarrow> bool" where
  "vector_ok block_size shapes dtypes m \<longleftrightarrow>
     (\<forall>(tensor, v) \<in> set m. v \<in> {2, 4, 8, 16} \<and>
        (\<exists>shape b. (tensor, shape) \<in> set shapes \<and> dtypes tensor = Some b \<and>
           block_size * v dvd prod_list shape \<and> is_cont shape v \<and> b * v \<le> 128))"

lemma first_vector_total:
  "0 < n \<Longrightarrow> \<forall>v \<in> set vs. 0 < v \<Longrightarrow> \<exists>r. first_vector n shape (Some b) vs = Inr r \<and>
     (\<forall>v. r = Some v \<longrightarrow> v \<in> set vs \<and> n * v dvd prod_list shape \<and> is_cont shape v \<and> b * v \<le> 128)"
  by (induction vs) (auto simp: dvd_eq_mod_eq_0)

lemma plan_vectorize_loop:
  assumes "0 < n" and "\<forall>(tensor, _) \<in> set todo. dtypes tensor \<noteq> None" and "set todo \<subseteq> set shapes"
    and "vector_ok n shapes dtypes m"
  shows "\<exists>m'. rfold (\<lambda>(tensor, shape) result.
       rbind (first_vector n shape (dtypes tensor) [16, 8, 4, 2]) (\<lambda>v.
         Inr (case v of Some k \<Rightarrow> result @ [(tensor, k)] | None \<Rightarrow> result))) todo m = Inr m' \<and>
     vector_ok n shapes dtypes m'"
  using assms(2-)
proof (induction todo arbitrary: m)
  case Nil
  then show ?case by simp
next
  case (Cons x todo)
  obtain tensor shape where x: "x = (tensor, shape)" by (cases x)
  with Cons.prems(1) obtain b where b: "dtypes tensor = Some b" by auto
  obtain r where r: "first_vector n shape (Some b) [16, 8, 4, 2] = Inr r"
    "\<forall>v. r = Some v \<longrightarrow> v \<in> set [16, 8, 4, 2] \<and> n * v dvd prod_list shape \<and> is_cont shape v \<and> b * v \<le> 128"
    using first_vector_total [OF assms(1), of "[16, 8, 4, 2]" shape b] by auto
  define m1 where "m1 = (case r of Some k \<Rightarrow> m @ [(tensor, k)] | None \<Rightarrow> m)"
  have "vector_ok n shapes dtypes m1"
    using Cons.prems(2,3) r(2) b x by (auto simp: vector_ok_def m1_def split: option.splits)
  with Cons.IH [of m1] Cons.prems(1,2) show ?case
    using r(1) b by (simp add: x m1_def del: first_vector.simps)
qed

lemma plan_vectorize_total:
  assumes "0 < n" and "\<forall>(tensor, _) \<in> set shapes. dtypes tensor \<noteq> None"
  shows "\<exists>m. plan_vectorize n shapes dtypes = Inr m \<and> vector_ok n shapes dtypes m"
  unfolding plan_vectorize_def
  using assms by (intro plan_vectorize_loop) (auto simp: vector_ok_def)

section \<open>Sorting by score\<close>

lemma insort_key_image:
  "insort_key fst (k x, x) (map (\<lambda>x. (k x, x)) xs) = map (\<lambda>x. (k x, x)) (insort_key k x xs)"
  by (induction xs) auto

lemma sort_key_image: "sort_key fst (map (\<lambda>x. (k x, x)) xs) = map (\<lambda>x. (k x, x)) (sort_key k xs)"
  by (induction xs) (simp_all add: insort_key_image)

lemma sorted_by_total:
  assumes "\<And>x. x \<in> set xs \<Longrightarrow> f x = Inr (k x)"
  shows "sorted_by f xs = Inr (sort_key k xs)"
proof -
  have "rmap (\<lambda>x. rbind (f x) (\<lambda>k. Inr (k, x))) xs = rmap (\<lambda>x. Inr (k x, x)) xs"
    using assms by (intro rmap_cong) auto
  then have "sorted_by f xs = Inr (map snd (sort_key fst (map (\<lambda>x. (k x, x)) xs)))"
    by (simp add: sorted_by_def)
  also have "\<dots> = Inr (sort_key k xs)" unfolding sort_key_image by (simp add: comp_def)
  finally show ?thesis .
qed

definition score_key :: "gpu_arch \<Rightarrow> nat \<Rightarrow> rat \<times> rat" where
  "score_key a n = projr (score_block_size a n)"

lemma score_total:
  assumes "0 < warp_size a" and "0 < sm_partition a" and "0 < n"
  shows "score_block_size a n = Inr (score_key a n)"
proof -
  have "0 < (n + warp_size a - 1) div warp_size a" using assms by (simp add: div_greater_zero_iff)
  then show ?thesis using assms by (auto simp: score_key_def score_block_size_def Let_def)
qed

lemma foldl_gcd_dvd: "foldl gcd y ys dvd (y :: nat) \<and> (\<forall>x \<in> set ys. foldl gcd y ys dvd x)"
proof (induction ys arbitrary: y)
  case Nil
  then show ?case by simp
next
  case (Cons x ys)
  have "foldl gcd (gcd y x) ys dvd gcd y x" using Cons by blast
  then have "foldl gcd (gcd y x) ys dvd y" "foldl gcd (gcd y x) ys dvd x" by auto
  then show ?case using Cons by auto
qed

lemma foldl_gcd_greatest: "d dvd (y :: nat) \<Longrightarrow> \<forall>x \<in> set ys. d dvd x \<Longrightarrow> d dvd foldl gcd y ys"
  by (induction ys arbitrary: y) auto

lemma gcd_all_Inr:
  assumes "xs \<noteq> []"
  shows "\<exists>g. gcd_all xs = Inr g \<and> (\<forall>x \<in> set xs. g dvd x) \<and> (\<forall>d. (\<forall>x \<in> set xs. d dvd x) \<longrightarrow> d dvd g)"
proof (cases xs)
  case (Cons y ys)
  then show ?thesis using foldl_gcd_dvd [of y ys] foldl_gcd_greatest [of _ y ys]
    by (auto simp: gcd_all_def)
qed (use assms in simp)

lemma recommended_factors:
  assumes "0 < warp_size a" and "0 < sm_partition a" and "0 < n" and "n0 dvd n" and "P n0" and "n0 \<le> 1024"
  shows "\<exists>xs. sorted_by (score_block_size a) (filter P (filter (\<lambda>x. x \<le> 1024) (get_all_factors n))) = Inr xs \<and>
    xs \<noteq> [] \<and> sorted (map (score_key a) xs) \<and> (\<forall>x \<in> set xs. 0 < x \<and> x \<le> 1024 \<and> x dvd n)"
proof -
  let ?fs = "filter P (filter (\<lambda>x. x \<le> 1024) (get_all_factors n))"
  have fs: "set ?fs = {x. x dvd n \<and> x \<le> 1024 \<and> P x}" using set_get_all_factors [OF assms(3)] by auto
  have pos: "0 < x" if "x dvd n" for x using that assms(3) by (auto intro: Nat.gr0I)
  have "sorted_by (score_block_size a) ?fs = Inr (sort_key (score_key a) ?fs)"
    using fs pos assms(1,2) by (intro sorted_by_total score_total) auto
  moreover have "n0 \<in> set (sort_key (score_key a) ?fs)" using fs assms(4-6) by simp
  then have "sort_key (score_key a) ?fs \<noteq> []" by (metis list.set(1) empty_iff)
  ultimately show ?thesis using fs pos by auto
qed

section \<open>Properties\<close>

text \<open>
  Every block size that is recommended fits every node. For an architecture with
  at most 1024 threads in its warps and partitions and positive sizes, at least one size is
  recommended; the sizes come in the order of their scores, are positive, at most 1024, and
  divide the product of the spatial and the reduction size of every node, which is what the
  assignment to axes needs.
\<close>

theorem recommend_block_size_fits:
  assumes "0 < warp_size a" and "0 < sm_partition a" and "warp_size a * sm_partition a \<le> 1024"
    and "space \<noteq> []" and "length space = length red"
    and "\<forall>x \<in> set space. 0 < x" and "\<forall>x \<in> set red. 0 < x"
  shows "\<exists>xs. recommend_block_size a space red = Inr xs \<and> xs \<noteq> [] \<and> sorted (map (score_key a) xs) \<and>
    (\<forall>x \<in> set xs. 0 < x \<and> x \<le> 1024 \<and> (\<forall>i < length space. x dvd space ! i * red ! i))"
proof -
  obtain g where g: "gcd_all space = Inr g" "\<forall>x \<in> set space. g dvd x"
    using gcd_all_Inr [OF assms(4)] by blast
  have gpos: "0 < g" using g(2) assms(4,6) by (cases space) (auto intro: Nat.gr0I)
  let ?total = "map2 (*) space red"
  have "?total \<noteq> []" using assms(4,5) by (cases space; cases red) auto
  then obtain m where m: "gcd_all ?total = Inr m" "\<forall>x \<in> set ?total. m dvd x"
    "\<And>d. (\<forall>x \<in> set ?total. d dvd x) \<Longrightarrow> d dvd m" using gcd_all_Inr by blast
  have total: "space ! i * red ! i \<in> set ?total" if "i < length space" for i
    using that assms(5) by (force simp: in_set_conv_nth)
  have "0 < space ! 0 * red ! 0" using assms(4-7) by (cases space; cases red) auto
  moreover have "m dvd space ! 0 * red ! 0" using bspec [OF m(2) total [of 0]] assms(4) by blast
  ultimately have mpos: "0 < m" by (rule dvd_pos_nat)
  have gm: "g dvd m" using g(2) by (intro m(3)) (auto dest!: set_zip_leftD)
  show ?thesis
  proof (cases "g < warp_size a * sm_partition a \<and> g = Min (set space)")
    case True
    let ?P = "\<lambda>x. x mod g = 0 \<and> list_all (\<lambda>s. x mod s = 0 \<or> s mod x = 0) space"
    have "?P g" using g(2) by (auto simp: list_all_iff)
    moreover have "recommend_block_size a space red =
        sorted_by (score_block_size a) (filter ?P (filter (\<lambda>x. x \<le> 1024) (get_all_factors m)))"
      using True g(1) m(1) gpos assms(5) by (simp add: recommend_block_size_def Let_def conj_ac)
    moreover have "g \<le> 1024" using True assms(3) by linarith
    ultimately obtain xs where "recommend_block_size a space red = Inr xs" "xs \<noteq> []"
      "sorted (map (score_key a) xs)" "\<forall>x \<in> set xs. 0 < x \<and> x \<le> 1024 \<and> x dvd m"
      using recommended_factors [OF assms(1,2) mpos gm, of ?P] by metis
    moreover have "\<forall>i < length space. x dvd space ! i * red ! i" if "x dvd m" for x
      using that m(2) total by (metis dvd_trans)
    ultimately show ?thesis by metis
  next
    case False
    then have "recommend_block_size a space red =
        sorted_by (score_block_size a) (filter (\<lambda>_. True) (filter (\<lambda>x. x \<le> 1024) (get_all_factors g)))"
      using g(1) by (auto simp: recommend_block_size_def)
    then obtain xs where "recommend_block_size a space red = Inr xs" "xs \<noteq> []"
      "sorted (map (score_key a) xs)" "\<forall>x \<in> set xs. 0 < x \<and> x \<le> 1024 \<and> x dvd g"
      using recommended_factors [OF assms(1,2) gpos one_dvd, of "\<lambda>_. True"] by auto
    moreover have "\<forall>i < length space. x dvd space ! i * red ! i" if "x dvd g" for x
      using that g(2) by (metis dvd_mult2 dvd_trans nth_mem)
    ultimately show ?thesis by metis
  qed
qed

theorem recommend_block_size_fits_witness:
  "\<exists>xs. recommend_block_size \<lparr>warp_size = 32, sm_partition = 4\<rparr> [64, 128] [8, 1] = Inr xs \<and> xs \<noteq> [] \<and>
     sorted (map (score_key \<lparr>warp_size = 32, sm_partition = 4\<rparr>) xs) \<and>
     list_all (\<lambda>x. 0 < x \<and> x \<le> 1024 \<and> x dvd 512 \<and> x dvd 128) xs"
  using recommend_block_size_fits [of "\<lparr>warp_size = 32, sm_partition = 4\<rparr>" "[64, 128]" "[8, 1]"]
  by (fastforce simp: list_all_iff less_Suc_eq)

text \<open>
  C14: a block size that divides the elements of the tile times the reduction steps is
  distributed exactly. If the extents are positive, the reduction axes have distinct names
  and the node's analysis yields a shape per input, then the assignment succeeds, every axis
  and every reduction axis gets a divisor of its extent, and the product of all shares is the
  block size. So the assertion that a reduction axis is found never fires for a recommended
  size. Every planned vector width is a power of two up to 16 that divides the shape over the
  block, is contiguous and fits 128 bits.
\<close>

theorem assign_block_size_exact:
  assumes "wf_axes tile rs" and "tile \<noteq> []" and "\<And>b. n_in \<le> length (prop b)"
    and "\<forall>s \<in> set outs. length s = length tile"
    and "0 < block_size" and "block_size dvd prod_list tile * prod_list (map snd rs)"
    and "nv_raxis nv = map fst rs" and "\<forall>(tensor, _) \<in> set (nv_shapes nv). nv_dtypes nv tensor \<noteq> None"
  shows "\<exists>h. assign_block_size (thread_score prop n_in outs bw0 bw1 tile) nv tile rs block_size = Inr h \<and>
    h_block h = tile \<and> h_rstep h = map snd rs \<and>
    list_all2 (dvd) (h_thread h) tile \<and> list_all2 (dvd) (h_reduce_thread h) (h_rstep h) \<and>
    prod_list (h_thread h) * prod_list (h_reduce_thread h) = block_size \<and>
    vector_ok block_size (nv_shapes nv) (nv_dtypes nv) (h_vectorize h)"
proof -
  let ?score = "thread_score prop n_in outs bw0 bw1 tile"
  have total: "\<exists>s. ?score t = Inr s" if "length t = length tile" "\<forall>x \<in> set t. 0 < x" for t
    using that assms(2-4) by (intro thread_score_total) auto
  obtain ps where ps: "factorize block_size = Some ps" "prod_list ps = block_size"
    "\<forall>p \<in> set ps. is_prime p" using factorize_primes [OF assms(5)] by blast
  then have "prod_list ps dvd prod_list (extents tile rs)" using assms(6) by (simp add: extents_def)
  then obtain cur red where st: "assign_threads ?score tile rs ps = Inr (cur, red)"
    and inv: "assign_inv tile rs block_size (cur, red)"
    using assign_threads_exact [where score = ?score, OF assms(1) total ps(3)] ps(2) by auto
  obtain m where m: "plan_vectorize block_size (nv_shapes nv) (nv_dtypes nv) = Inr m"
    "vector_ok block_size (nv_shapes nv) (nv_dtypes nv) m"
    using plan_vectorize_total [OF assms(5,8)] by blast
  have dist: "distinct (map fst rs)" using assms(1) by (simp add: wf_axes_def)
  have red: "map (\<lambda>(ax, _). red ax) rs = map red (map fst rs)" by (simp add: split_def)
  have "list_all2 (dvd) (map red (map fst rs)) (map snd rs)"
    using assign_inv_shares [OF inv] inv unfolding shares_def extents_def assign_inv_def fst_conv snd_conv red
    by (auto simp: list_all2_append dest: list_all2_lengthD)
  then show ?thesis using inv st ps(1) m lookup_all_own [OF dist] assms(7)
    unfolding assign_inv_def shares_def fst_conv snd_conv red
    by (simp add: assign_block_size_def)
qed

text \<open>A matrix product: two inputs, one output, one reduction axis, 512 threads for 256 elements.\<close>

definition demo_view :: node_view where
  "demo_view = \<lparr>nv_raxis = [''k''], nv_bits = 16, nv_cached = [],
     nv_shapes = [(''A'', [64, 32]), (''B'', [4, 32])], nv_dtypes = (\<lambda>_. Some 16), nv_opt_shapes = []\<rparr>"

theorem assign_block_size_exact_witness:
  "\<exists>h. assign_block_size (thread_score (\<lambda>b. [b, b]) 2 [[1024, 1024]] 750 12080 [64, 4])
         demo_view [64, 4] [(''k'', 32)] 512 = Inr h \<and>
    h_block h = [64, 4] \<and> h_rstep h = map snd [(''k'', 32)] \<and>
    list_all2 (dvd) (h_thread h) [64, 4] \<and> list_all2 (dvd) (h_reduce_thread h) (h_rstep h) \<and>
    prod_list (h_thread h) * prod_list (h_reduce_thread h) = 512 \<and>
    vector_ok 512 (nv_shapes demo_view) (nv_dtypes demo_view) (h_vectorize h)"
  by (rule assign_block_size_exact) (simp_all add: wf_axes_def extents_def demo_view_def)

end
