(* ===== verification/SharedMemory.thy ===== *)
theory SharedMemory
  imports BestFit NodeGraph Hints
begin

text \<open>
  How the default policy estimates the on-chip memory of a schedule, from
  \<^verbatim>\<open>carver/roller/policy/default.py\<close>: the nodes are visited in their topological order, every
  node takes and returns a scratch buffer, releases the intermediate results it was the last
  to read and allocates its own. What TVM's analysis knows of a node (its footprint, how
  tiles propagate, its buffers) is given by a record of functions of the node.
\<close>

section \<open>What the analysis of a node provides\<close>

record node_analysis =
  an_space_dim :: "nat \<Rightarrow> nat list"
  an_propagate_inputs :: "nat \<Rightarrow> nat list \<Rightarrow> nat list list"
  an_propagate_outputs :: "nat \<Rightarrow> nat list \<Rightarrow> nat list list"
  an_footprint :: "nat \<Rightarrow> nat list \<Rightarrow> rsteps \<Rightarrow> nat \<times> string list"
  an_input_buffers :: "nat \<Rightarrow> nat"
  an_output_buffers :: "nat \<Rightarrow> nat"
  an_bits :: "string \<Rightarrow> nat"

definition infer_node_smem_usage :: "node_analysis \<Rightarrow> tile_dict \<Rightarrow> nat \<Rightarrow> (nat \<times> string list) res" where
  "infer_node_smem_usage an td n =
     rbind (get_tile td n) (\<lambda>tile. rbind (get_rstep td n) (\<lambda>rstep. Inr (an_footprint an n tile rstep)))"

definition compute_node_stride_map :: "node_analysis \<Rightarrow> nat \<Rightarrow> (nat \<times> stride) list" where
  "compute_node_stride_map an n =
     map (\<lambda>i. (i + an_input_buffers an n, default_stride)) [0..<an_output_buffers an n]"

section \<open>The walk over the nodes\<close>

record memory_plan =
  sm_alloc :: bestfit
  sm_blocks :: "((nat \<times> nat) \<times> block) list"
  sm_processed :: "nat list"
  sm_cached :: "(nat \<times> string list) list"

definition can_free :: "graph \<Rightarrow> nat list \<Rightarrow> nat \<Rightarrow> nat \<Rightarrow> bool" where
  "can_free g processed n out_id =
     list_all (\<lambda>e. \<not> (e_src_id e = out_id \<and> e_dst e \<notin> set processed)) (n_out (g ! n))"

text \<open>Bytes of one output of a node for its tile.\<close>

definition output_bytes :: "graph \<Rightarrow> node_analysis \<Rightarrow> tile_dict \<Rightarrow> nat \<Rightarrow> nat \<Rightarrow> int res" where
  "output_bytes g an td n out_id =
     rbind (node_dtype (g ! n) out_id) (\<lambda>dtype.
       case dtype of
         None \<Rightarrow> Inl AttributeError
       | Some t \<Rightarrow>
           let dtype_bytes = (an_bits an t + 7) div 8
           in rbind (dict_get (compute_node_stride_map an n) (length (n_in (g ! n)) + out_id)) (\<lambda>stride.
              rbind (get_tile td n) (\<lambda>tile.
              rbind (compute_elements_from_shape stride tile) (\<lambda>output_elem.
                Inr (output_elem * int dtype_bytes)))))"

text \<open>Releasing one input: \<^verbatim>\<open>block_map.pop\<close> raises on a missing key.\<close>

definition free_input :: "graph \<Rightarrow> edge \<Rightarrow> memory_plan \<Rightarrow> memory_plan res" where
  "free_input g e p =
     (if \<not> is_placeholder (g ! e_src e) \<and> can_free g (sm_processed p) (e_src e) (e_src_id e)
      then (case map_of (sm_blocks p) (e_src e, e_src_id e) of
              None \<Rightarrow> Inl KeyError
            | Some b \<Rightarrow> rbind (free (sm_alloc p) b) (\<lambda>a.
                Inr (p\<lparr>sm_alloc := a,
                       sm_blocks := filter (\<lambda>(k, _). k \<noteq> (e_src e, e_src_id e)) (sm_blocks p)\<rparr>)))
      else Inr p)"

definition alloc_output ::
  "graph \<Rightarrow> node_analysis \<Rightarrow> tile_dict \<Rightarrow> nat \<Rightarrow> edge \<Rightarrow> memory_plan \<Rightarrow> memory_plan res" where
  "alloc_output g an td n e p =
     (if \<not> is_output (g ! e_dst e) \<and> map_of (sm_blocks p) (n, e_src_id e) = None
      then rbind (output_bytes g an td n (e_src_id e)) (\<lambda>bytes.
           rbind (malloc (sm_alloc p) bytes) (\<lambda>(a, b).
             Inr (p\<lparr>sm_alloc := a, sm_blocks := ((n, e_src_id e), b) # sm_blocks p\<rparr>)))
      else Inr p)"

definition plan_node :: "graph \<Rightarrow> node_analysis \<Rightarrow> tile_dict \<Rightarrow> nat \<Rightarrow> memory_plan \<Rightarrow> memory_plan res" where
  "plan_node g an td n p =
     rbind (infer_node_smem_usage an td n) (\<lambda>(node_internal_bytes, cached).
     rbind (malloc (sm_alloc p) (int node_internal_bytes)) (\<lambda>(a, b).
     rbind (free a b) (\<lambda>a'.
     rbind (rfold (free_input g) (n_in (g ! n))
              (p\<lparr>sm_alloc := a', sm_processed := n # sm_processed p,
                 sm_cached := sm_cached p @ [(n, cached)]\<rparr>)) (\<lambda>p'.
       rfold (alloc_output g an td n) (n_out (g ! n)) p'))))"

definition plan_init :: memory_plan where
  "plan_init = \<lparr>sm_alloc = bestfit_init 32, sm_blocks = [], sm_processed = [], sm_cached = []\<rparr>"

definition compute_shared_memory_usage ::
  "rat \<Rightarrow> graph \<Rightarrow> node_analysis \<Rightarrow> nat list \<Rightarrow> tile_dict \<Rightarrow> (rat \<times> (nat \<times> string list) list) res" where
  "compute_shared_memory_usage custom_mem_mul g an ordered td =
     rbind (rfold (plan_node g an td) ordered plan_init) (\<lambda>p.
     rbind (guard AssertionError (sm_blocks p = [])) (\<lambda>_.
       Inr (of_int (bf_limit (sm_alloc p)) * custom_mem_mul, sm_cached p)))"

section \<open>Capacity covers everything in use\<close>

context allocator begin

lemma sum_in_use:
  assumes "inv s" and "finite B" and "B \<subseteq> in_use s" and "0 \<le> cap s"
  shows "(\<Sum>b\<in>B. hi b - lo b) \<le> cap s"
proof -
  have b: "lo x \<le> hi x" "{lo x..<hi x} \<subseteq> {0..<cap s}" if "x \<in> B" for x
    using within [OF assms(1), of x] assms(3) that by auto
  have "(\<Sum>b\<in>B. nat (hi b - lo b)) = (\<Sum>b\<in>B. card {lo b..<hi b})" by simp
  also have "\<dots> = card (\<Union>b\<in>B. {lo b..<hi b})"
    using disjoint [OF assms(1)] assms(2,3) by (subst card_UN_disjoint) fastforce+
  also have "\<dots> \<le> card {0..<cap s}" using b(2) by (intro card_mono UN_least) simp_all
  finally have "(\<Sum>b\<in>B. nat (hi b - lo b)) \<le> nat (cap s)" by simp
  moreover have "(\<Sum>b\<in>B. hi b - lo b) = int (\<Sum>b\<in>B. nat (hi b - lo b))" using b(1) by simp
  ultimately show ?thesis using assms(4) by linarith
qed

text \<open>A scratch buffer is taken beside everything in use.\<close>

lemma scratch_beside:
  assumes "inv s" and "0 \<le> n" and "finite (in_use s)" and "0 \<le> cap s"
  shows "\<exists>s' b s''. alloc s n = Inr (s', b) \<and> release s' b = Inr s'' \<and> inv s'' \<and>
    in_use s'' = in_use s \<and> cap s \<le> cap s'' \<and> n + (\<Sum>b\<in>in_use s. hi b - lo b) \<le> cap s'' \<and>
    cap s'' < cap s + n + grain s \<and> grain s'' = grain s"
proof -
  from alloc_ok [OF assms(1,2)] obtain s' b where
    a: "alloc s n = Inr (s', b)" "inv s'" "in_use s' = insert b (in_use s)" "b \<notin> in_use s"
      "n \<le> hi b - lo b" "cap s \<le> cap s'" "cap s' < cap s + n + grain s" "grain s' = grain s" by blast
  from release_ok [OF a(2), of b] a(3) obtain s'' where
    r: "release s' b = Inr s''" "inv s''" "in_use s'' = in_use s' - {b}" "cap s'' = cap s'" "grain s'' = grain s'" by blast
  have "(\<Sum>b\<in>in_use s'. hi b - lo b) \<le> cap s'"
    using a(2,3,6) assms(3,4) by (intro sum_in_use) auto
  then have "n + (\<Sum>b\<in>in_use s. hi b - lo b) \<le> cap s'" using a(3-5) assms(3) by simp
  with a r show ?thesis by auto
qed

end

section \<open>Schedules the walk can handle\<close>

text \<open>
  The conditions on the graph: edges are listed at both ends, the order is topological,
  no node reads one intermediate result through two inputs, and no intermediate result is
  also an output of the graph. The last two are not implied by being a graph: without them
  the code fails.
\<close>

definition out_key :: "edge \<Rightarrow> nat \<times> nat" where
  "out_key e = (e_src e, e_src_id e)"

definition inner_in :: "graph \<Rightarrow> nat \<Rightarrow> edge list" where
  "inner_in g n = filter (\<lambda>e. \<not> is_placeholder (g ! e_src e)) (n_in (g ! n))"

definition inner_out :: "graph \<Rightarrow> nat \<Rightarrow> edge list" where
  "inner_out g n = filter (\<lambda>e. \<not> is_output (g ! e_dst e)) (n_out (g ! n))"

definition node_ok :: "graph \<Rightarrow> nat list \<Rightarrow> nat \<Rightarrow> nat list \<Rightarrow> bool" where
  "node_ok g done n rest \<longleftrightarrow>
     \<not> is_output (g ! n) \<and> n \<notin> set done \<union> set rest \<and>
     list_all (\<lambda>e. e_dst e = n \<and> e_src e \<in> set done \<and> e \<in> set (n_out (g ! e_src e))) (inner_in g n) \<and>
     list_all (\<lambda>e. e_src e = n \<and> e_dst e \<in> set rest \<and> e \<in> set (inner_in g (e_dst e))) (inner_out g n) \<and>
     distinct (map out_key (inner_in g n)) \<and>
     list_all (\<lambda>e. list_all (\<lambda>e'. e_src_id e = e_src_id e' \<longrightarrow> \<not> is_output (g ! e_dst e')) (n_out (g ! n)))
       (inner_out g n)"

fun schedule_ok :: "graph \<Rightarrow> nat list \<Rightarrow> nat list \<Rightarrow> bool" where
  "schedule_ok g done [] \<longleftrightarrow> True"
| "schedule_ok g done (n # rest) \<longleftrightarrow> node_ok g done n rest \<and> schedule_ok g (done @ [n]) rest"

text \<open>The intermediate results of \<open>done\<close> that some node of \<open>rest\<close> still reads.\<close>

definition pending :: "graph \<Rightarrow> nat list \<Rightarrow> nat list \<Rightarrow> (nat \<times> nat) set" where
  "pending g done rest =
     {(m, i). m \<in> set done \<and> (\<exists>e \<in> set (inner_out g m). e_src_id e = i \<and> e_dst e \<in> set rest)}"

text \<open>The intermediate results that a node makes.\<close>

definition made :: "graph \<Rightarrow> nat \<Rightarrow> (nat \<times> nat) set" where
  "made g n = (\<lambda>e. (n, e_src_id e)) ` set (inner_out g n)"

lemma finite_pending [simp]: "finite (pending g done rest)"
proof (rule finite_subset)
  show "pending g done rest \<subseteq> (\<Union>m\<in>set done. (\<lambda>e. (m, e_src_id e)) ` set (inner_out g m))"
    by (auto simp: pending_def)
qed simp

text \<open>What the nodes before \<open>rest\<close> guarantee of their outputs.\<close>

definition outs_ok :: "graph \<Rightarrow> nat list \<Rightarrow> nat list \<Rightarrow> bool" where
  "outs_ok g done rest \<longleftrightarrow> (\<forall>m \<in> set done.
     (\<forall>e \<in> set (inner_out g m). e_src e = m \<and> e_dst e \<in> set done \<union> set rest \<and>
        e \<in> set (inner_in g (e_dst e))) \<and>
     (\<forall>e \<in> set (inner_out g m). \<forall>e' \<in> set (n_out (g ! m)).
        e_src_id e = e_src_id e' \<longrightarrow> \<not> is_output (g ! e_dst e')))"

lemma outs_ok_step:
  "outs_ok g done (n # rest) \<Longrightarrow> node_ok g done n rest \<Longrightarrow> outs_ok g (done @ [n]) rest"
  by (fastforce simp: outs_ok_def node_ok_def list_all_iff)

section \<open>Blocks of the walk\<close>

text \<open>The blocks of a plan are the blocks in use, one per key, each large enough.\<close>

definition plan_ok :: "(nat \<times> nat \<Rightarrow> int) \<Rightarrow> (nat \<times> nat) set \<Rightarrow> memory_plan \<Rightarrow> bool" where
  "plan_ok need keys p \<longleftrightarrow>
     bf_inv (sm_alloc p) \<and> distinct (map fst (sm_blocks p)) \<and> distinct (map snd (sm_blocks p)) \<and>
     fst ` set (sm_blocks p) = keys \<and> live (sm_alloc p) = snd ` set (sm_blocks p) \<and>
     (\<forall>(k, b) \<in> set (sm_blocks p). need k \<le> b_end b - b_start b) \<and> bf_align (sm_alloc p) = 32"

lemma plan_ok_cap: "plan_ok need keys p \<Longrightarrow> 0 \<le> bf_limit (sm_alloc p)"
  by (auto simp: plan_ok_def bf_inv_def dest: tiles_le)

lemma plan_ok_sum:
  assumes "plan_ok need keys p"
  shows "(\<Sum>k\<in>keys. need k) \<le> (\<Sum>b\<in>live (sm_alloc p). b_end b - b_start b)"
proof -
  let ?bs = "sm_blocks p"
  have d: "distinct (map fst ?bs)" "distinct (map snd ?bs)" using assms by (simp_all add: plan_ok_def)
  have "(\<Sum>k\<in>keys. need k) = (\<Sum>x\<in>set ?bs. need (fst x))"
    using assms d(1) by (subst sum.reindex [of fst, symmetric, unfolded comp_def])
      (auto simp: plan_ok_def distinct_map)
  also have "\<dots> \<le> (\<Sum>x\<in>set ?bs. b_end (snd x) - b_start (snd x))"
    using assms by (intro sum_mono) (auto simp: plan_ok_def)
  also have "\<dots> = (\<Sum>b\<in>live (sm_alloc p). b_end b - b_start b)"
    using assms d(2) by (subst sum.reindex [of snd, symmetric, unfolded comp_def])
      (auto simp: plan_ok_def distinct_map)
  finally show ?thesis .
qed

lemma free_input_ok:
  assumes "plan_ok need keys p"
    and "\<not> is_placeholder (g ! e_src e) \<Longrightarrow> can_free g (sm_processed p) (e_src e) (e_src_id e) \<Longrightarrow> out_key e \<in> keys"
  shows "\<exists>p'. free_input g e p = Inr p' \<and> sm_processed p' = sm_processed p \<and> sm_cached p' = sm_cached p \<and>
    bf_limit (sm_alloc p') = bf_limit (sm_alloc p) \<and>
    plan_ok need (if \<not> is_placeholder (g ! e_src e) \<and> can_free g (sm_processed p) (e_src e) (e_src_id e)
                  then keys - {out_key e} else keys) p'"
proof (cases "\<not> is_placeholder (g ! e_src e) \<and> can_free g (sm_processed p) (e_src e) (e_src_id e)")
  case False
  then show ?thesis using assms(1) by (auto simp: free_input_def)
next
  case True
  let ?k = "out_key e"
  have d: "distinct (map fst (sm_blocks p))" "distinct (map snd (sm_blocks p))"
    and lv: "live (sm_alloc p) = snd ` set (sm_blocks p)" and inv: "bf_inv (sm_alloc p)"
    and keys: "fst ` set (sm_blocks p) = keys"
    using assms(1) by (auto simp: plan_ok_def)
  obtain b where b: "(?k, b) \<in> set (sm_blocks p)" using True assms(2) keys by force
  then have "map_of (sm_blocks p) ?k = Some b" using d(1) by (simp add: map_of_is_SomeI)
  moreover obtain a where a: "free (sm_alloc p) b = Inr a" "bf_inv a"
    "live a = live (sm_alloc p) - {b}" "bf_limit a = bf_limit (sm_alloc p)" "bf_align a = bf_align (sm_alloc p)"
    using bf.release_ok [OF inv, of b] b lv by force
  moreover have same: "x = b \<longleftrightarrow> k = ?k" if "(k, x) \<in> set (sm_blocks p)" for k x
  proof
    assume "x = b"
    then show "k = ?k" using that b d(2) inj_onD [of snd "set (sm_blocks p)" "(k, x)" "(?k, b)"]
      by (simp add: distinct_map)
  next
    assume "k = ?k"
    then show "x = b" using that b d(1) eq_key_imp_eq_value [of "sm_blocks p" ?k b x] by simp
  qed
  have "snd ` set (filter (\<lambda>(k, _). k \<noteq> ?k) (sm_blocks p)) = snd ` set (sm_blocks p) - {b}"
    using same by force
  moreover have "fst ` set (filter (\<lambda>(k, _). k \<noteq> ?k) (sm_blocks p)) = keys - {?k}" using keys by force
  ultimately show ?thesis
    using True assms(1) d lv by (auto simp: free_input_def out_key_def plan_ok_def distinct_map_filter)
qed

lemma free_inputs_ok:
  assumes "plan_ok need keys p" and "distinct (map out_key (filter (\<lambda>e. \<not> is_placeholder (g ! e_src e)) es))"
    and "\<And>e. e \<in> set es \<Longrightarrow> \<not> is_placeholder (g ! e_src e) \<Longrightarrow> out_key e \<in> keys"
  shows "\<exists>p'. rfold (free_input g) es p = Inr p' \<and> sm_processed p' = sm_processed p \<and>
    sm_cached p' = sm_cached p \<and> bf_limit (sm_alloc p') = bf_limit (sm_alloc p) \<and>
    plan_ok need (keys - out_key ` {e \<in> set es. \<not> is_placeholder (g ! e_src e) \<and>
      can_free g (sm_processed p) (e_src e) (e_src_id e)}) p'"
  using assms
proof (induction es arbitrary: keys p)
  case Nil
  then show ?case by simp
next
  case (Cons e es)
  let ?c = "\<lambda>e. \<not> is_placeholder (g ! e_src e) \<and> can_free g (sm_processed p) (e_src e) (e_src_id e)"
  let ?keys = "if ?c e then keys - {out_key e} else keys"
  obtain p1 where p1: "free_input g e p = Inr p1" "sm_processed p1 = sm_processed p" "sm_cached p1 = sm_cached p"
    "bf_limit (sm_alloc p1) = bf_limit (sm_alloc p)" "plan_ok need ?keys p1"
    using free_input_ok [OF Cons.prems(1), of g e] Cons.prems(3) [of e] by auto
  have "out_key e' \<in> ?keys" if "e' \<in> set es" "\<not> is_placeholder (g ! e_src e')" for e'
    using that Cons.prems(2) Cons.prems(3) [of e'] by (auto simp: rev_image_eqI)
  with Cons.IH [OF p1(5)] Cons.prems(2) obtain p' where "rfold (free_input g) es p1 = Inr p'"
    "sm_processed p' = sm_processed p1" "sm_cached p' = sm_cached p1"
    "bf_limit (sm_alloc p') = bf_limit (sm_alloc p1)"
    "plan_ok need (?keys - out_key ` {e \<in> set es. ?c e}) p'" by (auto simp: p1(2) split: if_splits)
  moreover have "?keys - out_key ` {e \<in> set es. ?c e} = keys - out_key ` {x \<in> set (e # es). ?c x}" by auto
  ultimately show ?case using p1 by simp
qed

lemma alloc_outputs_ok:
  assumes "plan_ok need keys p"
    and "\<And>e. e \<in> set es \<Longrightarrow> \<not> is_output (g ! e_dst e) \<Longrightarrow>
      output_bytes g an td n (e_src_id e) = Inr (need (n, e_src_id e)) \<and> 0 \<le> need (n, e_src_id e)"
  shows "\<exists>p'. rfold (alloc_output g an td n) es p = Inr p' \<and> sm_processed p' = sm_processed p \<and>
    sm_cached p' = sm_cached p \<and> bf_limit (sm_alloc p) \<le> bf_limit (sm_alloc p') \<and>
    bf_limit (sm_alloc p') \<le> bf_limit (sm_alloc p) +
      (\<Sum>k\<in>(\<lambda>e. (n, e_src_id e)) ` {e \<in> set es. \<not> is_output (g ! e_dst e)} - keys. need k + 31) \<and>
    plan_ok need (keys \<union> (\<lambda>e. (n, e_src_id e)) ` {e \<in> set es. \<not> is_output (g ! e_dst e)}) p'"
  using assms
proof (induction es arbitrary: keys p)
  case Nil
  then show ?case by simp
next
  case (Cons e es)
  let ?k = "(n, e_src_id e)"
  let ?new = "(\<lambda>e. (n, e_src_id e)) ` {e \<in> set es. \<not> is_output (g ! e_dst e)}"
  have keys: "fst ` set (sm_blocks p) = keys" using Cons.prems(1) by (simp add: plan_ok_def)
  show ?case
  proof (cases "\<not> is_output (g ! e_dst e) \<and> ?k \<notin> keys")
    case False
    then have "alloc_output g an td n e p = Inr p"
      using keys by (auto simp: alloc_output_def map_of_eq_None_iff)
    moreover have "(\<lambda>e. (n, e_src_id e)) ` {x \<in> set (e # es). \<not> is_output (g ! e_dst x)} \<union> keys = ?new \<union> keys"
      "(\<lambda>e. (n, e_src_id e)) ` {x \<in> set (e # es). \<not> is_output (g ! e_dst x)} - keys = ?new - keys"
      using False by auto
    ultimately show ?thesis using Cons.IH [OF Cons.prems(1)] Cons.prems(2) by (simp add: Un_commute)
  next
    case True
    then have need: "output_bytes g an td n (e_src_id e) = Inr (need ?k)" "0 \<le> need ?k"
      using Cons.prems(2) [of e] by auto
    have inv: "bf_inv (sm_alloc p)" using Cons.prems(1) by (simp add: plan_ok_def)
    obtain a b where a: "malloc (sm_alloc p) (need ?k) = Inr (a, b)" "bf_inv a"
      "live a = insert b (live (sm_alloc p))" "b \<notin> live (sm_alloc p)" "need ?k \<le> b_end b - b_start b"
      "bf_limit (sm_alloc p) \<le> bf_limit a" "bf_limit a < bf_limit (sm_alloc p) + need ?k + bf_align (sm_alloc p)"
      "bf_align a = bf_align (sm_alloc p)" using bf.alloc_ok [OF inv need(2)] by blast
    have align: "bf_align (sm_alloc p) = 32" using Cons.prems(1) by (simp add: plan_ok_def)
    define p1 where "p1 = p\<lparr>sm_alloc := a, sm_blocks := (?k, b) # sm_blocks p\<rparr>"
    have "map_of (sm_blocks p) ?k = None" using True keys by (simp add: map_of_eq_None_iff)
    then have step: "alloc_output g an td n e p = Inr p1"
      using True need(1) a(1) by (simp add: alloc_output_def p1_def)
    have "plan_ok need (insert ?k keys) p1"
      using Cons.prems(1) a True keys by (force simp: plan_ok_def p1_def)
    with Cons.IH [of "insert ?k keys" p1] Cons.prems(2) obtain p' where
      "rfold (alloc_output g an td n) es p1 = Inr p'" "sm_processed p' = sm_processed p1"
      "sm_cached p' = sm_cached p1" "bf_limit (sm_alloc p1) \<le> bf_limit (sm_alloc p')"
      "plan_ok need (insert ?k keys \<union> ?new) p'"
      and upper: "bf_limit (sm_alloc p') \<le> bf_limit (sm_alloc p1) + (\<Sum>k\<in>?new - insert ?k keys. need k + 31)" by auto
    moreover have all: "(\<lambda>e. (n, e_src_id e)) ` {x \<in> set (e # es). \<not> is_output (g ! e_dst x)} = insert ?k ?new"
      using True by auto
    moreover have "(\<Sum>k\<in>insert ?k ?new - keys. need k + 31) = need ?k + 31 + (\<Sum>k\<in>?new - insert ?k keys. need k + 31)"
    proof -
      have "insert ?k ?new - keys = insert ?k (?new - insert ?k keys)" using True by blast
      then show ?thesis by simp
    qed
    moreover have "bf_limit (sm_alloc p1) \<le> bf_limit (sm_alloc p) + need ?k + 31"
      using a(7) align by (simp add: p1_def)
    ultimately show ?thesis using step a(6) upper unfolding all by (simp add: p1_def)
  qed
qed

section \<open>One node\<close>

text \<open>The situation before node \<open>n\<close> is processed.\<close>

definition at_node :: "graph \<Rightarrow> nat list \<Rightarrow> nat \<Rightarrow> nat list \<Rightarrow> bool" where
  "at_node g done n rest \<longleftrightarrow> node_ok g done n rest \<and> outs_ok g done (n # rest) \<and>
     set done \<inter> set (n # rest) = {}"

lemma at_node_out:
  assumes "at_node g done n rest" and "m \<in> set done" and "e \<in> set (inner_out g m)"
  shows "e_src e = m" and "e_dst e \<in> set done \<union> set (n # rest)" and "e \<in> set (inner_in g (e_dst e))"
    and "e' \<in> set (n_out (g ! m)) \<Longrightarrow> e_src_id e' = e_src_id e \<Longrightarrow> \<not> is_output (g ! e_dst e')"
  using assms unfolding at_node_def outs_ok_def by metis+

lemma inner_in_inner_out:
  "at_node g done n rest \<Longrightarrow> e \<in> set (inner_in g n) \<Longrightarrow>
     e_src e \<in> set done \<and> e_dst e = n \<and> e \<in> set (inner_out g (e_src e))"
  by (auto simp: at_node_def node_ok_def list_all_iff inner_out_def)

lemma inner_in_pending:
  assumes "at_node g done n rest" and "e \<in> set (inner_in g n)"
  shows "out_key e \<in> pending g done (n # rest)"
  using inner_in_inner_out [OF assms] by (auto simp: pending_def out_key_def)

lemma can_free_iff:
  assumes at: "at_node g done n rest" and e: "e \<in> set (inner_in g n)" and ps: "set ps = insert n (set done)"
  shows "can_free g ps (e_src e) (e_src_id e) \<longleftrightarrow> out_key e \<notin> pending g done rest"
proof
  assume free: "can_free g ps (e_src e) (e_src_id e)"
  show "out_key e \<notin> pending g done rest"
  proof
    assume "out_key e \<in> pending g done rest"
    then obtain e' where "e' \<in> set (n_out (g ! e_src e))" "e_src_id e' = e_src_id e" "e_dst e' \<in> set rest"
      by (auto simp: pending_def out_key_def inner_out_def)
    moreover from this(3) have "e_dst e' \<notin> set ps" using at ps by (auto simp: at_node_def node_ok_def)
    ultimately show False using free by (auto simp: can_free_def list_all_iff)
  qed
next
  assume np: "out_key e \<notin> pending g done rest"
  have src: "e_src e \<in> set done" "e \<in> set (inner_out g (e_src e))" using inner_in_inner_out [OF at e] by auto
  have "e_dst e' \<in> set ps" if e': "e' \<in> set (n_out (g ! e_src e))" "e_src_id e' = e_src_id e" for e'
  proof -
    have "\<not> is_output (g ! e_dst e')" using at_node_out(4) [OF at src] e' by blast
    then have i: "e' \<in> set (inner_out g (e_src e))" using e'(1) by (simp add: inner_out_def)
    then have "e_dst e' \<in> set done \<union> set (n # rest)"
      using at_node_out(2) [OF at src(1)] by blast
    moreover have "e_dst e' \<notin> set rest" using np src(1) i e'(2) by (auto simp: pending_def out_key_def)
    ultimately show ?thesis using ps by auto
  qed
  then show "can_free g ps (e_src e) (e_src_id e)" by (auto simp: can_free_def list_all_iff)
qed

lemma pending_after_inputs:
  assumes at: "at_node g done n rest" and ps: "set ps = insert n (set done)"
  shows "pending g done (n # rest) - out_key ` {e \<in> set (n_in (g ! n)). \<not> is_placeholder (g ! e_src e) \<and>
      can_free g ps (e_src e) (e_src_id e)} = pending g done rest" (is "?A - ?F = ?B")
proof
  have F: "?F = out_key ` {e \<in> set (inner_in g n). out_key e \<notin> ?B}"
    using can_free_iff [OF at _ ps] by (auto simp: inner_in_def)
  show "?B \<subseteq> ?A - ?F" unfolding F by (auto simp: pending_def)
  show "?A - ?F \<subseteq> ?B"
  proof
    fix k assume k: "k \<in> ?A - ?F"
    then obtain e where e: "fst k \<in> set done" "e \<in> set (inner_out g (fst k))" "e_src_id e = snd k"
      "e_dst e \<in> set (n # rest)" by (auto simp: pending_def)
    show "k \<in> ?B"
    proof (cases "e_dst e \<in> set rest")
      case True
      then show ?thesis using e by (cases k) (auto simp: pending_def)
    next
      case False
      then have "e \<in> set (inner_in g n)" "out_key e = k"
        using at_node_out(1,3) [OF at e(1,2)] e(3,4) by (cases k; auto simp: out_key_def)+
      then show ?thesis using k unfolding F by auto
    qed
  qed
qed

lemma pending_after_outputs:
  assumes "at_node g done n rest"
  shows "pending g done rest \<union> (\<lambda>e. (n, e_src_id e)) ` {e \<in> set (n_out (g ! n)). \<not> is_output (g ! e_dst e)} =
    pending g (done @ [n]) rest" (is "_ \<union> ?N = _")
proof -
  have "e_dst e \<in> set rest" if "e \<in> set (inner_out g n)" for e
    using assms that by (auto simp: at_node_def node_ok_def list_all_iff)
  then have "?N = {(m, i). m = n \<and> (\<exists>e \<in> set (inner_out g n). e_src_id e = i \<and> e_dst e \<in> set rest)}"
    by (auto simp: inner_out_def)
  then show ?thesis by (auto simp: pending_def)
qed

lemma plan_node_ok:
  assumes at: "at_node g done n rest" and ok: "plan_ok need (pending g done (n # rest)) p"
    and ps: "set (sm_processed p) = set done"
    and smem: "infer_node_smem_usage an td n = Inr (internal, cached)"
    and outs: "\<And>e. e \<in> set (inner_out g n) \<Longrightarrow>
      output_bytes g an td n (e_src_id e) = Inr (need (n, e_src_id e)) \<and> 0 \<le> need (n, e_src_id e)"
  shows "\<exists>p'. plan_node g an td n p = Inr p' \<and> plan_ok need (pending g (done @ [n]) rest) p' \<and>
    set (sm_processed p') = set (done @ [n]) \<and> sm_cached p' = sm_cached p @ [(n, cached)] \<and>
    bf_limit (sm_alloc p) \<le> bf_limit (sm_alloc p') \<and>
    bf_limit (sm_alloc p') \<le> bf_limit (sm_alloc p) + int internal + 31 + (\<Sum>k\<in>made g n. need k + 31) \<and>
    int internal + sum need (pending g done (n # rest)) \<le> bf_limit (sm_alloc p')"
proof -
  have inv: "bf_inv (sm_alloc p)" and fin: "finite (live (sm_alloc p))"
    using ok by (auto simp: plan_ok_def)
  obtain a b a' where a: "malloc (sm_alloc p) (int internal) = Inr (a, b)" "free a b = Inr a'" "bf_inv a'"
    "live a' = live (sm_alloc p)" "bf_limit (sm_alloc p) \<le> bf_limit a'"
    "int internal + (\<Sum>b\<in>live (sm_alloc p). b_end b - b_start b) \<le> bf_limit a'"
    "bf_limit a' < bf_limit (sm_alloc p) + int internal + bf_align (sm_alloc p)" "bf_align a' = bf_align (sm_alloc p)"
    using bf.scratch_beside [OF inv _ fin plan_ok_cap [OF ok], of "int internal"] by auto
  define p1 where "p1 = p\<lparr>sm_alloc := a', sm_processed := n # sm_processed p,
    sm_cached := sm_cached p @ [(n, cached)]\<rparr>"
  have p1: "plan_ok need (pending g done (n # rest)) p1" "set (sm_processed p1) = insert n (set done)"
    using ok a(3,4,8) ps by (simp_all add: p1_def plan_ok_def)
  have "distinct (map out_key (filter (\<lambda>e. \<not> is_placeholder (g ! e_src e)) (n_in (g ! n))))"
    using at by (simp add: at_node_def node_ok_def inner_in_def)
  from free_inputs_ok [OF p1(1) this] inner_in_pending [OF at] obtain p2 where
    p2: "rfold (free_input g) (n_in (g ! n)) p1 = Inr p2" "sm_processed p2 = sm_processed p1" "sm_cached p2 = sm_cached p1"
      "bf_limit (sm_alloc p2) = bf_limit (sm_alloc p1)" "plan_ok need (pending g done rest) p2"
    by (auto simp: inner_in_def pending_after_inputs [OF at p1(2)])
  from alloc_outputs_ok [OF p2(5), of "n_out (g ! n)" g an td n] outs obtain p3 where
    p3: "rfold (alloc_output g an td n) (n_out (g ! n)) p2 = Inr p3" "sm_processed p3 = sm_processed p2" "sm_cached p3 = sm_cached p2"
      "bf_limit (sm_alloc p2) \<le> bf_limit (sm_alloc p3)" "plan_ok need (pending g (done @ [n]) rest) p3"
      "bf_limit (sm_alloc p3) \<le> bf_limit (sm_alloc p2) + (\<Sum>k\<in>made g n - pending g done rest. need k + 31)"
    by (auto simp: inner_out_def made_def pending_after_outputs [OF at])
  have "made g n \<inter> pending g done rest = {}"
    using at by (auto simp: made_def pending_def at_node_def)
  then have upper: "bf_limit (sm_alloc p3) \<le> bf_limit (sm_alloc p2) + (\<Sum>k\<in>made g n. need k + 31)"
    using p3(6) by (simp add: Diff_triv)
  have "bf_limit a' \<le> bf_limit (sm_alloc p) + int internal + 31" using a(7) ok by (simp add: plan_ok_def)
  then have "bf_limit (sm_alloc p3) \<le> bf_limit (sm_alloc p) + int internal + 31 + (\<Sum>k\<in>made g n. need k + 31)"
    using upper p2(4) by (simp add: p1_def)
  moreover have "plan_node g an td n p = Inr p3"
    using smem a(1,2) p2(1) p3(1) by (simp add: plan_node_def p1_def)
  moreover have "sum need (pending g done (n # rest)) \<le> (\<Sum>b\<in>live (sm_alloc p). b_end b - b_start b)"
    using plan_ok_sum [OF ok] by simp
  ultimately show ?thesis using a p2 p3 p1(2) by (auto simp: p1_def)
qed

section \<open>All nodes\<close>

lemma schedule_disjoint: "schedule_ok g done rest \<Longrightarrow> set done \<inter> set rest = {}"
  by (induction g "done" rest rule: schedule_ok.induct) (auto simp: node_ok_def)

lemma plan_all_ok:
  assumes "schedule_ok g done rest" and "outs_ok g done rest" and "plan_ok need (pending g done rest) p"
    and "set (sm_processed p) = set done"
    and smem: "\<And>n. n \<in> set rest \<Longrightarrow> infer_node_smem_usage an td n = Inr (internal n, cached n)"
    and outs: "\<And>n e. n \<in> set rest \<Longrightarrow> e \<in> set (inner_out g n) \<Longrightarrow>
      output_bytes g an td n (e_src_id e) = Inr (need (n, e_src_id e)) \<and> 0 \<le> need (n, e_src_id e)"
  shows "\<exists>p'. rfold (plan_node g an td) rest p = Inr p' \<and> sm_blocks p' = [] \<and>
    sm_cached p' = sm_cached p @ map (\<lambda>n. (n, cached n)) rest \<and>
    bf_limit (sm_alloc p) \<le> bf_limit (sm_alloc p') \<and>
    bf_limit (sm_alloc p') \<le> bf_limit (sm_alloc p) +
      (\<Sum>n\<leftarrow>rest. int (internal n) + 31 + (\<Sum>k\<in>made g n. need k + 31)) \<and>
    (\<forall>xs n ys. rest = xs @ n # ys \<longrightarrow>
       int (internal n) + sum need (pending g (done @ xs) (n # ys)) \<le> bf_limit (sm_alloc p'))"
  using assms
proof (induction rest arbitrary: "done" p)
  case Nil
  then show ?case by (auto simp: plan_ok_def pending_def)
next
  case (Cons n rest)
  have at: "at_node g done n rest"
    using Cons.prems(1,2) schedule_disjoint [OF Cons.prems(1)] by (simp add: at_node_def)
  obtain p1 where p1: "plan_node g an td n p = Inr p1" "plan_ok need (pending g (done @ [n]) rest) p1"
    "set (sm_processed p1) = set (done @ [n])" "sm_cached p1 = sm_cached p @ [(n, cached n)]"
    "bf_limit (sm_alloc p) \<le> bf_limit (sm_alloc p1)"
    "int (internal n) + sum need (pending g done (n # rest)) \<le> bf_limit (sm_alloc p1)"
    "bf_limit (sm_alloc p1) \<le> bf_limit (sm_alloc p) + int (internal n) + 31 + (\<Sum>k\<in>made g n. need k + 31)"
    using plan_node_ok [OF at Cons.prems(3,4) Cons.prems(5) [of n] Cons.prems(6) [of n]] by auto
  have "schedule_ok g (done @ [n]) rest" "outs_ok g (done @ [n]) rest"
    using Cons.prems(1,2) by (auto intro: outs_ok_step)
  from Cons.IH [OF this p1(2,3)] Cons.prems(5,6) obtain p' where
    p': "rfold (plan_node g an td) rest p1 = Inr p'" "sm_blocks p' = []"
      "sm_cached p' = sm_cached p1 @ map (\<lambda>n. (n, cached n)) rest"
      "bf_limit (sm_alloc p1) \<le> bf_limit (sm_alloc p')"
      "\<forall>xs m ys. rest = xs @ m # ys \<longrightarrow>
         int (internal m) + sum need (pending g ((done @ [n]) @ xs) (m # ys)) \<le> bf_limit (sm_alloc p')"
      "bf_limit (sm_alloc p') \<le> bf_limit (sm_alloc p1) +
         (\<Sum>n\<leftarrow>rest. int (internal n) + 31 + (\<Sum>k\<in>made g n. need k + 31))"
    by auto
  have "int (internal m) + sum need (pending g (done @ xs) (m # ys)) \<le> bf_limit (sm_alloc p')"
    if "n # rest = xs @ m # ys" for xs m ys
    using that p1(6) p'(4,5) by (cases xs) auto
  then show ?case using p1 p' by simp
qed

section \<open>Properties\<close>

text \<open>
  C7: the estimate of a schedule's memory covers its peak. On a schedule whose edges are
  mirrored and topologically ordered, in which no node reads a result twice and no result
  is both read and an output, and whose footprints and sizes are defined, the walk frees
  every block it allocated (its final assertion holds and no \<^verbatim>\<open>pop\<close> misses) and reports the
  capacity it needed times the policy's multiplier (\<^verbatim>\<open>custom_mem_mul\<close>).  At every node, the node's
  scratch buffer together with all intermediate results still to be read fits into that
  capacity, so the reported amount covers the peak when the multiplier is at least one, and covers
  the peak scaled by the multiplier for any multiplier that is not negative.  And the capacity
  exceeds the sum of everything requested by no more than the rounding, 31 bytes per request.
\<close>

theorem shared_memory_covers_peak:
  assumes "schedule_ok g [] ordered" and "0 \<le> mul"
    and "\<And>n. n \<in> set ordered \<Longrightarrow> infer_node_smem_usage an td n = Inr (internal n, cached n)"
    and "\<And>n e. n \<in> set ordered \<Longrightarrow> e \<in> set (inner_out g n) \<Longrightarrow>
      output_bytes g an td n (e_src_id e) = Inr (need (n, e_src_id e)) \<and> 0 \<le> need (n, e_src_id e)"
  shows "\<exists>reported. compute_shared_memory_usage mul g an ordered td =
      Inr (reported, map (\<lambda>n. (n, cached n)) ordered) \<and>
    (\<forall>xs n ys. ordered = xs @ n # ys \<longrightarrow>
       of_int (int (internal n) + sum need (pending g xs (n # ys))) * mul \<le> reported \<and>
       (1 \<le> mul \<longrightarrow> of_int (int (internal n) + sum need (pending g xs (n # ys))) \<le> reported)) \<and>
    reported \<le> of_int (\<Sum>n\<leftarrow>ordered. int (internal n) + 31 + (\<Sum>k\<in>made g n. need k + 31)) * mul"
proof -
  have "plan_ok need (pending g [] ordered) plan_init" "outs_ok g [] ordered"
    by (simp_all add: plan_ok_def plan_init_def bf_inv_init live_init pending_def outs_ok_def bestfit_init_def)
      (simp_all add: bf_inv_def coalesced_def live_def)
  from plan_all_ok [OF assms(1) this(2,1) _ assms(3,4)] obtain p' where
    p': "rfold (plan_node g an td) ordered plan_init = Inr p'" "sm_blocks p' = []"
    "sm_cached p' = map (\<lambda>n. (n, cached n)) ordered"
    and upper: "bf_limit (sm_alloc p') \<le> (\<Sum>n\<leftarrow>ordered. int (internal n) + 31 + (\<Sum>k\<in>made g n. need k + 31))"
    and peak: "\<And>xs n ys. ordered = xs @ n # ys \<Longrightarrow>
       int (internal n) + sum need (pending g xs (n # ys)) \<le> bf_limit (sm_alloc p')"
    and nonneg: "0 \<le> bf_limit (sm_alloc p')"
    by (auto simp: plan_init_def bestfit_init_def)
  let ?reported = "of_int (bf_limit (sm_alloc p')) * mul"
  have scale: "of_int x * mul \<le> of_int y * mul" if "x \<le> y" for x y
    using that assms(2) by (intro mult_right_mono) simp_all
  have one: "of_int x \<le> of_int y * mul" if "x \<le> y" "1 \<le> mul" "0 \<le> y" for x y
  proof -
    have "(of_int x :: rat) \<le> of_int y * 1" using that(1) by simp
    also have "\<dots> \<le> of_int y * mul" using that(2,3) by (intro mult_left_mono) simp_all
    finally show ?thesis .
  qed
  show ?thesis
    using p' scale [OF peak] one [OF peak _ nonneg] scale [OF upper]
    by (intro exI [of _ ?reported]) (simp add: compute_shared_memory_usage_def)
qed

text \<open>Two chained operators on 16-bit elements, between a placeholder and an output.\<close>

definition link :: "nat \<Rightarrow> nat \<Rightarrow> nat \<Rightarrow> edge" where
  "link s d i = \<lparr>e_src = s, e_dst = d, e_src_id = 0, e_dst_id = i\<rparr>"

definition graph_node :: "node_kind \<Rightarrow> edge list \<Rightarrow> edge list \<Rightarrow> gnode" where
  "graph_node kind ins outs = (new_node ''n'' kind [])\<lparr>n_in := ins, n_out := outs, n_dtypes := [Some ''float16'']\<rparr>"

definition chain :: graph where
  "chain = [graph_node PlaceHolder [] [link 0 1 0], graph_node PrimFunc [link 0 1 0] [link 1 2 0],
     graph_node PrimFunc [link 1 2 0] [link 2 3 0], graph_node OutputK [link 2 3 0] []]"

text \<open>The second operator reads the first through both of its inputs.\<close>

definition double_read :: graph where
  "double_read = [graph_node PlaceHolder [] [link 0 1 0], graph_node PrimFunc [link 0 1 0] [link 1 2 0, link 1 2 1],
     graph_node PrimFunc [link 1 2 0, link 1 2 1] [link 2 3 0], graph_node OutputK [link 2 3 0] []]"

text \<open>The first operator is read by the second and is an output itself.\<close>

definition read_output :: graph where
  "read_output = [graph_node PlaceHolder [] [link 0 1 0], graph_node PrimFunc [link 0 1 0] [link 1 2 0, link 1 4 0],
     graph_node PrimFunc [link 1 2 0] [link 2 3 0], graph_node OutputK [link 2 3 0] [], graph_node OutputK [link 1 4 0] []]"

definition chain_analysis :: node_analysis where
  "chain_analysis = \<lparr>an_space_dim = (\<lambda>_. [64, 64]), an_propagate_inputs = (\<lambda>_ t. [t]),
     an_propagate_outputs = (\<lambda>_ t. [t]), an_footprint = (\<lambda>_ _ _. (256, [])), an_input_buffers = (\<lambda>_. 1),
     an_output_buffers = (\<lambda>_. 1), an_bits = (\<lambda>_. 16)\<rparr>"

definition chain_td :: tile_dict where
  "chain_td = (tile_dict_init [16, 16])\<lparr>td_tile_map := [(1, [16, 16]), (2, [16, 16])],
     td_rstep_map := [(1, []), (2, [])]\<rparr>"

lemmas chain_defs = chain_def graph_node_def link_def new_node_def update_tags_def chain_analysis_def chain_td_def

theorem shared_memory_covers_peak_witness:
  "\<exists>reported. compute_shared_memory_usage (3 / 2) chain chain_analysis [1, 2] chain_td =
      Inr (reported, map (\<lambda>n. (n, [])) [1, 2]) \<and> 768 * (3 / 2) \<le> reported \<and> 768 \<le> reported"
proof -
  have ok: "schedule_ok chain [] [1, 2]" by code_simp
  have smem: "infer_node_smem_usage chain_analysis chain_td n = Inr (256, [])" if "n \<in> set [1, 2]" for n
    using that by (auto simp: infer_node_smem_usage_def get_tile_def get_rstep_def dict_get_def chain_defs)
  have inner: "inner_out chain 1 = [link 1 2 0]" "inner_out chain 2 = []" by code_simp+
  have outs: "output_bytes chain chain_analysis chain_td n (e_src_id e) = Inr 512 \<and> (0::int) \<le> 512"
    if "n \<in> set [1, 2]" "e \<in> set (inner_out chain n)" for n e
  proof -
    have "n = 1" "e = link 1 2 0" using that inner by auto
    moreover have "output_bytes chain chain_analysis chain_td 1 0 = Inr 512" by code_simp
    ultimately show ?thesis by (simp add: link_def)
  qed
  have pend: "pending chain [1] [2] = {(1, 0)}" unfolding pending_def using inner by (auto simp: link_def)
  from shared_memory_covers_peak [OF ok _ smem outs, where mul = "3 / 2"] obtain reported where
    l: "compute_shared_memory_usage (3 / 2) chain chain_analysis [1, 2] chain_td =
      Inr (reported, map (\<lambda>n. (n, [])) [1, 2])"
    and peak: "\<And>xs n ys. [1, 2] = xs @ n # ys \<Longrightarrow>
       of_int (int 256 + sum (\<lambda>_. 512) (pending chain xs (n # ys))) * (3 / 2) \<le> reported \<and>
       of_int (int 256 + sum (\<lambda>_. 512) (pending chain xs (n # ys))) \<le> reported"
    by auto
  have "768 * (3 / 2) \<le> reported \<and> 768 \<le> reported" using peak [of "[1]" 2 "[]"] unfolding pend by simp
  with l show ?thesis by blast
qed

text \<open>
  The two conditions on the graph are needed. A node that reads one result through two
  inputs makes the walk release its block twice, and a result that is both read and an
  output of the graph is never released: the estimate fails with \<^verbatim>\<open>KeyError\<close> in the first case
  and with a violated assertion in the second.
\<close>

theorem shared_memory_refused:
  "compute_shared_memory_usage 1 double_read chain_analysis [1, 2] chain_td = Inl KeyError \<and>
   compute_shared_memory_usage 1 read_output chain_analysis [1, 2] chain_td = Inl AssertionError"
proof
  show "compute_shared_memory_usage 1 double_read chain_analysis [1, 2] chain_td = Inl KeyError" by code_simp
  show "compute_shared_memory_usage 1 read_output chain_analysis [1, 2] chain_td = Inl AssertionError"
    by code_simp
qed

end
