(* ===== verification/TileSearch.thy ===== *)
theory TileSearch
  imports ThreadAssign SharedMemory "HOL-Library.AList" "HOL-Library.List_Lexorder" "HOL-Library.Code_Target_Nat"
begin

text \<open>
  The search for tiles, from \<^verbatim>\<open>carver/roller/policy/default.py\<close> and \<^verbatim>\<open>ascend.py\<close>: the nodes a
  policy works on, the memory traffic of a tile, the tile dictionary it gets, and the search
  that enlarges tiles in the order of their priority. Priorities and ratios that the source
  computes in floating point are rational numbers. A Python dictionary is the list of its
  items in insertion order.
\<close>

section \<open>The policy\<close>

record policy =
  p_graph :: graph
  p_an :: node_analysis
  p_ordered :: "nat list"
  p_outputs :: "nat list"
  p_mem_mul :: rat

definition init_with_output_nodes :: "graph \<Rightarrow> node_analysis \<Rightarrow> rat \<Rightarrow> nat list \<Rightarrow> policy option" where
  "init_with_output_nodes g an mul output_nodes =
     map_option (\<lambda>order.
       let ordered = filter (\<lambda>n. \<not> is_placeholder (g ! n) \<and> \<not> is_output (g ! n)) order
       in \<lparr>p_graph = g, p_an = an, p_ordered = ordered,
           p_outputs = filter (\<lambda>n. list_all (\<lambda>e. is_output (g ! e_dst e)) (n_out (g ! n))) ordered,
           p_mem_mul = mul\<rparr>)
       (find_topo_sort g output_nodes)"

definition nth_res :: "'a list \<Rightarrow> nat \<Rightarrow> 'a res" where
  "nth_res xs i = (if i < length xs then Inr (xs ! i) else Inl IndexError)"

definition div_res :: "nat \<Rightarrow> nat \<Rightarrow> nat res" where
  "div_res a b = (if b = 0 then Inl ZeroDivisionError else Inr (a div b))"

section \<open>Tiles of the nodes\<close>

definition get_output_tile_map :: "policy \<Rightarrow> nat list \<Rightarrow> (nat \<times> nat list) list res" where
  "get_output_tile_map p tile =
     rmap (\<lambda>n.
       rbind (rmap (\<lambda>i.
         rbind (nth_res (an_space_dim (p_an p) n) i) (\<lambda>d.
         rbind (nth_res (p_outputs p) 0) (\<lambda>n0.
         rbind (nth_res (an_space_dim (p_an p) n0) i) (\<lambda>d0.
           div_res (tile ! i * d) d0)))) [0..<length tile]) (\<lambda>t. Inr (n, t)))
     (p_outputs p)"

text \<open>A node hands the shapes it needs to the producers of its inputs.\<close>

definition set_inputs_tiles :: "edge list \<Rightarrow> nat list list \<Rightarrow> (nat \<times> nat list) list \<Rightarrow> (nat \<times> nat list) list res" where
  "set_inputs_tiles ins shapes m =
     rfold (\<lambda>(i, e) m. rbind (nth_res shapes i) (\<lambda>s. Inr (AList.update (e_src e) s m)))
       (enumerate 0 ins) m"

definition compute_workload_per_item :: "policy \<Rightarrow> nat list \<Rightarrow> rat res" where
  "compute_workload_per_item p output_tile =
     rbind (get_output_tile_map p output_tile) (\<lambda>m0.
     rbind (rfold (\<lambda>n (compute, m).
         rbind (dict_get m n) (\<lambda>tile.
         rbind (set_inputs_tiles (n_in (p_graph p ! n)) (an_propagate_inputs (p_an p) n tile) m) (\<lambda>m'.
           Inr (compute + prod_list tile, m'))))
       (rev (p_ordered p)) (0, m0)) (\<lambda>(compute, _).
       if prod_list output_tile = 0 then Inl ZeroDivisionError
       else Inr (of_nat compute / of_nat (prod_list output_tile))))"

definition base_tile_step :: "policy \<Rightarrow> nat \<times> nat \<Rightarrow> rat \<times> nat list \<Rightarrow> (rat \<times> nat list) res" where
  "base_tile_step p =
     (\<lambda>(i, n) (wpi, base).
        if n = base ! i then Inr (wpi, base)
        else rbind (compute_workload_per_item p (base[i := n])) (\<lambda>new_wpi.
          Inr (if new_wpi < wpi then (new_wpi, base[i := n]) else (wpi, base))))"

text \<open>No base tile if the output nodes differ in rank.\<close>

definition get_base_tile :: "policy \<Rightarrow> nat list option res" where
  "get_base_tile p =
     (if 1 < card (set (map (\<lambda>n. length (an_space_dim (p_an p) n)) (p_outputs p))) then Inr None
      else rbind (nth_res (p_outputs p) 0) (\<lambda>out_node.
        let shape = an_space_dim (p_an p) out_node;
            base_tile = map (\<lambda>_. 1) shape
        in rbind (compute_workload_per_item p base_tile) (\<lambda>wpi.
           rbind (rfold (base_tile_step p) (enumerate 0 shape) (wpi, base_tile)) (\<lambda>(_, base).
             Inr (Some base)))))"

section \<open>Memory traffic\<close>

definition dtype_bytes :: "policy \<Rightarrow> nat \<Rightarrow> nat \<Rightarrow> nat res" where
  "dtype_bytes p n i =
     rbind (node_dtype (p_graph p ! n) i) (\<lambda>dt.
       case dt of None \<Rightarrow> Inl AttributeError | Some t \<Rightarrow> Inr ((an_bits (p_an p) t + 7) div 8))"

definition node_shape_of :: "policy \<Rightarrow> nat \<Rightarrow> nat \<Rightarrow> nat list res" where
  "node_shape_of p n i =
     rbind (node_shape (p_graph p ! n) i) (\<lambda>s. case s of None \<Rightarrow> Inl TypeError | Some sh \<Rightarrow> Inr sh)"

text \<open>Bytes moved for one region of a tensor with transactions of a given size.\<close>

definition transfer_bytes :: "nat list \<Rightarrow> nat list \<Rightarrow> nat \<Rightarrow> nat \<Rightarrow> rat res" where
  "transfer_bytes region shape transaction nbytes =
     rbind (div_res transaction nbytes) (\<lambda>elements.
     rbind (coalesced_tensor_shape region shape elements) (\<lambda>c. Inr (c * of_nat nbytes)))"

definition read_edge ::
  "policy \<Rightarrow> nat \<Rightarrow> nat list list \<Rightarrow> nat \<times> edge \<Rightarrow> rat \<times> (nat \<times> nat list) list \<Rightarrow>
     (rat \<times> (nat \<times> nat list) list) res" where
  "read_edge p transaction shapes =
     (\<lambda>(i, e) (traffic, m).
       rbind (nth_res shapes i) (\<lambda>s.
         let m' = AList.update (e_src e) s m
         in if is_placeholder (p_graph p ! e_src e)
            then rbind (dtype_bytes p (e_src e) 0) (\<lambda>nbytes.
                 rbind (node_shape_of p (e_src e) 0) (\<lambda>sh.
                 rbind (transfer_bytes s sh transaction nbytes) (\<lambda>t. Inr (traffic + t, m'))))
            else Inr (traffic, m')))"

definition write_edge :: "policy \<Rightarrow> nat \<Rightarrow> nat \<Rightarrow> nat list list \<Rightarrow> edge \<Rightarrow> rat \<Rightarrow> rat res" where
  "write_edge p transaction n shapes e traffic =
     (if is_output (p_graph p ! e_dst e)
      then rbind (dtype_bytes p (e_src e) 0) (\<lambda>nbytes.
           rbind (nth_res shapes (e_src_id e)) (\<lambda>s.
           rbind (node_shape_of p n (e_src_id e)) (\<lambda>sh.
           rbind (transfer_bytes s sh transaction nbytes) (\<lambda>t. Inr (traffic + t)))))
      else Inr traffic)"

definition compute_memory_traffic ::
  "policy \<Rightarrow> nat \<times> nat \<Rightarrow> nat list \<Rightarrow> (rat \<times> (nat \<times> nat list) list) res" where
  "compute_memory_traffic p transaction_size output_tile =
     rbind (get_output_tile_map p output_tile) (\<lambda>m0.
     rfold (\<lambda>n (traffic, m).
         rbind (dict_get m n) (\<lambda>tile.
         let node = p_graph p ! n;
             input_shapes = an_propagate_inputs (p_an p) n tile;
             output_shapes = an_propagate_outputs (p_an p) n tile
         in rbind (rfold (read_edge p (snd transaction_size) input_shapes) (enumerate 0 (n_in node))
                     (traffic, m)) (\<lambda>(traffic1, m').
            rbind (rfold (write_edge p (fst transaction_size) n output_shapes) (n_out node) traffic1)
              (\<lambda>traffic2. Inr (traffic2, m')))))
       (rev (p_ordered p)) (0, m0))"

section \<open>Tile dictionaries\<close>

text \<open>
  The grid of a tile over a shape; \<^verbatim>\<open>zip(..., strict=True)\<close> raises on different lengths and
  a zero extent divides by zero.
\<close>

definition grid_of :: "nat list \<Rightarrow> nat list \<Rightarrow> nat res" where
  "grid_of tile shape =
     (if length tile \<noteq> length shape then Inl ValueError
      else if 0 \<in> set tile then Inl ZeroDivisionError
      else Inr (prod_list (map2 (\<lambda>x y. cdiv y x) tile shape)))"

record arch_limits =
  al_smem_cap :: nat
  al_max_smem_usage :: nat
  al_reg_cap :: nat
  al_sm_partition :: nat
  al_compute_max_core :: nat
  al_transaction_size :: "nat \<times> nat"

definition max_rat :: "rat list \<Rightarrow> rat res" where
  "max_rat xs = (case xs of [] \<Rightarrow> Inl ValueError | y # ys \<Rightarrow> Inr (foldl max y ys))"

definition reg_usage :: "policy \<Rightarrow> tile_dict \<Rightarrow> int res" where
  "reg_usage p td =
     rbind (rmap (\<lambda>n.
       rbind (get_tile td n) (\<lambda>tile.
       rbind (node_dtype (p_graph p ! n) 0) (\<lambda>dt.
         case dt of None \<Rightarrow> Inl AttributeError
         | Some t \<Rightarrow> Inr (of_nat (prod_list tile * an_bits (p_an p) t) / 32)))) (p_ordered p)) (\<lambda>us.
     rbind (max_rat us) (\<lambda>u. Inr \<lfloor>2 * u\<rfloor>))"

definition compute_tile_dict ::
  "policy \<Rightarrow> arch_limits \<Rightarrow> (nat \<times> rsteps) list \<Rightarrow> nat list \<Rightarrow> tile_dict res" where
  "compute_tile_dict p arch rstep_map output_tile =
     rbind (compute_memory_traffic p (al_transaction_size arch) output_tile) (\<lambda>(traffic, tile_map).
     let td = (tile_dict_init output_tile)\<lparr>td_rstep_map := rstep_map, td_traffic := traffic,
                td_tile_map := tile_map\<rparr>
     in rbind (compute_shared_memory_usage (p_mem_mul p) (p_graph p) (p_an p) (p_ordered p) td)
          (\<lambda>(smem_cost, cached).
        let td1 = td\<lparr>td_smem_cost := smem_cost, td_cached_tensors_map := cached\<rparr>
        in if of_nat (al_smem_cap arch) < smem_cost then Inr (td1\<lparr>td_valid := False\<rparr>)
           else rbind (nth_res (p_outputs p) 0) (\<lambda>n0.
                rbind (grid_of output_tile (an_space_dim (p_an p) n0)) (\<lambda>grid.
                let td2 = td1\<lparr>td_grid_size := int grid\<rparr>
                in rbind (reg_usage p td2) (\<lambda>regs.
                   if int (al_reg_cap arch) < regs then Inr (td2\<lparr>td_valid := False\<rparr>)
                   else
                     let blocks = min (min \<lfloor>of_nat (al_max_smem_usage arch) / max smem_cost 1\<rfloor>
                                           (int (al_reg_cap arch) div max regs 1))
                                      (int (al_sm_partition arch));
                         cores = blocks * int (al_compute_max_core arch)
                     in if cores = 0 then Inl ZeroDivisionError
                        else Inr (td2\<lparr>td_block_per_SM := blocks,
                                  td_num_wave := \<lceil>of_nat grid / (of_int cores :: rat)\<rceil>\<rparr>))))))"

text \<open>
  The Ascend policies: the capacity is the unified buffer for vector kernels and the L1
  buffer for cube kernels, and one block runs on one core.
\<close>

definition ascend_compute_tile_dict ::
  "policy \<Rightarrow> nat \<times> nat \<Rightarrow> nat \<Rightarrow> nat \<Rightarrow> (nat \<times> rsteps) list \<Rightarrow> nat list \<Rightarrow> tile_dict res" where
  "ascend_compute_tile_dict p transaction_size buffer_cap num_ai_cores rstep_map output_tile =
     rbind (compute_memory_traffic p transaction_size output_tile) (\<lambda>(traffic, tile_map).
     let td = (tile_dict_init output_tile)\<lparr>td_rstep_map := rstep_map, td_traffic := traffic,
                td_tile_map := tile_map\<rparr>
     in rbind (compute_shared_memory_usage (p_mem_mul p) (p_graph p) (p_an p) (p_ordered p) td)
          (\<lambda>(smem_cost, cached).
        let td1 = td\<lparr>td_smem_cost := smem_cost, td_cached_tensors_map := cached\<rparr>
        in if of_nat buffer_cap < smem_cost then Inr (td1\<lparr>td_valid := False\<rparr>)
           else rbind (nth_res (p_outputs p) 0) (\<lambda>n0.
                rbind (grid_of output_tile (an_space_dim (p_an p) n0)) (\<lambda>grid.
                  if num_ai_cores = 0 then Inl ZeroDivisionError
                  else Inr (td1\<lparr>td_grid_size := int grid, td_block_per_SM := 1,
                            td_num_wave := int (cdiv grid num_ai_cores)\<rparr>)))))"

section \<open>Steps of the search\<close>

fun py_index :: "'a list \<Rightarrow> 'a \<Rightarrow> nat res" where
  "py_index [] x = Inl ValueError"
| "py_index (y # ys) x = (if y = x then Inr 0 else rbind (py_index ys x) (\<lambda>i. Inr (Suc i)))"

definition base_steps :: "nat list \<Rightarrow> nat list \<Rightarrow> nat list list res" where
  "base_steps dims init_tile =
     (if length dims \<noteq> length init_tile then Inl ValueError
      else rmap (\<lambda>(n, t). rbind (py_index (get_all_factors n) t) (\<lambda>i. Inr (drop i (get_all_factors n))))
             (zip dims init_tile))"

definition add_steps :: "(nat \<Rightarrow> nat) \<Rightarrow> nat list \<Rightarrow> nat list \<Rightarrow> nat list" where
  "add_steps bound sizes step =
     sort (step @ filter (\<lambda>s. s < bound (last step) \<and> hd step < s \<and> s \<notin> set step) sizes)"

definition default_steps :: "nat list \<Rightarrow> nat list \<Rightarrow> nat list list res" where
  "default_steps dims init_tile =
     rbind (base_steps dims init_tile) (\<lambda>ss. Inr (map (add_steps (\<lambda>m. m) [2, 4, 8, 16, 32]) ss))"

definition ascend_steps :: "nat list \<Rightarrow> nat list \<Rightarrow> nat list list res" where
  "ascend_steps dims init_tile =
     rbind (base_steps dims init_tile) (\<lambda>ss. Inr (map (add_steps (\<lambda>m. m * 2) [16, 32, 64, 128, 256, 512]) ss))"

section \<open>The search\<close>

definition prio :: "tile_dict \<Rightarrow> rat" where
  "prio td = (td_traffic td + 1) * of_int (td_num_wave td)"

definition ascend_prio :: "tile_dict \<Rightarrow> rat" where
  "ascend_prio td =
     (td_traffic td + 1) * of_int (td_num_wave td) *
     foldl (\<lambda>bonus t. if t mod 16 = 0 then bonus * (1 / 10) else bonus) 1 (td_output_tile td)"

text \<open>The queue is kept sorted by priority and tile, so that its head is the least entry.\<close>

record search =
  sr_visited :: "(nat list \<times> tile_dict) list"
  sr_queue :: "(rat \<times> nat list) list"

definition add_to_queue ::
  "(nat list \<Rightarrow> tile_dict res) \<Rightarrow> (tile_dict \<Rightarrow> rat) \<Rightarrow> nat list \<Rightarrow> search \<Rightarrow> search res" where
  "add_to_queue compute pr tile s =
     (if tile \<in> fst ` set (sr_visited s) then Inr s
      else rbind (compute tile) (\<lambda>td.
        Inr (s\<lparr>sr_visited := sr_visited s @ [(tile, td)],
               sr_queue := (if td_valid td then insort (pr td, tile) (sr_queue s) else sr_queue s)\<rparr>)))"

definition dim_ids :: "nat list list \<Rightarrow> nat list \<Rightarrow> nat list res" where
  "dim_ids steps tile =
     (if length steps \<noteq> length tile then Inl ValueError
      else rmap (\<lambda>(step, t). py_index step t) (zip steps tile))"

definition larger_tiles :: "nat list list \<Rightarrow> nat list \<Rightarrow> nat list \<Rightarrow> nat list list" where
  "larger_tiles steps tile ids =
     map (\<lambda>i. tile[i := steps ! i ! (ids ! i + 1)])
       (filter (\<lambda>i. ids ! i + 1 < length (steps ! i)) (rev [0..<length ids]))"

definition expand ::
  "(nat list \<Rightarrow> tile_dict res) \<Rightarrow> (tile_dict \<Rightarrow> rat) \<Rightarrow> nat list list \<Rightarrow> search \<Rightarrow> search res" where
  "expand compute pr steps s =
     (let tile = snd (hd (sr_queue s))
      in rbind (dim_ids steps tile) (\<lambda>ids.
         rfold (add_to_queue compute pr) (larger_tiles steps tile ids) (s\<lparr>sr_queue := tl (sr_queue s)\<rparr>)))"

lemma add_to_queue_grows:
  assumes "add_to_queue compute pr tile s = Inr s'"
  shows "length (sr_visited s) < length (sr_visited s') \<or> s' = s"
  using assms by (auto simp: add_to_queue_def rbind_Inr_iff split: if_splits)

lemma add_all_grows:
  "rfold (add_to_queue compute pr) ts s = Inr s' \<Longrightarrow>
     length (sr_visited s) < length (sr_visited s') \<or> s' = s"
proof (induction ts arbitrary: s)
  case Nil
  then show ?case by simp
next
  case (Cons t ts)
  then obtain s1 where s1: "add_to_queue compute pr t s = Inr s1"
    "rfold (add_to_queue compute pr) ts s1 = Inr s'" by (auto simp: rbind_Inr_iff)
  from add_to_queue_grows [OF s1(1)] Cons.IH [OF s1(2)] show ?case by auto
qed

text \<open>
  The loop ends: every round either visits a new tile, of which there are at most 2001
  before it stops, or takes an entry from the queue.
\<close>

function search_loop ::
  "(nat list \<Rightarrow> tile_dict res) \<Rightarrow> (tile_dict \<Rightarrow> rat) \<Rightarrow> nat list list \<Rightarrow> search \<Rightarrow> search res" where
  "search_loop compute pr steps s =
     (if sr_queue s = [] \<or> 2000 < length (sr_visited s) then Inr s
      else rbind (expand compute pr steps s) (search_loop compute pr steps))"
  by pat_completeness auto

termination
proof (relation "measures [\<lambda>(c, p, st, s). 2001 - length (sr_visited s), \<lambda>(c, p, st, s). length (sr_queue s)]")
  fix compute :: "nat list \<Rightarrow> tile_dict res" and pr steps s s'
  assume go: "\<not> (sr_queue s = [] \<or> 2000 < length (sr_visited s))" and "expand compute pr steps s = Inr s'"
  then obtain ids where "rfold (add_to_queue compute pr)
      (larger_tiles steps (snd (hd (sr_queue s))) ids) (s\<lparr>sr_queue := tl (sr_queue s)\<rparr>) = Inr s'"
    by (auto simp: expand_def Let_def rbind_Inr_iff)
  from add_all_grows [OF this] go
  show "((compute, pr, steps, s'), compute, pr, steps, s) \<in>
      measures [\<lambda>(c, p, st, s). 2001 - length (sr_visited s), \<lambda>(c, p, st, s). length (sr_queue s)]"
    by auto
qed simp

declare search_loop.simps [simp del]

definition search_tiles ::
  "(nat list \<Rightarrow> tile_dict res) \<Rightarrow> (tile_dict \<Rightarrow> rat) \<Rightarrow> nat list list \<Rightarrow> nat list \<Rightarrow> tile_dict list res" where
  "search_tiles compute pr steps init_tile =
     rbind (add_to_queue compute pr init_tile \<lparr>sr_visited = [], sr_queue = []\<rparr>) (\<lambda>s0.
     rbind (search_loop compute pr steps s0) (\<lambda>s.
       Inr (sort_key pr (filter td_valid (map snd (sr_visited s))))))"

definition dfs_smem_tile ::
  "policy \<Rightarrow> arch_limits \<Rightarrow> nat list \<Rightarrow> (nat \<times> rsteps) list \<Rightarrow> tile_dict list res" where
  "dfs_smem_tile p arch init_tile rstep_map =
     rbind (nth_res (p_outputs p) 0) (\<lambda>n0.
     rbind (default_steps (an_space_dim (p_an p) n0) init_tile) (\<lambda>steps.
       search_tiles (compute_tile_dict p arch rstep_map) prio steps init_tile))"

text \<open>
  The Ascend search first fixes the limits on the number of elements that the selection of
  configurations uses.
\<close>

record numel_limits =
  nl_max_numel :: nat
  nl_max_total :: nat
  nl_tiny :: bool
  nl_stop :: nat

record ascend_params =
  ap_ub_capacity :: nat
  ap_buffer_cap :: nat
  ap_num_ai_cores :: nat
  ap_transaction_size :: "nat \<times> nat"

definition calc_numel_threshold :: "policy \<Rightarrow> ascend_params \<Rightarrow> nat list list \<Rightarrow> numel_limits res" where
  "calc_numel_threshold p ap steps =
     rbind (nth_res (p_outputs p) 0) (\<lambda>n0.
     rbind (dtype_bytes p n0 0) (\<lambda>bytes.
       if bytes = 0 then Inl ZeroDivisionError
       else if [] \<in> set steps then Inl IndexError
       else
         let total = prod_list (map last steps);
             tiny = (total < 128 * 1024)
         in if tiny \<and> ap_num_ai_cores ap = 0 then Inl ZeroDivisionError
            else Inr \<lparr>nl_max_numel = ap_ub_capacity ap div bytes, nl_max_total = total, nl_tiny = tiny,
                      nl_stop = (if tiny then min (1024 div bytes) (total div (ap_num_ai_cores ap * 2))
                                 else 1024 div bytes)\<rparr>))"

definition calculate_tile_numel :: "hint \<Rightarrow> nat" where
  "calculate_tile_numel h = prod_list (h_block h)"

definition ascend_dfs_smem_tile ::
  "policy \<Rightarrow> ascend_params \<Rightarrow> nat list \<Rightarrow> (nat \<times> rsteps) list \<Rightarrow> (numel_limits \<times> tile_dict list) res" where
  "ascend_dfs_smem_tile p ap init_tile rstep_map =
     rbind (nth_res (p_outputs p) 0) (\<lambda>n0.
     rbind (base_steps (an_space_dim (p_an p) n0) init_tile) (\<lambda>bs.
     rbind (calc_numel_threshold p ap bs) (\<lambda>nl.
     rbind (search_tiles
              (ascend_compute_tile_dict p (ap_transaction_size ap) (ap_buffer_cap ap) (ap_num_ai_cores ap) rstep_map)
              ascend_prio (map (add_steps (\<lambda>m. m * 2) [16, 32, 64, 128, 256, 512]) bs) init_tile) (\<lambda>tds.
       Inr (nl, tds)))))"

section \<open>Selection of configurations\<close>

text \<open>
  The final filter of \<open>emit_config\<close>: results of more elements than fit are dropped; once
  half of the wanted configurations are found, small tiles are dropped too.
\<close>

fun verify_results :: "nat \<Rightarrow> numel_limits \<Rightarrow> hint list \<Rightarrow> hint list \<Rightarrow> hint list" where
  "verify_results topk nl [] verified = verified"
| "verify_results topk nl (h # hs) verified =
     (let tile_numel = calculate_tile_numel h;
          threshold = (if length verified < topk div 2 \<or> nl_tiny nl then 0 else nl_stop nl + 128)
      in verify_results topk nl hs
           (if tile_numel \<le> nl_max_numel nl \<and> threshold \<le> tile_numel then verified @ [h] else verified))"

text \<open>Validity of the tiles of all nodes against the grid of the output.\<close>

fun axes_divide :: "nat list \<Rightarrow> nat list \<Rightarrow> bool res" where
  "axes_divide (ex # exs) (t # ts) =
     (if t = 0 then Inl ZeroDivisionError else if ex mod t \<noteq> 0 then Inr False else axes_divide exs ts)"
| "axes_divide _ _ = Inr True"

definition check_tile_shape_isvalid :: "policy \<Rightarrow> tile_dict \<Rightarrow> (nat \<Rightarrow> nat list option) \<Rightarrow> bool res" where
  "check_tile_shape_isvalid p td reduce_axes =
     rfold (\<lambda>n ok.
       if \<not> ok then Inr False
       else rbind (get_tile td n) (\<lambda>tile.
         if prod_list tile = 0 then Inr False
         else rbind (grid_of tile (an_space_dim (p_an p) n)) (\<lambda>grid.
           if int grid \<noteq> td_grid_size td then Inr False
           else case reduce_axes n of
             None \<Rightarrow> Inr True
           | Some exts \<Rightarrow>
               if length exts \<noteq> length (td_output_tile td) then Inr True
               else axes_divide exts (td_output_tile td))))
     (p_ordered p) True"

section \<open>What the search visits\<close>

definition tile_in :: "nat list list \<Rightarrow> nat list \<Rightarrow> bool" where
  "tile_in steps tile \<longleftrightarrow> list_all2 (\<lambda>t step. t \<in> set step) tile steps"

definition next_tiles :: "nat list list \<Rightarrow> nat list \<Rightarrow> nat list list" where
  "next_tiles steps tile =
     (case dim_ids steps tile of Inr ids \<Rightarrow> larger_tiles steps tile ids | Inl _ \<Rightarrow> [])"

lemma py_index_total: "x \<in> set xs \<Longrightarrow> \<exists>i. py_index xs x = Inr i \<and> i < length xs \<and> xs ! i = x"
  by (induction xs) (auto simp: less_Suc_eq_0_disj)

lemma dim_ids_total:
  assumes "tile_in steps tile"
  shows "\<exists>ids. dim_ids steps tile = Inr ids \<and> length ids = length tile"
proof -
  have len: "length steps = length tile" using assms by (auto simp: tile_in_def dest: list_all2_lengthD)
  have "\<exists>i. (\<lambda>(step, t). py_index step t) x = Inr i" if "x \<in> set (zip steps tile)" for x
  proof -
    have "snd x \<in> set (fst x)"
      using that assms by (auto simp: tile_in_def list_all2_conv_all_nth set_zip)
    then show ?thesis using py_index_total [of "snd x" "fst x"] by (cases x) auto
  qed
  then obtain ids where "rmap (\<lambda>(step, t). py_index step t) (zip steps tile) = Inr ids"
    using rmap_total [of "zip steps tile"] by blast
  with len show ?thesis by (auto simp: dim_ids_def dest: rmap_Inr_length)
qed

lemma next_tiles_in:
  assumes "tile_in steps tile" and "t \<in> set (next_tiles steps tile)"
  shows "tile_in steps t"
  using assms dim_ids_total [OF assms(1)]
  by (auto simp: next_tiles_def larger_tiles_def tile_in_def list_all2_conv_all_nth nth_list_update)

lemma length_next_tiles: "tile_in steps tile \<Longrightarrow> length (next_tiles steps tile) \<le> length tile"
proof -
  assume "tile_in steps tile"
  then obtain ids where "dim_ids steps tile = Inr ids" "length ids = length tile" using dim_ids_total by blast
  then show ?thesis
    using length_filter_le [of "\<lambda>i. ids ! i + 1 < length (steps ! i)" "rev [0..<length ids]"]
    by (simp add: next_tiles_def larger_tiles_def)
qed

lemma expand_next:
  assumes "tile_in steps (snd (hd (sr_queue s)))"
  shows "expand compute pr steps s =
    rfold (add_to_queue compute pr) (next_tiles steps (snd (hd (sr_queue s)))) (s\<lparr>sr_queue := tl (sr_queue s)\<rparr>)"
  using dim_ids_total [OF assms] by (auto simp: expand_def next_tiles_def)

text \<open>
  The invariant of the search. Visited tiles carry their dictionaries; the queue holds valid
  visited tiles; a valid visited tile that has left the queue has all its enlargements
  visited, except for the tiles in \<open>todo\<close>.
\<close>

definition search_inv ::
  "(nat list \<Rightarrow> tile_dict res) \<Rightarrow> (tile_dict \<Rightarrow> rat) \<Rightarrow> nat list list \<Rightarrow> nat list set \<Rightarrow> search \<Rightarrow> bool" where
  "search_inv compute pr steps todo s \<longleftrightarrow>
     distinct (map fst (sr_visited s)) \<and>
     (\<forall>(t, td) \<in> set (sr_visited s). tile_in steps t \<and> compute t = Inr td) \<and>
     (\<forall>(q, t) \<in> set (sr_queue s). t \<in> fst ` set (sr_visited s)) \<and>
     (\<forall>(t, td) \<in> set (sr_visited s). td_valid td \<longrightarrow> t \<in> snd ` set (sr_queue s) \<or>
        set (next_tiles steps t) \<subseteq> fst ` set (sr_visited s) \<union> todo)"

lemma add_to_queue_inv:
  assumes "search_inv compute pr steps todo s" and "tile_in steps tile" and "compute tile = Inr td"
  shows "\<exists>s'. add_to_queue compute pr tile s = Inr s' \<and> search_inv compute pr steps (todo - {tile}) s' \<and>
    fst ` set (sr_visited s') = insert tile (fst ` set (sr_visited s)) \<and>
    length (sr_visited s') \<le> Suc (length (sr_visited s))"
proof (cases "tile \<in> fst ` set (sr_visited s)")
  case True
  then have "fst ` set (sr_visited s) \<union> (todo - {tile}) = fst ` set (sr_visited s) \<union> todo" by auto
  then have "search_inv compute pr steps (todo - {tile}) s" using assms(1) unfolding search_inv_def by simp
  with True show ?thesis by (auto simp: add_to_queue_def)
next
  case False
  define s' where "s' = s\<lparr>sr_visited := sr_visited s @ [(tile, td)],
    sr_queue := (if td_valid td then insort (pr td, tile) (sr_queue s) else sr_queue s)\<rparr>"
  have v: "fst ` set (sr_visited s') = insert tile (fst ` set (sr_visited s))" by (simp add: s'_def)
  have q: "snd ` set (sr_queue s') = (if td_valid td then insert tile (snd ` set (sr_queue s))
      else snd ` set (sr_queue s))" by (simp add: s'_def set_insort_key)
  have more: "fst ` set (sr_visited s) \<union> todo \<subseteq> fst ` set (sr_visited s') \<union> (todo - {tile})" by (auto simp: v)
  have frontier: "t \<in> snd ` set (sr_queue s') \<or>
      set (next_tiles steps t) \<subseteq> fst ` set (sr_visited s') \<union> (todo - {tile})"
    if t: "(t, td') \<in> set (sr_visited s')" "td_valid td'" for t td'
  proof (cases "(t, td') \<in> set (sr_visited s)")
    case True
    then have "t \<in> snd ` set (sr_queue s) \<or> set (next_tiles steps t) \<subseteq> fst ` set (sr_visited s) \<union> todo"
      using assms(1) t(2) unfolding search_inv_def by blast
    then show ?thesis using subset_trans [OF _ more] unfolding q by auto
  next
    case False
    then show ?thesis using t q by (auto simp: s'_def)
  qed
  have "search_inv compute pr steps (todo - {tile}) s'"
    unfolding search_inv_def
  proof (intro conjI)
    show "distinct (map fst (sr_visited s'))" using assms(1) False by (simp add: s'_def search_inv_def)
    show "\<forall>(t, td) \<in> set (sr_visited s'). tile_in steps t \<and> compute t = Inr td"
      using assms by (auto simp: s'_def search_inv_def)
    show "\<forall>(qq, t) \<in> set (sr_queue s'). t \<in> fst ` set (sr_visited s')"
      using assms(1) unfolding v by (auto simp: s'_def search_inv_def set_insort_key split: if_splits)
    show "\<forall>(t, td) \<in> set (sr_visited s'). td_valid td \<longrightarrow> t \<in> snd ` set (sr_queue s') \<or>
        set (next_tiles steps t) \<subseteq> fst ` set (sr_visited s') \<union> (todo - {tile})"
      using frontier by blast
  qed
  with False assms(3) v show ?thesis by (auto simp: add_to_queue_def s'_def)
qed

lemma add_all_inv:
  assumes "search_inv compute pr steps todo s" and "\<And>t. tile_in steps t \<Longrightarrow> \<exists>td. compute t = Inr td"
    and "\<forall>t \<in> set ts. tile_in steps t"
  shows "\<exists>s'. rfold (add_to_queue compute pr) ts s = Inr s' \<and> search_inv compute pr steps (todo - set ts) s' \<and>
    fst ` set (sr_visited s') = set ts \<union> fst ` set (sr_visited s) \<and>
    length (sr_visited s') \<le> length ts + length (sr_visited s)"
  using assms
proof (induction ts arbitrary: todo s)
  case Nil
  then show ?case by simp
next
  case (Cons t ts)
  then have "tile_in steps t" by simp
  then obtain td where "compute t = Inr td" using Cons.prems(2) by blast
  with add_to_queue_inv [OF Cons.prems(1)] \<open>tile_in steps t\<close> obtain s1 where
    s1: "add_to_queue compute pr t s = Inr s1" "search_inv compute pr steps (todo - {t}) s1"
      "fst ` set (sr_visited s1) = insert t (fst ` set (sr_visited s))"
      "length (sr_visited s1) \<le> Suc (length (sr_visited s))" by blast
  from Cons.IH [OF s1(2) Cons.prems(2)] Cons.prems(3) obtain s' where
    "rfold (add_to_queue compute pr) ts s1 = Inr s'" "search_inv compute pr steps (todo - {t} - set ts) s'"
    "fst ` set (sr_visited s') = set ts \<union> fst ` set (sr_visited s1)"
    "length (sr_visited s') \<le> length ts + length (sr_visited s1)" by auto
  moreover have "todo - {t} - set ts = todo - set (t # ts)" by auto
  ultimately show ?case using s1 by auto
qed

lemma search_inv_pop:
  assumes "search_inv compute pr steps {} s" and "sr_queue s \<noteq> []"
  shows "tile_in steps (snd (hd (sr_queue s)))"
    and "search_inv compute pr steps (set (next_tiles steps (snd (hd (sr_queue s))))) (s\<lparr>sr_queue := tl (sr_queue s)\<rparr>)"
proof -
  obtain q t qs where q: "sr_queue s = (q, t) # qs" using assms(2) by (cases "sr_queue s") auto
  with assms(1) show "tile_in steps (snd (hd (sr_queue s)))" by (fastforce simp: search_inv_def)
  have "t' \<in> snd ` set qs \<or> set (next_tiles steps t') \<subseteq> fst ` set (sr_visited s) \<union> set (next_tiles steps t)"
    if "(t', td) \<in> set (sr_visited s)" "td_valid td" for t' td
  proof (cases "t' = t")
    case False
    then show ?thesis using assms(1) that unfolding search_inv_def q by fastforce
  qed simp
  then show "search_inv compute pr steps (set (next_tiles steps (snd (hd (sr_queue s)))))
      (s\<lparr>sr_queue := tl (sr_queue s)\<rparr>)"
    using assms(1) by (auto simp: search_inv_def q)
qed

lemma search_loop_ok:
  assumes "\<And>t. tile_in steps t \<Longrightarrow> \<exists>td. compute t = Inr td"
  shows "search_inv compute pr steps {} s \<Longrightarrow> length (sr_visited s) \<le> 2000 + length steps \<Longrightarrow>
    \<exists>s'. search_loop compute pr steps s = Inr s' \<and> search_inv compute pr steps {} s' \<and>
      fst ` set (sr_visited s) \<subseteq> fst ` set (sr_visited s') \<and>
      (sr_queue s' = [] \<or> 2000 < length (sr_visited s')) \<and> length (sr_visited s') \<le> 2000 + length steps"
  using assms
proof (induction compute pr steps s rule: search_loop.induct)
  case (1 compute pr steps s)
  show ?case
  proof (cases "sr_queue s = [] \<or> 2000 < length (sr_visited s)")
    case True
    then show ?thesis using "1.prems" by (auto simp: search_loop.simps [of compute])
  next
    case False
    let ?t = "snd (hd (sr_queue s))"
    note pop = search_inv_pop [OF "1.prems"(1)]
    have t: "tile_in steps ?t" using pop(1) False by simp
    obtain s1 where s1: "expand compute pr steps s = Inr s1" "search_inv compute pr steps {} s1"
      "fst ` set (sr_visited s) \<subseteq> fst ` set (sr_visited s1)"
      "length (sr_visited s1) \<le> length (next_tiles steps ?t) + length (sr_visited s)"
      using add_all_inv [OF pop(2) "1.prems"(3), of "next_tiles steps ?t"] False next_tiles_in [OF t]
      unfolding expand_next [OF t] by auto
    have "length ?t = length steps" using t by (auto simp: tile_in_def dest: list_all2_lengthD)
    then have "length (sr_visited s1) \<le> 2000 + length steps"
      using s1(4) length_next_tiles [OF t] False by linarith
    from "1.IH" [OF False s1(1) s1(2) this "1.prems"(3)] s1 False show ?thesis
      by (auto simp: search_loop.simps [of compute pr steps s])
  qed
qed

section \<open>Whatever the search returns\<close>

text \<open>The part of the invariant that needs no totality: it holds of every result.\<close>

definition found_inv ::
  "(nat list \<Rightarrow> tile_dict res) \<Rightarrow> nat list list \<Rightarrow> search \<Rightarrow> bool" where
  "found_inv compute steps s \<longleftrightarrow>
     (\<forall>(t, td) \<in> set (sr_visited s). tile_in steps t \<and> compute t = Inr td) \<and>
     (\<forall>(q, t) \<in> set (sr_queue s). t \<in> fst ` set (sr_visited s))"

lemma found_inv_add:
  assumes "found_inv compute steps s" and "tile_in steps tile" and "add_to_queue compute pr tile s = Inr s'"
  shows "found_inv compute steps s'"
  using assms by (auto simp: found_inv_def add_to_queue_def rbind_Inr_iff set_insort_key split: if_splits)

lemma found_inv_loop:
  "found_inv compute steps s \<Longrightarrow> search_loop compute pr steps s = Inr s' \<Longrightarrow> found_inv compute steps s'"
proof (induction compute pr steps s rule: search_loop.induct)
  case (1 compute pr steps s)
  show ?case
  proof (cases "sr_queue s = [] \<or> 2000 < length (sr_visited s)")
    case True
    then show ?thesis using "1.prems" by (simp add: search_loop.simps [of compute pr steps s])
  next
    case False
    let ?t = "snd (hd (sr_queue s))"
    obtain s1 where s1: "expand compute pr steps s = Inr s1" "search_loop compute pr steps s1 = Inr s'"
      using "1.prems"(2) False by (auto simp: search_loop.simps [of compute pr steps s] rbind_Inr_iff)
    obtain q t where q: "hd (sr_queue s) = (q, t)" by (cases "hd (sr_queue s)")
    then have "(q, t) \<in> set (sr_queue s)" using False hd_in_set [of "sr_queue s"] by simp
    then have t: "tile_in steps ?t" using "1.prems"(1) unfolding found_inv_def q by fastforce
    have "set (tl (sr_queue s)) \<subseteq> set (sr_queue s)" by (cases "sr_queue s") auto
    then have "found_inv compute steps (s\<lparr>sr_queue := tl (sr_queue s)\<rparr>)"
      using "1.prems"(1) by (auto simp: found_inv_def)
    from rfold_invariant [where I = "found_inv compute steps", OF s1(1) [unfolded expand_next [OF t]] this]
    have "found_inv compute steps s1" using found_inv_add next_tiles_in [OF t] by blast
    then show ?thesis using "1.IH" [OF False s1(1) _ s1(2)] by blast
  qed
qed

lemma search_tiles_found:
  assumes "search_tiles compute pr steps init = Inr tds" and "tile_in steps init"
  shows "sorted (map pr tds) \<and> (\<forall>td \<in> set tds. td_valid td \<and> (\<exists>t. tile_in steps t \<and> compute t = Inr td))"
proof -
  obtain s0 s where s: "add_to_queue compute pr init \<lparr>sr_visited = [], sr_queue = []\<rparr> = Inr s0"
    "search_loop compute pr steps s0 = Inr s" "tds = sort_key pr (filter td_valid (map snd (sr_visited s)))"
    using assms(1) by (auto simp: search_tiles_def rbind_Inr_iff)
  have "found_inv compute steps \<lparr>sr_visited = [], sr_queue = []\<rparr>" by (simp add: found_inv_def)
  from found_inv_loop [OF found_inv_add [OF this assms(2) s(1)] s(2)]
  have "tile_in steps t \<and> compute t = Inr td" if "(t, td) \<in> set (sr_visited s)" for t td
    using that unfolding found_inv_def by blast
  then show ?thesis unfolding s(3) by force
qed

lemma sorted_all_factors: "sorted (get_all_factors n)"
proof (cases "n = 0")
  case True
  have "get_all_factors 0 = [0]" by code_simp
  then show ?thesis using True by simp
next
  case False
  then show ?thesis using sorted_get_all_factors [of n] strict_sorted_imp_sorted by blast
qed

lemma py_index_drop: "py_index xs x = Inr i \<Longrightarrow> \<exists>ys. drop i xs = x # ys"
  by (induction xs arbitrary: i) (auto simp: rbind_Inr_iff split: if_splits)

lemma base_steps_start:
  assumes "base_steps dims init = Inr bs"
  shows "list_all2 (\<lambda>t step. \<exists>ys. step = t # ys \<and> sorted step) init bs"
proof -
  have len: "length dims = length init" using assms by (auto simp: base_steps_def split: if_splits)
  have "list_all2 (\<lambda>(n, t) step. \<exists>i. py_index (get_all_factors n) t = Inr i \<and> drop i (get_all_factors n) = step)
      (zip dims init) bs"
    using assms by (auto simp: base_steps_def rmap_Inr_iff rbind_Inr_iff split: if_splits
      elim!: list_all2_mono)
  then have nth: "length (zip dims init) = length bs"
    "\<And>k. k < length (zip dims init) \<Longrightarrow> case zip dims init ! k of (n, t) \<Rightarrow>
       \<exists>i. py_index (get_all_factors n) t = Inr i \<and> drop i (get_all_factors n) = bs ! k"
    by (simp_all add: list_all2_conv_all_nth)
  have "\<exists>ys. bs ! k = init ! k # ys \<and> sorted (bs ! k)" if k: "k < length init" for k
  proof -
    obtain i where i: "py_index (get_all_factors (dims ! k)) (init ! k) = Inr i"
      "drop i (get_all_factors (dims ! k)) = bs ! k" using nth(2) [of k] len k by auto
    then show ?thesis using py_index_drop [OF i(1)] sorted_wrt_drop [OF sorted_all_factors] by metis
  qed
  then show ?thesis using nth(1) len by (simp add: list_all2_conv_all_nth)
qed

lemma add_steps_set:
  assumes "step = t # ys" and "sorted step"
  shows "t \<in> set (add_steps b sizes step)" and "x \<in> set (add_steps b sizes step) \<Longrightarrow> t \<le> x"
  using assms unfolding add_steps_def set_sort by auto

lemma tile_in_add_steps:
  assumes "list_all2 (\<lambda>t step. \<exists>ys. step = t # ys \<and> sorted step) init bs"
  shows "tile_in (map (add_steps b sizes) bs) init"
    and "tile_in (map (add_steps b sizes) bs) tile \<Longrightarrow> list_all2 (\<le>) init tile"
  using assms
proof -
  show "tile_in (map (add_steps b sizes) bs) init"
    using assms unfolding tile_in_def list_all2_map2
    by (rule list_all2_mono) (metis add_steps_set(1))
  show "list_all2 (\<le>) init tile" if "tile_in (map (add_steps b sizes) bs) tile"
  proof -
    have "list_all2 (\<lambda>t step. t \<in> set (add_steps b sizes step)) tile bs"
      using that by (simp add: tile_in_def list_all2_map2)
    then have "list_all2 (\<lambda>step t. t \<in> set (add_steps b sizes step)) bs tile"
      by (simp add: list_all2_conv_all_nth)
    from list_all2_trans [OF _ assms this, of "(\<le>)"] add_steps_set(2) show ?thesis by blast
  qed
qed

lemma ascend_tile_dict_valid:
  assumes "ascend_compute_tile_dict p ts cap cores rm t = Inr td" and "td_valid td"
  shows "td_smem_cost td \<le> of_nat cap \<and> td_output_tile td = t \<and> td_grid_size td \<le> td_num_wave td * int cores"
proof -
  have "int g \<le> int (cdiv g cores) * int cores" if "0 < cores" for g
    using cdiv_mult_ge [OF that, of g] by (simp flip: of_nat_mult)
  then show ?thesis
    using assms by (auto simp: ascend_compute_tile_dict_def rbind_Inr_iff Let_def tile_dict_init_def split: if_splits)
qed

section \<open>Properties\<close>

text \<open>
  C24: the search ends and explores in full. Whenever the dictionary of every tile over the
  steps is defined, the search returns. It returns, sorted by priority, exactly the valid
  dictionaries of a set of tiles that holds the initial tile, stays within the steps, and,
  unless more than 2000 tiles were visited, holds with each valid tile all tiles one step
  larger.
\<close>

theorem search_tiles_explores:
  assumes "\<And>t. tile_in steps t \<Longrightarrow> \<exists>td. compute t = Inr td" and "tile_in steps init"
  shows "\<exists>tds V. search_tiles compute pr steps init = Inr tds \<and> sorted (map pr tds) \<and>
    set tds = {td. \<exists>t \<in> V. compute t = Inr td \<and> td_valid td} \<and>
    init \<in> V \<and> V \<subseteq> {t. tile_in steps t} \<and> finite V \<and> card V \<le> 2000 + length steps \<and>
    (2000 < card V \<or>
       (\<forall>t \<in> V. \<forall>td. compute t = Inr td \<and> td_valid td \<longrightarrow> set (next_tiles steps t) \<subseteq> V))"
proof -
  let ?s = "\<lparr>sr_visited = [], sr_queue = []\<rparr>"
  have "search_inv compute pr steps {} ?s" by (simp add: search_inv_def)
  with add_to_queue_inv [of compute pr steps "{}" ?s init] assms obtain s0 where
    s0: "add_to_queue compute pr init ?s = Inr s0" "search_inv compute pr steps {} s0"
      "fst ` set (sr_visited s0) = {init}" "length (sr_visited s0) \<le> 1" by fastforce
  then have "length (sr_visited s0) \<le> 2000 + length steps" by linarith
  from search_loop_ok [OF assms(1) s0(2) this] obtain s where
    s: "search_loop compute pr steps s0 = Inr s" "search_inv compute pr steps {} s"
      "fst ` set (sr_visited s0) \<subseteq> fst ` set (sr_visited s)"
      "sr_queue s = [] \<or> 2000 < length (sr_visited s)" "length (sr_visited s) \<le> 2000 + length steps" by auto
  let ?V = "fst ` set (sr_visited s)"
  let ?tds = "sort_key pr (filter td_valid (map snd (sr_visited s)))"
  have run: "search_tiles compute pr steps init = Inr ?tds" using s0(1) s(1) by (simp add: search_tiles_def)
  have vis: "compute t = Inr td" if "(t, td) \<in> set (sr_visited s)" for t td
    using s(2) that unfolding search_inv_def by blast
  have tds: "set ?tds = {td. \<exists>t \<in> ?V. compute t = Inr td \<and> td_valid td}"
  proof (intro set_eqI iffI)
    fix td assume "td \<in> set ?tds"
    then obtain t where "(t, td) \<in> set (sr_visited s)" "td_valid td" by auto
    with vis [OF this(1)] show "td \<in> {td. \<exists>t \<in> ?V. compute t = Inr td \<and> td_valid td}" by force
  next
    fix td assume "td \<in> {td. \<exists>t \<in> ?V. compute t = Inr td \<and> td_valid td}"
    then obtain t td' where "(t, td') \<in> set (sr_visited s)" "compute t = Inr td" "td_valid td" by auto
    with vis [OF this(1)] show "td \<in> set ?tds" by force
  qed
  have card: "card ?V = length (sr_visited s)"
    using s(2) distinct_card [of "map fst (sr_visited s)"] unfolding search_inv_def by simp
  have closed: "set (next_tiles steps t) \<subseteq> ?V"
    if "\<not> 2000 < card ?V" "t \<in> ?V" "compute t = Inr td \<and> td_valid td" for t td
    using s(2,4) that unfolding search_inv_def card by force
  show ?thesis
  proof (intro exI [of _ ?tds] exI [of _ ?V] conjI run tds)
    show "sorted (map pr ?tds)" "finite ?V" by simp_all
    show "init \<in> ?V" using s(3) s0(3) by auto
    show "?V \<subseteq> {t. tile_in steps t}" using s(2) by (auto simp: search_inv_def)
    show "card ?V \<le> 2000 + length steps" using card s(5) by simp
    show "2000 < card ?V \<or> (\<forall>t \<in> ?V. \<forall>td. compute t = Inr td \<and> td_valid td \<longrightarrow> set (next_tiles steps t) \<subseteq> ?V)"
      using closed by blast
  qed
qed

definition demo_dict :: "nat list \<Rightarrow> tile_dict res" where
  "demo_dict t = Inr ((tile_dict_init t)\<lparr>td_traffic := 10, td_num_wave := 64 div int (prod_list t),
     td_valid := (prod_list t \<le> 16)\<rparr>)"

theorem search_tiles_explores_witness:
  "\<exists>tds V. search_tiles demo_dict prio [[1, 2, 4, 8], [1, 4, 16]] [1, 1] = Inr tds \<and> sorted (map prio tds) \<and>
    set tds = {td. \<exists>t \<in> V. demo_dict t = Inr td \<and> td_valid td} \<and> [1, 1] \<in> V \<and> card V \<le> 2002"
proof -
  have "tile_in [[1, 2, 4, 8], [1, 4, 16]] [1, 1]" by (simp add: tile_in_def)
  from search_tiles_explores [of "[[1, 2, 4, 8], [1, 4, 16]]" demo_dict, OF _ this, where pr = prio]
  show ?thesis by (auto simp: demo_dict_def)
qed

text \<open>
  C8: every tile the Ascend search offers fits the buffer. The dictionaries come in the order
  of the Ascend priority; each is the dictionary of a tile at least as large as the initial
  one on every axis, its memory cost is within the buffer capacity, and its waves over the
  cores cover its grid.
\<close>

theorem ascend_tiles_fit:
  assumes "ascend_dfs_smem_tile p ap init rstep_map = Inr (nl, tds)"
  shows "sorted (map ascend_prio tds) \<and>
    (\<forall>td \<in> set tds. td_valid td \<and> td_smem_cost td \<le> of_nat (ap_buffer_cap ap) \<and>
       list_all2 (\<le>) init (td_output_tile td) \<and>
       td_grid_size td \<le> td_num_wave td * int (ap_num_ai_cores ap))"
proof -
  let ?compute = "ascend_compute_tile_dict p (ap_transaction_size ap) (ap_buffer_cap ap) (ap_num_ai_cores ap) rstep_map"
  obtain n0 bs where bs: "base_steps (an_space_dim (p_an p) n0) init = Inr bs"
    and run: "search_tiles ?compute ascend_prio
      (map (add_steps (\<lambda>m. m * 2) [16, 32, 64, 128, 256, 512]) bs) init = Inr tds"
    using assms by (auto simp: ascend_dfs_smem_tile_def rbind_Inr_iff)
  note start = tile_in_add_steps [OF base_steps_start [OF bs]]
  have "td_smem_cost td \<le> of_nat (ap_buffer_cap ap) \<and> list_all2 (\<le>) init (td_output_tile td) \<and>
      td_grid_size td \<le> td_num_wave td * int (ap_num_ai_cores ap)"
    if t: "tile_in (map (add_steps (\<lambda>m. m * 2) [16, 32, 64, 128, 256, 512]) bs) t"
      and c: "?compute t = Inr td" and v: "td_valid td" for t td
    using ascend_tile_dict_valid [OF c v] start(2) [OF t] by simp
  then show ?thesis using search_tiles_found [OF run start(1)] by blast
qed

text \<open>Two chained operators over 4 by 4 elements, searched from tiles of 2 by 4.\<close>

definition chain_policy :: policy where
  "chain_policy = \<lparr>p_graph = map (\<lambda>n. n\<lparr>n_shapes := [Some [4, 4]]\<rparr>) chain,
     p_an = chain_analysis\<lparr>an_space_dim := \<lambda>_. [4, 4]\<rparr>, p_ordered = [1, 2], p_outputs = [2], p_mem_mul = 1\<rparr>"

definition chain_params :: ascend_params where
  "chain_params = \<lparr>ap_ub_capacity = 4096, ap_buffer_cap = 4096, ap_num_ai_cores = 30, ap_transaction_size = (32, 32)\<rparr>"

theorem ascend_tiles_fit_witness:
  "\<exists>nl tds. ascend_dfs_smem_tile chain_policy chain_params [2, 4] [(1, []), (2, [])] = Inr (nl, tds) \<and>
     length tds = 2 \<and> sorted (map ascend_prio tds) \<and> list_all (\<lambda>td. td_smem_cost td \<le> 4096) tds"
proof -
  have len: "(case ascend_dfs_smem_tile chain_policy chain_params [2, 4] [(1, []), (2, [])] of
      Inr (nl, tds) \<Rightarrow> length tds | Inl e \<Rightarrow> 0) = 2" by code_simp
  then obtain nl tds where r: "ascend_dfs_smem_tile chain_policy chain_params [2, 4] [(1, []), (2, [])] = Inr (nl, tds)"
    by (auto split: sum.splits)
  have "ap_buffer_cap chain_params = 4096" by (simp add: chain_params_def)
  with ascend_tiles_fit [OF r] r len show ?thesis by (auto simp: list_all_iff)
qed

end
