(* ===== verification/ReduceSteps.thy ===== *)
theory ReduceSteps
  imports TileSearch
begin

text \<open>
  How the policies choose the steps of the reduction axes, from \<^verbatim>\<open>carver/roller/policy/default.py\<close> and
  \<^verbatim>\<open>ascend.py\<close>: \<^verbatim>\<open>_assign_reduce_step\<close> climbs from steps of one to a local maximum of a score of the
  reads, and \<^verbatim>\<open>_expand_reduce_axis\<close> enlarges the steps of one node after the other as long as the
  schedule fits its buffer.

  The choice is kept as the position of each axis in its list of candidate steps (\<^verbatim>\<open>rstep_id\<close>), in the
  order of the node's axes. Scores are exact; the source computes them with floating point numbers.
\<close>

section \<open>Positions and steps\<close>

type_synonym rstep_id = "(string \<times> nat) list"

type_synonym all_steps = "(string \<times> nat list) list"

definition steps_at :: "all_steps \<Rightarrow> rstep_id \<Rightarrow> rsteps res" where
  "steps_at steps ids =
     rmap (\<lambda>(k, i). rbind (dict_get steps k) (\<lambda>l. rbind (nth_res l i) (\<lambda>v. Inr (k, v)))) ids"

definition bump :: "string \<Rightarrow> rstep_id \<Rightarrow> rstep_id" where
  "bump ax ids = map (\<lambda>(k, i). (k, if k = ax then i + 1 else i)) ids"

text \<open>Every axis that has a larger step, enlarged and scored.\<close>

definition bump_scores :: "(rsteps \<Rightarrow> rat res) \<Rightarrow> all_steps \<Rightarrow> rstep_id \<Rightarrow> (rstep_id \<times> rat) list res" where
  "bump_scores score steps ids =
     rbind (rmap (\<lambda>(ax, i). rbind (dict_get steps ax) (\<lambda>l.
         if i + 1 = length l then Inr []
         else rbind (rbind (steps_at steps (bump ax ids)) score) (\<lambda>s. Inr [(bump ax ids, s)]))) ids)
       (\<lambda>cs. Inr (concat cs))"

definition axis_idle :: "all_steps \<Rightarrow> string \<times> nat \<Rightarrow> nat" where
  "axis_idle steps ki = (case map_of steps (fst ki) of Some l \<Rightarrow> length l - snd ki | None \<Rightarrow> 0)"

definition idle :: "all_steps \<Rightarrow> rstep_id \<Rightarrow> nat" where
  "idle steps ids = sum_list (map (axis_idle steps) ids)"

lemma steps_at_in_range:
  assumes "steps_at steps ids = Inr rs" and "(k, i) \<in> set ids"
  shows "\<exists>l. map_of steps k = Some l \<and> i < length l"
proof -
  have "\<exists>y. (\<lambda>(k, i). rbind (dict_get steps k) (\<lambda>l. rbind (nth_res l i) (\<lambda>v. Inr (k, v)))) (k, i) = Inr y"
    using assms unfolding steps_at_def
    by (induction ids arbitrary: rs) (auto simp: rbind_Inr_iff)
  then show ?thesis by (auto simp: rbind_Inr_iff dict_get_def nth_res_def split: option.splits if_splits)
qed

lemma bump_idle:
  assumes "steps_at steps (bump ax ids) = Inr rs" and "ax \<in> fst ` set ids"
  shows "idle steps (bump ax ids) < idle steps ids"
proof -
  let ?w = "axis_idle steps"
  let ?b = "\<lambda>(k, i). (k, if k = ax then i + 1 else i :: nat)"
  have range: "\<exists>l. map_of steps ax = Some l \<and> i + 1 < length l" if "(ax, i) \<in> set ids" for i
  proof (rule steps_at_in_range [OF assms(1)])
    show "(ax, i + 1) \<in> set (bump ax ids)" using that by (force simp: bump_def)
  qed
  have le: "?w (?b x) \<le> ?w x" if "x \<in> set ids" for x
    using range that by (cases x) (auto simp: axis_idle_def split: option.splits)
  obtain i where i: "(ax, i) \<in> set ids" using assms(2) by auto
  then have less: "?w (?b (ax, i)) < ?w (ax, i)" using range [OF i] by (auto simp: axis_idle_def)
  obtain xs ys where ids: "ids = xs @ (ax, i) # ys" using i by (meson split_list)
  have "sum_list (map (?w \<circ> ?b) xs) \<le> sum_list (map ?w xs)" "sum_list (map (?w \<circ> ?b) ys) \<le> sum_list (map ?w ys)"
    using le ids by (auto intro!: sum_list_mono)
  then show ?thesis using less by (simp add: idle_def bump_def ids comp_def)
qed

lemma bump_scores_in:
  assumes "bump_scores score steps ids = Inr cs" and "(r, s) \<in> set cs"
  shows "\<exists>ax rs. ax \<in> fst ` set ids \<and> r = bump ax ids \<and> steps_at steps r = Inr rs \<and> score rs = Inr s"
proof -
  obtain css where css: "cs = concat css"
    "rmap (\<lambda>(ax, i). rbind (dict_get steps ax) (\<lambda>l.
         if i + 1 = length l then Inr []
         else rbind (rbind (steps_at steps (bump ax ids)) score) (\<lambda>s. Inr [(bump ax ids, s)]))) ids = Inr css"
    using assms(1) by (auto simp: bump_scores_def rbind_Inr_iff)
  obtain c where c: "c \<in> set css" "(r, s) \<in> set c" using assms(2) css(1) by auto
  obtain x where x: "x \<in> set ids" "(\<lambda>(ax, i). rbind (dict_get steps ax) (\<lambda>l.
         if i + 1 = length l then Inr []
         else rbind (rbind (steps_at steps (bump ax ids)) score) (\<lambda>s. Inr [(bump ax ids, s)]))) x = Inr c"
    using rmap_Inr_set [OF css(2) c(1)] by blast
  obtain ax i where xi: "x = (ax, i)" by (cases x)
  have "c = [] \<or> (\<exists>rs s'. steps_at steps (bump ax ids) = Inr rs \<and> score rs = Inr s' \<and> c = [(bump ax ids, s')])"
    using x(2) xi by (auto simp: rbind_Inr_iff split: if_splits)
  then obtain rs where "steps_at steps (bump ax ids) = Inr rs" "score rs = Inr s" "r = bump ax ids" using c(2) by auto
  moreover have "ax \<in> fst ` set ids" using x(1) xi by force
  ultimately show ?thesis by blast
qed

section \<open>The reduction of a node\<close>

text \<open>
  What the node's analysis contributes: whether it reduces, its reduction axes with their extents,
  the shapes and element widths of its inputs, and how a tile and steps propagate to them.
\<close>

record reduce_view =
  rv_reduces :: bool
  rv_raxis :: "(string \<times> nat) list"
  rv_ndim :: nat
  rv_inputs :: "(nat list \<times> nat) list"
  rv_propagate :: "nat list \<Rightarrow> rsteps \<Rightarrow> nat list list"

definition sim :: "nat \<Rightarrow> nat \<Rightarrow> rat res" where
  "sim a b = (if a * a + b * b = 0 then Inl ZeroDivisionError else Inr (of_nat (2 * a * b) / of_nat (a * a + b * b)))"

text \<open>The score of the default policy: how close every input's contiguous run is to one transaction.\<close>

definition read_score :: "nat \<Rightarrow> reduce_view \<Rightarrow> rsteps \<Rightarrow> rat res" where
  "read_score transaction rv rstep =
     (let shape = rv_propagate rv (replicate (rv_ndim rv) 1) rstep
      in rbind (rmap (\<lambda>(i, bshape, bits).
           rbind (div_res transaction ((bits + 7) div 8)) (\<lambda>elems.
           rbind (nth_res shape i) (\<lambda>s.
           rbind (coalesced_factor s bshape) (\<lambda>c. sim c elems)))) (enumerate 0 (rv_inputs rv)))
         (\<lambda>ss. Inr (sum_list ss)))"

text \<open>The score of the Ascend policy: the contiguous run, halved where the innermost extent is not aligned.\<close>

definition dma_score :: "nat \<Rightarrow> reduce_view \<Rightarrow> rsteps \<Rightarrow> rat res" where
  "dma_score alignment rv rstep =
     (let shape = rv_propagate rv (replicate (rv_ndim rv) 1) rstep
      in rbind (rmap (\<lambda>(i, bshape, bits).
           rbind (nth_res shape i) (\<lambda>s.
           let innermost = (if s = [] then 1 else last s)
           in if alignment = 0 then Inl ZeroDivisionError
              else rbind (coalesced_factor s bshape) (\<lambda>c.
                Inr ((if (innermost * ((bits + 7) div 8)) mod alignment = 0 then 1 else 1 / 2) * of_nat c))))
           (enumerate 0 (rv_inputs rv)))
         (\<lambda>ss. Inr (sum_list ss)))"

definition start_ids :: "reduce_view \<Rightarrow> rstep_id" where
  "start_ids rv = map (\<lambda>(k, _). (k, 0)) (rv_raxis rv)"

lemma climb_step:
  assumes "bump_scores score steps ids = Inr cs" and "\<not> snd (max_by snd (ids, s) cs) \<le> s"
  shows "idle steps (fst (max_by snd (ids, s) cs)) < idle steps ids"
proof -
  obtain r t where best: "max_by snd (ids, s) cs = (r, t)" by (cases "max_by snd (ids, s) cs")
  have "(r, t) \<in> insert (ids, s) (set cs)" using max_by_in [of snd "(ids, s)" cs] best by simp
  moreover have "(r, t) \<noteq> (ids, s)" using assms(2) best by auto
  ultimately have "(r, t) \<in> set cs" by blast
  from bump_scores_in [OF assms(1) this] show ?thesis unfolding best fst_conv using bump_idle by blast
qed

text \<open>
  The climb: among the present position and the enlarged ones the first with the best score is
  taken, until nothing is better. Scores are functions of the steps, so the score of the present
  position is the one the loop already has.
\<close>

function climb :: "(rsteps \<Rightarrow> rat res) \<Rightarrow> all_steps \<Rightarrow> rstep_id \<Rightarrow> rat \<Rightarrow> rstep_id res" where
  "climb score steps ids s =
     (if s = 0 then Inr ids
      else case bump_scores score steps ids of
        Inl e \<Rightarrow> Inl e
      | Inr cs \<Rightarrow>
          (let best = max_by snd (ids, s) cs
           in if snd best \<le> s then Inr ids else climb score steps (fst best) (snd best)))"
  by pat_completeness auto

termination
  by (relation "measure (\<lambda>(score, steps, ids, s). idle steps ids)") (use climb_step in \<open>auto simp: split_def\<close>)

declare climb.simps [simp del]

definition assign_reduce_step :: "nat \<Rightarrow> reduce_view \<Rightarrow> rsteps res" where
  "assign_reduce_step transaction rv =
     (if \<not> rv_reduces rv then Inr []
      else
        let steps = reduce_step_candidates (rv_raxis rv)
        in rbind (rbind (steps_at steps (start_ids rv)) (read_score transaction rv)) (\<lambda>s.
           rbind (climb (read_score transaction rv) steps (start_ids rv) s) (steps_at steps)))"

text \<open>
  The Ascend policy takes at most a hundred rounds and climbs from a score of zero, too. The
  candidates are an argument, since the cube policy overrides them.
\<close>

fun climb_rounds :: "nat \<Rightarrow> (rsteps \<Rightarrow> rat res) \<Rightarrow> all_steps \<Rightarrow> rstep_id \<Rightarrow> rat \<Rightarrow> rstep_id res" where
  "climb_rounds 0 score steps ids s = Inr ids"
| "climb_rounds (Suc n) score steps ids s =
     rbind (bump_scores score steps ids) (\<lambda>cs.
       let best = max_by snd (ids, s) cs
       in if snd best \<le> s then Inr ids else climb_rounds n score steps (fst best) (snd best))"

definition ascend_assign_reduce_step :: "nat \<Rightarrow> all_steps res \<Rightarrow> reduce_view \<Rightarrow> rsteps res" where
  "ascend_assign_reduce_step alignment candidates rv =
     (if \<not> rv_reduces rv \<or> rv_raxis rv = [] then Inr []
      else
        rbind candidates (\<lambda>steps.
        rbind (rbind (steps_at steps (start_ids rv)) (dma_score alignment rv)) (\<lambda>s.
        rbind (climb_rounds 100 (dma_score alignment rv) steps (start_ids rv) s) (steps_at steps))))"

section \<open>Expanding the steps\<close>

text \<open>
  The candidates that are multiples of the present step, and the position of the present step in them.
\<close>

definition multiples_of :: "rsteps \<Rightarrow> string \<times> nat list \<Rightarrow> (string \<times> nat list) res" where
  "multiples_of rstep kl =
     (if snd kl = [] then Inr kl
      else rbind (dict_get rstep (fst kl)) (\<lambda>r.
        if r = 0 then Inl ZeroDivisionError else Inr (fst kl, filter (\<lambda>x. x mod r = 0) (snd kl))))"

definition current_ids :: "reduce_view \<Rightarrow> all_steps \<Rightarrow> rsteps \<Rightarrow> rstep_id res" where
  "current_ids rv steps rstep =
     rmap (\<lambda>(k, _). rbind (dict_get steps k) (\<lambda>l. rbind (dict_get rstep k) (\<lambda>r.
       rbind (py_index l r) (\<lambda>i. Inr (k, i))))) (rv_raxis rv)"

definition run_score :: "reduce_view \<Rightarrow> nat list res \<Rightarrow> rsteps \<Rightarrow> rat res" where
  "run_score rv node_tile rstep =
     rbind node_tile (\<lambda>tile.
      let shape = rv_propagate rv tile rstep
      in rbind (rmap (\<lambda>(i, bshape, bits). rbind (nth_res shape i) (\<lambda>s.
           rbind (coalesced_factor s bshape) (\<lambda>c. Inr (of_nat c)))) (enumerate 0 (rv_inputs rv)))
         (\<lambda>ss. Inr (sum_list ss)))"

lemma grow_step:
  assumes "bump_scores score steps ids = Inr (c # cs)"
  shows "idle steps (fst (max_by snd c cs)) < idle steps ids"
proof -
  obtain r t where best: "max_by snd c cs = (r, t)" by (cases "max_by snd c cs")
  then have "(r, t) \<in> set (c # cs)" using max_by_in [of snd c cs] by simp
  from bump_scores_in [OF assms this] show ?thesis unfolding best fst_conv using bump_idle by blast
qed

text \<open>The loop enlarges the position with the best score until none is left or the schedule does not fit.\<close>

function grow :: "(rsteps \<Rightarrow> rat res) \<Rightarrow> (rsteps \<Rightarrow> bool res) \<Rightarrow> all_steps \<Rightarrow> rstep_id \<Rightarrow> rstep_id res" where
  "grow score fits steps ids =
     (case bump_scores score steps ids of
        Inl e \<Rightarrow> Inl e
      | Inr [] \<Rightarrow> Inr ids
      | Inr (c # cs) \<Rightarrow>
          (let new = fst (max_by snd c cs)
           in case rbind (steps_at steps new) fits of
                Inl e \<Rightarrow> Inl e
              | Inr ok \<Rightarrow> if ok then grow score fits steps new else Inr ids))"
  by pat_completeness auto

termination
  by (relation "measure (\<lambda>(score, fits, steps, ids). idle steps ids)") (auto simp: grow_step)

declare grow.simps [simp del]

text \<open>
  Expanding one node. The lenient flag is the Ascend policy's: it returns the present steps when an
  axis has no candidate left, and takes a node without steps as one with an empty dictionary.
\<close>

definition steps_fit :: "policy \<Rightarrow> tile_dict \<Rightarrow> rat \<Rightarrow> (nat \<times> rsteps) list \<Rightarrow> nat \<Rightarrow> rsteps \<Rightarrow> bool res" where
  "steps_fit p td limit m n rs =
     rbind (compute_shared_memory_usage (p_mem_mul p) (p_graph p) (p_an p) (p_ordered p)
              (td\<lparr>td_rstep_map := AList.update n rs m\<rparr>)) (\<lambda>(usage, _). Inr (usage \<le> limit))"

definition optimize_node ::
  "bool \<Rightarrow> all_steps res \<Rightarrow> (rsteps \<Rightarrow> rat res) \<Rightarrow> (rsteps \<Rightarrow> bool res) \<Rightarrow> reduce_view \<Rightarrow> rsteps \<Rightarrow> rsteps res" where
  "optimize_node lenient candidates score fits rv rstep =
     rbind candidates (\<lambda>cands.
     rbind (rmap (multiples_of rstep) cands) (\<lambda>steps.
       if lenient \<and> list_ex (\<lambda>(_, l). l = []) steps then Inr rstep
       else rbind (current_ids rv steps rstep) (\<lambda>ids. rbind (grow score fits steps ids) (steps_at steps))))"

definition expand_node ::
  "bool \<Rightarrow> policy \<Rightarrow> (nat \<Rightarrow> reduce_view) \<Rightarrow> tile_dict \<Rightarrow> rat \<Rightarrow> nat \<Rightarrow> (nat \<times> rsteps) list \<Rightarrow> (nat \<times> rsteps) list res" where
  "expand_node lenient p views td limit n m =
     (if rv_raxis (views n) = [] then Inr m
      else
        rbind (if lenient then Inr (case map_of m n of Some r \<Rightarrow> r | None \<Rightarrow> []) else dict_get m n) (\<lambda>rstep.
        rbind (optimize_node lenient (Inr (reduce_step_candidates (rv_raxis (views n))))
                 (run_score (views n) (get_tile td n)) (steps_fit p td limit m n) (views n) rstep)
          (\<lambda>rs. Inr (AList.update n rs m))))"

definition expand_steps :: "bool \<Rightarrow> policy \<Rightarrow> (nat \<Rightarrow> reduce_view) \<Rightarrow> rat \<Rightarrow> tile_dict \<Rightarrow> tile_dict res" where
  "expand_steps lenient p views limit td =
     rbind (rfold (expand_node lenient p views td limit) (p_ordered p) (td_rstep_map td)) (\<lambda>m.
     let td1 = td\<lparr>td_rstep_map := m\<rparr>
     in rbind (compute_shared_memory_usage (p_mem_mul p) (p_graph p) (p_an p) (p_ordered p) td1) (\<lambda>(usage, cached).
          Inr (td1\<lparr>td_smem_cost := usage, td_cached_tensors_map := cached\<rparr>)))"

definition expand_reduce_axis :: "policy \<Rightarrow> (nat \<Rightarrow> reduce_view) \<Rightarrow> int \<Rightarrow> int \<Rightarrow> tile_dict \<Rightarrow> tile_dict res" where
  "expand_reduce_axis p views max_smem_usage smem_cap td =
     (if td_block_per_SM td = 0 then Inl ZeroDivisionError
      else expand_steps False p views (of_int (min (max_smem_usage div td_block_per_SM td) smem_cap)) td)"

definition ascend_expand_reduce_axis :: "policy \<Rightarrow> (nat \<Rightarrow> reduce_view) \<Rightarrow> nat \<Rightarrow> tile_dict \<Rightarrow> tile_dict res" where
  "ascend_expand_reduce_axis p views ub_capacity td = expand_steps True p views (of_nat ub_capacity) td"

section \<open>What the expansion keeps\<close>

lemma py_index_nth: "py_index l x = Inr i \<Longrightarrow> i < length l \<and> l ! i = x"
  by (induction l x arbitrary: i rule: py_index.induct) (auto simp: rbind_Inr_iff split: if_splits)

lemma dict_get_Inr [simp]: "dict_get m k = Inr v \<longleftrightarrow> map_of m k = Some v"
  by (simp add: dict_get_def split: option.splits)

lemma nth_res_Inr [simp]: "nth_res xs i = Inr v \<longleftrightarrow> i < length xs \<and> v = xs ! i"
  by (auto simp: nth_res_def)

lemma steps_at_iff:
  "steps_at steps ids = Inr rs \<longleftrightarrow>
     list_all2 (\<lambda>(k, i) (k', v). k' = k \<and> (\<exists>l. map_of steps k = Some l \<and> i < length l \<and> v = l ! i)) ids rs"
  unfolding steps_at_def rmap_Inr_iff
  by (rule arg_cong [where f = "\<lambda>P. list_all2 P ids rs"]) (auto simp: fun_eq_iff rbind_Inr_iff)

lemma steps_at_keys: "steps_at steps ids = Inr rs \<Longrightarrow> map fst rs = map fst ids"
  unfolding steps_at_iff by (induction ids rs rule: list_all2_induct) auto

lemma current_ids_steps_at:
  assumes c: "current_ids rv steps rstep = Inr ids"
    and keys: "map fst rstep = map fst (rv_raxis rv)" "distinct (map fst rstep)"
  shows "steps_at steps ids = Inr rstep"
proof -
  have len: "length rstep = length (rv_raxis rv)" "length ids = length (rv_raxis rv)"
    using keys(1) c by (auto simp: current_ids_def dest: map_eq_imp_length_eq rmap_Inr_length)
  show ?thesis unfolding steps_at_iff
  proof (rule list_all2_all_nthI)
    show "length ids = length rstep" using len by simp
    fix j assume "j < length ids"
    then have j: "j < length (rv_raxis rv)" "j < length rstep" using len by simp_all
    obtain k e where ke: "rv_raxis rv ! j = (k, e)" by (cases "rv_raxis rv ! j")
    obtain r where r: "rstep ! j = (k, r)"
      using keys(1) j ke by (metis fst_conv nth_map prod.exhaust_sel)
    then have "map_of rstep k = Some r" using keys(2) j by (metis map_of_eq_Some_iff nth_mem)
    then have "\<exists>l i. map_of steps k = Some l \<and> py_index l r = Inr i \<and> ids ! j = (k, i)"
      using c j ke unfolding current_ids_def rmap_Inr_iff list_all2_conv_all_nth by (fastforce simp: rbind_Inr_iff)
    then show "(case ids ! j of (k, i) \<Rightarrow>
        \<lambda>(k', v). k' = k \<and> (\<exists>l. map_of steps k = Some l \<and> i < length l \<and> v = l ! i)) (rstep ! j)"
      using r py_index_nth by fastforce
  qed
qed

lemma bump_keys [simp]: "map fst (bump ax ids) = map fst ids"
  by (simp add: bump_def comp_def split_def)

lemma grow_keeps:
  "grow score fits steps ids = Inr ids' \<Longrightarrow>
     map fst ids' = map fst ids \<and> (ids' = ids \<or> rbind (steps_at steps ids') fits = Inr True)"
proof (induction score fits steps ids rule: grow.induct)
  case (1 score fits steps ids)
  show ?case
  proof (cases "bump_scores score steps ids")
    case (Inl e) then show ?thesis using "1.prems" by (simp add: grow.simps [of score fits steps ids])
  next
    case cs: (Inr cs)
    show ?thesis
    proof (cases cs)
      case Nil then show ?thesis using "1.prems" cs by (simp add: grow.simps [of score fits steps ids])
    next
      case (Cons c cs')
      let ?new = "fst (max_by snd c cs')"
      have "max_by snd c cs' \<in> set cs" using max_by_in [of snd c cs'] Cons by simp
      then obtain ax where new: "?new = bump ax ids"
        using bump_scores_in [OF cs, of ?new "snd (max_by snd c cs')"] by auto
      show ?thesis
      proof (cases "rbind (steps_at steps ?new) fits")
        case (Inl e)
        then show ?thesis using "1.prems" cs Cons by (simp add: grow.simps [of score fits steps ids] Let_def)
      next
        case ok: (Inr ok)
        show ?thesis
        proof (cases ok)
          case True
          then have "grow score fits steps ?new = Inr ids'"
            using "1.prems" cs Cons ok by (simp add: grow.simps [of score fits steps ids] Let_def)
          then have "map fst ids' = map fst ?new \<and> (ids' = ?new \<or> rbind (steps_at steps ids') fits = Inr True)"
            using "1.IH" [OF cs Cons refl ok] True by simp
          then show ?thesis using ok True new by auto
        next
          case False
          then show ?thesis using "1.prems" cs Cons ok by (simp add: grow.simps [of score fits steps ids] Let_def)
        qed
      qed
    qed
  qed
qed

text \<open>Steps of the same axes, each a multiple of the former step.\<close>

definition coarser :: "rsteps \<Rightarrow> rsteps \<Rightarrow> bool" where
  "coarser rs rs' \<longleftrightarrow> list_all2 (\<lambda>(k, r) (k', r'). k' = k \<and> r dvd r') rs rs'"

lemma coarser_refl [simp]: "coarser rs rs"
  by (auto simp: coarser_def list.rel_refl_strong split_def)

lemma coarser_trans: "coarser a b \<Longrightarrow> coarser b c \<Longrightarrow> coarser a c"
  unfolding coarser_def by (rule list_all2_trans [of _ _ _ a b c]) (auto intro: dvd_trans)

lemma coarser_keys: "coarser rs rs' \<Longrightarrow> map fst rs' = map fst rs"
  unfolding coarser_def by (induction rs rs' rule: list_all2_induct) auto

lemma multiples_dvd:
  assumes "rmap (multiples_of rstep) cands = Inr steps" and "map_of steps k = Some l" and "x \<in> set l"
  shows "\<exists>r. map_of rstep k = Some r \<and> r dvd x"
proof -
  have "(k, l) \<in> set steps" using assms(2) by (rule map_of_SomeD)
  then obtain kl where "multiples_of rstep kl = Inr (k, l)" using rmap_Inr_set [OF assms(1)] by blast
  then show ?thesis using assms(3)
    by (auto simp: multiples_of_def rbind_Inr_iff split: if_splits)
qed

lemma optimize_node_keeps:
  assumes o: "optimize_node lenient candidates score fits rv rstep = Inr rs"
    and keys: "map fst rstep = map fst (rv_raxis rv)" "distinct (map fst rstep)"
  shows "coarser rstep rs" and "rs = rstep \<or> fits rs = Inr True"
proof -
  obtain cands steps where cands: "candidates = Inr cands" and steps: "rmap (multiples_of rstep) cands = Inr steps"
    using o by (auto simp: optimize_node_def rbind_Inr_iff)
  have "coarser rstep rs \<and> (rs = rstep \<or> fits rs = Inr True)"
  proof (cases "lenient \<and> list_ex (\<lambda>(_, l). l = []) steps")
    case True
    then have "rs = rstep" using o cands steps by (simp add: optimize_node_def)
    then show ?thesis by simp
  next
    case False
    then obtain ids ids' where ids: "current_ids rv steps rstep = Inr ids"
      and g: "grow score fits steps ids = Inr ids'" and rs: "steps_at steps ids' = Inr rs"
      using o cands steps by (auto simp: optimize_node_def rbind_Inr_iff)
    have at: "steps_at steps ids = Inr rstep" by (rule current_ids_steps_at [OF ids keys])
    note kept = grow_keeps [OF g]
    have "coarser rstep rs"
      unfolding coarser_def
    proof (rule list_all2_all_nthI)
      have fst_at: "map fst rs = map fst ids'" "map fst rstep = map fst ids"
        using rs at by (simp_all add: steps_at_keys)
      then have same: "map fst rs = map fst rstep" using kept by simp
      then show "length rstep = length rs" by (metis length_map)
      fix j assume j: "j < length rstep"
      obtain k r where r: "rstep ! j = (k, r)" by (cases "rstep ! j")
      obtain v where v: "rs ! j = (k, v)" using same j r by (metis fst_conv length_map nth_map prod.exhaust_sel)
      have "j < length rs" "j < length ids'" using same fst_at j by (metis length_map)+
      then obtain l where "map_of steps k = Some l" "v \<in> set l"
        using rs v unfolding steps_at_iff list_all2_conv_all_nth by (fastforce simp: split_def)
      then obtain r' where "map_of rstep k = Some r'" "r' dvd v" using multiples_dvd [OF steps] by blast
      moreover have "map_of rstep k = Some r" using keys(2) j r by (metis map_of_eq_Some_iff nth_mem)
      ultimately show "(case rstep ! j of (k, r) \<Rightarrow> \<lambda>(k', r'). k' = k \<and> r dvd r') (rs ! j)" using r v by simp
    qed
    moreover have "rs = rstep \<or> fits rs = Inr True" using kept rs at by auto
    ultimately show ?thesis by blast
  qed
  then show "coarser rstep rs" "rs = rstep \<or> fits rs = Inr True" by blast+
qed

text \<open>The dictionary of steps during the loop over the nodes.\<close>

definition usage_fits :: "policy \<Rightarrow> tile_dict \<Rightarrow> rat \<Rightarrow> (nat \<times> rsteps) list \<Rightarrow> bool" where
  "usage_fits p td limit m \<longleftrightarrow>
     (case compute_shared_memory_usage (p_mem_mul p) (p_graph p) (p_an p) (p_ordered p) (td\<lparr>td_rstep_map := m\<rparr>) of
        Inl _ \<Rightarrow> False | Inr (usage, _) \<Rightarrow> usage \<le> limit)"

definition steps_wf :: "policy \<Rightarrow> (nat \<Rightarrow> reduce_view) \<Rightarrow> (nat \<times> rsteps) list \<Rightarrow> bool" where
  "steps_wf p views m \<longleftrightarrow>
     list_all (\<lambda>n. rv_raxis (views n) = [] \<or>
       (case map_of m n of None \<Rightarrow> False
        | Some rs \<Rightarrow> map fst rs = map fst (rv_raxis (views n)) \<and> distinct (map fst rs))) (p_ordered p)"

definition expand_inv ::
  "policy \<Rightarrow> tile_dict \<Rightarrow> rat \<Rightarrow> (nat \<times> rsteps) list \<Rightarrow> (nat \<times> rsteps) list \<Rightarrow> bool" where
  "expand_inv p td limit m0 m \<longleftrightarrow>
     (m = m0 \<or> usage_fits p td limit m) \<and>
     (\<forall>n rs. map_of m0 n = Some rs \<longrightarrow> (\<exists>rs'. map_of m n = Some rs' \<and> coarser rs rs'))"

lemma expand_node_inv:
  assumes wf: "steps_wf p views m0" and n: "n \<in> set (p_ordered p)" and inv: "expand_inv p td limit m0 m"
    and e: "expand_node lenient p views td limit n m = Inr m'"
  shows "expand_inv p td limit m0 m'"
proof (cases "rv_raxis (views n) = []")
  case True
  then show ?thesis using e inv by (simp add: expand_node_def)
next
  case False
  then obtain rs0 where rs0: "map_of m0 n = Some rs0" "map fst rs0 = map fst (rv_raxis (views n))" "distinct (map fst rs0)"
    using wf n by (auto simp: steps_wf_def list_all_iff split: option.splits)
  then obtain rs1 where rs1: "map_of m n = Some rs1" "coarser rs0 rs1" using inv by (auto simp: expand_inv_def)
  have keys: "map fst rs1 = map fst (rv_raxis (views n))" "distinct (map fst rs1)"
    using rs0 coarser_keys [OF rs1(2)] by simp_all
  obtain rs2 where rs2: "optimize_node lenient (Inr (reduce_step_candidates (rv_raxis (views n))))
      (run_score (views n) (get_tile td n)) (steps_fit p td limit m n) (views n) rs1 = Inr rs2"
    and m': "m' = AList.update n rs2 m"
    using e False rs1(1) by (auto simp: expand_node_def rbind_Inr_iff split: if_splits)
  note kept = optimize_node_keeps [OF rs2 keys]
  have "m' = m \<or> usage_fits p td limit m'"
    using kept(2)
  proof
    assume "rs2 = rs1" then show ?thesis using m' rs1(1) by (simp add: update_same)
  next
    assume "steps_fit p td limit m n rs2 = Inr True"
    then show ?thesis using m' by (auto simp: steps_fit_def usage_fits_def rbind_Inr_iff)
  qed
  moreover have "\<exists>rs'. map_of m' k = Some rs' \<and> coarser rs rs'" if "map_of m0 k = Some rs" for k rs
  proof (cases "k = n")
    case True
    then show ?thesis using that rs0(1) rs1(2) kept(1) m' by (auto simp: update_conv' intro: coarser_trans)
  next
    case False
    then show ?thesis using that inv m' by (simp add: expand_inv_def update_conv')
  qed
  ultimately show ?thesis using inv by (auto simp: expand_inv_def)
qed

section \<open>The climb ends at a local maximum\<close>

lemma climb_best:
  assumes "rbind (steps_at steps ids) score = Inr s" and "climb score steps ids s = Inr ids'"
  shows "\<exists>s'. rbind (steps_at steps ids') score = Inr s' \<and> s \<le> s' \<and> map fst ids' = map fst ids \<and>
    (s' = 0 \<or> (\<exists>cs. bump_scores score steps ids' = Inr cs \<and> (\<forall>c \<in> set cs. snd c \<le> s')))"
  using assms
proof (induction score steps ids s rule: climb.induct)
  case (1 score steps ids s)
  note unf = climb.simps [of score steps ids s]
  show ?case
  proof (cases "s = 0")
    case True
    then have "ids' = ids" using "1.prems"(2) unfolding unf by simp
    then show ?thesis using "1.prems"(1) True by blast
  next
    case False
    then obtain cs where cs: "bump_scores score steps ids = Inr cs" using "1.prems"(2) by (auto simp: unf split: sum.splits)
    obtain r t where best: "max_by snd (ids, s) cs = (r, t)" by (cases "max_by snd (ids, s) cs")
    have ge: "snd c \<le> t" if "c \<in> insert (ids, s) (set cs)" for c using max_by_ge [OF that, of snd] best by simp
    show ?thesis
    proof (cases "t \<le> s")
      case True
      then have "ids' = ids" using "1.prems"(2) False cs best by (simp add: unf Let_def)
      moreover have "\<forall>c \<in> set cs. snd c \<le> s" using ge True by force
      ultimately show ?thesis using "1.prems"(1) cs by blast
    next
      case less: False
      then have "(r, t) \<in> set cs" using max_by_in [of snd "(ids, s)" cs] best by auto
      from bump_scores_in [OF cs this] have r: "rbind (steps_at steps r) score = Inr t" "map fst r = map fst ids" by auto
      have "climb score steps r t = Inr ids'" using "1.prems"(2) False cs best less by (simp add: unf Let_def)
      with "1.IH" [OF False cs best [symmetric]] less r
      have "\<exists>s'. rbind (steps_at steps ids') score = Inr s' \<and> t \<le> s' \<and> map fst ids' = map fst r \<and>
        (s' = 0 \<or> (\<exists>cs. bump_scores score steps ids' = Inr cs \<and> (\<forall>c \<in> set cs. snd c \<le> s')))" by simp
      then show ?thesis using less r(2) by (metis linear order.trans)
    qed
  qed
qed

lemma bump_scores_complete:
  assumes cs: "bump_scores score steps ids = Inr cs" and ax: "(ax, i) \<in> set ids"
    and ok: "rbind (steps_at steps (bump ax ids)) score = Inr s"
  shows "(bump ax ids, s) \<in> set cs"
proof -
  let ?f = "\<lambda>(ax, i). rbind (dict_get steps ax) (\<lambda>l.
         if i + 1 = length l then Inr []
         else rbind (rbind (steps_at steps (bump ax ids)) score) (\<lambda>s. Inr [(bump ax ids, s)]))"
  obtain css where css: "cs = concat css" "rmap ?f ids = Inr css"
    using cs by (auto simp: bump_scores_def rbind_Inr_iff)
  obtain rs where rs: "steps_at steps (bump ax ids) = Inr rs" using ok by (auto simp: rbind_Inr_iff)
  have "(ax, i + 1) \<in> set (bump ax ids)" using ax by (force simp: bump_def)
  then obtain l where "map_of steps ax = Some l" "i + 1 < length l" using steps_at_in_range [OF rs] by blast
  then have "?f (ax, i) = Inr [(bump ax ids, s)]" using ok by (simp add: dict_get_def)
  moreover obtain c where "c \<in> set css" "?f (ax, i) = Inr c"
    using rmap_Inr_elem [OF css(2) ax] by blast
  ultimately have "[(bump ax ids, s)] \<in> set css" by simp
  then show ?thesis unfolding css(1) by force
qed

section \<open>Properties\<close>

text \<open>
  C25: expanding the reduction steps, by the default policy with its share of the shared memory and by
  the Ascend policy with the unified buffer, either changes no step or leaves a schedule whose
  memory is within the limit; every new step is a multiple of the former one; and the recorded
  memory is that of the new steps.
\<close>

theorem expand_steps_safe:
  assumes run: "expand_steps lenient p views limit td = Inr td'" and wf: "steps_wf p views (td_rstep_map td)"
  shows "(td_rstep_map td' = td_rstep_map td \<or> td_smem_cost td' \<le> limit) \<and>
    (\<forall>n rs. map_of (td_rstep_map td) n = Some rs \<longrightarrow>
       (\<exists>rs'. map_of (td_rstep_map td') n = Some rs' \<and> coarser rs rs')) \<and>
    compute_shared_memory_usage (p_mem_mul p) (p_graph p) (p_an p) (p_ordered p) (td\<lparr>td_rstep_map := td_rstep_map td'\<rparr>) =
      Inr (td_smem_cost td', td_cached_tensors_map td') \<and>
    td_tile_map td' = td_tile_map td"
proof -
  obtain m usage cached where m: "rfold (expand_node lenient p views td limit) (p_ordered p) (td_rstep_map td) = Inr m"
    and u: "compute_shared_memory_usage (p_mem_mul p) (p_graph p) (p_an p) (p_ordered p) (td\<lparr>td_rstep_map := m\<rparr>) = Inr (usage, cached)"
    and td': "td' = td\<lparr>td_rstep_map := m, td_smem_cost := usage, td_cached_tensors_map := cached\<rparr>"
    using run by (auto simp: expand_steps_def rbind_Inr_iff Let_def)
  have "expand_inv p td limit (td_rstep_map td) m"
    using m
  proof (rule rfold_invariant)
    show "expand_inv p td limit (td_rstep_map td) (td_rstep_map td)" by (auto simp: expand_inv_def)
  qed (rule expand_node_inv [OF wf])
  then show ?thesis using u by (auto simp: expand_inv_def usage_fits_def td')
qed


text \<open>A node that reduces an axis of eight elements, in the chain of two nodes.\<close>

definition demo_reduce :: "nat \<Rightarrow> reduce_view" where
  "demo_reduce n = \<lparr>rv_reduces = True, rv_raxis = (if n = 1 then [(''k'', 8)] else []), rv_ndim = 2,
     rv_inputs = [([4, 8], 16)],
     rv_propagate = (\<lambda>tile rs. [[hd tile, (case map_of rs ''k'' of Some v \<Rightarrow> v | None \<Rightarrow> 1)]])\<rparr>"

definition demo_reduce_td :: tile_dict where
  "demo_reduce_td = chain_td\<lparr>td_tile_map := [(1, [2, 4]), (2, [2, 4])], td_rstep_map := [(1, [(''k'', 2)]), (2, [])]\<rparr>"

theorem expand_steps_safe_witness:
  "\<exists>td'. expand_steps True chain_policy demo_reduce 4096 demo_reduce_td = Inr td' \<and>
     td_smem_cost td' \<le> 4096 \<and> map_of (td_rstep_map td') 1 = Some [(''k'', 8)] \<and> coarser [(''k'', 2)] [(''k'', 8)]"
proof -
  let ?r = "expand_steps True chain_policy demo_reduce 4096 demo_reduce_td"
  have new: "(case ?r of Inr td' \<Rightarrow> td_rstep_map td' = [(1, [(''k'', 8)]), (2, [])] | Inl e \<Rightarrow> False)" by code_simp
  then obtain td' where td': "?r = Inr td'" "td_rstep_map td' = [(1, [(''k'', 8)]), (2, [])]" by (auto split: sum.splits)
  have wf: "steps_wf chain_policy demo_reduce (td_rstep_map demo_reduce_td)" by code_simp
  have old: "td_rstep_map demo_reduce_td = [(1, [(''k'', 2)]), (2, [])]" by (simp add: demo_reduce_td_def)
  note safe = expand_steps_safe [OF td'(1) wf]
  have "td_smem_cost td' \<le> 4096" using safe td'(2) old by simp
  moreover have "map_of (td_rstep_map demo_reduce_td) 1 = Some [(''k'', 2)]" by (simp add: old)
  then have "\<exists>rs'. map_of (td_rstep_map td') 1 = Some rs' \<and> coarser [(''k'', 2)] rs'" using safe by blast
  then have "coarser [(''k'', 2)] [(''k'', 8)]" by (simp add: td'(2))
  ultimately show ?thesis using td' by simp
qed

text \<open>
  C27: the steps the default policy assigns to a node are candidates of its axes, read no worse than
  steps of one, and are a local maximum: no single axis can be enlarged with a better score, unless
  the score is zero, where the climb stops at once.
\<close>

theorem assign_reduce_step_local_maximum:
  assumes run: "assign_reduce_step transaction rv = Inr rs" and red: "rv_reduces rv"
  defines "steps \<equiv> reduce_step_candidates (rv_raxis rv)"
  shows "\<exists>ids s s0. steps_at steps ids = Inr rs \<and> map fst ids = map fst (rv_raxis rv) \<and>
    read_score transaction rv rs = Inr s \<and> rbind (steps_at steps (start_ids rv)) (read_score transaction rv) = Inr s0 \<and>
    s0 \<le> s \<and>
    (s = 0 \<or> (\<forall>ax i rs' s'. (ax, i) \<in> set ids \<and> steps_at steps (bump ax ids) = Inr rs' \<and>
       read_score transaction rv rs' = Inr s' \<longrightarrow> s' \<le> s))"
proof -
  let ?score = "read_score transaction rv"
  obtain s0 ids where s0: "rbind (steps_at steps (start_ids rv)) ?score = Inr s0"
    and c: "climb ?score steps (start_ids rv) s0 = Inr ids" and rs: "steps_at steps ids = Inr rs"
    using run red unfolding assign_reduce_step_def Let_def steps_def [symmetric] by (auto simp: rbind_Inr_iff)
  obtain s where s: "rbind (steps_at steps ids) ?score = Inr s" "s0 \<le> s" "map fst ids = map fst (start_ids rv)"
    "s = 0 \<or> (\<exists>cs. bump_scores ?score steps ids = Inr cs \<and> (\<forall>c \<in> set cs. snd c \<le> s))"
    using climb_best [OF s0 c] by blast
  have best: "s' \<le> s" if "s \<noteq> 0" "(ax, i) \<in> set ids" "steps_at steps (bump ax ids) = Inr rs'" "?score rs' = Inr s'" for ax i rs' s'
  proof -
    have "\<exists>cs. bump_scores ?score steps ids = Inr cs \<and> (\<forall>c \<in> set cs. snd c \<le> s)" using s(4) that(1) by blast
    then obtain cs where cs: "bump_scores ?score steps ids = Inr cs" "\<forall>c \<in> set cs. snd c \<le> s" by blast
    have "(bump ax ids, s') \<in> set cs" using bump_scores_complete [OF cs(1) that(2)] that(3,4) by simp
    then show ?thesis using cs(2) by force
  qed
  have "map fst ids = map fst (rv_raxis rv)" using s(3) by (simp add: start_ids_def comp_def split_def)
  moreover have "?score rs = Inr s" using s(1) rs by simp
  ultimately show ?thesis using rs s0 s(2) best by blast
qed

theorem assign_reduce_step_local_maximum_witness:
  "\<exists>s. read_score 32 (demo_reduce 1) [(''k'', 8)] = Inr s \<and> 32 / 257 \<le> s"
proof -
  have r: "assign_reduce_step 32 (demo_reduce 1) = Inr [(''k'', 8)]" by code_simp
  have red: "rv_reduces (demo_reduce 1)" by (simp add: demo_reduce_def)
  have s0: "rbind (steps_at (reduce_step_candidates (rv_raxis (demo_reduce 1))) (start_ids (demo_reduce 1)))
      (read_score 32 (demo_reduce 1)) = Inr (32 / 257)" by code_simp
  show ?thesis using assign_reduce_step_local_maximum [OF r red] s0 by auto
qed

end
