(* ===== verification/AscendPolicy.thy ===== *)
theory AscendPolicy
  imports ReduceSteps
begin

text \<open>
  The Ascend architecture of \<^verbatim>\<open>utils/npu_arch.py\<close> and what the Ascend policies of
  \<^verbatim>\<open>carver/roller/policy/ascend.py\<close> add to the default policy beside their tile search: vector
  widths, configurations without threads, and for matrix products the L0 buffers of the cube unit
  that a tile must fit.

  What the driver reports about a device is an argument. The analysis of a node (shapes of its
  reduction inputs, element widths, axes, tags) is a record, as in the other policy theories.
\<close>

section \<open>Chips\<close>

record chip_spec =
  ch_cores :: nat
  ch_UB :: nat
  ch_L1 :: nat
  ch_L0A :: nat
  ch_L0B :: nat
  ch_L0C :: nat
  ch_L2 :: nat
  ch_cube :: "nat list"

definition chip_specs :: "(string \<times> chip_spec) list" where
  "chip_specs =
     [(''Ascend910A'', \<lparr>ch_cores = 32, ch_UB = 256 * 1024, ch_L1 = 1024 * 1024, ch_L0A = 64 * 1024, ch_L0B = 64 * 1024,
         ch_L0C = 256 * 1024, ch_L2 = 16 * 1024 * 1024, ch_cube = [16, 16, 16]\<rparr>),
      (''Ascend910B'', \<lparr>ch_cores = 30, ch_UB = 192 * 1024, ch_L1 = 1024 * 1024, ch_L0A = 64 * 1024, ch_L0B = 64 * 1024,
         ch_L0C = 512 * 1024, ch_L2 = 16 * 1024 * 1024, ch_cube = [16, 16, 16]\<rparr>),
      (''Ascend950'', \<lparr>ch_cores = 24, ch_UB = 248 * 1024, ch_L1 = 512 * 1024, ch_L0A = 64 * 1024, ch_L0B = 64 * 1024,
         ch_L0C = 256 * 1024, ch_L2 = 112 * 1024 * 1024, ch_cube = [16, 16, 16]\<rparr>)]"

definition default_chip :: string where
  "default_chip = ''Ascend910B''"

record ascend_arch =
  ar_chip :: string
  ar_cube_cores :: nat
  ar_vector_cores :: nat
  ar_ub :: nat
  ar_l1 :: nat
  ar_l0a :: nat
  ar_l0b :: nat
  ar_l0c :: nat
  ar_l2 :: nat
  ar_cube :: "nat list"

definition chip_of :: "string \<Rightarrow> string" where
  "chip_of name = (if name \<in> set (map fst chip_specs) then name else default_chip)"

text \<open>The driver reports the numbers of cube and vector cores, or nothing.\<close>

definition ascend_arch_init :: "(nat \<times> nat) option \<Rightarrow> string \<Rightarrow> ascend_arch" where
  "ascend_arch_init driver name =
     (let chip = chip_of name;
          spec = (case map_of chip_specs chip of Some s \<Rightarrow> s | None \<Rightarrow> snd (hd chip_specs));
          cores = (case driver of Some c \<Rightarrow> c | None \<Rightarrow> (ch_cores spec, ch_cores spec))
      in \<lparr>ar_chip = chip, ar_cube_cores = fst cores, ar_vector_cores = snd cores, ar_ub = ch_UB spec, ar_l1 = ch_L1 spec,
          ar_l0a = ch_L0A spec, ar_l0b = ch_L0B spec, ar_l0c = ch_L0C spec, ar_l2 = ch_L2 spec, ar_cube = ch_cube spec\<rparr>)"

definition strip_name :: "string \<Rightarrow> string" where
  "strip_name s =
     (let ws = (\<lambda>c. c \<in> set [CHR 0x20, CHR 0x09, CHR 0x0A, CHR 0x0B, CHR 0x0C, CHR 0x0D])
      in rev (dropWhile ws (rev (dropWhile ws s))))"

definition get_ascend_device_name :: "string option \<Rightarrow> string option \<Rightarrow> string" where
  "get_ascend_device_name env_var runtime =
     (case env_var of
        Some n \<Rightarrow> if n \<noteq> [] then strip_name n else (case runtime of Some r \<Rightarrow> r | None \<Rightarrow> default_chip)
      | None \<Rightarrow> (case runtime of Some r \<Rightarrow> r | None \<Rightarrow> default_chip))"

datatype arch_class = Arch910B | Arch910_95 | ArchBase

definition starts_with :: "string \<Rightarrow> string \<Rightarrow> bool" where
  "starts_with p s \<longleftrightarrow> take (length p) s = p"

definition get_arch_obj :: "(nat \<times> nat) option \<Rightarrow> string \<Rightarrow> arch_class \<times> ascend_arch" where
  "get_arch_obj driver name =
     (if starts_with ''Ascend910B'' name then Arch910B
      else if starts_with ''Ascend910_95'' name then Arch910_95 else ArchBase,
      ascend_arch_init driver name)"

definition is_cube_supported_precision :: "string \<Rightarrow> string \<Rightarrow> ascend_arch \<Rightarrow> bool" where
  "is_cube_supported_precision in_dtype accum_dtype a \<longleftrightarrow>
     ar_chip a \<in> {''Ascend910A'', ''Ascend910B'', ''Ascend310P''} \<and>
     in_dtype \<in> {''float16'', ''bfloat16''} \<and> accum_dtype \<in> {''float16'', ''bfloat16'', ''float32''}"

section \<open>Buffers of the cube unit\<close>

definition l0_alignment :: "string \<Rightarrow> nat" where
  "l0_alignment buffer_type = (if buffer_type = ''a'' then 512 else if buffer_type = ''b'' then 512 else 64)"

definition align_to_l0 :: "nat \<Rightarrow> string \<Rightarrow> nat" where
  "align_to_l0 sz buffer_type =
     (let alignment = l0_alignment buffer_type in (sz + alignment - 1) div alignment * alignment)"

definition check_l0_usage :: "ascend_arch \<Rightarrow> nat \<Rightarrow> nat \<Rightarrow> nat \<Rightarrow> nat \<Rightarrow> bool" where
  "check_l0_usage a a_size b_size c_size pipeline_stage \<longleftrightarrow>
     a_size * pipeline_stage \<le> ar_l0a a \<and> b_size * pipeline_stage \<le> ar_l0b a \<and> c_size \<le> ar_l0c a"

definition total_l0_capacity :: "ascend_arch \<Rightarrow> nat" where
  "total_l0_capacity a = ar_l0a a + ar_l0b a + ar_l0c a"

section \<open>Configurations without threads\<close>

text \<open>
  What the analysis says of a node: its space, reduction axes with their extents, the shapes of the
  inputs of its reduction by name, the element widths of these and of the buffers the reduction
  block reads and writes, the axes of a matrix product, and the tags.
\<close>

record cube_view =
  cv_raxis :: "(string \<times> nat) list"
  cv_space :: "nat list"
  cv_reduction_inputs :: "nat list \<Rightarrow> rsteps \<Rightarrow> (string \<times> nat list) list"
  cv_dtypes :: "string \<rightharpoonup> nat"
  cv_in_bits :: "nat list"
  cv_out_bits :: "nat list"
  cv_axes :: "nat \<times> nat \<times> nat \<times> nat \<times> nat \<times> nat"
  cv_config :: "(nat \<times> nat) option"
  cv_intrin :: "intrin_info option"
  cv_opt_shapes :: "(string \<times> nat) list"

definition simd_vector_ok :: "nat list \<Rightarrow> nat \<Rightarrow> nat \<Rightarrow> bool" where
  "simd_vector_ok shape bits v \<longleftrightarrow>
     prod_list shape mod v = 0 \<and>
     ((bits + 7) div 8 * v mod 32 = 0 \<or> 32 mod ((bits + 7) div 8 * v) = 0) \<and> bits * v \<le> 32"

definition plan_vectorize_simd :: "(string \<times> nat list) list \<Rightarrow> (string \<rightharpoonup> nat) \<Rightarrow> (string \<times> nat) list res" where
  "plan_vectorize_simd shapes dtypes =
     rmap (\<lambda>(tensor, shape).
       case dtypes tensor of
         None \<Rightarrow> Inl KeyError
       | Some bits \<Rightarrow>
           Inr (tensor, case find (simd_vector_ok shape bits) [16, 8, 4, 2, 1] of Some v \<Rightarrow> v | None \<Rightarrow> 1)) shapes"

definition ascend_assign_block_size :: "cube_view \<Rightarrow> nat \<Rightarrow> tile_dict \<Rightarrow> hint res" where
  "ascend_assign_block_size cv n td =
     rbind (get_tile td n) (\<lambda>tile.
     rbind (get_rstep td n) (\<lambda>rsteps.
     rbind (lookup_all rsteps (map fst (cv_raxis cv))) (\<lambda>rstep.
     rbind (plan_vectorize_simd (cv_reduction_inputs cv tile rsteps) (cv_dtypes cv)) (\<lambda>vec.
       Inr (hint_init\<lparr>h_block := tile, h_thread := map (\<lambda>_. 1) tile, h_rstep := rstep,
              h_reduce_thread := map (\<lambda>_. 1) (cv_raxis cv),
              h_cached_tensors := (case map_of (td_cached_tensors_map td) n of Some c \<Rightarrow> c | None \<Rightarrow> []),
              h_vectorize := vec, h_opt_shapes := cv_opt_shapes cv\<rparr>)))))"

definition ascend_check_tile :: "policy \<Rightarrow> nat \<Rightarrow> tile_dict \<Rightarrow> bool res" where
  "ascend_check_tile p buffer_cap td =
     (if of_nat buffer_cap < td_smem_cost td then Inr False
      else rfold (\<lambda>n ok. if \<not> ok then Inr False else rbind (get_tile td n) (\<lambda>tile. Inr (0 \<notin> set tile)))
             (p_ordered p) True)"

section \<open>The cube policy\<close>

definition cube_strides :: "cube_view \<Rightarrow> nat list \<Rightarrow> rsteps \<Rightarrow> (stride \<times> stride \<times> stride) res" where
  "cube_strides cv tile rstep =
     (case cv_reduction_inputs cv tile rstep of
        [(_, a), (_, b)] \<Rightarrow>
          (case cv_axes cv of (a_m, a_k, b_k, b_n, c_m, c_n) \<Rightarrow>
             let high = (\<lambda>shape i j. \<lparr>s_stride = int (prod_list (drop (min i j + 1) shape)) + 8, s_ax = int (min i j)\<rparr>)
             in Inr (high a a_m a_k, high b b_n b_k, high tile c_m c_n))
      | _ \<Rightarrow> Inl ValueError)"

definition cube_step_candidates :: "nat \<Rightarrow> cube_view \<Rightarrow> all_steps res" where
  "cube_step_candidates cube_k cv =
     (if cv_config cv = None then Inr (reduce_step_candidates (cv_raxis cv))
      else rmap (\<lambda>(name, extent). rbind (div_res extent cube_k) (\<lambda>q.
        Inr (name, map (\<lambda>x. x * cube_k) (get_all_factors q)))) (cv_raxis cv))"

text \<open>
  The reduction steps of a matrix product; an axis that is a multiple of the cube depth but not of
  the basic step hands the whole choice to the other policy.
\<close>

fun cube_steps :: "nat \<Rightarrow> nat \<Rightarrow> (string \<times> nat) list \<Rightarrow> rsteps option res" where
  "cube_steps cube_k basic [] = Inr (Some [])"
| "cube_steps cube_k basic ((name, extent) # axes) =
     (if cube_k = 0 then Inl ZeroDivisionError
      else if 0 < extent mod cube_k
      then rbind (cube_steps cube_k basic axes) (\<lambda>r.
             Inr (map_option (\<lambda>rs. (name, if extent < basic then cube_k else basic) # rs) r))
      else if basic = 0 then Inl ZeroDivisionError
      else if extent mod basic = 0
      then rbind (cube_steps cube_k basic axes) (\<lambda>r. Inr (map_option (\<lambda>rs. (name, basic) # rs) r))
      else Inr None)"

definition cube_assign_reduce_step :: "nat \<Rightarrow> cube_view \<Rightarrow> reduce_view \<Rightarrow> rsteps res" where
  "cube_assign_reduce_step cube_k cv rv =
     (if cv_config cv = None then ascend_assign_reduce_step 32 (cube_step_candidates cube_k cv) rv
      else case cv_in_bits cv of
        [] \<Rightarrow> Inl IndexError
      | bits # _ \<Rightarrow>
          rbind (div_res (512 * 8) bits) (\<lambda>basic.
          rbind (cube_steps cube_k basic (cv_raxis cv)) (\<lambda>r.
            case r of Some rs \<Rightarrow> Inr rs | None \<Rightarrow> ascend_assign_reduce_step 32 (cube_step_candidates cube_k cv) rv)))"

text \<open>Whether the operands of a matrix product fit the three L0 buffers, each rounded up to its alignment.\<close>

definition check_node_l0_capacity :: "ascend_arch \<Rightarrow> nat \<Rightarrow> cube_view \<Rightarrow> nat \<Rightarrow> tile_dict \<Rightarrow> bool res" where
  "check_node_l0_capacity a stage cv n td =
     rbind (get_tile td n) (\<lambda>tile.
     rbind (get_rstep td n) (\<lambda>rstep.
       case cv_reduction_inputs cv tile rstep of
         (_, a_shape) # (_, b_shape) # _ \<Rightarrow>
           rbind (nth_res (cv_in_bits cv) 0) (\<lambda>a_bits.
             let b_bits = (case cv_in_bits cv of _ # b # _ \<Rightarrow> b | _ \<Rightarrow> a_bits);
                 c_bits = (case cv_out_bits cv of c # _ \<Rightarrow> c | [] \<Rightarrow> a_bits);
                 bytes = (\<lambda>shape bits. prod_list shape * ((bits + 7) div 8))
             in Inr (check_l0_usage a (align_to_l0 (bytes a_shape a_bits) ''a'')
                       (align_to_l0 (bytes b_shape b_bits) ''b'') (align_to_l0 (bytes tile c_bits) ''c'') stage))
       | _ \<Rightarrow> Inr True))"

definition tile_divides :: "nat list \<Rightarrow> nat list \<Rightarrow> bool res" where
  "tile_divides tile space =
     rbind (rmap (\<lambda>(x, y). if x = 0 then Inl ZeroDivisionError else Inr (y mod x)) (zip tile space)) (\<lambda>rems.
       if length tile \<noteq> length space then Inl ValueError else Inr (list_all (\<lambda>r. r = 0) rems))"

definition cube_node_ok :: "ascend_arch \<Rightarrow> cube_view \<Rightarrow> nat \<Rightarrow> tile_dict \<Rightarrow> bool res" where
  "cube_node_ok a cv n td =
     (case cv_config cv of
        None \<Rightarrow> Inr True
      | Some (ax_m, ax_n) \<Rightarrow>
          rbind (get_tile td n) (\<lambda>tile.
            if length tile \<le> ax_m \<or> length tile \<le> ax_n then Inr False
            else if tile ! ax_m < ar_cube a ! 0 \<or> tile ! ax_n < ar_cube a ! 1 then Inr False
            else tile_divides tile (cv_space cv)))"

fun all_ok :: "('a \<Rightarrow> bool res) \<Rightarrow> 'a list \<Rightarrow> bool res" where
  "all_ok f [] = Inr True"
| "all_ok f (x # xs) = rbind (f x) (\<lambda>ok. if ok then all_ok f xs else Inr False)"

definition cube_check_tile ::
  "policy \<Rightarrow> ascend_arch \<Rightarrow> nat \<Rightarrow> (nat \<Rightarrow> cube_view) \<Rightarrow> tile_dict \<Rightarrow> bool res" where
  "cube_check_tile p a stage views td =
     rbind (all_ok (\<lambda>n. cube_node_ok a (views n) n td) (p_ordered p)) (\<lambda>ok1.
       if \<not> ok1 then Inr False
       else rbind (all_ok (\<lambda>n. if cv_config (views n) = None then Inr True
                               else check_node_l0_capacity a stage (views n) n td) (p_ordered p)) (\<lambda>ok2.
         if \<not> ok2 then Inr False else ascend_check_tile p (ar_ub a) td))"

text \<open>The configuration of a matrix product; none when the tile is smaller than the cube.\<close>

definition cube_assign_block_size ::
  "ascend_arch \<Rightarrow> nat \<Rightarrow> nat option \<Rightarrow> cube_view \<Rightarrow> nat \<Rightarrow> tile_dict \<Rightarrow> hint option res" where
  "cube_assign_block_size a stage depth cv n td =
     (case cv_config cv of
        None \<Rightarrow> rbind (ascend_assign_block_size cv n td) (\<lambda>h. Inr (Some h))
      | Some (ax_m, ax_n) \<Rightarrow>
          rbind (get_tile td n) (\<lambda>tile.
          rbind (get_rstep td n) (\<lambda>rsteps.
            if length tile \<le> ax_m \<or> length tile \<le> ax_n then Inl IndexError
            else if tile ! ax_m < ar_cube a ! 0 \<or> tile ! ax_n < ar_cube a ! 1 then Inr None
            else
              rbind (lookup_all rsteps (map fst (cv_raxis cv))) (\<lambda>rstep.
                let h = hint_init\<lparr>h_block := tile,
                          h_warp := ((replicate (length tile) 1)[ax_m := ar_cube a ! 0])[ax_n := ar_cube a ! 1],
                          h_thread := map (\<lambda>_. 1) tile, h_use_tc := Some True, h_pipeline_stage := stage,
                          h_block_reduction_depth := depth, h_use_async := False, h_rstep := rstep,
                          h_reduce_thread := map (\<lambda>_. 1) (cv_raxis cv),
                          h_cached_tensors := (case map_of (td_cached_tensors_map td) n of Some c \<Rightarrow> c | None \<Rightarrow> []),
                          h_intrin_info := (case cv_intrin cv of Some i \<Rightarrow> i | None \<Rightarrow> h_intrin_info hint_init)\<rparr>
                in Inr (Some (tensorcore_legalization
                     ((complete_config h)\<lparr>h_vectorize := [], h_opt_shapes := cv_opt_shapes cv\<rparr>)))))))"

section \<open>Expanding the steps of a cube schedule\<close>

text \<open>Double buffering multiplies the footprint of every node.\<close>

definition staged :: "nat \<Rightarrow> policy \<Rightarrow> policy" where
  "staged stage p = p\<lparr>p_an := (p_an p)\<lparr>an_footprint := (\<lambda>n tile rs.
      (fst (an_footprint (p_an p) n tile rs) * stage, snd (an_footprint (p_an p) n tile rs)))\<rparr>\<rparr>"

definition has_small_tile :: "policy \<Rightarrow> tile_dict \<Rightarrow> bool res" where
  "has_small_tile p td =
     rbind (all_ok (\<lambda>n. rbind (get_tile td n) (\<lambda>tile. Inr (list_all (\<lambda>t. 32 < t) tile))) (p_ordered p)) (\<lambda>large. Inr (\<not> large))"

definition node_fits_l0 :: "policy \<Rightarrow> ascend_arch \<Rightarrow> tile_dict \<Rightarrow> nat \<Rightarrow> rsteps \<Rightarrow> bool res" where
  "node_fits_l0 p a td n rs =
     rbind (infer_node_smem_usage (p_an p) (td\<lparr>td_rstep_map := [(n, rs)]\<rparr>) n) (\<lambda>(v, _).
       Inr (v \<le> total_l0_capacity a))"

definition cube_expand_node ::
  "policy \<Rightarrow> ascend_arch \<Rightarrow> (nat \<Rightarrow> cube_view) \<Rightarrow> (nat \<Rightarrow> reduce_view) \<Rightarrow> tile_dict \<Rightarrow> nat \<Rightarrow>
     (nat \<times> rsteps) list \<Rightarrow> (nat \<times> rsteps) list res" where
  "cube_expand_node p a cviews views td n m =
     (if rv_raxis (views n) = [] then Inr m
      else
        rbind (optimize_node True (cube_step_candidates (ar_cube a ! 2) (cviews n)) (run_score (views n) (get_tile td n))
                 (node_fits_l0 p a td n) (views n) (case map_of m n of Some r \<Rightarrow> r | None \<Rightarrow> []))
          (\<lambda>rs. Inr (AList.update n rs m)))"

definition deepen :: "nat \<Rightarrow> (nat \<Rightarrow> reduce_view) \<Rightarrow> nat list \<Rightarrow> (nat \<times> rsteps) list \<Rightarrow> (nat \<times> rsteps) list" where
  "deepen depth views ordered m =
     fold (\<lambda>n m. if rv_raxis (views n) \<noteq> [] then
         (case map_of m n of Some rs \<Rightarrow> AList.update n (map (\<lambda>(k, v). (k, v * depth)) rs) m | None \<Rightarrow> m) else m) ordered m"

definition cube_expand_reduce_axis ::
  "policy \<Rightarrow> ascend_arch \<Rightarrow> nat \<Rightarrow> nat option \<Rightarrow> (nat \<Rightarrow> cube_view) \<Rightarrow> (nat \<Rightarrow> reduce_view) \<Rightarrow> tile_dict \<Rightarrow> tile_dict res" where
  "cube_expand_reduce_axis p0 a stage depth cviews views td =
     (let p = staged stage p0
      in rbind (has_small_tile p td) (\<lambda>small.
         rbind (if small then
             rbind (rfold (cube_expand_node p a cviews views td) (p_ordered p) (td_rstep_map td)) (\<lambda>m.
             let td1 = td\<lparr>td_rstep_map := m\<rparr>
             in rbind (compute_shared_memory_usage (p_mem_mul p) (p_graph p) (p_an p) (p_ordered p) td1) (\<lambda>(usage, cached).
                  Inr (td1\<lparr>td_smem_cost := usage, td_cached_tensors_map := cached\<rparr>)))
           else Inr td) (\<lambda>td1.
         Inr (case depth of
                None \<Rightarrow> td1
              | Some d \<Rightarrow> td1\<lparr>td_rstep_map := deepen d views (p_ordered p) (td_rstep_map td1)\<rparr>))))"

section \<open>Alignment and checks\<close>

lemma align_to_l0_cdiv: "align_to_l0 sz bt = cdiv sz (l0_alignment bt) * l0_alignment bt"
  by (simp add: align_to_l0_def cdiv_def Let_def)

lemma l0_alignment_pos [simp]: "0 < l0_alignment bt"
  by (simp add: l0_alignment_def)

lemma align_to_l0_ge: "sz \<le> align_to_l0 sz bt"
  by (simp add: align_to_l0_cdiv cdiv_mult_ge)

lemma align_to_l0_dvd: "l0_alignment bt dvd align_to_l0 sz bt"
  by (simp add: align_to_l0_cdiv)

lemma all_ok_True: "all_ok f xs = Inr True \<longleftrightarrow> (\<forall>x \<in> set xs. f x = Inr True)"
proof (induction xs)
  case (Cons x xs)
  then show ?case by (auto simp: rbind_Inr_iff split: if_splits)
qed simp

lemma tile_divides_True:
  assumes "tile_divides tile space = Inr True"
  shows "list_all2 (dvd) tile space"
proof -
  let ?f = "\<lambda>(x, y). if x = 0 then Inl ZeroDivisionError else Inr (y mod x :: nat)"
  obtain rems where rems: "rmap ?f (zip tile space) = Inr rems" "length tile = length space" "list_all (\<lambda>r. r = 0) rems"
    using assms by (auto simp: tile_divides_def rbind_Inr_iff split: if_splits)
  show ?thesis
  proof (rule list_all2_all_nthI)
    fix i assume i: "i < length tile"
    then have "(tile ! i, space ! i) \<in> set (zip tile space)" using rems(2) by (metis in_set_zip fst_conv snd_conv)
    then obtain r where "r \<in> set rems" "?f (tile ! i, space ! i) = Inr r" using rmap_Inr_elem [OF rems(1)] by blast
    then show "tile ! i dvd space ! i" using rems(3) by (auto simp: list_all_iff split: if_splits)
  qed (rule rems(2))
qed

lemma rfold_ok_True:
  assumes "rfold (\<lambda>x ok. if \<not> ok then Inr False else f x) xs ok = Inr True"
  shows "ok \<and> (\<forall>x \<in> set xs. f x = Inr True)"
  using assms
proof (induction xs arbitrary: ok)
  case (Cons x xs)
  then obtain ok' where ok': "(if \<not> ok then Inr False else f x) = Inr ok'"
      "rfold (\<lambda>x ok. if \<not> ok then Inr False else f x) xs ok' = Inr True"
    by (auto simp: rbind_Inr_iff)
  then show ?case using Cons.IH [OF ok'(2)] by (auto split: if_splits)
qed simp

section \<open>Properties\<close>

text \<open>
  C26: a schedule the cube policy accepts uses the hardware within its limits: the tile of every
  matrix product has its two axes, is at least one cube in both and divides the iteration space; its
  operands, double buffered, fit L0A and L0B and its result fits L0C; and the estimated memory of
  the schedule fits the unified buffer. The statement is for products with at least two reduction inputs;
  with fewer the check of L0 is skipped and the product accepted.
\<close>

theorem cube_tile_fits:
  assumes ok: "cube_check_tile p a stage views td = Inr True" and n: "n \<in> set (p_ordered p)"
    and cfg: "cv_config (views n) = Some (ax_m, ax_n)"
    and tile: "get_tile td n = Inr tile" and rs: "get_rstep td n = Inr rs"
    and ins: "cv_reduction_inputs (views n) tile rs = (x, sa) # (y, sb) # rest"
    and bits: "cv_in_bits (views n) = [ba, bb]" "cv_out_bits (views n) = [bc]"
  shows "ax_m < length tile \<and> ax_n < length tile \<and> ar_cube a ! 0 \<le> tile ! ax_m \<and> ar_cube a ! 1 \<le> tile ! ax_n \<and>
    list_all2 (dvd) tile (cv_space (views n)) \<and>
    prod_list sa * ((ba + 7) div 8) * stage \<le> ar_l0a a \<and> prod_list sb * ((bb + 7) div 8) * stage \<le> ar_l0b a \<and>
    prod_list tile * ((bc + 7) div 8) \<le> ar_l0c a \<and> td_smem_cost td \<le> of_nat (ar_ub a)"
proof -
  have nodes: "all_ok (\<lambda>n. cube_node_ok a (views n) n td) (p_ordered p) = Inr True"
    and l0: "all_ok (\<lambda>n. if cv_config (views n) = None then Inr True
        else check_node_l0_capacity a stage (views n) n td) (p_ordered p) = Inr True"
    and ub: "ascend_check_tile p (ar_ub a) td = Inr True"
    using ok by (auto simp: cube_check_tile_def rbind_Inr_iff split: if_splits)
  have node: "cube_node_ok a (views n) n td = Inr True" using nodes n unfolding all_ok_True by blast
  have "(if cv_config (views n) = None then Inr True else check_node_l0_capacity a stage (views n) n td) = Inr True"
    using l0 n unfolding all_ok_True by blast
  then have "check_node_l0_capacity a stage (views n) n td = Inr True" using cfg by simp
  then have fit: "align_to_l0 (prod_list sa * ((ba + 7) div 8)) ''a'' * stage \<le> ar_l0a a"
      "align_to_l0 (prod_list sb * ((bb + 7) div 8)) ''b'' * stage \<le> ar_l0b a"
      "align_to_l0 (prod_list tile * ((bc + 7) div 8)) ''c'' \<le> ar_l0c a"
    by (simp_all add: check_node_l0_capacity_def tile rs ins bits nth_res_def check_l0_usage_def Let_def)
  have "prod_list sa * ((ba + 7) div 8) * stage \<le> ar_l0a a" "prod_list sb * ((bb + 7) div 8) * stage \<le> ar_l0b a"
    using fit(1,2) align_to_l0_ge mult_le_mono1 order.trans by blast+
  moreover have "prod_list tile * ((bc + 7) div 8) \<le> ar_l0c a" using fit(3) align_to_l0_ge order.trans by blast
  moreover have "ax_m < length tile" "ax_n < length tile" "ar_cube a ! 0 \<le> tile ! ax_m" "ar_cube a ! 1 \<le> tile ! ax_n"
    "tile_divides tile (cv_space (views n)) = Inr True"
    using node by (auto simp: cube_node_ok_def cfg tile split: if_splits)
  moreover have "td_smem_cost td \<le> of_nat (ar_ub a)" using ub by (auto simp: ascend_check_tile_def split: if_splits)
  ultimately show ?thesis using tile_divides_True by blast
qed

text \<open>A product of 64 by 64 elements over 32, in half precision, as one node.\<close>

definition demo_cube :: cube_view where
  "demo_cube = \<lparr>cv_raxis = [(''k'', 32)], cv_space = [128, 128],
     cv_reduction_inputs = (\<lambda>tile rs. let k = (case map_of rs ''k'' of Some v \<Rightarrow> v | None \<Rightarrow> 1)
        in [(''A'', [tile ! 0, k]), (''B'', [k, tile ! 1])]),
     cv_dtypes = (\<lambda>_. Some 16), cv_in_bits = [16, 16], cv_out_bits = [32], cv_axes = (0, 1, 0, 1, 0, 1),
     cv_config = Some (0, 1), cv_intrin = None, cv_opt_shapes = []\<rparr>"

definition demo_cube_td :: tile_dict where
  "demo_cube_td = (tile_dict_init [64, 64])\<lparr>td_tile_map := [(1, [64, 64])], td_rstep_map := [(1, [(''k'', 32)])],
     td_smem_cost := 24576\<rparr>"

theorem cube_tile_fits_witness:
  "cube_check_tile (chain_policy\<lparr>p_ordered := [1]\<rparr>) (ascend_arch_init None ''Ascend910B'') 2 (\<lambda>_. demo_cube) demo_cube_td = Inr True \<and>
   prod_list [64, 32] * ((16 + 7) div 8) * 2 \<le> ar_l0a (ascend_arch_init None ''Ascend910B'') \<and>
   list_all2 (dvd) [64, 64] (cv_space demo_cube)"
proof -
  let ?a = "ascend_arch_init None ''Ascend910B''" and ?p = "chain_policy\<lparr>p_ordered := [1]\<rparr>"
  have ok: "cube_check_tile ?p ?a 2 (\<lambda>_. demo_cube) demo_cube_td = Inr True" by code_simp
  have n: "1 \<in> set (p_ordered ?p)" by simp
  have cfg: "cv_config demo_cube = Some (0, 1)" "cv_in_bits demo_cube = [16, 16]" "cv_out_bits demo_cube = [32]"
    by (simp_all add: demo_cube_def)
  have t: "get_tile demo_cube_td 1 = Inr [64, 64]" "get_rstep demo_cube_td 1 = Inr [(''k'', 32)]"
    by (simp_all add: get_tile_def get_rstep_def dict_get_def demo_cube_td_def)
  have ins: "cv_reduction_inputs demo_cube [64, 64] [(''k'', 32)] = (''A'', [64, 32]) # (''B'', [32, 64]) # []"
    by (simp add: demo_cube_def)
  show ?thesis using cube_tile_fits [OF ok n cfg(1) t ins cfg(2,3)] ok by blast
qed

text \<open>
  The expansion of a cube schedule: every node keeps its steps, or gets multiples of them with which
  it fits the L0 buffers.
\<close>

lemma cube_expand_node_inv:
  assumes wf: "steps_wf p views m0" and n: "n \<in> set (p_ordered p)"
    and inv: "\<And>k rs. map_of m0 k = Some rs \<Longrightarrow>
      \<exists>rs'. map_of m k = Some rs' \<and> coarser rs rs' \<and> (rs' = rs \<or> node_fits_l0 p a td k rs' = Inr True)"
    and e: "cube_expand_node p a cviews views td n m = Inr m'" and k: "map_of m0 k = Some rs"
  shows "\<exists>rs'. map_of m' k = Some rs' \<and> coarser rs rs' \<and> (rs' = rs \<or> node_fits_l0 p a td k rs' = Inr True)"
proof (cases "rv_raxis (views n) = []")
  case True
  then show ?thesis using e inv [OF k] by (simp add: cube_expand_node_def)
next
  case False
  then obtain rs0 where rs0: "map_of m0 n = Some rs0" "map fst rs0 = map fst (rv_raxis (views n))" "distinct (map fst rs0)"
    using wf n by (auto simp: steps_wf_def list_all_iff split: option.splits)
  obtain rs1 where rs1: "map_of m n = Some rs1" "coarser rs0 rs1" "rs1 = rs0 \<or> node_fits_l0 p a td n rs1 = Inr True"
    using inv [OF rs0(1)] by blast
  have keys: "map fst rs1 = map fst (rv_raxis (views n))" "distinct (map fst rs1)"
    using rs0 coarser_keys [OF rs1(2)] by simp_all
  obtain rs2 where rs2: "optimize_node True (cube_step_candidates (ar_cube a ! 2) (cviews n))
      (run_score (views n) (get_tile td n)) (node_fits_l0 p a td n) (views n) rs1 = Inr rs2"
    and m': "m' = AList.update n rs2 m"
    using e False rs1(1) by (auto simp: cube_expand_node_def rbind_Inr_iff)
  note kept = optimize_node_keeps [OF rs2 keys]
  have "coarser rs0 rs2" using rs1(2) kept(1) by (rule coarser_trans)
  moreover have "rs2 = rs0 \<or> node_fits_l0 p a td n rs2 = Inr True" using kept(2) rs1(3) by blast
  ultimately show ?thesis using k rs0(1) inv [OF k] m' by (cases "k = n") (simp_all add: update_conv')
qed

theorem cube_expand_safe:
  assumes run: "cube_expand_reduce_axis p0 a stage None cviews views td = Inr td'"
    and wf: "steps_wf (staged stage p0) views (td_rstep_map td)" and n: "map_of (td_rstep_map td) n = Some rs"
  shows "\<exists>rs'. map_of (td_rstep_map td') n = Some rs' \<and> coarser rs rs' \<and>
    (rs' = rs \<or> node_fits_l0 (staged stage p0) a td n rs' = Inr True)"
proof -
  let ?p = "staged stage p0"
  obtain small where small: "has_small_tile ?p td = Inr small"
    using run by (auto simp: cube_expand_reduce_axis_def Let_def rbind_Inr_iff)
  show ?thesis
  proof (cases small)
    case False
    then have "td' = td" using run small by (simp add: cube_expand_reduce_axis_def Let_def)
    then show ?thesis using n by simp
  next
    case True
    then have "\<exists>m. rfold (cube_expand_node ?p a cviews views td) (p_ordered ?p) (td_rstep_map td) = Inr m \<and> td_rstep_map td' = m"
      using run small by (auto simp: cube_expand_reduce_axis_def Let_def rbind_Inr_iff)
    then obtain m where m: "rfold (cube_expand_node ?p a cviews views td) (p_ordered ?p) (td_rstep_map td) = Inr m"
      "td_rstep_map td' = m" by blast
    let ?I = "\<lambda>m. \<forall>k rs. map_of (td_rstep_map td) k = Some rs \<longrightarrow>
      (\<exists>rs'. map_of m k = Some rs' \<and> coarser rs rs' \<and> (rs' = rs \<or> node_fits_l0 ?p a td k rs' = Inr True))"
    have "?I m"
      using m(1)
    proof (rule rfold_invariant)
      show "?I (td_rstep_map td)" by auto
      show "?I s'" if "x \<in> set (p_ordered ?p)" "?I s" "cube_expand_node ?p a cviews views td x s = Inr s'" for x s s'
        using cube_expand_node_inv [OF wf that(1) _ that(3)] that(2) by blast
    qed
    then show ?thesis using n m(2) by blast
  qed
qed

text \<open>
  The widths of vectors divide the tensor and stay within 32 bits: the policy compares bits with
  the 32 bytes of the buffer's alignment, so half precision gets two lanes and single precision one.
\<close>

theorem simd_widths:
  assumes "plan_vectorize_simd shapes dtypes = Inr vs" and "(tensor, v) \<in> set vs"
  shows "\<exists>shape bits. (tensor, shape) \<in> set shapes \<and> dtypes tensor = Some bits \<and> v dvd prod_list shape \<and>
    v \<in> {1, 2, 4, 8, 16} \<and> (v = 1 \<or> bits * v \<le> 32)"
proof -
  obtain shape where s: "(tensor, shape) \<in> set shapes"
    and v: "(case dtypes tensor of None \<Rightarrow> Inl KeyError | Some bits \<Rightarrow>
           Inr (tensor, case find (simd_vector_ok shape bits) [16, 8, 4, 2, 1] of Some v \<Rightarrow> v | None \<Rightarrow> 1)) = Inr (tensor, v)"
    using rmap_Inr_set [OF assms(1) [unfolded plan_vectorize_simd_def] assms(2)] by (auto split: option.splits)
  then obtain bits where b: "dtypes tensor = Some bits"
    "v = (case find (simd_vector_ok shape bits) [16, 8, 4, 2, 1] of Some v \<Rightarrow> v | None \<Rightarrow> 1)" by (auto split: option.splits)
  show ?thesis
  proof (cases "find (simd_vector_ok shape bits) [16, 8, 4, 2, 1]")
    case None then show ?thesis using s b by auto
  next
    case (Some w)
    then have "simd_vector_ok shape bits w" "w \<in> set [16, 8, 4, 2, 1]" by (auto split: if_splits)
    then show ?thesis using s b Some by (auto simp: simd_vector_ok_def)
  qed
qed

text \<open>Devices of the 910_95 series are not in the table and get the figures of the default chip.\<close>

theorem arch_910_95_is_default:
  assumes "starts_with ''Ascend910_95'' name"
  shows "get_arch_obj driver name = (Arch910_95, ascend_arch_init driver default_chip)"
proof -
  have "name ! 9 = CHR ''_''" using assms by (auto simp: starts_with_def dest!: arg_cong [where f = "\<lambda>s. s ! 9"])
  moreover have "length name > 11" using assms by (auto simp: starts_with_def dest!: arg_cong [where f = length])
  ultimately have "\<not> starts_with ''Ascend910B'' name" "name \<notin> set (map fst chip_specs)"
    by (auto simp: starts_with_def chip_specs_def dest!: arg_cong [where f = "\<lambda>s. s ! 9"])
  then show ?thesis using assms
    by (simp add: get_arch_obj_def ascend_arch_init_def chip_of_def default_chip_def chip_specs_def)
qed

end
