(* ===== verification/StageControl.thy ===== *)
theory StageControl
  imports Prelude "HOL-Library.AList"
begin

text \<open>
  The stage machine of the operator conductor, from \<^verbatim>\<open>.agents/tools/statectl.py\<close>: the state
  file of a task, the commands that change it, the timeline they write, and the aggregate
  state of a migration. A command that fails leaves the state file as it was and reports a
  code, so a command maps a state to a code or to the state it writes.

  Stages are the numbers 0 to 5 (the argument parser and \<^verbatim>\<open>init\<close> admit no others). The file
  system is a function from repository paths to digests; a path without a digest does not
  exist. The verdict of a stage's gate (the linters of \<^verbatim>\<open>gate_lint.py\<close>) is an argument.
  Timestamps are seconds, which \<^verbatim>\<open>now_iso\<close> formats and \<^verbatim>\<open>parse_ts\<close> reads back.
\<close>

section \<open>The state file\<close>

datatype phase = INIT | SCAFFOLD | DESIGN | REVIEW | DEVELOP | TUNING | INTEGRATE | DONE | FAILED

datatype stage_status = InProgress | Completed | Failed

datatype scenario = NewOp | Migration | Optimize

datatype migration_mode = Harness | Plain

datatype ctl_error =
    E_MISSING | E_EXISTS | E_SCENARIO | E_TERMINAL | E_NOT_IN_PLAN | E_CONCURRENT | E_ALREADY_STARTED
  | E_COMPLETED | E_RETRY_EXCEEDED | E_OUT_OF_ORDER | E_DUPLICATE_COMPLETE | E_NOT_STARTED | E_GATE
  | E_BAD_CODE | E_STAGE2_REVISION | E_COMPLETED_FAIL | E_VALUE | E_FUNC_UNKNOWN | E_PHASE_ORDER
  | E_PHASE_PRECOND

record perf_iteration =
  pi_count :: int
  pi_last_improvement :: rat
  pi_no_improvement :: int

record stage_state =
  project_name :: string
  operator_name :: string
  ss_scenario :: scenario
  ss_migration_mode :: "migration_mode option"
  stage_plan :: "nat list"
  ss_phase :: phase
  current_stage :: nat
  user_requirement :: "string option"
  design_md_path :: string
  review_md_path :: string
  kernel_py_path :: string
  kernel_opt_py_path :: string
  retry_count :: int
  max_retry :: int
  final_artifact :: "string option"
  status_of :: "nat \<Rightarrow> stage_status option"
  stage_retry_count :: "nat \<Rightarrow> nat"
  runtime_fail :: nat
  precision_fail :: nat
  ss_perf_iteration :: perf_iteration
  perf_tuning_requested :: "string option"
  env_check_passed :: bool
  failure_reason :: "string option"
  last_failure_reason :: "string option"
  artifact_hashes :: "(string \<times> string) list"
  perf_feedback :: "(string \<times> string) option"
  budget :: "(string \<times> rat option) list"

definition stage_phase :: "nat \<Rightarrow> phase" where
  "stage_phase n =
     (if n = 0 then SCAFFOLD else if n = 1 then DESIGN else if n = 2 then REVIEW
      else if n = 3 then DEVELOP else if n = 4 then TUNING else INTEGRATE)"

definition terminal :: "phase \<Rightarrow> bool" where
  "terminal ph \<longleftrightarrow> ph = DONE \<or> ph = FAILED"

definition stage_retry_limit :: "nat \<Rightarrow> nat option" where
  "stage_retry_limit n =
     (if n = 0 then Some 3 else if n = 1 then Some 3 else if n = 3 then Some 5
      else if n = 4 then Some 10 else if n = 5 then Some 2 else None)"

definition blocked_codes :: "string list" where
  "blocked_codes = [''BLOCKED_DESIGN'', ''BLOCKED_IMPL'', ''BLOCKED_ACCURACY'', ''BLOCKED_SCAFFOLD'',
     ''BLOCKED_INTEGRATION'', ''BLOCKED_ENVIRONMENT'', ''BLOCKED_SPEC'']"

definition blocked_by_stage :: "nat \<Rightarrow> string" where
  "blocked_by_stage n =
     (if n = 0 then ''BLOCKED_SCAFFOLD'' else if n = 1 then ''BLOCKED_DESIGN''
      else if n = 3 then ''BLOCKED_IMPL'' else ''BLOCKED_INTEGRATION'')"

definition stage_subagent :: "nat \<Rightarrow> string" where
  "stage_subagent n =
     (if n = 0 then ''tileops-scaffolder'' else if n = 1 then ''tilelang-op-designer''
      else if n = 2 then ''tilelang-design-reviewer'' else if n = 3 then ''tilelang-op-developer''
      else if n = 4 then ''tilelang-op-optimizer'' else ''tilelang-op-integrator'')"

section \<open>Artifacts\<close>

type_synonym files = "string \<Rightarrow> string option"

definition or_default :: "string \<Rightarrow> string \<Rightarrow> string" where
  "or_default s d = (if s = [] then d else s)"

datatype artifact = Design | Review | Kernel | KernelOpt | OptLog | PerfFeedback | PerfRecords

definition artifact_path :: "string \<Rightarrow> stage_state \<Rightarrow> artifact \<Rightarrow> string" where
  "artifact_path base s a =
     (let opn = or_default (operator_name s) ''op''
      in case a of
        Design \<Rightarrow> or_default (design_md_path s) (base @ ''/DESIGN.md'')
      | Review \<Rightarrow> or_default (review_md_path s) (base @ ''/REVIEW.md'')
      | Kernel \<Rightarrow> or_default (kernel_py_path s) (base @ ''/'' @ opn @ ''.py'')
      | KernelOpt \<Rightarrow> or_default (kernel_opt_py_path s) (base @ ''/perf_opt/'' @ opn @ ''.py'')
      | OptLog \<Rightarrow> base @ ''/perf_opt/opt_log.md''
      | PerfFeedback \<Rightarrow> base @ ''/perf_opt/perf_feedback.md''
      | PerfRecords \<Rightarrow> base @ ''/perf_opt/perf_records.jsonl'')"

definition stage_artifacts :: "nat \<Rightarrow> artifact list" where
  "stage_artifacts n =
     (if n = 1 then [Design] else if n = 2 then [Design, Review] else if n = 3 then [Kernel]
      else if n = 4 then [KernelOpt, PerfFeedback] else [])"

definition snapshot_stage_artifacts :: "files \<Rightarrow> string \<Rightarrow> nat \<Rightarrow> stage_state \<Rightarrow> stage_state" where
  "snapshot_stage_artifacts fs base n s =
     s\<lparr>artifact_hashes := fold (\<lambda>a hashes.
         case fs (artifact_path base s a) of
           Some digest \<Rightarrow> if digest = [] then hashes else AList.update (artifact_path base s a) digest hashes
         | None \<Rightarrow> hashes) (stage_artifacts n) (artifact_hashes s)\<rparr>"

definition choose_final_artifact :: "files \<Rightarrow> string \<Rightarrow> stage_state \<Rightarrow> string option" where
  "choose_final_artifact fs base s =
     (if (status_of s 4 = Some Completed \<or> ss_scenario s = Optimize) \<and> fs (artifact_path base s KernelOpt) \<noteq> None
      then Some (artifact_path base s KernelOpt)
      else if fs (artifact_path base s Kernel) \<noteq> None then Some (artifact_path base s Kernel) else None)"

section \<open>Creating a task\<close>

definition scenario_stage_plan :: "scenario \<Rightarrow> migration_mode option \<Rightarrow> ctl_error + nat list" where
  "scenario_stage_plan sc mode =
     (case sc of
        Optimize \<Rightarrow> if mode \<noteq> None then Inl E_SCENARIO else Inr [4]
      | Migration \<Rightarrow> if mode = None then Inl E_SCENARIO else Inr [1, 2, 3]
      | NewOp \<Rightarrow> if mode \<noteq> None then Inl E_SCENARIO else Inr [1, 2, 3])"

record init_args =
  ia_project :: string
  ia_op :: string
  ia_scenario :: scenario
  ia_mode :: "migration_mode option"
  ia_requirement :: "string option"
  ia_max_retry :: int
  ia_stage_plan :: "nat list option"
  ia_design_path :: string
  ia_kernel_path :: string

text \<open>An explicit plan replaces the one of the scenario, but a scenario that is refused stays refused.\<close>

definition cmd_init :: "string \<Rightarrow> init_args \<Rightarrow> stage_state option \<Rightarrow> ctl_error + stage_state" where
  "cmd_init base a old =
     (if old \<noteq> None then Inl E_EXISTS
      else case scenario_stage_plan (ia_scenario a) (ia_mode a) of
        Inl e \<Rightarrow> Inl e
      | Inr plan0 \<Rightarrow>
          let plan = (case ia_stage_plan a of None \<Rightarrow> plan0 | Some p \<Rightarrow> p)
          in if plan = [] \<or> list_ex (\<lambda>k. 5 < k) plan then Inl E_SCENARIO
             else Inr \<lparr>project_name = ia_project a, operator_name = ia_op a, ss_scenario = ia_scenario a,
               ss_migration_mode = ia_mode a, stage_plan = plan, ss_phase = stage_phase (hd plan),
               current_stage = hd plan, user_requirement = ia_requirement a,
               design_md_path = or_default (ia_design_path a) (base @ ''/DESIGN.md''),
               review_md_path = base @ ''/REVIEW.md'',
               kernel_py_path = or_default (ia_kernel_path a) (base @ ''/'' @ ia_op a @ ''.py''),
               kernel_opt_py_path = base @ ''/perf_opt/'' @ ia_op a @ ''.py'',
               retry_count = 0, max_retry = ia_max_retry a, final_artifact = None,
               status_of = (\<lambda>_. None), stage_retry_count = (\<lambda>_. 0), runtime_fail = 0, precision_fail = 0,
               ss_perf_iteration = \<lparr>pi_count = 0, pi_last_improvement = 0, pi_no_improvement = 0\<rparr>,
               perf_tuning_requested = None, env_check_passed = False, failure_reason = None,
               last_failure_reason = None, artifact_hashes = [], perf_feedback = None,
               budget = [(''max_wallclock_s'', None), (''max_subagent_dispatches'', None),
                 (''max_stage4_experiments'', None)]\<rparr>)"

section \<open>Starting a stage\<close>

definition others_running :: "stage_state \<Rightarrow> nat \<Rightarrow> nat list" where
  "others_running s n = filter (\<lambda>k. status_of s k = Some InProgress \<and> k \<noteq> n) [0..<6]"

definition plan_with_4 :: "nat list \<Rightarrow> nat list" where
  "plan_with_4 plan = sort (remdups (4 # plan))"

definition can_reopen :: "nat \<Rightarrow> bool \<Rightarrow> stage_state \<Rightarrow> bool" where
  "can_reopen n ext s \<longleftrightarrow>
     ext \<and> ss_phase s = DONE \<and> failure_reason s = None \<and> n = 4 \<and>
     ss_scenario s \<in> {NewOp, Migration} \<and> status_of s 3 = Some Completed \<and>
     perf_tuning_requested s \<in> {None, Some ''yes''}"

text \<open>The stages of the plan before \<open>n\<close> that are not completed.\<close>

definition missing_before :: "stage_state \<Rightarrow> nat \<Rightarrow> nat list" where
  "missing_before s n =
     filter (\<lambda>k. status_of s k \<noteq> Some Completed) (takeWhile (\<lambda>k. k \<noteq> n) (stage_plan s))"

definition revision_reentry :: "stage_state \<Rightarrow> nat \<Rightarrow> bool" where
  "revision_reentry s n \<longleftrightarrow>
     status_of s n = Some Completed \<and> n = 1 \<and> last_failure_reason s = Some ''design_revision'' \<and>
     retry_count s < max_retry s"

definition retries_used_up :: "stage_state \<Rightarrow> nat \<Rightarrow> bool" where
  "retries_used_up s n \<longleftrightarrow>
     (case stage_retry_limit n of None \<Rightarrow> False | Some l \<Rightarrow> l \<le> stage_retry_count s n)"

definition enter_stage :: "stage_state \<Rightarrow> nat \<Rightarrow> ctl_error + stage_state" where
  "enter_stage s n =
     (if others_running s n \<noteq> [] then Inl E_CONCURRENT
      else if status_of s n = Some InProgress then Inl E_ALREADY_STARTED
      else if status_of s n = Some Completed \<and> \<not> revision_reentry s n then Inl E_COMPLETED
      else if status_of s n = Some Failed \<and> retries_used_up s n then Inl E_RETRY_EXCEEDED
      else if status_of s n = None \<and> missing_before s n \<noteq> [] then Inl E_OUT_OF_ORDER
      else Inr (s\<lparr>last_failure_reason := (if revision_reentry s n then None else last_failure_reason s),
                  status_of := (status_of s)(n := Some InProgress),
                  ss_phase := stage_phase n, current_stage := n\<rparr>))"

definition cmd_start :: "nat \<Rightarrow> bool \<Rightarrow> stage_state \<Rightarrow> ctl_error + stage_state" where
  "cmd_start n ext s =
     (if terminal (ss_phase s) then
        if \<not> can_reopen n ext s then Inl E_TERMINAL
        else enter_stage (s\<lparr>stage_plan := plan_with_4 (stage_plan s), final_artifact := None\<rparr>) n
      else if n \<notin> set (stage_plan s) then
        if ext \<and> n = 4 then enter_stage (s\<lparr>stage_plan := plan_with_4 (stage_plan s)\<rparr>) n
        else Inl E_NOT_IN_PLAN
      else enter_stage s n)"

section \<open>Completing a stage\<close>

definition cmd_complete :: "files \<Rightarrow> string \<Rightarrow> bool \<Rightarrow> nat \<Rightarrow> stage_state \<Rightarrow> ctl_error + stage_state" where
  "cmd_complete fs base gate_passes n s =
     (if terminal (ss_phase s) then Inl E_TERMINAL
      else if status_of s n \<noteq> Some InProgress
        then Inl (if status_of s n = Some Completed then E_DUPLICATE_COMPLETE else E_NOT_STARTED)
      else if \<not> gate_passes then Inl E_GATE
      else
        let s1 = s\<lparr>status_of := (status_of s)(n := Some Completed)\<rparr>;
            s2 = (case find (\<lambda>k. status_of s1 k \<noteq> Some Completed) (stage_plan s1) of
                    None \<Rightarrow> s1\<lparr>ss_phase := DONE, final_artifact := choose_final_artifact fs base s1\<rparr>
                  | Some k \<Rightarrow> s1\<lparr>ss_phase := stage_phase k, current_stage := k\<rparr>)
        in Inr (snapshot_stage_artifacts fs base n s2))"

section \<open>Failing a stage\<close>

datatype fail_type = Runtime | Precision

text \<open>The revision of the design: everything after it starts afresh.\<close>

definition revise :: "nat \<Rightarrow> stage_state \<Rightarrow> stage_state" where
  "revise n s =
     s\<lparr>status_of := (\<lambda>k. if k \<in> set (stage_plan s) \<and> 1 < k then None
                        else if k = n then Some Failed else status_of s k),
       stage_retry_count := (\<lambda>k. if k \<in> set (stage_plan s) \<and> 1 < k then 0 else stage_retry_count s k),
       retry_count := retry_count s + 1,
       last_failure_reason := Some ''design_revision''\<rparr>"

definition count_failure :: "nat \<Rightarrow> fail_type \<Rightarrow> stage_state \<Rightarrow> stage_state" where
  "count_failure n ft s =
     s\<lparr>stage_retry_count := (stage_retry_count s)(n := stage_retry_count s n + 1),
       status_of := (status_of s)(n := Some Failed),
       runtime_fail := (if n = 3 \<and> ft = Runtime then runtime_fail s + 1 else runtime_fail s),
       precision_fail := (if n = 3 \<and> ft = Precision then precision_fail s + 1 else precision_fail s)\<rparr>"

definition cmd_fail ::
  "files \<Rightarrow> string \<Rightarrow> nat \<Rightarrow> string option \<Rightarrow> fail_type \<Rightarrow> string option \<Rightarrow> stage_state \<Rightarrow> ctl_error + stage_state" where
  "cmd_fail fs base n reason ft blocked s =
     (case (if blocked = Some [] then None else blocked) of
        Some code \<Rightarrow>
          if code \<notin> set blocked_codes then Inl E_BAD_CODE
          else Inr (s\<lparr>ss_phase := FAILED, failure_reason := Some code, last_failure_reason := Some code\<rparr>)
      | None \<Rightarrow>
          if terminal (ss_phase s) then Inl E_TERMINAL
          else if reason = Some ''design_revision'' then
            if status_of s n = None then Inl E_NOT_STARTED
            else
              let s1 = revise n s
              in Inr (if max_retry s1 \<le> retry_count s1
                      then s1\<lparr>ss_phase := FAILED, failure_reason := Some ''BLOCKED_DESIGN''\<rparr> else s1)
          else if n = 2 then Inl E_STAGE2_REVISION
          else if status_of s n = Some Completed then Inl E_COMPLETED_FAIL
          else if status_of s n = None then Inl E_NOT_STARTED
          else
            let s1 = count_failure n ft s
            in Inr (if retries_used_up s1 n
                    then if n = 4 then s1\<lparr>ss_phase := DONE, final_artifact := choose_final_artifact fs base s1\<rparr>
                         else s1\<lparr>ss_phase := FAILED,
                                 failure_reason := Some (if n = 3 then if ft = Precision then ''BLOCKED_ACCURACY''
                                                                    else ''BLOCKED_IMPL''
                                                         else blocked_by_stage n)\<rparr>
                    else s1))"

section \<open>Other commands on the state\<close>

definition cmd_snapshot :: "files \<Rightarrow> string \<Rightarrow> stage_state \<Rightarrow> stage_state" where
  "cmd_snapshot fs base s = fold (snapshot_stage_artifacts fs base) [1, 2, 3, 4] s"

datatype drift_issue = Artifact_Missing | Artifact_Changed

definition artifact_drift :: "files \<Rightarrow> stage_state \<Rightarrow> (string \<times> drift_issue) list" where
  "artifact_drift fs s =
     List.map_filter (\<lambda>(rel, digest).
       case fs rel of
         None \<Rightarrow> Some (rel, Artifact_Missing)
       | Some current \<Rightarrow> if current \<noteq> digest then Some (rel, Artifact_Changed) else None) (artifact_hashes s)"

definition completed_without_artifact :: "files \<Rightarrow> string \<Rightarrow> stage_state \<Rightarrow> nat list" where
  "completed_without_artifact fs base s =
     map fst (filter (\<lambda>(n, a). status_of s n = Some Completed \<and> fs (artifact_path base s a) = None)
       [(1, Design), (2, Review), (3, Kernel), (4, KernelOpt)])"

text \<open>
  The schema of a typed state leaves one enumeration to check: the reason of a failure.
\<close>

definition state_schema_ok :: "stage_state \<Rightarrow> bool" where
  "state_schema_ok s \<longleftrightarrow>
     (case failure_reason s of None \<Rightarrow> True | Some r \<Rightarrow> r \<in> set blocked_codes)"

definition cmd_verify :: "files \<Rightarrow> string \<Rightarrow> stage_state \<Rightarrow> bool" where
  "cmd_verify fs base s \<longleftrightarrow>
     state_schema_ok s \<and> artifact_drift fs s = [] \<and> completed_without_artifact fs base s = []"

record set_args =
  sa_perf_tuning :: "string option"
  sa_final_artifact :: "string option"
  sa_requirement :: "string option"
  sa_env_check :: "string option"
  sa_feedback_action :: "string option"
  sa_iter_count :: "int option"
  sa_last_improvement :: "rat option"
  sa_no_improve :: "int option"
  sa_budget :: "(string \<times> rat option) list option"

definition set_args_ok :: "files \<Rightarrow> string \<Rightarrow> set_args \<Rightarrow> stage_state \<Rightarrow> ctl_error option" where
  "set_args_ok fs base a s =
     (let bad_value =
        (case sa_perf_tuning a of Some v \<Rightarrow> v \<notin> {''yes'', ''no''} | None \<Rightarrow> False) \<or>
        (case sa_env_check a of Some v \<Rightarrow> v \<notin> {''true'', ''false''} | None \<Rightarrow> False) \<or>
        (case sa_iter_count a of Some v \<Rightarrow> v < 0 | None \<Rightarrow> False) \<or>
        (case sa_no_improve a of Some v \<Rightarrow> v < 0 | None \<Rightarrow> False) \<or>
        (case sa_budget a of
           Some b \<Rightarrow> list_ex (\<lambda>(k, v).
               k \<notin> {''max_wallclock_s'', ''max_subagent_dispatches'', ''max_stage4_experiments''} \<or>
               (case v of Some x \<Rightarrow> x \<le> 0 | None \<Rightarrow> False)) b
         | None \<Rightarrow> False);
          no_feedback = (sa_feedback_action a \<noteq> None \<and> fs (artifact_path base s PerfFeedback) = None)
      in if bad_value then Some E_VALUE else if no_feedback then Some E_MISSING else None)"

text \<open>Several bad arguments are reported together; the model keeps one code.\<close>

definition cmd_set :: "files \<Rightarrow> string \<Rightarrow> set_args \<Rightarrow> stage_state \<Rightarrow> ctl_error + stage_state" where
  "cmd_set fs base a s =
     (case set_args_ok fs base a s of
        Some e \<Rightarrow> Inl e
      | None \<Rightarrow>
          let it = ss_perf_iteration s
          in Inr (s\<lparr>
            perf_tuning_requested := (case sa_perf_tuning a of Some v \<Rightarrow> Some v | None \<Rightarrow> perf_tuning_requested s),
            final_artifact := (case sa_final_artifact a of Some v \<Rightarrow> Some v | None \<Rightarrow> final_artifact s),
            user_requirement := (case sa_requirement a of Some v \<Rightarrow> Some v | None \<Rightarrow> user_requirement s),
            env_check_passed := (case sa_env_check a of Some v \<Rightarrow> v = ''true'' | None \<Rightarrow> env_check_passed s),
            perf_feedback := (case sa_feedback_action a of
                Some v \<Rightarrow> Some (artifact_path base s PerfFeedback, v) | None \<Rightarrow> perf_feedback s),
            ss_perf_iteration := \<lparr>
              pi_count = (case sa_iter_count a of Some v \<Rightarrow> v | None \<Rightarrow> pi_count it),
              pi_last_improvement = (case sa_last_improvement a of Some v \<Rightarrow> v | None \<Rightarrow> pi_last_improvement it),
              pi_no_improvement = (case sa_no_improve a of Some v \<Rightarrow> v | None \<Rightarrow> pi_no_improvement it)\<rparr>,
            budget := (case sa_budget a of
                Some b \<Rightarrow> fold (\<lambda>(k, v). AList.update k v) b (budget s) | None \<Rightarrow> budget s)\<rparr>))"

section \<open>The timeline\<close>

record event =
  ev_ts :: int
  ev_action :: string
  ev_stage :: "nat option"
  ev_verdict :: "string option"
  ev_duration :: "int option"
  ev_phase_after :: "phase option"

definition stage_attempt_duration :: "event list \<Rightarrow> nat \<Rightarrow> int \<Rightarrow> int option" where
  "stage_attempt_duration evs stage now =
     (case filter (\<lambda>e. ev_action e = ''start'' \<and> ev_stage e = Some stage) evs of
        [] \<Rightarrow> None
      | es \<Rightarrow> Some (now - ev_ts (last es)))"

definition append_event ::
  "int \<Rightarrow> string \<Rightarrow> nat option \<Rightarrow> string option \<Rightarrow> phase option \<Rightarrow> event list \<Rightarrow> event list" where
  "append_event now action stage verdict after evs =
     evs @ [\<lparr>ev_ts = now, ev_action = action, ev_stage = stage, ev_verdict = verdict,
            ev_duration = (case stage of
                Some n \<Rightarrow> if action = ''complete'' \<or> action = ''fail'' then stage_attempt_duration evs n now else None
              | None \<Rightarrow> None),
            ev_phase_after = after\<rparr>]"

record budget_info =
  bi_dispatches_used :: nat
  bi_wallclock :: "int option"
  bi_exceeded :: "string list"

definition budget_watermark :: "stage_state \<Rightarrow> event list \<Rightarrow> int \<Rightarrow> budget_info option" where
  "budget_watermark s evs now =
     (let max_d = (case map_of (budget s) ''max_subagent_dispatches'' of Some v \<Rightarrow> v | None \<Rightarrow> None);
          max_w = (case map_of (budget s) ''max_wallclock_s'' of Some v \<Rightarrow> v | None \<Rightarrow> None)
      in if max_d = None \<and> max_w = None then None
         else
           let dispatches = length (filter (\<lambda>e. ev_action e = ''start'') evs);
               wallclock = (case evs of [] \<Rightarrow> None | e # _ \<Rightarrow> Some (now - ev_ts e))
           in Some \<lparr>bi_dispatches_used = dispatches, bi_wallclock = wallclock,
                bi_exceeded =
                  (case max_d of Some m \<Rightarrow> if m \<le> of_nat dispatches then [''max_subagent_dispatches''] else []
                   | None \<Rightarrow> []) @
                  (case (max_w, wallclock) of
                     (Some m, Some w) \<Rightarrow> if m \<le> of_int w then [''max_wallclock_s''] else []
                   | _ \<Rightarrow> [])\<rparr>)"

record stage_row =
  sr_stage :: nat
  sr_attempts :: nat
  sr_completed :: nat
  sr_failed :: nat
  sr_durations :: "int list"

definition row_step :: "event \<Rightarrow> stage_row \<Rightarrow> stage_row" where
  "row_step e r =
     (let ds = (case ev_duration e of Some d \<Rightarrow> sr_durations r @ [d] | None \<Rightarrow> sr_durations r)
      in if ev_action e = ''start'' then r\<lparr>sr_attempts := sr_attempts r + 1\<rparr>
         else if ev_action e = ''complete'' then r\<lparr>sr_completed := sr_completed r + 1, sr_durations := ds\<rparr>
         else if ev_action e = ''fail'' then r\<lparr>sr_failed := sr_failed r + 1, sr_durations := ds\<rparr>
         else r)"

definition summary_step :: "event \<Rightarrow> (nat \<times> stage_row) list \<Rightarrow> (nat \<times> stage_row) list" where
  "summary_step e rows =
     (case ev_stage e of
        None \<Rightarrow> rows
      | Some n \<Rightarrow>
          let r = (case map_of rows n of Some r \<Rightarrow> r
                   | None \<Rightarrow> \<lparr>sr_stage = n, sr_attempts = 0, sr_completed = 0, sr_failed = 0, sr_durations = []\<rparr>)
          in AList.update n (row_step e r) rows)"

record timeline_summary =
  ts_events_total :: nat
  ts_elapsed :: "int option"
  ts_dispatches :: nat
  ts_stages :: "stage_row list"
  ts_failures :: "(nat \<times> string option \<times> int) list"

definition cmd_timeline_summary :: "event list \<Rightarrow> timeline_summary" where
  "cmd_timeline_summary evs =
     \<lparr>ts_events_total = length evs,
      ts_elapsed = (case evs of [] \<Rightarrow> None | e # _ \<Rightarrow> Some (ev_ts (last evs) - ev_ts e)),
      ts_dispatches = length (filter (\<lambda>e. ev_action e = ''start'') evs),
      ts_stages = map snd (sort_key fst (fold summary_step evs [])),
      ts_failures = List.map_filter (\<lambda>e.
         case ev_stage e of
           Some n \<Rightarrow> if ev_action e = ''fail'' then Some (n, ev_verdict e, ev_ts e) else None
         | None \<Rightarrow> None) evs\<rparr>"

section \<open>Runs\<close>

text \<open>A command line that may change a task, and what it does to the state and the timeline.\<close>

datatype command =
    Start nat bool
  | Complete nat bool
  | Fail nat "string option" fail_type "string option"
  | SetFields set_args
  | Snapshot

definition apply_command :: "files \<Rightarrow> string \<Rightarrow> command \<Rightarrow> stage_state \<Rightarrow> ctl_error + stage_state" where
  "apply_command fs base c s =
     (case c of
        Start n ext \<Rightarrow> cmd_start n ext s
      | Complete n gate \<Rightarrow> cmd_complete fs base gate n s
      | Fail n reason ft blocked \<Rightarrow> cmd_fail fs base n reason ft blocked s
      | SetFields a \<Rightarrow> cmd_set fs base a s
      | Snapshot \<Rightarrow> Inr (cmd_snapshot fs base s))"

definition stage_of :: "command \<Rightarrow> nat option" where
  "stage_of c = (case c of Start n _ \<Rightarrow> Some n | Complete n _ \<Rightarrow> Some n | Fail n _ _ _ \<Rightarrow> Some n | _ \<Rightarrow> None)"

definition action_of :: "command \<Rightarrow> string" where
  "action_of c = (case c of Start _ _ \<Rightarrow> ''start'' | Complete _ _ \<Rightarrow> ''complete'' | Fail _ _ _ _ \<Rightarrow> ''fail''
     | SetFields _ \<Rightarrow> ''set'' | Snapshot \<Rightarrow> ''snapshot'')"

text \<open>A plain failure without a reason is logged under its type.\<close>

definition verdict_of :: "command \<Rightarrow> string option" where
  "verdict_of c = (case c of
      Complete _ _ \<Rightarrow> Some ''pass''
    | Fail _ reason ft blocked \<Rightarrow>
        if blocked \<noteq> None \<and> blocked \<noteq> Some [] then blocked
        else if reason \<noteq> None \<and> reason \<noteq> Some [] then reason
        else Some (case ft of Runtime \<Rightarrow> ''runtime'' | Precision \<Rightarrow> ''precision'')
    | _ \<Rightarrow> None)"

definition run_command ::
  "files \<Rightarrow> string \<Rightarrow> int \<Rightarrow> command \<Rightarrow> stage_state \<times> event list \<Rightarrow> ctl_error + (stage_state \<times> event list)" where
  "run_command fs base now c w =
     (case apply_command fs base c (fst w) of
        Inl e \<Rightarrow> Inl e
      | Inr s' \<Rightarrow> Inr (s', append_event now (action_of c) (stage_of c) (verdict_of c) (Some (ss_phase s')) (snd w)))"

section \<open>Invariants of the stage machine\<close>

text \<open>What holds in every phase, and what a running, a finished and a failed task satisfy.\<close>

definition base_inv :: "stage_state \<Rightarrow> bool" where
  "base_inv s \<longleftrightarrow>
     set (stage_plan s) \<subseteq> {0..<6} \<and> (\<forall>n. status_of s n \<noteq> None \<longrightarrow> n \<in> set (stage_plan s)) \<and>
     (\<forall>n m. status_of s n = Some InProgress \<and> status_of s m = Some InProgress \<longrightarrow> n = m) \<and>
     (\<forall>n l. stage_retry_limit n = Some l \<longrightarrow> stage_retry_count s n \<le> l)"

definition running_inv :: "stage_state \<Rightarrow> bool" where
  "running_inv s \<longleftrightarrow>
     \<not> terminal (ss_phase s) \<and> ss_phase s = stage_phase (current_stage s) \<and> failure_reason s = None \<and>
     (\<forall>n. \<not> retries_used_up s n) \<and> (\<exists>n \<in> set (stage_plan s). status_of s n \<noteq> Some Completed)"

definition done_inv :: "stage_state \<Rightarrow> bool" where
  "done_inv s \<longleftrightarrow>
     ss_phase s = DONE \<and> failure_reason s = None \<and> (\<forall>n. n \<noteq> 4 \<longrightarrow> \<not> retries_used_up s n) \<and>
     (if retries_used_up s 4 then status_of s 4 = Some Failed
      else \<forall>n \<in> set (stage_plan s). status_of s n = Some Completed)"

definition failed_inv :: "stage_state \<Rightarrow> bool" where
  "failed_inv s \<longleftrightarrow> ss_phase s = FAILED \<and> (\<exists>r \<in> set blocked_codes. failure_reason s = Some r)"

definition stage_inv :: "stage_state \<Rightarrow> bool" where
  "stage_inv s \<longleftrightarrow> base_inv s \<and> (running_inv s \<or> done_inv s \<or> failed_inv s)"

lemma stage_phase_not_terminal [simp]: "\<not> terminal (stage_phase n)" "stage_phase n \<noteq> DONE" "stage_phase n \<noteq> FAILED"
  by (auto simp: terminal_def stage_phase_def)

lemma terminal_simps [simp]: "terminal DONE" "terminal FAILED"
  by (simp_all add: terminal_def)

lemma done_inv_D:
  assumes "done_inv s"
  shows "failure_reason s = None" and "retries_used_up s 4 \<Longrightarrow> status_of s 4 = Some Failed"
    and "n \<noteq> 4 \<Longrightarrow> \<not> retries_used_up s n"
  using assms by (simp_all add: done_inv_def)

lemma running_iff: "stage_inv s \<Longrightarrow> \<not> terminal (ss_phase s) \<Longrightarrow> running_inv s"
  by (auto simp: stage_inv_def done_inv_def failed_inv_def)

lemma set_plan_with_4 [simp]: "set (plan_with_4 plan) = insert 4 (set plan)"
  by (auto simp: plan_with_4_def)

lemma retries_used_up_iff:
  "retries_used_up s n \<longleftrightarrow> (\<exists>l. stage_retry_limit n = Some l \<and> l \<le> stage_retry_count s n)"
  by (simp add: retries_used_up_def split: option.splits)

lemmas stage_inv_defs =
  stage_inv_def base_inv_def running_inv_def done_inv_def failed_inv_def retries_used_up_iff

text \<open>The invariant reads six fields of the state.\<close>

lemma stage_inv_cong:
  assumes "stage_plan s' = stage_plan s" "status_of s' = status_of s" "stage_retry_count s' = stage_retry_count s"
    "ss_phase s' = ss_phase s" "current_stage s' = current_stage s" "failure_reason s' = failure_reason s"
  shows "stage_inv s' = stage_inv s"
proof -
  have "retries_used_up s' = retries_used_up s" 
    by (rule ext) (simp only: retries_used_up_def assms)
  with assms show ?thesis
    by (simp only: stage_inv_def base_inv_def running_inv_def done_inv_def failed_inv_def)
qed

lemma set_fields_keep:
  assumes "cmd_set fs base a s = Inr s'"
  shows "stage_plan s' = stage_plan s" "status_of s' = status_of s" "stage_retry_count s' = stage_retry_count s"
    "ss_phase s' = ss_phase s" "current_stage s' = current_stage s" "failure_reason s' = failure_reason s"
proof -
  have "set_args_ok fs base a s = None" using assms by (simp add: cmd_set_def split: option.splits)
  with assms have "s' = projr (cmd_set fs base a s)" "set_args_ok fs base a s = None" by simp_all
  then show "stage_plan s' = stage_plan s" "status_of s' = status_of s" "stage_retry_count s' = stage_retry_count s"
    "ss_phase s' = ss_phase s" "current_stage s' = current_stage s" "failure_reason s' = failure_reason s"
    by (simp_all add: cmd_set_def Let_def)
qed

lemma set_fields_inert: "cmd_set fs base a s = Inr s' \<Longrightarrow> stage_inv s' = stage_inv s"
  by (rule stage_inv_cong) (simp_all add: set_fields_keep)

lemma snapshot_inert [simp]: "stage_inv (snapshot_stage_artifacts fs base n s) = stage_inv s"
  by (rule stage_inv_cong) (simp_all add: snapshot_stage_artifacts_def)

lemma others_running_iff:
  assumes "base_inv s"
  shows "others_running s n = [] \<longleftrightarrow> (\<forall>k. status_of s k = Some InProgress \<longrightarrow> k = n)"
proof -
  have "k < 6" if "status_of s k = Some InProgress" for k
    using assms that unfolding base_inv_def by fastforce
  then show ?thesis by (auto simp: others_running_def filter_empty_conv)
qed

lemma retry_limit_pos: "stage_retry_limit n = Some l \<Longrightarrow> 0 < l"
  by (auto simp: stage_retry_limit_def split: if_splits)

lemma cmd_init_inv:
  assumes "cmd_init base a old = Inr s"
  shows "stage_inv s"
proof -
  obtain plan where s: "plan \<noteq> []" "\<not> list_ex (\<lambda>k. 5 < k) plan" "stage_plan s = plan"
    "ss_phase s = stage_phase (hd plan)" "current_stage s = hd plan" "status_of s = (\<lambda>_. None)"
    "stage_retry_count s = (\<lambda>_. 0)" "failure_reason s = None"
    using assms by (auto simp: cmd_init_def Let_def split: if_splits sum.splits option.splits)
  have "base_inv s" using s by (auto simp: base_inv_def list_ex_iff)
  moreover have "running_inv s"
    unfolding running_inv_def
  proof (intro conjI)
    show "\<forall>n. \<not> retries_used_up s n" using s(7) retry_limit_pos by (auto simp: retries_used_up_iff)
    show "\<exists>n \<in> set (stage_plan s). status_of s n \<noteq> Some Completed"
      using s(3,6) hd_in_set [OF s(1)] by auto
  qed (use s in simp_all)
  ultimately show ?thesis by (simp add: stage_inv_def)
qed

lemma enter_stage_Inr:
  assumes "enter_stage s n = Inr s'"
  shows "s' = s\<lparr>last_failure_reason := (if revision_reentry s n then None else last_failure_reason s),
    status_of := (status_of s)(n := Some InProgress), ss_phase := stage_phase n, current_stage := n\<rparr>"
  using assms unfolding enter_stage_def by (simp split: if_splits)

text \<open>Entering a stage of the plan from a state in which nothing is used up.\<close>

lemma enter_stage_inv:
  assumes e: "enter_stage s n = Inr s'" and n: "n \<in> set (stage_plan s)" and b: "base_inv s"
    and used: "\<forall>k. \<not> retries_used_up s k" and ok: "failure_reason s = None"
  shows "stage_inv s'"
proof -
  have s': "stage_plan s' = stage_plan s" "status_of s' = (status_of s)(n := Some InProgress)"
    "stage_retry_count s' = stage_retry_count s" "failure_reason s' = failure_reason s"
    "ss_phase s' = stage_phase n" "current_stage s' = n" "others_running s n = []"
    using e by (auto simp: enter_stage_def split: if_splits)
  have "base_inv s'"
    using b n s' others_running_iff [OF b, of n] unfolding base_inv_def by auto
  moreover have "running_inv s'"
    using n used ok s' by (auto simp: running_inv_def retries_used_up_iff)
  ultimately show ?thesis by (simp add: stage_inv_def)
qed

lemma cmd_start_inv:
  assumes inv: "stage_inv s" and c: "cmd_start n ext s = Inr s'"
  shows "stage_inv s'"
proof (cases "terminal (ss_phase s)")
  case True
  let ?s = "s\<lparr>stage_plan := plan_with_4 (stage_plan s), final_artifact := None\<rparr>"
  have e: "enter_stage ?s 4 = Inr s'" and d: "done_inv s"
    using True c inv by (auto simp: cmd_start_def can_reopen_def stage_inv_def running_inv_def failed_inv_def
      split: if_splits)
  have "\<not> (status_of s 4 = Some Failed \<and> retries_used_up s 4)"
  proof
    assume "status_of s 4 = Some Failed \<and> retries_used_up s 4"
    then have "status_of ?s 4 = Some Failed" "retries_used_up ?s 4" by (simp_all add: retries_used_up_iff)
    then show False using e by (simp add: enter_stage_def split: if_splits)
  qed
  then have "\<not> retries_used_up s 4" using done_inv_D(2) [OF d] by blast
  then have "\<not> retries_used_up s k" for k using done_inv_D(3) [OF d, of k] by (cases "k = 4") simp_all
  then have used: "\<forall>k. \<not> retries_used_up ?s k" by (simp add: retries_used_up_iff)
  show ?thesis
  proof (rule enter_stage_inv [OF e _ _ used])
    show "base_inv ?s" using inv by (auto simp: stage_inv_def base_inv_def)
  qed (simp_all add: done_inv_D(1) [OF d])
next
  case False
  then have r: "running_inv s" using inv by (rule running_iff [rotated])
  let ?s = "s\<lparr>stage_plan := plan_with_4 (stage_plan s)\<rparr>"
  consider "n \<in> set (stage_plan s)" "enter_stage s n = Inr s'" | "n = 4" "enter_stage ?s n = Inr s'"
    using c False by (auto simp: cmd_start_def split: if_splits)
  then show ?thesis
  proof cases
    case 1
    then show ?thesis using inv r
      by (intro enter_stage_inv [OF 1(2)]) (auto simp: stage_inv_def running_inv_def)
  next
    case 2
    then show ?thesis using inv r
      by (intro enter_stage_inv [OF 2(2)]) (auto simp: stage_inv_def base_inv_def running_inv_def retries_used_up_iff)
  qed
qed

lemma cmd_complete_inv:
  assumes inv: "stage_inv s" and c: "cmd_complete fs base gate n s = Inr s'"
  shows "stage_inv s'"
proof -
  have nt: "\<not> terminal (ss_phase s)" and run: "status_of s n = Some InProgress" and g: "gate"
    using c by (auto simp: cmd_complete_def split: if_splits)
  have r: "running_inv s" and b: "base_inv s" using running_iff [OF inv nt] inv by (auto simp: stage_inv_def)
  define s1 where "s1 = s\<lparr>status_of := (status_of s)(n := Some Completed)\<rparr>"
  have b1: "base_inv s1" using b run unfolding base_inv_def by (auto simp: s1_def)
  have s1: "failure_reason s1 = None" "\<And>k. \<not> retries_used_up s1 k"
    using r by (auto simp: s1_def running_inv_def retries_used_up_iff)
  show ?thesis
  proof (cases "find (\<lambda>k. status_of s1 k \<noteq> Some Completed) (stage_plan s1)")
    case None
    let ?s2 = "s1\<lparr>ss_phase := DONE, final_artifact := choose_final_artifact fs base s1\<rparr>"
    have "s' = snapshot_stage_artifacts fs base n ?s2"
      using c nt run g None unfolding cmd_complete_def Let_def s1_def [symmetric] by simp
    moreover have "done_inv ?s2"
      using None s1 by (auto simp: done_inv_def find_None_iff retries_used_up_iff)
    moreover have "base_inv ?s2" using b1 by (simp add: base_inv_def)
    ultimately show ?thesis by (simp add: stage_inv_def [of ?s2])
  next
    case (Some k)
    let ?s2 = "s1\<lparr>ss_phase := stage_phase k, current_stage := k\<rparr>"
    have "s' = snapshot_stage_artifacts fs base n ?s2"
      using c nt run g Some unfolding cmd_complete_def Let_def s1_def [symmetric] by simp
    moreover have "running_inv ?s2"
      using s1 find_Some_iff [THEN iffD1, OF Some] by (auto simp: running_inv_def retries_used_up_iff)
    moreover have "base_inv ?s2" using b1 by (simp add: base_inv_def)
    ultimately show ?thesis by (simp add: stage_inv_def [of ?s2])
  qed
qed

lemma blocked_reasons [simp]:
  "''BLOCKED_DESIGN'' \<in> set blocked_codes" "''BLOCKED_IMPL'' \<in> set blocked_codes"
  "''BLOCKED_ACCURACY'' \<in> set blocked_codes" "blocked_by_stage n \<in> set blocked_codes"
  by (simp_all add: blocked_codes_def blocked_by_stage_def)

lemma block_inv:
  assumes "base_inv s" and "code \<in> set blocked_codes"
  shows "stage_inv (s\<lparr>ss_phase := FAILED, failure_reason := Some code, last_failure_reason := l\<rparr>)"
    and "stage_inv (s\<lparr>ss_phase := FAILED, failure_reason := Some code\<rparr>)"
  using assms by (auto simp: stage_inv_def base_inv_def failed_inv_def)

lemma revise_inv:
  assumes b: "base_inv s" and r: "running_inv s" and st: "status_of s n \<noteq> None"
  shows "base_inv (revise n s)" and "running_inv (revise n s)"
proof -
  have n: "n \<in> set (stage_plan s)" using b st by (simp add: base_inv_def)
  then show "base_inv (revise n s)" using b unfolding base_inv_def by (auto simp: revise_def)
  have "status_of (revise n s) n \<noteq> Some Completed" by (simp add: revise_def)
  moreover have "\<not> retries_used_up (revise n s) k" for k
    using r retry_limit_pos [of k] by (auto simp: revise_def running_inv_def retries_used_up_iff)
  ultimately show "running_inv (revise n s)"
    using r n by (auto simp: running_inv_def revise_def)
qed

lemma count_failure_base:
  assumes b: "base_inv s" and r: "running_inv s" and st: "status_of s n \<noteq> None"
  shows "base_inv (count_failure n ft s)"
    and "k \<noteq> n \<Longrightarrow> \<not> retries_used_up (count_failure n ft s) k"
    and "\<not> retries_used_up (count_failure n ft s) n \<Longrightarrow> running_inv (count_failure n ft s)"
proof -
  let ?s = "count_failure n ft s"
  have n: "n \<in> set (stage_plan s)" using b st by (simp add: base_inv_def)
  have cnt: "stage_retry_count ?s k = (if k = n then stage_retry_count s n + 1 else stage_retry_count s k)" for k
    by (simp add: count_failure_def)
  have lim: "stage_retry_count s k < l" if "stage_retry_limit k = Some l" for k l
    using r that by (auto simp: running_inv_def retries_used_up_iff not_le)
  have "stage_retry_count ?s k \<le> l" if "stage_retry_limit k = Some l" for k l
    using that lim [OF that] by (cases "k = n") (simp_all add: cnt Suc_le_eq)
  then show "base_inv ?s" using b n unfolding base_inv_def by (auto simp: count_failure_def)
  show oth: "\<not> retries_used_up ?s k" if "k \<noteq> n" for k
    using r that by (auto simp: running_inv_def retries_used_up_iff cnt)
  assume "\<not> retries_used_up ?s n"
  then have "\<not> retries_used_up ?s k" for k using oth by (cases "k = n") auto
  moreover have "status_of ?s n \<noteq> Some Completed" by (simp add: count_failure_def)
  ultimately show "running_inv ?s" using r n by (auto simp: running_inv_def count_failure_def)
qed


lemma stage2_no_limit [simp]: "\<not> retries_used_up s 2"
  by (simp add: retries_used_up_iff stage_retry_limit_def)

lemma revise_cmd_inv:
  assumes b: "base_inv s" and r: "running_inv s" and st: "status_of s n \<noteq> None"
  shows "stage_inv (if max_retry (revise n s) \<le> retry_count (revise n s)
                    then (revise n s)\<lparr>ss_phase := FAILED, failure_reason := Some ''BLOCKED_DESIGN''\<rparr>
                    else revise n s)"
  using revise_inv [OF assms] block_inv(2) [OF revise_inv(1) [OF assms]] by (simp add: stage_inv_def)

lemma plain_fail_inv:
  fixes s :: stage_state and n :: nat and ft :: fail_type
  defines "s1 \<equiv> count_failure n ft s"
  assumes b: "base_inv s" and r: "running_inv s" and st: "status_of s n \<noteq> None" and code: "code \<in> set blocked_codes"
  shows "stage_inv (if retries_used_up s1 n
                    then if n = 4 then s1\<lparr>ss_phase := DONE, final_artifact := art\<rparr>
                         else s1\<lparr>ss_phase := FAILED, failure_reason := Some code\<rparr>
                    else s1)"
proof -
  note c = count_failure_base [OF b r st, where ft = ft, folded s1_def]
  have "stage_inv (s1\<lparr>ss_phase := DONE, final_artifact := art\<rparr>)" (is "stage_inv ?d")
    if "retries_used_up s1 n" "n = 4"
  proof -
    have used: "retries_used_up ?d = retries_used_up s1" by (rule ext) (simp add: retries_used_up_iff)
    have "status_of s1 4 = Some Failed" "failure_reason s1 = None"
      using r that by (simp_all add: s1_def count_failure_def running_inv_def)
    then have "done_inv ?d" using that c(2) by (simp add: done_inv_def used)
    moreover have "base_inv ?d" using c(1) by (simp add: base_inv_def)
    ultimately show ?thesis by (simp add: stage_inv_def)
  qed
  moreover have "stage_inv (s1\<lparr>ss_phase := FAILED, failure_reason := Some code\<rparr>)"
    by (rule block_inv(2) [OF c(1) code])
  moreover have "stage_inv s1" if "\<not> retries_used_up s1 n" using c(1) c(3) [OF that] by (simp add: stage_inv_def)
  ultimately show ?thesis by simp
qed

lemma cmd_fail_inv:
  assumes inv: "stage_inv s" and c: "cmd_fail fs base n reason ft blocked s = Inr s'"
  shows "stage_inv s'"
proof -
  have b: "base_inv s" using inv by (simp add: stage_inv_def)
  let ?blocked = "if blocked = Some [] then None else blocked"
  let ?code = "if n = 3 then if ft = Precision then ''BLOCKED_ACCURACY'' else ''BLOCKED_IMPL'' else blocked_by_stage n"
  show ?thesis
  proof (cases ?blocked)
    case (Some code)
    with c have "code \<in> set blocked_codes"
      and "s' = s\<lparr>ss_phase := FAILED, failure_reason := Some code, last_failure_reason := Some code\<rparr>"
      by (auto simp: cmd_fail_def split: if_splits)
    with b show ?thesis by (simp add: block_inv(1))
  next
    case None
    with c have nt: "\<not> terminal (ss_phase s)" and st: "status_of s n \<noteq> None"
      by (auto simp: cmd_fail_def split: if_splits)
    have r: "running_inv s" using inv nt by (rule running_iff)
    have code: "?code \<in> set blocked_codes" by simp
    show ?thesis
    proof (cases "reason = Some ''design_revision''")
      case True
      with c None nt st show ?thesis
        using revise_cmd_inv [OF b r st] unfolding cmd_fail_def Let_def by simp
    next
      case False
      have n: "n \<noteq> 2" "status_of s n \<noteq> Some Completed"
        using c None nt st False by (auto simp: cmd_fail_def split: if_splits)
      let ?s1 = "count_failure n ft s"
      have "s' = (if retries_used_up ?s1 n
                  then if n = 4 then ?s1\<lparr>ss_phase := DONE, final_artifact := choose_final_artifact fs base ?s1\<rparr>
                       else ?s1\<lparr>ss_phase := FAILED, failure_reason := Some ?code\<rparr>
                  else ?s1)"
        using c unfolding cmd_fail_def Let_def None by (simp add: nt st n False)
      then show ?thesis using plain_fail_inv [OF b r st code] by (simp only:)
    qed
  qed
qed

lemma apply_command_inv:
  assumes "stage_inv s" and "apply_command fs base c s = Inr s'"
  shows "stage_inv s'"
proof (cases c)
  case (Start n ext) then show ?thesis using assms cmd_start_inv by (simp add: apply_command_def)
next
  case (Complete n gate) then show ?thesis using assms cmd_complete_inv by (simp add: apply_command_def)
next
  case (Fail n reason ft blocked) then show ?thesis using assms cmd_fail_inv by (simp add: apply_command_def)
next
  case (SetFields a) then show ?thesis using assms set_fields_inert by (simp add: apply_command_def)
next
  case Snapshot then show ?thesis using assms by (auto simp: apply_command_def cmd_snapshot_def)
qed

text \<open>The states a task can be in: the command \<open>init\<close> writes one, every later command may change it.\<close>

definition stage_created :: "string \<Rightarrow> stage_state \<Rightarrow> bool" where
  "stage_created base s \<longleftrightarrow> (\<exists>a. cmd_init base a None = Inr s)"

definition stage_run :: "string \<Rightarrow> files \<times> command \<Rightarrow> stage_state \<Rightarrow> ctl_error + stage_state" where
  "stage_run base fc s = apply_command (fst fc) base (snd fc) s"

abbreviation stage_reachable :: "string \<Rightarrow> stage_state \<Rightarrow> bool" where
  "stage_reachable base \<equiv> reaches (stage_created base) (stage_run base)"

section \<open>Progress\<close>

text \<open>
  The commands that move a task on, and the measure they decrease: design revisions left, the
  pass of a revision, retries left, work left in the stages.
\<close>

definition moves :: "command \<Rightarrow> bool" where
  "moves c \<longleftrightarrow> (case c of Start _ _ \<Rightarrow> True | Complete _ _ \<Rightarrow> True | Fail _ _ _ _ \<Rightarrow> True | _ \<Rightarrow> False)"

definition status_weight :: "stage_status option \<Rightarrow> nat" where
  "status_weight st = (if st = Some Completed then 0 else if st = Some InProgress then 1 else 2)"

definition work_left :: "stage_state \<Rightarrow> nat" where
  "work_left s = (\<Sum>n = 0..<6. status_weight (status_of s n))"

definition retries_left :: "stage_state \<Rightarrow> nat" where
  "retries_left s = (\<Sum>n = 0..<6. case stage_retry_limit n of None \<Rightarrow> 0 | Some l \<Rightarrow> l - stage_retry_count s n)"

definition stage_measures :: "(stage_state \<Rightarrow> nat) list" where
  "stage_measures =
     [\<lambda>s. if ss_phase s = FAILED then 0 else 1, \<lambda>s. nat (max_retry s - retry_count s),
      \<lambda>s. if last_failure_reason s = Some ''design_revision'' then 1 else 0, retries_left, work_left]"

lemma sum_less_at:
  fixes f g :: "nat \<Rightarrow> nat"
  assumes "n < m" and "g n < f n" and "\<And>k. k \<noteq> n \<Longrightarrow> g k = f k"
  shows "(\<Sum>k = 0..<m. g k) < (\<Sum>k = 0..<m. f k)"
proof (rule sum_strict_mono_ex1)
  show "\<forall>k \<in> {0..<m}. g k \<le> f k"
  proof
    fix k show "g k \<le> f k" using assms by (cases "k = n") simp_all
  qed
qed (use assms in auto)

lemma work_left_less:
  assumes "status_of s' = (status_of s)(n := v)" and "n < 6" and "status_weight v < status_weight (status_of s n)"
  shows "work_left s' < work_left s"
  unfolding work_left_def by (rule sum_less_at [of n]) (use assms in simp_all)

lemma retries_left_cong: "stage_retry_count s' = stage_retry_count s \<Longrightarrow> retries_left s' = retries_left s"
  by (simp only: retries_left_def)

lemma failing_decreases: "ss_phase s \<noteq> FAILED \<Longrightarrow> ss_phase s' = FAILED \<Longrightarrow> (s', s) \<in> measures stage_measures"
  by (simp add: stage_measures_def)

lemma working_decreases:
  assumes "ss_phase s \<noteq> FAILED" "ss_phase s' \<noteq> FAILED" "max_retry s' = max_retry s" "retry_count s' = retry_count s"
    "last_failure_reason s' = last_failure_reason s" "stage_retry_count s' = stage_retry_count s"
    "work_left s' < work_left s"
  shows "(s', s) \<in> measures stage_measures"
  using assms by (simp add: stage_measures_def retries_left_cong [OF assms(6)])

lemma enter_stage_decreases:
  assumes e: "enter_stage s n = Inr s'" and n: "n < 6" and ph: "ss_phase s \<noteq> FAILED"
  shows "(s', s) \<in> measures stage_measures"
proof -
  note s' = enter_stage_Inr [OF e]
  show ?thesis
  proof (cases "revision_reentry s n")
    case True
    moreover from this have "last_failure_reason s = Some ''design_revision''" by (simp add: revision_reentry_def)
    ultimately show ?thesis using ph by (simp add: s' stage_measures_def)
  next
    case False
    then have "status_weight (Some InProgress) < status_weight (status_of s n)"
      using e by (auto simp: enter_stage_def status_weight_def split: if_splits)
    then have "work_left s' < work_left s" using n by (intro work_left_less [of _ _ n]) (simp_all add: s')
    then show ?thesis using False ph by (intro working_decreases) (simp_all add: s')
  qed
qed

text \<open>Every successful start enters the stage from the same state with a plan that may be longer.\<close>

lemma cmd_start_enter:
  assumes c: "cmd_start n ext s = Inr s'"
  obtains s1 where "enter_stage s1 n = Inr s'" "n = 4 \<or> n \<in> set (stage_plan s)"
    "ss_phase s1 = ss_phase s" "max_retry s1 = max_retry s" "retry_count s1 = retry_count s"
    "last_failure_reason s1 = last_failure_reason s" "stage_retry_count s1 = stage_retry_count s"
    "status_of s1 = status_of s"
proof (cases "terminal (ss_phase s)")
  case True
  then show ?thesis
    using c that [of "s\<lparr>stage_plan := plan_with_4 (stage_plan s), final_artifact := None\<rparr>"]
    by (simp add: cmd_start_def can_reopen_def split: if_splits)
next
  case False
  then show ?thesis
    using c that [of s] that [of "s\<lparr>stage_plan := plan_with_4 (stage_plan s)\<rparr>"]
    by (auto simp: cmd_start_def split: if_splits)
qed

lemma cmd_start_decreases:
  assumes inv: "stage_inv s" and c: "cmd_start n ext s = Inr s'" and ph: "ss_phase s \<noteq> FAILED"
  shows "(s', s) \<in> measures stage_measures"
proof -
  have plan: "set (stage_plan s) \<subseteq> {0..<6}" using inv by (simp add: stage_inv_def base_inv_def)
  obtain s1 where e: "enter_stage s1 n = Inr s'" and n: "n = 4 \<or> n \<in> set (stage_plan s)"
    and s1: "ss_phase s1 = ss_phase s" "max_retry s1 = max_retry s" "retry_count s1 = retry_count s"
      "last_failure_reason s1 = last_failure_reason s" "stage_retry_count s1 = stage_retry_count s"
      "status_of s1 = status_of s"
    using c by (rule cmd_start_enter)
  have "n < 6" using n plan by auto
  then have "(s', s1) \<in> measures stage_measures" using e ph s1(1) by (intro enter_stage_decreases) simp_all
  moreover have "work_left s1 = work_left s" by (simp add: work_left_def s1)
  ultimately show ?thesis by (simp add: stage_measures_def s1 retries_left_cong [OF s1(5)])
qed

lemma cmd_complete_decreases:
  assumes inv: "stage_inv s" and c: "cmd_complete fs base gate n s = Inr s'"
  shows "(s', s) \<in> measures stage_measures" and "work_left s' < work_left s" and "ss_phase s' \<noteq> FAILED"
proof -
  have run: "status_of s n = Some InProgress" and nt: "\<not> terminal (ss_phase s)" and g: gate
    using c by (auto simp: cmd_complete_def split: if_splits)
  have n: "n < 6" using inv run unfolding stage_inv_def base_inv_def by fastforce
  define s1 where "s1 = s\<lparr>status_of := (status_of s)(n := Some Completed)\<rparr>"
  have s': "status_of s' = (status_of s)(n := Some Completed)" "max_retry s' = max_retry s"
    "retry_count s' = retry_count s" "last_failure_reason s' = last_failure_reason s"
    "stage_retry_count s' = stage_retry_count s" "ss_phase s' \<noteq> FAILED"
    using c run nt g unfolding cmd_complete_def Let_def s1_def [symmetric]
    by (auto simp: snapshot_stage_artifacts_def s1_def split: option.splits)
  then show "ss_phase s' \<noteq> FAILED" by simp
  show less: "work_left s' < work_left s" using s' n run by (intro work_left_less [of _ _ n]) (simp_all add: status_weight_def)
  show "(s', s) \<in> measures stage_measures"
    using s' less nt by (intro working_decreases) (auto simp: terminal_def)
qed

lemma count_failure_decreases:
  assumes b: "base_inv s" and r: "running_inv s" and st: "status_of s n \<noteq> None" and n2: "n \<noteq> 2"
  shows "retries_left (count_failure n ft s) < retries_left s"
proof -
  have n: "n < 6" using b st unfolding base_inv_def by fastforce
  then have "n = 0 \<or> n = 1 \<or> n = 3 \<or> n = 4 \<or> n = 5" using n2 by arith
  then obtain l where l: "stage_retry_limit n = Some l" by (auto simp: stage_retry_limit_def)
  then have "stage_retry_count s n < l" using r by (auto simp: running_inv_def retries_used_up_iff not_le)
  with l show ?thesis
    unfolding retries_left_def by (intro sum_less_at [OF n]) (simp_all add: count_failure_def split: option.split)
qed

lemma cmd_fail_decreases:
  assumes inv: "stage_inv s" and c: "cmd_fail fs base n reason ft blocked s = Inr s'" and ph: "ss_phase s \<noteq> FAILED"
  shows "(s', s) \<in> measures stage_measures"
proof (cases "ss_phase s' = FAILED")
  case True then show ?thesis using ph by (intro failing_decreases)
next
  case False
  let ?blocked = "if blocked = Some [] then None else blocked"
  have None: "?blocked = None" using c False by (auto simp: cmd_fail_def split: if_splits option.splits)
  then have nt: "\<not> terminal (ss_phase s)" and st: "status_of s n \<noteq> None"
    using c by (auto simp: cmd_fail_def split: if_splits)
  have b: "base_inv s" and r: "running_inv s" using inv running_iff [OF inv nt] by (simp_all add: stage_inv_def)
  show ?thesis
  proof (cases "reason = Some ''design_revision''")
    case True
    then have "s' = revise n s" "\<not> max_retry (revise n s) \<le> retry_count (revise n s)"
      using c False nt st unfolding cmd_fail_def Let_def None by (auto split: if_splits)
    then have "max_retry s' = max_retry s" "retry_count s' = retry_count s + 1" "retry_count s + 1 < max_retry s"
      by (simp_all add: revise_def)
    then show ?thesis using False ph by (simp add: stage_measures_def)
  next
    case False
    let ?s1 = "count_failure n ft s"
    have n2: "n \<noteq> 2" using c nt st False unfolding cmd_fail_def Let_def None by (auto split: if_splits)
    have s': "max_retry s' = max_retry s" "retry_count s' = retry_count s"
      "last_failure_reason s' = last_failure_reason s" "stage_retry_count s' = stage_retry_count ?s1"
      using c nt st False unfolding cmd_fail_def Let_def None by (auto simp: count_failure_def split: if_splits)
    have "retries_left s' < retries_left s"
      using count_failure_decreases [OF b r st n2] by (simp add: retries_left_cong [OF s'(4)])
    then show ?thesis using \<open>ss_phase s' \<noteq> FAILED\<close> ph by (simp add: stage_measures_def s')
  qed
qed

lemma moving_decreases:
  assumes "stage_inv s" and "apply_command fs base c s = Inr s'" and "moves c" and "ss_phase s \<noteq> FAILED"
  shows "(s', s) \<in> measures stage_measures"
proof (cases c)
  case (Start n ext) then show ?thesis using assms cmd_start_decreases by (simp add: apply_command_def)
next
  case (Complete n gate) then show ?thesis using assms cmd_complete_decreases(1) by (simp add: apply_command_def)
next
  case (Fail n reason ft blocked) then show ?thesis using assms cmd_fail_decreases by (simp add: apply_command_def)
qed (use assms in \<open>simp_all add: moves_def\<close>)

interpretation stages: measured_machine "stage_created base" "stage_run base" stage_inv
    "\<lambda>fc s. moves (snd fc) \<and> ss_phase s \<noteq> FAILED" stage_measures for base
  by unfold_locales
    (auto simp: stage_created_def stage_run_def intro: cmd_init_inv apply_command_inv moving_decreases)

text \<open>A task that can go on: the stage in progress can be completed, or the next stage of the plan started.\<close>

inductive advances :: "files \<Rightarrow> string \<Rightarrow> stage_state \<Rightarrow> stage_state \<Rightarrow> bool" for fs base where
  start: "apply_command fs base (Start n False) s = Inr s' \<Longrightarrow> advances fs base s s'"
| complete: "apply_command fs base (Complete n True) s = Inr s' \<Longrightarrow> advances fs base s s'"

lemma advances_inv: "advances fs base s s' \<Longrightarrow> stage_inv s \<Longrightarrow> stage_inv s'"
  by (auto elim!: advances.cases intro: apply_command_inv)

lemma missing_before_first:
  assumes "find (\<lambda>k. status_of s k \<noteq> Some Completed) (stage_plan s) = Some n"
  shows "missing_before s n = []" and "n \<in> set (stage_plan s)" and "status_of s n \<noteq> Some Completed"
proof -
  obtain i where i: "i < length (stage_plan s)" "stage_plan s ! i = n" "status_of s n \<noteq> Some Completed"
    "\<And>j. j < i \<Longrightarrow> status_of s (stage_plan s ! j) = Some Completed"
    using assms by (auto simp: find_Some_iff)
  then show "n \<in> set (stage_plan s)" "status_of s n \<noteq> Some Completed" by auto
  have split: "stage_plan s = take i (stage_plan s) @ n # drop (Suc i) (stage_plan s)"
    using id_take_nth_drop [OF i(1)] i(2) by simp
  have "\<forall>k \<in> set (take i (stage_plan s)). status_of s k = Some Completed"
    using i(4) by (auto simp: in_set_conv_nth)
  moreover have "takeWhile (\<lambda>k. k \<noteq> n) (stage_plan s) = take i (stage_plan s)"
    by (subst split, subst takeWhile_append2) (use calculation i(3) in auto)
  ultimately show "missing_before s n = []" by (simp add: missing_before_def filter_empty_conv)
qed

lemma can_advance:
  assumes inv: "stage_inv s" and nt: "\<not> terminal (ss_phase s)"
  obtains s' where "advances fs base s s'" and "work_left s' < work_left s" and "ss_phase s' \<noteq> FAILED"
proof (cases "\<exists>n. status_of s n = Some InProgress")
  case True
  then obtain n where n: "status_of s n = Some InProgress" by blast
  then obtain s' where s': "cmd_complete fs base True n s = Inr s'"
    using nt by (simp add: cmd_complete_def Let_def)
  then have "advances fs base s s'" by (auto intro: advances.complete simp: apply_command_def)
  then show ?thesis using that cmd_complete_decreases [OF inv s'] by blast
next
  case False
  have b: "base_inv s" and r: "running_inv s" using inv running_iff [OF inv nt] by (simp_all add: stage_inv_def)
  obtain n where "find (\<lambda>k. status_of s k \<noteq> Some Completed) (stage_plan s) = Some n"
    using r by (fastforce simp: running_inv_def find_None_iff)
  note n = missing_before_first [OF this]
  define s' where "s' = s\<lparr>status_of := (status_of s)(n := Some InProgress), ss_phase := stage_phase n, current_stage := n\<rparr>"
  have "others_running s n = []" using False by (simp add: others_running_def filter_empty_conv)
  moreover have "\<not> retries_used_up s n" "\<not> revision_reentry s n"
    using r n(3) by (simp_all add: running_inv_def revision_reentry_def)
  ultimately have e: "enter_stage s n = Inr s'" using n False by (simp add: enter_stage_def s'_def)
  then have "cmd_start n False s = Inr s'" using n nt by (simp add: cmd_start_def)
  then have "advances fs base s s'" by (auto intro: advances.start simp: apply_command_def)
  moreover have "work_left s' < work_left s"
  proof (rule work_left_less [of _ _ n])
    show "n < 6" using b n(2) unfolding base_inv_def by fastforce
    show "status_weight (Some InProgress) < status_weight (status_of s n)"
      using n(3) False by (auto simp: status_weight_def)
  qed (simp add: s'_def)
  ultimately show ?thesis using that by (simp add: s'_def)
qed


section \<open>Order of the stages\<close>

lemma snapshot_status [simp]:
  "status_of (snapshot_stage_artifacts fs base n s) = status_of s"
  "status_of (cmd_snapshot fs base s) = status_of s"
  by (simp_all add: snapshot_stage_artifacts_def cmd_snapshot_def)

lemma enter_stage_order:
  assumes "enter_stage s n = Inr s'"
  shows "status_of s' = (status_of s)(n := Some InProgress)" and "stage_plan s' = stage_plan s"
    and "status_of s n = None \<Longrightarrow> missing_before s n = []"
    and "status_of s n = Some Completed \<Longrightarrow> n = 1 \<and> last_failure_reason s = Some ''design_revision''"
    and "status_of s n \<noteq> Some InProgress"
proof -
  show "status_of s' = (status_of s)(n := Some InProgress)" "stage_plan s' = stage_plan s"
    by (simp_all add: enter_stage_Inr [OF assms])
  show "missing_before s n = []" if "status_of s n = None"
    using assms that unfolding enter_stage_def by (simp split: if_splits)
  show "status_of s n \<noteq> Some InProgress"
    using assms unfolding enter_stage_def by (simp split: if_splits)
  show "n = 1 \<and> last_failure_reason s = Some ''design_revision''" if "status_of s n = Some Completed"
  proof -
    have "revision_reentry s n" using assms that unfolding enter_stage_def by (simp split: if_splits)
    then show ?thesis by (simp add: revision_reentry_def)
  qed
qed

lemma cmd_start_order:
  assumes "cmd_start n ext s = Inr s'"
  shows "status_of s' = (status_of s)(n := Some InProgress)"
    and "status_of s n = None \<Longrightarrow> \<forall>k \<in> set (takeWhile (\<lambda>k. k \<noteq> n) (stage_plan s')). status_of s k = Some Completed"
    and "status_of s n = Some Completed \<Longrightarrow> n = 1 \<and> last_failure_reason s = Some ''design_revision''"
    and "status_of s n \<noteq> Some InProgress"
proof -
  obtain s1 where e: "enter_stage s1 n = Inr s'" and s1: "status_of s1 = status_of s"
      "last_failure_reason s1 = last_failure_reason s"
    by (rule cmd_start_enter [OF assms]) (rule that)
  note o = enter_stage_order [OF e]
  show "status_of s' = (status_of s)(n := Some InProgress)" using o(1) s1 by simp
  show "\<forall>k \<in> set (takeWhile (\<lambda>k. k \<noteq> n) (stage_plan s')). status_of s k = Some Completed" if "status_of s n = None"
    using o(2,3) s1 that by (auto simp: missing_before_def filter_empty_conv)
  show "n = 1 \<and> last_failure_reason s = Some ''design_revision''" if "status_of s n = Some Completed"
    using o(4) s1 that by simp
  show "status_of s n \<noteq> Some InProgress" using o(5) s1 by simp
qed

lemma cmd_complete_order:
  assumes "cmd_complete fs base gate n s = Inr s'"
  shows "gate" and "status_of s n = Some InProgress" and "status_of s' = (status_of s)(n := Some Completed)"
  using assms by (auto simp: cmd_complete_def Let_def split: if_splits option.splits)

lemma cmd_fail_order:
  assumes "cmd_fail fs base n reason ft blocked s = Inr s'" and "status_of s' k \<noteq> status_of s k"
  shows "status_of s' k \<noteq> Some InProgress" and "status_of s' k \<noteq> Some Completed"
    and "status_of s k = Some Completed \<Longrightarrow> reason = Some ''design_revision''"
  using assms
  by (auto simp: cmd_fail_def Let_def revise_def count_failure_def split: if_splits option.splits)

text \<open>A new operator with the default plan, before and after its design is started.\<close>

definition sample_args :: init_args where
  "sample_args = \<lparr>ia_project = ''p'', ia_op = ''add'', ia_scenario = NewOp, ia_mode = None, ia_requirement = None,
     ia_max_retry = 3, ia_stage_plan = None, ia_design_path = [], ia_kernel_path = []\<rparr>"

definition sample_task :: stage_state where
  "sample_task = projr (cmd_init ''op'' sample_args None)"

definition sample_started :: stage_state where
  "sample_started = projr (apply_command (\<lambda>_. None) ''op'' (Start 1 False) sample_task)"

lemma sample_start: "apply_command (\<lambda>_. None) ''op'' (Start 1 False) sample_task = Inr sample_started"
proof -
  have "\<not> isl (apply_command (\<lambda>_. None) ''op'' (Start 1 False) sample_task)" by code_simp
  then show ?thesis unfolding sample_started_def by simp
qed

lemma sample_reachable: "stage_reachable ''op'' sample_task" "stage_reachable ''op'' sample_started"
proof -
  have "\<not> isl (cmd_init ''op'' sample_args None)" by code_simp
  then have "cmd_init ''op'' sample_args None = Inr sample_task" unfolding sample_task_def by simp
  then show task: "stage_reachable ''op'' sample_task" by (intro first) (auto simp: stage_created_def)
  show "stage_reachable ''op'' sample_started"
    using task
  proof (rule later)
    show "stage_run ''op'' (\<lambda>_. None, Start 1 False) sample_task = Inr sample_started"
      unfolding stage_run_def fst_conv snd_conv by (rule sample_start)
  qed
qed

section \<open>Properties\<close>

text \<open>
  C2: in every state a task can reach at most one stage is in progress, no stage has failed more
  often than its limit, a failure reason is set exactly in the phase FAILED and is one of the
  blocked codes, a task is DONE only with every stage of its plan completed or with the tuning
  stage at its limit, and a task that is not over has a stage of its plan left to complete.
\<close>

theorem stage_machine_invariant:
  assumes "stage_reachable base s"
  shows "(\<forall>n m. status_of s n = Some InProgress \<and> status_of s m = Some InProgress \<longrightarrow> n = m) \<and>
    (\<forall>n l. stage_retry_limit n = Some l \<longrightarrow> stage_retry_count s n \<le> l) \<and>
    (ss_phase s = FAILED \<longleftrightarrow> failure_reason s \<noteq> None) \<and> state_schema_ok s \<and>
    (ss_phase s = DONE \<longrightarrow> (\<forall>n \<in> set (stage_plan s). status_of s n = Some Completed) \<or>
       status_of s 4 = Some Failed \<and> stage_retry_limit 4 = Some (stage_retry_count s 4)) \<and>
    (\<not> terminal (ss_phase s) \<longrightarrow> ss_phase s = stage_phase (current_stage s) \<and>
       (\<exists>n \<in> set (stage_plan s). status_of s n \<noteq> Some Completed))"
proof -
  have inv: "stage_inv s" using assms by (rule stages.reaches_inv)
  then have b: "base_inv s" by (simp add: stage_inv_def)
  consider (running) "running_inv s" | (finished) "done_inv s" | (failed) "failed_inv s"
    using inv by (auto simp: stage_inv_def)
  then show ?thesis
  proof cases
    case running
    then have "ss_phase s \<noteq> FAILED" "ss_phase s \<noteq> DONE" "failure_reason s = None" by (auto simp: running_inv_def)
    then show ?thesis using b running by (simp add: base_inv_def running_inv_def state_schema_ok_def)
  next
    case finished
    have "stage_retry_count s 4 = l" if "retries_used_up s 4" "stage_retry_limit 4 = Some l" for l
      using b that by (auto simp: base_inv_def retries_used_up_iff intro: le_antisym)
    then have "retries_used_up s 4 \<Longrightarrow> stage_retry_limit 4 = Some (stage_retry_count s 4)"
      by (auto simp: retries_used_up_iff)
    then show ?thesis using b finished by (cases "retries_used_up s 4") (simp_all add: base_inv_def done_inv_def state_schema_ok_def)
  next
    case failed
    then show ?thesis using b by (auto simp: base_inv_def failed_inv_def state_schema_ok_def)
  qed
qed

theorem stage_machine_invariant_witness:
  "ss_phase sample_started = DESIGN \<and> stage_retry_count sample_started 1 \<le> 3 \<and>
   (\<exists>n \<in> set (stage_plan sample_started). status_of sample_started n \<noteq> Some Completed)"
proof -
  have "ss_phase sample_started = DESIGN" unfolding sample_started_def by code_simp
  then show ?thesis
    using stage_machine_invariant [OF sample_reachable(2)] by (simp add: terminal_def stage_retry_limit_def)
qed

text \<open>
  C9: starting, completing and failing stages cannot go on for ever: from a task that has not
  failed the commands that succeed follow a well-founded order, whatever the files, the gates and
  the arguments, so the budgets for revisions and retries bound every run.
\<close>

theorem stage_machine_terminates:
  "wf {(s', s). stage_reachable base s \<and> ss_phase s \<noteq> FAILED \<and>
                (\<exists>fs c. moves c \<and> apply_command fs base c s = Inr s')}"
  by (rule wf_subset [OF stages.moving_wf [of base]]) (auto simp: stage_run_def)

text \<open>
  C16: no task is stuck: from every state that is not over there are commands that start the next
  stage of the plan or complete the one in progress, with gates that pass, and they lead to DONE.
\<close>

theorem stage_machine_live:
  assumes "stage_reachable base s" and "ss_phase s \<noteq> FAILED"
  shows "\<exists>s'. (advances fs base)\<^sup>*\<^sup>* s s' \<and> ss_phase s' = DONE"
proof -
  have "stage_inv s \<Longrightarrow> ss_phase s \<noteq> FAILED \<Longrightarrow> \<exists>s'. (advances fs base)\<^sup>*\<^sup>* s s' \<and> ss_phase s' = DONE" for s
  proof (induction "work_left s" arbitrary: s rule: less_induct)
    case less
    show ?case
    proof (cases "ss_phase s = DONE")
      case False
      then have nt: "\<not> terminal (ss_phase s)" using less.prems by (simp add: terminal_def)
      obtain s1 where s1: "advances fs base s s1" "work_left s1 < work_left s" "ss_phase s1 \<noteq> FAILED"
        by (rule can_advance [OF less.prems(1) nt])
      then show ?thesis using less.hyps advances_inv [OF s1(1) less.prems(1)]
        by (meson converse_rtranclp_into_rtranclp)
    qed auto
  qed
  then show ?thesis using assms stages.reaches_inv by blast
qed

theorem stage_machine_live_witness:
  "\<exists>s'. (advances (\<lambda>_. None) ''op'')\<^sup>*\<^sup>* sample_started s' \<and> ss_phase s' = DONE"
proof (rule stage_machine_live [OF sample_reachable(2)])
  show "ss_phase sample_started \<noteq> FAILED" unfolding sample_started_def by code_simp
qed

text \<open>
  C15: a stage is entered for the first time only by starting it when every stage before it in the
  plan is completed; it becomes completed only by completing it while in progress with a gate that
  passes; and a completed stage is opened again only in a revision of the design.
\<close>

theorem stage_order:
  assumes "apply_command fs base c s = Inr s'"
  shows "(status_of s n \<noteq> Some InProgress \<and> status_of s' n = Some InProgress \<longrightarrow>
       (\<exists>ext. c = Start n ext) \<and>
       (status_of s n = None \<longrightarrow>
          (\<forall>k \<in> set (takeWhile (\<lambda>k. k \<noteq> n) (stage_plan s')). status_of s k = Some Completed))) \<and>
    (status_of s n \<noteq> Some Completed \<and> status_of s' n = Some Completed \<longrightarrow>
       c = Complete n True \<and> status_of s n = Some InProgress) \<and>
    (status_of s n = Some Completed \<and> status_of s' n \<noteq> Some Completed \<longrightarrow>
       (\<exists>ext. c = Start 1 ext \<and> n = 1 \<and> last_failure_reason s = Some ''design_revision'') \<or>
       (\<exists>m ft blocked. c = Fail m (Some ''design_revision'') ft blocked))"
proof (cases c)
  case (Start m ext)
  then have "cmd_start m ext s = Inr s'" using assms by (simp add: apply_command_def)
  note o = cmd_start_order [OF this]
  show ?thesis using Start o by (cases "m = n") auto
next
  case (Complete m gate)
  then have "cmd_complete fs base gate m s = Inr s'" using assms by (simp add: apply_command_def)
  note o = cmd_complete_order [OF this]
  show ?thesis using Complete o by (cases "m = n") simp_all
next
  case (Fail m reason ft blocked)
  then have "cmd_fail fs base m reason ft blocked s = Inr s'" using assms by (simp add: apply_command_def)
  note o = cmd_fail_order [OF this, of n]
  show ?thesis using Fail o by (cases "status_of s' n = status_of s n") auto
next
  case (SetFields a)
  then have "status_of s' = status_of s"
    using assms set_fields_keep(2) by (simp add: apply_command_def)
  then show ?thesis by simp
next
  case Snapshot
  then have "status_of s' = status_of s" using assms by (auto simp: apply_command_def)
  then show ?thesis by simp
qed

theorem stage_order_witness:
  "status_of sample_started 1 = Some InProgress \<and>
   list_all (\<lambda>k. status_of sample_task k = Some Completed) (takeWhile (\<lambda>k. k \<noteq> 1) (stage_plan sample_started))"
proof -
  have fresh: "status_of sample_task 1 = None" "status_of sample_task 1 \<noteq> Some InProgress" by code_simp+
  have running: "status_of sample_started 1 = Some InProgress" unfolding sample_started_def by code_simp
  note o = stage_order [OF sample_start, of 1, THEN conjunct1, THEN mp, OF conjI [OF fresh(2) running]]
  show ?thesis using running mp [OF conjunct2 [OF o] fresh(1)] unfolding list_all_iff by (rule conjI)
qed

end
