(* ===== verification/StateSchema.thy ===== *)
theory StateSchema
  imports StageControl "HOL-Library.List_Lexorder" "HOL-Library.Char_ord"
begin

text \<open>
  The state file as JSON, from \<^verbatim>\<open>.agents/tools/gate_lint.py\<close> (the schema, \<^verbatim>\<open>state_schema_lint\<close>,
  \<^verbatim>\<open>state_backfill\<close>) and the commands of \<^verbatim>\<open>statectl.py\<close> that read a file they cannot trust
  (\<^verbatim>\<open>verify\<close>, \<^verbatim>\<open>repair\<close>). The theory links the typed state of the stage machine with the file: a state
  the machine can reach is written as a file that passes the schema and that loading leaves alone.

  A JSON object is a list of fields with distinct names. Python raises where a value of the wrong
  type meets an operation (a list as a set member, \<^verbatim>\<open>items\<close> of a string); these are exceptions here.
\<close>

section \<open>JSON values\<close>

datatype json =
    JNull
  | JBool bool
  | JInt int
  | JFloat rat
  | JStr string
  | JList "json list"
  | JDict "(string \<times> json) list"

type_synonym jdict = "(string \<times> json) list"

definition truthy :: "json \<Rightarrow> bool" where
  "truthy v = (case v of JNull \<Rightarrow> False | JBool b \<Rightarrow> b | JInt i \<Rightarrow> i \<noteq> 0 | JFloat r \<Rightarrow> r \<noteq> 0
     | JStr s \<Rightarrow> s \<noteq> [] | JList l \<Rightarrow> l \<noteq> [] | JDict d \<Rightarrow> d \<noteq> [])"

definition hashable :: "json \<Rightarrow> bool" where
  "hashable v = (case v of JList _ \<Rightarrow> False | JDict _ \<Rightarrow> False | _ \<Rightarrow> True)"

definition jget :: "jdict \<Rightarrow> string \<Rightarrow> json" where
  "jget d k = (case map_of d k of Some v \<Rightarrow> v | None \<Rightarrow> JNull)"

text \<open>Membership in a set of strings, and the fields of what should be an object.\<close>

definition in_enum :: "json \<Rightarrow> string list \<Rightarrow> bool res" where
  "in_enum v names = (if hashable v then Inr (v \<in> JStr ` set names) else Inl TypeError)"

definition items_or_empty :: "json \<Rightarrow> jdict res" where
  "items_or_empty v =
     (if \<not> truthy v then Inr [] else case v of JDict d \<Rightarrow> Inr d | _ \<Rightarrow> Inl AttributeError)"

definition contains_key :: "string \<Rightarrow> json \<Rightarrow> bool res" where
  "contains_key k v =
     (if \<not> truthy v then Inr False
      else case v of
        JDict d \<Rightarrow> Inr (k \<in> set (map fst d))
      | JList l \<Rightarrow> Inr (JStr k \<in> set l)
      | JStr s \<Rightarrow> Inr (list_ex (\<lambda>i. take (length k) (drop i s) = k) [0..<length s])
      | _ \<Rightarrow> Inl TypeError)"

section \<open>The schema\<close>

datatype pytype = TStr | TNone | TList | TInt | TDict | TBool

text \<open>A Python bool is an int.\<close>

definition isinstance_json :: "json \<Rightarrow> pytype \<Rightarrow> bool" where
  "isinstance_json v t =
     (case v of JNull \<Rightarrow> t = TNone | JBool _ \<Rightarrow> t = TBool \<or> t = TInt | JInt _ \<Rightarrow> t = TInt | JFloat _ \<Rightarrow> False
      | JStr _ \<Rightarrow> t = TStr | JList _ \<Rightarrow> t = TList | JDict _ \<Rightarrow> t = TDict)"

definition state_schema :: "(string \<times> pytype list) list" where
  "state_schema =
     [(''task_id'', [TStr]), (''project_name'', [TStr]), (''operator_name'', [TStr]), (''scenario'', [TStr]),
      (''migration_mode'', [TStr, TNone]), (''stage_plan'', [TList]), (''phase'', [TStr]),
      (''user_requirement'', [TStr, TNone]), (''design_md_path'', [TStr, TNone]),
      (''review_md_path'', [TStr, TNone]), (''kernel_py_path'', [TStr, TNone]),
      (''kernel_opt_py_path'', [TStr, TNone]), (''retry_count'', [TInt]), (''max_retry'', [TInt]),
      (''final_artifact'', [TStr, TNone]), (''stage_status'', [TDict]), (''stage_retry_count'', [TDict]),
      (''stage3_failure_breakdown'', [TDict]), (''perf_iteration'', [TDict]),
      (''perf_tuning_requested'', [TStr, TNone, TBool]), (''env_check_passed'', [TBool]),
      (''failure_reason'', [TStr, TNone])]"

definition phase_names :: "string list" where
  "phase_names = [''INIT'', ''SCAFFOLD'', ''DESIGN'', ''REVIEW'', ''DEVELOP'', ''TUNING'', ''INTEGRATE'', ''DONE'', ''FAILED'']"

definition scenario_names :: "string list" where
  "scenario_names = [''new_op'', ''migration'', ''optimize'']"

definition mode_names :: "string list" where
  "mode_names = [''harness'', ''plain'']"

definition status_names :: "string list" where
  "status_names = [''in_progress'', ''completed'', ''failed'']"

definition stage_keys :: "string list" where
  "stage_keys = [''0'', ''1'', ''2'', ''3'', ''4'', ''5'']"

datatype lint_issue =
    Schema_Missing string
  | Schema_Type string
  | Schema_Enum string
  | Schema_Status string

definition field_issues :: "jdict \<Rightarrow> (string \<times> pytype list) \<Rightarrow> lint_issue list" where
  "field_issues d f =
     (case map_of d (fst f) of
        None \<Rightarrow> [Schema_Missing (fst f)]
      | Some v \<Rightarrow> if list_ex (isinstance_json v) (snd f) then [] else [Schema_Type (fst f)])"

definition enum_issue :: "jdict \<Rightarrow> bool \<Rightarrow> string \<Rightarrow> string list \<Rightarrow> lint_issue list res" where
  "enum_issue d optional field names =
     (if optional \<and> jget d field = JNull then Inr []
      else rbind (in_enum (jget d field) names) (\<lambda>b. Inr (if b then [] else [Schema_Enum field])))"

definition status_issue :: "string \<times> json \<Rightarrow> lint_issue list res" where
  "status_issue kv =
     (if snd kv = JNull then Inr []
      else rbind (in_enum (snd kv) status_names) (\<lambda>b. Inr (if b then [] else [Schema_Status (fst kv)])))"

definition state_schema_lint :: "jdict \<Rightarrow> (lint_issue list \<times> string list) res" where
  "state_schema_lint d =
     rbind (enum_issue d False ''scenario'' scenario_names) (\<lambda>e1.
     rbind (enum_issue d False ''phase'' phase_names) (\<lambda>e2.
     rbind (enum_issue d True ''migration_mode'' mode_names) (\<lambda>e3.
     rbind (enum_issue d True ''failure_reason'' blocked_codes) (\<lambda>e4.
     rbind (items_or_empty (jget d ''stage_status'')) (\<lambda>st.
     rbind (rmap status_issue st) (\<lambda>e5.
     rbind (rmap (\<lambda>k. rbind (contains_key k (jget d ''stage_retry_count'')) (\<lambda>b. Inr (if b then [] else [k]))) stage_keys) (\<lambda>ws.
       Inr (concat (map (field_issues d) state_schema) @ e1 @ e2 @ e3 @ e4 @ concat e5, concat ws))))))))"

section \<open>Filling in defaults\<close>

definition default_breakdown :: jdict where
  "default_breakdown = [(''runtime_fail'', JInt 0), (''precision_fail'', JInt 0)]"

definition default_perf_iteration :: jdict where
  "default_perf_iteration = [(''count'', JInt 0), (''last_improvement'', JFloat 0), (''consecutive_no_improvement'', JInt 0)]"

definition default_budget :: jdict where
  "default_budget = [(''max_wallclock_s'', JNull), (''max_subagent_dispatches'', JNull), (''max_stage4_experiments'', JNull)]"

definition default_state :: jdict where
  "default_state =
     [(''task_id'', JStr []), (''project_name'', JStr []), (''operator_name'', JStr []),
      (''scenario'', JStr ''new_op''), (''migration_mode'', JNull), (''stage_plan'', JList [JInt 1, JInt 2, JInt 3]),
      (''phase'', JStr ''INIT''), (''user_requirement'', JNull), (''design_md_path'', JNull),
      (''review_md_path'', JNull), (''kernel_py_path'', JNull), (''kernel_opt_py_path'', JNull),
      (''retry_count'', JInt 0), (''max_retry'', JInt 3), (''final_artifact'', JNull), (''stage_status'', JDict []),
      (''stage_retry_count'', JDict (map (\<lambda>k. (k, JInt 0)) stage_keys)),
      (''stage3_failure_breakdown'', JDict default_breakdown), (''perf_iteration'', JDict default_perf_iteration),
      (''perf_tuning_requested'', JNull), (''env_check_passed'', JBool False), (''failure_reason'', JNull),
      (''perf_feedback'', JNull), (''budget'', JDict default_budget)]"

definition jsetdefault :: "string \<times> json \<Rightarrow> jdict \<Rightarrow> jdict" where
  "jsetdefault kv d = (if map_of d (fst kv) = None then d @ [kv] else d)"

definition dict_or :: "jdict \<Rightarrow> string \<Rightarrow> jdict \<Rightarrow> jdict" where
  "dict_or d k new = (case jget d k of JDict x \<Rightarrow> x | _ \<Rightarrow> new)"

definition state_backfill :: "jdict \<Rightarrow> jdict" where
  "state_backfill state =
     (let filled = fold jsetdefault default_state state;
          retry = fold jsetdefault (map (\<lambda>k. (k, JInt 0)) stage_keys) (dict_or filled ''stage_retry_count'' []);
          filled = AList.update ''stage_retry_count'' (JDict retry) filled;
          filled = AList.update ''stage_status'' (JDict (dict_or filled ''stage_status'' [])) filled;
          filled = AList.update ''stage3_failure_breakdown''
            (JDict (dict_or filled ''stage3_failure_breakdown'' default_breakdown)) filled;
          filled = AList.update ''perf_iteration'' (JDict (dict_or filled ''perf_iteration'' default_perf_iteration)) filled;
          filled = jsetdefault (''artifact_hashes'', JDict []) filled;
          filled = jsetdefault (''last_failure_reason'', JNull) filled
      in AList.update ''budget'' (JDict (dict_or filled ''budget'' default_budget)) filled)"

section \<open>The file of a typed state\<close>

definition phase_name :: "phase \<Rightarrow> string" where
  "phase_name ph = (case ph of INIT \<Rightarrow> ''INIT'' | SCAFFOLD \<Rightarrow> ''SCAFFOLD'' | DESIGN \<Rightarrow> ''DESIGN'' | REVIEW \<Rightarrow> ''REVIEW''
     | DEVELOP \<Rightarrow> ''DEVELOP'' | TUNING \<Rightarrow> ''TUNING'' | INTEGRATE \<Rightarrow> ''INTEGRATE'' | DONE \<Rightarrow> ''DONE'' | FAILED \<Rightarrow> ''FAILED'')"

definition scenario_name :: "scenario \<Rightarrow> string" where
  "scenario_name sc = (case sc of NewOp \<Rightarrow> ''new_op'' | Migration \<Rightarrow> ''migration'' | Optimize \<Rightarrow> ''optimize'')"

definition mode_name :: "migration_mode \<Rightarrow> string" where
  "mode_name m = (case m of Harness \<Rightarrow> ''harness'' | Plain \<Rightarrow> ''plain'')"

definition status_name :: "stage_status \<Rightarrow> string" where
  "status_name st = (case st of InProgress \<Rightarrow> ''in_progress'' | Completed \<Rightarrow> ''completed'' | Failed \<Rightarrow> ''failed'')"

definition jopt :: "string option \<Rightarrow> json" where
  "jopt v = (case v of None \<Rightarrow> JNull | Some s \<Rightarrow> JStr s)"

definition encode_status :: "stage_state \<Rightarrow> jdict" where
  "encode_status s =
     List.map_filter (\<lambda>n. map_option (\<lambda>st. (stage_keys ! n, JStr (status_name st))) (status_of s n)) [0..<6]"

text \<open>The fields in the order in which \<^verbatim>\<open>init\<close> and the back-fill create them.\<close>

definition encode_state :: "string \<Rightarrow> string \<Rightarrow> stage_state \<Rightarrow> jdict" where
  "encode_state tid ts s =
     [(''task_id'', JStr tid), (''project_name'', JStr (project_name s)), (''operator_name'', JStr (operator_name s)),
      (''scenario'', JStr (scenario_name (ss_scenario s))),
      (''migration_mode'', jopt (map_option mode_name (ss_migration_mode s))),
      (''stage_plan'', JList (map (\<lambda>n. JInt (int n)) (stage_plan s))), (''phase'', JStr (phase_name (ss_phase s))),
      (''current_stage'', JInt (int (current_stage s))), (''user_requirement'', jopt (user_requirement s)),
      (''design_md_path'', JStr (design_md_path s)), (''review_md_path'', JStr (review_md_path s)),
      (''kernel_py_path'', JStr (kernel_py_path s)), (''kernel_opt_py_path'', JStr (kernel_opt_py_path s)),
      (''retry_count'', JInt (retry_count s)), (''max_retry'', JInt (max_retry s)),
      (''final_artifact'', jopt (final_artifact s)), (''stage_status'', JDict (encode_status s)),
      (''stage_retry_count'', JDict (map (\<lambda>n. (stage_keys ! n, JInt (int (stage_retry_count s n)))) [0..<6])),
      (''stage3_failure_breakdown'', JDict [(''runtime_fail'', JInt (int (runtime_fail s))),
         (''precision_fail'', JInt (int (precision_fail s)))]),
      (''perf_iteration'', JDict [(''count'', JInt (pi_count (ss_perf_iteration s))),
         (''last_improvement'', JFloat (pi_last_improvement (ss_perf_iteration s))),
         (''consecutive_no_improvement'', JInt (pi_no_improvement (ss_perf_iteration s)))]),
      (''perf_tuning_requested'', jopt (perf_tuning_requested s)), (''env_check_passed'', JBool (env_check_passed s)),
      (''failure_reason'', jopt (failure_reason s)),
      (''artifact_hashes'', JDict (map (\<lambda>(p, h). (p, JStr h)) (artifact_hashes s))),
      (''last_updated'', JStr ts),
      (''perf_feedback'', (case perf_feedback s of None \<Rightarrow> JNull
         | Some (p, a) \<Rightarrow> JDict [(''path'', JStr p), (''action'', JStr a)])),
      (''budget'', JDict (map (\<lambda>(k, v). (k, case v of None \<Rightarrow> JNull | Some r \<Rightarrow> JFloat r)) (budget s))),
      (''last_failure_reason'', jopt (last_failure_reason s))]"

section \<open>Repair on the file\<close>

record repair_report =
  rp_fixes :: "string list"
  rp_schema :: "lint_issue list"
  rp_drift :: "string list"
  rp_running :: "string list"

text \<open>
  The command \<^verbatim>\<open>repair\<close> on a file that parses as an object: its report and the file it writes, if any.
\<close>

definition cmd_repair :: "files \<Rightarrow> bool \<Rightarrow> jdict \<Rightarrow> (repair_report \<times> jdict option) res" where
  "cmd_repair fs apply_flag raw =
     (let state = state_backfill raw;
          fixes = sort (filter (\<lambda>k. k \<notin> set (map fst raw)) (map fst state))
      in rbind (state_schema_lint state) (\<lambda>(problems, _).
         rbind (items_or_empty (jget state ''artifact_hashes'')) (\<lambda>hs.
           let drift = List.map_filter (\<lambda>(rel, digest).
                 case fs rel of None \<Rightarrow> None | Some current \<Rightarrow> if JStr current \<noteq> digest then Some rel else None) hs;
               running = map fst (filter (\<lambda>kv. snd kv = JStr ''in_progress'') (dict_or state ''stage_status'' []))
           in Inr (\<lparr>rp_fixes = fixes, rp_schema = problems, rp_drift = drift,
                    rp_running = (if 1 < length running then running else [])\<rparr>,
                   if fixes \<noteq> [] \<and> apply_flag then Some state else None))))"

section \<open>Objects\<close>

lemma jsetdefault_present [simp]: "map_of d (fst kv) \<noteq> None \<Longrightarrow> jsetdefault kv d = d"
  by (simp add: jsetdefault_def)

lemma map_of_jsetdefault:
  "map_of (jsetdefault kv d) k = (if map_of d k = None \<and> k = fst kv then Some (snd kv) else map_of d k)"
  by (cases kv) (auto simp: jsetdefault_def map_add_def split: option.splits)

lemma fold_jsetdefault_present: "(\<forall>kv \<in> set kvs. map_of d (fst kv) \<noteq> None) \<Longrightarrow> fold jsetdefault kvs d = d"
  by (induction kvs) simp_all

lemma map_of_fold_jsetdefault:
  "map_of (fold jsetdefault kvs d) k = (case map_of d k of None \<Rightarrow> map_of kvs k | Some v \<Rightarrow> Some v)"
proof (induction kvs arbitrary: d)
  case (Cons kv kvs)
  then show ?case by (cases kv) (auto simp: map_of_jsetdefault split: option.splits)
qed (simp split: option.splits)

lemma jget_encode [simp]:
  "jget (encode_state tid ts s) ''scenario'' = JStr (scenario_name (ss_scenario s))"
  "jget (encode_state tid ts s) ''phase'' = JStr (phase_name (ss_phase s))"
  "jget (encode_state tid ts s) ''migration_mode'' = jopt (map_option mode_name (ss_migration_mode s))"
  "jget (encode_state tid ts s) ''failure_reason'' = jopt (failure_reason s)"
  "jget (encode_state tid ts s) ''stage_status'' = JDict (encode_status s)"
  "jget (encode_state tid ts s) ''operator_name'' = JStr (operator_name s)"
  "jget (encode_state tid ts s) ''design_md_path'' = JStr (design_md_path s)"
  "jget (encode_state tid ts s) ''review_md_path'' = JStr (review_md_path s)"
  "jget (encode_state tid ts s) ''kernel_py_path'' = JStr (kernel_py_path s)"
  "jget (encode_state tid ts s) ''kernel_opt_py_path'' = JStr (kernel_opt_py_path s)"
  "jget (encode_state tid ts s) ''artifact_hashes'' = JDict (map (\<lambda>(p, h). (p, JStr h)) (artifact_hashes s))"
  by (simp_all add: jget_def encode_state_def)

lemma field_issues_encode: "concat (map (field_issues (encode_state tid ts s)) state_schema) = []"
  by (simp add: state_schema_def field_issues_def encode_state_def isinstance_json_def jopt_def split: option.splits)

section \<open>A typed state passes the schema\<close>

lemma hashable_JStr [simp]: "hashable (JStr s)" "hashable JNull"
  by (simp_all add: hashable_def)

lemma in_enum_JStr [simp]: "in_enum (JStr s) names = Inr (s \<in> set names)"
  by (auto simp: in_enum_def)

lemma names_in_enum [simp]:
  "scenario_name sc \<in> set scenario_names" "phase_name ph \<in> set phase_names" "mode_name m \<in> set mode_names"
  "status_name st \<in> set status_names"
proof -
  show "scenario_name sc \<in> set scenario_names" by (cases sc) (simp_all add: scenario_name_def scenario_names_def)
  show "phase_name ph \<in> set phase_names" by (cases ph) (simp_all add: phase_name_def phase_names_def)
  show "mode_name m \<in> set mode_names" by (cases m) (simp_all add: mode_name_def mode_names_def)
  show "status_name st \<in> set status_names" by (cases st) (simp_all add: status_name_def status_names_def)
qed

lemma enum_issue_encode:
  "enum_issue (encode_state tid ts s) False ''scenario'' scenario_names = Inr []"
  "enum_issue (encode_state tid ts s) False ''phase'' phase_names = Inr []"
  "enum_issue (encode_state tid ts s) True ''migration_mode'' mode_names = Inr []"
  "enum_issue (encode_state tid ts s) True ''failure_reason'' blocked_codes =
     Inr (if state_schema_ok s then [] else [Schema_Enum ''failure_reason''])"
  by (simp_all add: enum_issue_def jopt_def state_schema_ok_def split: option.splits)

lemma items_or_empty_JDict [simp]: "items_or_empty (JDict d) = Inr d"
  by (simp add: items_or_empty_def truthy_def)

lemma encode_status_iff:
  "kv \<in> set (encode_status s) \<longleftrightarrow> (\<exists>n < 6. \<exists>st. status_of s n = Some st \<and> kv = (stage_keys ! n, JStr (status_name st)))"
  by (force simp: encode_status_def List.map_filter_def)

lemma status_issue_encode:
  assumes "\<forall>kv \<in> set kvs. \<exists>st. snd kv = JStr (status_name st)"
  shows "rmap status_issue kvs = Inr (map (\<lambda>_. []) kvs)"
proof -
  have "rmap status_issue kvs = rmap (\<lambda>_. Inr []) kvs"
    using assms by (intro rmap_cong) (auto simp: status_issue_def)
  then show ?thesis by simp
qed

lemma retry_keys_encode:
  "rmap (\<lambda>k. rbind (contains_key k (jget (encode_state tid ts s) ''stage_retry_count'')) (\<lambda>b. Inr (if b then [] else [k]))) stage_keys
   = Inr (map (\<lambda>_. []) stage_keys)"
  by (simp add: stage_keys_def contains_key_def truthy_def jget_def encode_state_def upt_rec)

lemma concat_Nils [simp]: "concat (map (\<lambda>_. []) xs) = []"
  by (induction xs) simp_all

lemma state_schema_lint_encode:
  "state_schema_lint (encode_state tid ts s) =
     Inr (if state_schema_ok s then [] else [Schema_Enum ''failure_reason''], [])"
proof -
  have "rmap status_issue (encode_status s) = Inr (map (\<lambda>_. []) (encode_status s))"
    by (rule status_issue_encode) (auto simp: encode_status_iff)
  then show ?thesis
    by (simp only: state_schema_lint_def enum_issue_encode rbind_simps jget_encode items_or_empty_JDict
        retry_keys_encode field_issues_encode concat_Nils append_Nil append_Nil2)
qed

lemma encode_has:
  "map_of (encode_state tid ts s) ''stage_status'' = Some (JDict (encode_status s))"
  "map_of (encode_state tid ts s) ''stage_retry_count'' =
     Some (JDict (map (\<lambda>n. (stage_keys ! n, JInt (int (stage_retry_count s n)))) [0..<6]))"
  "map_of (encode_state tid ts s) ''artifact_hashes'' \<noteq> None"
  "map_of (encode_state tid ts s) ''last_failure_reason'' \<noteq> None"
  "\<exists>d. map_of (encode_state tid ts s) ''stage3_failure_breakdown'' = Some (JDict d)"
  "\<exists>d. map_of (encode_state tid ts s) ''perf_iteration'' = Some (JDict d)"
  "\<exists>d. map_of (encode_state tid ts s) ''budget'' = Some (JDict d)"
  by (simp_all add: encode_state_def)

lemma backfill_dict_same:
  assumes "map_of d k = Some (JDict x)"
  shows "AList.update k (JDict (dict_or d k new)) d = d"
  using assms by (simp add: dict_or_def jget_def update_same)

text \<open>A file with every field, and objects where objects belong, is left alone.\<close>

lemma backfill_fixpoint:
  assumes present: "\<forall>kv \<in> set default_state. map_of d (fst kv) \<noteq> None"
    "map_of d ''artifact_hashes'' \<noteq> None" "map_of d ''last_failure_reason'' \<noteq> None"
    and retry: "map_of d ''stage_retry_count'' = Some (JDict r)" "\<forall>k \<in> set stage_keys. map_of r k \<noteq> None"
    and dicts: "map_of d ''stage_status'' = Some (JDict st)" "map_of d ''stage3_failure_breakdown'' = Some (JDict b)"
      "map_of d ''perf_iteration'' = Some (JDict p)" "map_of d ''budget'' = Some (JDict g)"
  shows "state_backfill d = d"
proof -
  have f: "fold jsetdefault default_state d = d" using present(1) by (rule fold_jsetdefault_present)
  have "dict_or d ''stage_retry_count'' [] = r" using retry(1) by (simp add: dict_or_def jget_def)
  moreover have "fold jsetdefault (map (\<lambda>k. (k, JInt 0)) stage_keys) r = r"
    using retry(2) by (intro fold_jsetdefault_present) simp
  ultimately have r: "AList.update ''stage_retry_count''
      (JDict (fold jsetdefault (map (\<lambda>k. (k, JInt 0)) stage_keys) (dict_or d ''stage_retry_count'' []))) d = d"
    using retry(1) by (simp add: update_same)
  show ?thesis
    unfolding state_backfill_def Let_def f r backfill_dict_same [OF dicts(1)] backfill_dict_same [OF dicts(2)]
      backfill_dict_same [OF dicts(3)]
    using present(2,3) by (simp add: backfill_dict_same [OF dicts(4)])
qed

lemma state_backfill_encode: "state_backfill (encode_state tid ts s) = encode_state tid ts s"
proof -
  let ?d = "encode_state tid ts s"
  obtain b p g where dicts: "map_of ?d ''stage3_failure_breakdown'' = Some (JDict b)"
    "map_of ?d ''perf_iteration'' = Some (JDict p)" "map_of ?d ''budget'' = Some (JDict g)"
    using encode_has(5-7) by meson
  show ?thesis
  proof (rule backfill_fixpoint [OF _ encode_has(3,4,2) _ encode_has(1) dicts])
    show "\<forall>kv \<in> set default_state. map_of ?d (fst kv) \<noteq> None" by (simp add: default_state_def encode_state_def)
    show "\<forall>k \<in> set stage_keys. map_of (map (\<lambda>n. (stage_keys ! n, JInt (int (stage_retry_count s n)))) [0..<6]) k \<noteq> None"
      by (simp add: stage_keys_def upt_rec)
  qed
qed

section \<open>What the back-fill repairs\<close>

text \<open>The fields the back-fill may replace although they are there.\<close>

definition dict_fields :: "string list" where
  "dict_fields = [''stage_retry_count'', ''stage_status'', ''stage3_failure_breakdown'', ''perf_iteration'', ''budget'']"

lemma jget_update: "jget (AList.update k v d) k' = (if k' = k then v else jget d k')"
  by (simp add: jget_def update_conv')

lemma map_of_update: "map_of (AList.update k v d) = (map_of d)(k \<mapsto> v)"
  by (simp add: update_conv')

lemma dict_or_update: "dict_or (AList.update k v d) k' new = (if k' = k then (case v of JDict x \<Rightarrow> x | _ \<Rightarrow> new) else dict_or d k' new)"
  by (simp add: dict_or_def jget_update)

lemma dict_or_jsetdefault: "k \<noteq> fst kv \<Longrightarrow> dict_or (jsetdefault kv d) k new = dict_or d k new"
  by (simp add: dict_or_def jget_def map_of_jsetdefault)

definition filled_retry :: "jdict \<Rightarrow> jdict" where
  "filled_retry d =
     fold jsetdefault (map (\<lambda>k. (k, JInt 0)) stage_keys) (dict_or (fold jsetdefault default_state d) ''stage_retry_count'' [])"

lemma map_of_state_backfill:
  fixes d :: jdict
  defines "f \<equiv> fold jsetdefault default_state d"
  shows "map_of (state_backfill d) k =
    (if k = ''budget'' then Some (JDict (dict_or f ''budget'' default_budget))
     else if k = ''perf_iteration'' then Some (JDict (dict_or f ''perf_iteration'' default_perf_iteration))
     else if k = ''stage3_failure_breakdown'' then Some (JDict (dict_or f ''stage3_failure_breakdown'' default_breakdown))
     else if k = ''stage_status'' then Some (JDict (dict_or f ''stage_status'' []))
     else if k = ''stage_retry_count'' then Some (JDict (filled_retry d))
     else case map_of f k of
       Some v \<Rightarrow> Some v
     | None \<Rightarrow> if k = ''artifact_hashes'' then Some (JDict []) else if k = ''last_failure_reason'' then Some JNull else None)"
  unfolding state_backfill_def Let_def f_def [symmetric] filled_retry_def
  by (simp add: map_of_update map_of_jsetdefault dict_or_update dict_or_jsetdefault split: option.splits)

text \<open>What a field that must be an object gets when it holds something else.\<close>

definition field_default :: "string \<Rightarrow> jdict" where
  "field_default k =
     (if k = ''budget'' then default_budget
      else if k = ''perf_iteration'' then default_perf_iteration
      else if k = ''stage3_failure_breakdown'' then default_breakdown
      else if k = ''stage_retry_count'' then map (\<lambda>n. (n, JInt 0)) stage_keys else [])"

lemma dict_or_filled:
  "map_of d k = Some v \<Longrightarrow> dict_or (fold jsetdefault default_state d) k new = (case v of JDict x \<Rightarrow> x | _ \<Rightarrow> new)"
  by (simp add: dict_or_def jget_def map_of_fold_jsetdefault)

lemma filled_retry_map:
  "map_of (filled_retry d) =
     map_of (dict_or (fold jsetdefault default_state d) ''stage_retry_count'' [] @ map (\<lambda>n. (n, JInt 0)) stage_keys)"
  by (intro ext) (simp add: filled_retry_def map_of_fold_jsetdefault map_add_def split: option.splits)

lemma backfill_dict:
  assumes "k \<in> set dict_fields" and "k \<noteq> ''stage_retry_count''"
  shows "map_of (state_backfill d) k = Some (JDict (dict_or (fold jsetdefault default_state d) k (field_default k)))"
proof -
  consider "k = ''budget''" | "k = ''perf_iteration''" | "k = ''stage3_failure_breakdown''" | "k = ''stage_status''"
    using assms by (auto simp: dict_fields_def)
  then show ?thesis
  proof cases
    case 1 then show ?thesis by (simp only: map_of_state_backfill field_default_def) simp
  next
    case 2 then show ?thesis by (simp only: map_of_state_backfill field_default_def) simp
  next
    case 3 then show ?thesis by (simp only: map_of_state_backfill field_default_def) simp
  next
    case 4 then show ?thesis by (simp only: map_of_state_backfill field_default_def) simp
  qed
qed

lemma backfill_retry: "map_of (state_backfill d) ''stage_retry_count'' = Some (JDict (filled_retry d))"
  by (simp only: map_of_state_backfill) simp

lemma backfill_keeps_dict:
  assumes "map_of d k = Some (JDict x)" and "k \<noteq> ''stage_retry_count''"
  shows "map_of (state_backfill d) k = Some (JDict x)"
proof (cases "k \<in> set dict_fields")
  case True
  then show ?thesis using backfill_dict [OF True assms(2)] dict_or_filled [OF assms(1)] by simp
next
  case False
  then show ?thesis using assms(1) by (simp add: dict_fields_def map_of_state_backfill map_of_fold_jsetdefault)
qed

lemma backfill_replaces:
  assumes "k \<in> set dict_fields" and v: "map_of d k = Some v" "v \<notin> range JDict"
  shows "\<exists>y. map_of (state_backfill d) k = Some (JDict y) \<and> map_of y = map_of (field_default k)"
proof -
  have "(case v of JDict x \<Rightarrow> x | _ \<Rightarrow> new) = new" for new using v(2) by (cases v) auto
  then have new: "dict_or (fold jsetdefault default_state d) k new = new" for new
    by (simp only: dict_or_filled [OF v(1)])
  show ?thesis
  proof (cases "k = ''stage_retry_count''")
    case True
    have "map_of (filled_retry d) = map_of (field_default k)"
      unfolding filled_retry_map new [unfolded True] by (simp add: True field_default_def)
    then show ?thesis unfolding True backfill_retry by blast
  next
    case False
    show ?thesis unfolding backfill_dict [OF assms(1) False] new by blast
  qed
qed

lemma default_fields: "map_of default_state k \<noteq> None \<longleftrightarrow> k \<in> fst ` set default_state"
  by (simp add: map_of_eq_None_iff)

lemma backfill_present:
  assumes "k \<in> fst ` set default_state" shows "map_of (state_backfill d) k \<noteq> None"
  using assms default_fields [of k]
  by (auto simp: map_of_state_backfill map_of_fold_jsetdefault split: option.splits)

lemma filled_retry_keys: "k \<in> set stage_keys \<Longrightarrow> map_of (filled_retry d) k \<noteq> None"
  by (auto simp: filled_retry_def map_of_fold_jsetdefault map_of_map_restrict restrict_map_def split: option.splits)

lemma backfill_idempotent: "state_backfill (state_backfill d) = state_backfill d"
proof (rule backfill_fixpoint)
  show "\<forall>kv \<in> set default_state. map_of (state_backfill d) (fst kv) \<noteq> None"
    using backfill_present by blast
  show "map_of (state_backfill d) ''stage_retry_count'' = Some (JDict (filled_retry d))"
    by (simp add: map_of_state_backfill)
  show "\<forall>k \<in> set stage_keys. map_of (filled_retry d) k \<noteq> None" using filled_retry_keys by blast
qed (simp_all add: map_of_state_backfill split: option.splits)

lemma schema_fields_default: "fst ` set state_schema \<subseteq> fst ` set default_state"
  by (simp add: state_schema_def default_state_def)

lemma enum_issue_cases:
  "enum_issue d opt field names = Inl e \<Longrightarrow> e = TypeError"
  "enum_issue d opt field names = Inr is \<Longrightarrow> Schema_Missing x \<notin> set is"
  "status_issue kv = Inl e \<Longrightarrow> e = TypeError"
  "status_issue kv = Inr is \<Longrightarrow> Schema_Missing x \<notin> set is"
  by (auto simp: enum_issue_def status_issue_def in_enum_def split: if_splits)

lemma backfill_no_missing: "Schema_Missing x \<notin> set (concat (map (field_issues (state_backfill d)) state_schema))"
proof -
  have "Schema_Missing x \<notin> set (field_issues (state_backfill d) f)" if "f \<in> set state_schema" for f
  proof -
    have "map_of (state_backfill d) (fst f) \<noteq> None"
      using that schema_fields_default by (intro backfill_present) blast
    then show ?thesis by (auto simp: field_issues_def split: if_splits)
  qed
  then show ?thesis by auto
qed

lemma backfill_retry_warnings:
  "rmap (\<lambda>k. rbind (contains_key k (jget (state_backfill d) ''stage_retry_count'')) (\<lambda>b. Inr (if b then [] else [k]))) stage_keys
   = Inr (map (\<lambda>_. []) stage_keys)"
proof -
  have "contains_key k (JDict (filled_retry d)) = Inr True" if "k \<in> set stage_keys" for k
  proof -
    have k: "k \<in> fst ` set (filled_retry d)"
      using filled_retry_keys [OF that, of d] by (simp only: map_of_eq_None_iff not_not)
    then have "filled_retry d \<noteq> []" by auto
    with k show ?thesis by (simp add: contains_key_def truthy_def)
  qed
  then have "rmap (\<lambda>k. rbind (contains_key k (JDict (filled_retry d))) (\<lambda>b. Inr (if b then [] else [k]))) stage_keys
      = rmap (\<lambda>_. Inr []) stage_keys"
    by (intro rmap_cong) simp_all
  then show ?thesis by (simp add: jget_def map_of_state_backfill)
qed

lemma lint_backfill_raises:
  assumes "state_schema_lint (state_backfill d) = Inl e"
  shows "e = TypeError"
proof -
  have "jget (state_backfill d) ''stage_status'' = JDict (dict_or (fold jsetdefault default_state d) ''stage_status'' [])"
    by (simp add: jget_def map_of_state_backfill)
  then show ?thesis
    using assms unfolding state_schema_lint_def
    by (auto simp: rbind_Inl_iff backfill_retry_warnings dest!: enum_issue_cases(1) rmap_Inl dest: enum_issue_cases(3))
qed

lemma lint_backfill_result:
  assumes "state_schema_lint (state_backfill d) = Inr (issues, warnings)"
  shows "warnings = []" and "Schema_Missing x \<notin> set issues"
proof -
  obtain e1 e2 e3 e4 st e5 where e:
    "enum_issue (state_backfill d) False ''scenario'' scenario_names = Inr e1"
    "enum_issue (state_backfill d) False ''phase'' phase_names = Inr e2"
    "enum_issue (state_backfill d) True ''migration_mode'' mode_names = Inr e3"
    "enum_issue (state_backfill d) True ''failure_reason'' blocked_codes = Inr e4"
    "rmap status_issue st = Inr e5"
    "issues = concat (map (field_issues (state_backfill d)) state_schema) @ e1 @ e2 @ e3 @ e4 @ concat e5"
    "warnings = []"
    using assms unfolding state_schema_lint_def
    by (auto simp only: rbind_Inr_iff backfill_retry_warnings concat_Nils sum.inject prod.inject)
  have "Schema_Missing x \<notin> set (concat e5)"
    using rmap_Inr_set [OF e(5)] enum_issue_cases(4) by fastforce
  then show "Schema_Missing x \<notin> set issues"
    using backfill_no_missing [of x d] e(1-4) [THEN enum_issue_cases(2), of x] by (simp only: e(6) set_append Un_iff simp_thms)
  show "warnings = []" by (rule e(7))
qed

section \<open>Properties\<close>

text \<open>
  C17: a state that a task can reach is written as a file with no schema failure and no warning,
  and loading it back fills nothing in: every field the schema names is there with a value of its
  type, and every enumerated field has one of its values.
\<close>

theorem state_file_well_typed:
  assumes "stage_reachable base s"
  shows "state_schema_lint (encode_state tid ts s) = Inr ([], []) \<and>
    state_backfill (encode_state tid ts s) = encode_state tid ts s"
proof -
  have "stage_inv s" using assms by (rule stages.reaches_inv)
  then have "state_schema_ok s"
    by (auto simp: stage_inv_def running_inv_def done_inv_def failed_inv_def state_schema_ok_def)
  then show ?thesis by (simp add: state_schema_lint_encode state_backfill_encode)
qed

theorem state_file_well_typed_witness:
  "state_schema_lint (encode_state ''p-add-1'' ''now'' sample_started) = Inr ([], [])"
  using state_file_well_typed [OF sample_reachable(2)] by simp



text \<open>
  \<^verbatim>\<open>repair\<close> looks for missing fields only. A file whose \<open>stage_status\<close> is \<^verbatim>\<open>null\<close> fails the schema
  check of \<^verbatim>\<open>verify\<close>, but \<^verbatim>\<open>repair --apply\<close> reports no failure, fixes nothing and writes nothing.
\<close>

theorem repair_overlooks_types:
  "state_schema_lint (AList.update ''stage_status'' JNull (state_backfill [])) = Inr ([Schema_Type ''stage_status''], []) \<and>
   cmd_repair fs True (AList.update ''stage_status'' JNull (state_backfill [])) =
     Inr (\<lparr>rp_fixes = [], rp_schema = [], rp_drift = [], rp_running = []\<rparr>, None)"
  by (intro conjI) code_simp+

end
