(* ===== verification/MigrationControl.thy ===== *)
theory MigrationControl
  imports StageControl
begin

text \<open>
  The aggregate state of a migration, from the \<^verbatim>\<open>migration\<close> commands of
  \<^verbatim>\<open>.agents/tools/statectl.py\<close>: the functions of an operator are developed one by one, then
  integrated and tested together. An abstract delivery process says what the aggregate promises,
  and the commands refine it.

  The argument parser admits the two phases of \<^verbatim>\<open>init\<close> and the two verdicts of \<^verbatim>\<open>integrate\<close>; the
  commands test them again, and the model keeps these tests.
\<close>

section \<open>The aggregate state\<close>

datatype mig_phase = M_SCAFFOLD | M_DEV_LOOP | M_INTEGRATE | M_DONE | M_FAILED

datatype func_status = Func_Pending | Func_InProgress | Func_Done | Func_Failed

record migration_state =
  mg_op :: string
  mg_family :: string
  mg_meta_path :: string
  mg_phase :: mig_phase
  mg_functions :: "(string \<times> func_status) list"
  mg_attempts :: nat
  mg_passed :: bool
  mg_failure_reason :: "string option"

datatype mig_error = ME_EXISTS | ME_FUNC_UNKNOWN | ME_PHASE_ORDER | ME_TERMINAL | ME_VALUE | ME_PHASE_PRECOND

definition cmd_migration_init ::
  "string \<Rightarrow> string \<Rightarrow> string \<Rightarrow> string list \<Rightarrow> mig_phase \<Rightarrow> migration_state option \<Rightarrow> mig_error + migration_state" where
  "cmd_migration_init op_slug family meta functions ph old =
     (if old \<noteq> None then Inl ME_EXISTS
      else if ph \<notin> {M_SCAFFOLD, M_DEV_LOOP} then Inl ME_PHASE_ORDER
      else Inr \<lparr>mg_op = op_slug, mg_family = family, mg_meta_path = meta, mg_phase = ph,
        mg_functions = fold (\<lambda>f. AList.update f Func_Pending) functions [],
        mg_attempts = 0, mg_passed = False, mg_failure_reason = None\<rparr>)"

definition cmd_migration_func :: "string \<Rightarrow> func_status \<Rightarrow> migration_state \<Rightarrow> mig_error + migration_state" where
  "cmd_migration_func name st s =
     (if name \<notin> set (map fst (mg_functions s)) then Inl ME_FUNC_UNKNOWN
      else if mg_phase s \<notin> {M_SCAFFOLD, M_DEV_LOOP} then Inl ME_PHASE_ORDER
      else Inr (s\<lparr>mg_functions := AList.update name st (mg_functions s)\<rparr>))"

text \<open>The order \<^verbatim>\<open>SCAFFOLD\<close>, \<^verbatim>\<open>DEV_LOOP\<close>, \<^verbatim>\<open>INTEGRATE\<close>, \<^verbatim>\<open>DONE\<close>; \<^verbatim>\<open>FAILED\<close> is outside it.\<close>

definition phase_index :: "mig_phase \<Rightarrow> nat" where
  "phase_index ph = (case ph of M_SCAFFOLD \<Rightarrow> 0 | M_DEV_LOOP \<Rightarrow> 1 | M_INTEGRATE \<Rightarrow> 2 | M_DONE \<Rightarrow> 3 | M_FAILED \<Rightarrow> 4)"

definition pending_functions :: "migration_state \<Rightarrow> string list" where
  "pending_functions s = map fst (filter (\<lambda>f. snd f \<noteq> Func_Done) (mg_functions s))"

definition cmd_migration_phase :: "mig_phase \<Rightarrow> string option \<Rightarrow> migration_state \<Rightarrow> mig_error + migration_state" where
  "cmd_migration_phase target reason s =
     (if mg_phase s \<in> {M_DONE, M_FAILED} then Inl ME_TERMINAL
      else if target = M_FAILED \<and> (reason = None \<or> reason = Some []) then Inl ME_VALUE
      else if target \<noteq> M_FAILED \<and> phase_index target \<le> phase_index (mg_phase s) then Inl ME_PHASE_ORDER
      else if target = M_INTEGRATE \<and> pending_functions s \<noteq> [] then Inl ME_PHASE_PRECOND
      else if target = M_DONE \<and> \<not> mg_passed s then Inl ME_PHASE_PRECOND
      else Inr (s\<lparr>mg_phase := target,
                  mg_failure_reason := (if target = M_FAILED then reason else mg_failure_reason s)\<rparr>))"

definition cmd_migration_integrate :: "bool \<Rightarrow> migration_state \<Rightarrow> mig_error + migration_state" where
  "cmd_migration_integrate pass s =
     (if mg_phase s \<noteq> M_INTEGRATE then Inl ME_PHASE_ORDER
      else if pass then Inr (s\<lparr>mg_passed := True\<rparr>)
      else
        let s1 = s\<lparr>mg_attempts := mg_attempts s + 1\<rparr>
        in Inr (if 2 < mg_attempts s1
                then s1\<lparr>mg_phase := M_FAILED, mg_failure_reason := Some ''BLOCKED_INTEGRATION''\<rparr> else s1))"

datatype mig_command =
    Func string func_status
  | Phase mig_phase "string option"
  | Integrate bool

definition mig_run :: "mig_command \<Rightarrow> migration_state \<Rightarrow> mig_error + migration_state" where
  "mig_run c s =
     (case c of
        Func name st \<Rightarrow> cmd_migration_func name st s
      | Phase target reason \<Rightarrow> cmd_migration_phase target reason s
      | Integrate pass \<Rightarrow> cmd_migration_integrate pass s)"

definition mig_created :: "migration_state \<Rightarrow> bool" where
  "mig_created s \<longleftrightarrow> (\<exists>op_slug family meta functions ph. cmd_migration_init op_slug family meta functions ph None = Inr s)"

section \<open>Invariant and budgets\<close>

definition mig_inv :: "migration_state \<Rightarrow> bool" where
  "mig_inv s \<longleftrightarrow>
     distinct (map fst (mg_functions s)) \<and>
     (mg_phase s \<in> {M_INTEGRATE, M_DONE} \<longrightarrow> pending_functions s = []) \<and>
     (mg_phase s \<in> {M_SCAFFOLD, M_DEV_LOOP} \<longrightarrow> \<not> mg_passed s \<and> mg_attempts s = 0) \<and>
     (mg_phase s = M_DONE \<longrightarrow> mg_passed s) \<and>
     (mg_phase s \<noteq> M_FAILED \<longrightarrow> mg_attempts s \<le> 2) \<and> mg_attempts s \<le> 3 \<and>
     (mg_phase s = M_FAILED \<longleftrightarrow> mg_failure_reason s \<noteq> None)"

lemma cmd_migration_init_inv:
  assumes "cmd_migration_init op_slug family meta names ph None = Inr s"
  shows "mig_inv s"
proof -
  have "distinct (map fst (fold (\<lambda>f. AList.update f Func_Pending) funs d))"
    if "distinct (map fst d)" for funs and d :: "(string \<times> func_status) list"
    using that by (induction funs arbitrary: d) (simp_all add: distinct_update)
  from this [of "[]" names] show ?thesis
    using assms by (auto simp: cmd_migration_init_def mig_inv_def split: if_splits)
qed

lemma cmd_migration_func_inv: "mig_inv s \<Longrightarrow> cmd_migration_func name st s = Inr s' \<Longrightarrow> mig_inv s'"
  by (cases "mg_phase s") (auto simp: cmd_migration_func_def mig_inv_def distinct_update split: if_splits)

lemma cmd_migration_phase_inv: "mig_inv s \<Longrightarrow> cmd_migration_phase target reason s = Inr s' \<Longrightarrow> mig_inv s'"
  by (cases "mg_phase s"; cases target)
    (auto simp: cmd_migration_phase_def mig_inv_def phase_index_def pending_functions_def split: if_splits)

lemma cmd_migration_integrate_inv: "mig_inv s \<Longrightarrow> cmd_migration_integrate pass s = Inr s' \<Longrightarrow> mig_inv s'"
  by (auto simp: cmd_migration_integrate_def mig_inv_def pending_functions_def Let_def split: if_splits)

lemmas mig_command_inv = cmd_migration_func_inv cmd_migration_phase_inv cmd_migration_integrate_inv

lemma mig_run_inv: "mig_inv s \<Longrightarrow> mig_run c s = Inr s' \<Longrightarrow> mig_inv s'"
  by (cases c) (auto simp: mig_run_def intro: mig_command_inv)

text \<open>Changes of the phase and failed integrations are bounded; only the functions can change for ever.\<close>

definition mig_moves :: "mig_command \<Rightarrow> bool" where
  "mig_moves c = (case c of Func _ _ \<Rightarrow> False | Phase _ _ \<Rightarrow> True | Integrate pass \<Rightarrow> \<not> pass)"

definition mig_budgets :: "(migration_state \<Rightarrow> nat) list" where
  "mig_budgets = [\<lambda>s. 4 - phase_index (mg_phase s), \<lambda>s. 3 - mg_attempts s]"

lemma mig_spends:
  assumes "mig_inv s" and "mig_moves c" and "mig_run c s = Inr s'"
  shows "(s', s) \<in> measures mig_budgets"
proof (cases c)
  case (Func name st) then show ?thesis using assms by (simp add: mig_moves_def)
next
  case (Phase target reason)
  then show ?thesis using assms
    by (cases "mg_phase s"; cases target)
      (auto simp: mig_run_def cmd_migration_phase_def mig_budgets_def phase_index_def split: if_splits)
next
  case (Integrate pass)
  then show ?thesis using assms
    by (auto simp: mig_run_def mig_moves_def cmd_migration_integrate_def mig_budgets_def phase_index_def mig_inv_def
        Let_def split: if_splits)
qed

interpretation migration: measured_machine mig_created mig_run mig_inv "\<lambda>c _. mig_moves c" mig_budgets
proof
  show "mig_inv s" if "mig_created s" for s
    using that cmd_migration_init_inv by (auto simp: mig_created_def)
  show "mig_inv s'" if "mig_inv s" "mig_run c s = Inr s'" for s c s' using that by (rule mig_run_inv)
  show "(s', s) \<in> measures mig_budgets" if "mig_inv s" "mig_moves c" "mig_run c s = Inr s'" for s c s'
    using that by (rule mig_spends)
qed

section \<open>The delivery process\<close>

text \<open>
  What the aggregate is for: functions are developed while building, all of them are finished before
  integration, a test passes before delivery, and work may be given up at any time before that.
\<close>

datatype delivery_stage = Building | Integrating | Delivered | Abandoned

record delivery =
  dl_open :: "string set"
  dl_stage :: delivery_stage
  dl_tested :: bool

inductive delivery_step :: "delivery \<Rightarrow> delivery \<Rightarrow> bool" where
  develop: "dl_stage d = Building \<Longrightarrow> delivery_step d (d\<lparr>dl_open := F\<rparr>)"
| integrate: "dl_stage d = Building \<Longrightarrow> dl_open d = {} \<Longrightarrow> delivery_step d (d\<lparr>dl_stage := Integrating\<rparr>)"
| test: "dl_stage d = Integrating \<Longrightarrow> delivery_step d (d\<lparr>dl_tested := True\<rparr>)"
| deliver: "dl_stage d = Integrating \<Longrightarrow> dl_tested d \<Longrightarrow> delivery_step d (d\<lparr>dl_stage := Delivered\<rparr>)"
| abandon: "dl_stage d \<noteq> Delivered \<Longrightarrow> dl_stage d \<noteq> Abandoned \<Longrightarrow> delivery_step d (d\<lparr>dl_stage := Abandoned\<rparr>)"

definition delivery_stage_of :: "mig_phase \<Rightarrow> delivery_stage" where
  "delivery_stage_of ph = (case ph of M_SCAFFOLD \<Rightarrow> Building | M_DEV_LOOP \<Rightarrow> Building | M_INTEGRATE \<Rightarrow> Integrating
     | M_DONE \<Rightarrow> Delivered | M_FAILED \<Rightarrow> Abandoned)"

definition abs_migration :: "migration_state \<Rightarrow> delivery" where
  "abs_migration s =
     \<lparr>dl_open = set (pending_functions s), dl_stage = delivery_stage_of (mg_phase s), dl_tested = mg_passed s\<rparr>"

lemma func_simulates:
  assumes "cmd_migration_func name st s = Inr s'"
  shows "delivery_step (abs_migration s) (abs_migration s')"
proof -
  have "abs_migration s' = (abs_migration s)\<lparr>dl_open := set (pending_functions s')\<rparr>" "dl_stage (abs_migration s) = Building"
    using assms by (auto simp: cmd_migration_func_def abs_migration_def delivery_stage_of_def split: if_splits)
  then show ?thesis by (metis delivery_step.develop)
qed

lemma phase_abs:
  assumes "cmd_migration_phase target reason s = Inr s'"
  shows "abs_migration s' = (abs_migration s)\<lparr>dl_stage := delivery_stage_of target\<rparr>"
  using assms by (auto simp: cmd_migration_phase_def abs_migration_def pending_functions_def split: if_splits)

lemma phase_simulates:
  assumes inv: "mig_inv s" and c: "cmd_migration_phase target reason s = Inr s'"
  shows "abs_migration s' = abs_migration s \<or> delivery_step (abs_migration s) (abs_migration s')"
proof -
  have stage: "dl_stage (abs_migration s) = delivery_stage_of (mg_phase s)" "dl_tested (abs_migration s) = mg_passed s"
    "dl_open (abs_migration s) = set (pending_functions s)" by (simp_all add: abs_migration_def)
  have live: "mg_phase s \<noteq> M_DONE" "mg_phase s \<noteq> M_FAILED" using c by (auto simp: cmd_migration_phase_def split: if_splits)
  show ?thesis
  proof (cases target)
    case M_SCAFFOLD then show ?thesis using c by (simp add: cmd_migration_phase_def phase_index_def split: if_splits)
  next
    case M_DEV_LOOP
    then have "mg_phase s = M_SCAFFOLD"
      using c live by (cases "mg_phase s") (auto simp: cmd_migration_phase_def phase_index_def split: if_splits)
    then show ?thesis using phase_abs [OF c] M_DEV_LOOP by (simp add: abs_migration_def delivery_stage_of_def)
  next
    case M_INTEGRATE
    then have "pending_functions s = []" "delivery_stage_of (mg_phase s) = Building"
      using c live by (cases "mg_phase s"; auto simp: cmd_migration_phase_def phase_index_def delivery_stage_of_def split: if_splits)+
    then show ?thesis using phase_abs [OF c] M_INTEGRATE stage by (simp add: delivery_stage_of_def delivery_step.integrate)
  next
    case M_DONE
    then have "mg_passed s" using c by (simp add: cmd_migration_phase_def split: if_splits)
    moreover from this have "mg_phase s = M_INTEGRATE"
      using inv live by (cases "mg_phase s") (simp_all add: mig_inv_def)
    ultimately show ?thesis using phase_abs [OF c] M_DONE stage by (simp add: delivery_stage_of_def delivery_step.deliver)
  next
    case M_FAILED
    have "delivery_stage_of (mg_phase s) \<noteq> Delivered" "delivery_stage_of (mg_phase s) \<noteq> Abandoned"
      using live by (cases "mg_phase s"; simp add: delivery_stage_of_def)+
    then show ?thesis using phase_abs [OF c] M_FAILED stage by (simp add: delivery_stage_of_def delivery_step.abandon)
  qed
qed

lemma integrate_simulates:
  assumes "cmd_migration_integrate pass s = Inr s'"
  shows "abs_migration s' = abs_migration s \<or> delivery_step (abs_migration s) (abs_migration s')"
proof -
  have st: "dl_stage (abs_migration s) = Integrating"
    using assms by (simp add: cmd_migration_integrate_def abs_migration_def delivery_stage_of_def split: if_splits)
  have "abs_migration s' \<in> {abs_migration s, (abs_migration s)\<lparr>dl_tested := True\<rparr>, (abs_migration s)\<lparr>dl_stage := Abandoned\<rparr>}"
    using assms by (auto simp: cmd_migration_integrate_def abs_migration_def delivery_stage_of_def pending_functions_def
        Let_def split: if_splits)
  then show ?thesis using st delivery_step.test delivery_step.abandon by fastforce
qed

lemma mig_simulates:
  assumes "mig_inv s" and "mig_run c s = Inr s'"
  shows "abs_migration s' = abs_migration s \<or> delivery_step (abs_migration s) (abs_migration s')"
  using assms func_simulates phase_simulates integrate_simulates by (cases c) (auto simp: mig_run_def)

inductive_cases delivery_stepE: "delivery_step d d'"

text \<open>Which changes of the stage the process has, and that the phase command makes each of them.\<close>

lemma delivery_stage_step:
  assumes "delivery_step d d'" and "dl_stage d' \<noteq> dl_stage d"
  shows "dl_stage d = Building \<and> dl_open d = {} \<and> dl_stage d' = Integrating \<or>
    dl_stage d = Integrating \<and> dl_tested d \<and> dl_stage d' = Delivered \<or>
    dl_stage d \<notin> {Delivered, Abandoned} \<and> dl_stage d' = Abandoned"
  using assms by (auto elim!: delivery_stepE)

lemma stage_phase:
  "delivery_stage_of ph = Building \<longleftrightarrow> ph \<in> {M_SCAFFOLD, M_DEV_LOOP}" "delivery_stage_of ph = Integrating \<longleftrightarrow> ph = M_INTEGRATE"
  "delivery_stage_of ph = Delivered \<longleftrightarrow> ph = M_DONE" "delivery_stage_of ph = Abandoned \<longleftrightarrow> ph = M_FAILED"
  by (cases ph; simp add: delivery_stage_of_def)+

lemma phase_makes_step:
  assumes "delivery_step (abs_migration s) d'" and "dl_stage d' \<noteq> dl_stage (abs_migration s)"
  shows "\<exists>c s'. mig_run c s = Inr s' \<and> dl_stage (abs_migration s') = dl_stage d'"
proof -
  have "delivery_stage_of (mg_phase s) = Building \<and> pending_functions s = [] \<and> dl_stage d' = Integrating \<or>
    delivery_stage_of (mg_phase s) = Integrating \<and> mg_passed s \<and> dl_stage d' = Delivered \<or>
    delivery_stage_of (mg_phase s) \<notin> {Delivered, Abandoned} \<and> dl_stage d' = Abandoned"
    using delivery_stage_step [OF assms] by (simp add: abs_migration_def)
  then consider
      "mig_run (Phase M_INTEGRATE None) s = Inr (s\<lparr>mg_phase := M_INTEGRATE\<rparr>)" "dl_stage d' = Integrating"
    | "mig_run (Phase M_DONE None) s = Inr (s\<lparr>mg_phase := M_DONE\<rparr>)" "dl_stage d' = Delivered"
    | "mig_run (Phase M_FAILED (Some ''x'')) s = Inr (s\<lparr>mg_phase := M_FAILED, mg_failure_reason := Some ''x''\<rparr>)"
      "dl_stage d' = Abandoned"
    by (auto simp: stage_phase mig_run_def cmd_migration_phase_def phase_index_def)
  then show ?thesis
    by cases (metis abs_migration_def delivery.select_convs(2) migration_state.select_convs(4)
        migration_state.surjective migration_state.update_convs(4,8) stage_phase)+
qed

section \<open>Properties\<close>

text \<open>A migration of two functions that is built, integrated, tested and delivered.\<close>

definition sample_commands :: "mig_command list" where
  "sample_commands = [Func ''fwd'' Func_Done, Func ''bwd'' Func_Done, Phase M_INTEGRATE None, Integrate False,
     Integrate True, Phase M_DONE None]"

definition sample_migration :: "mig_error + migration_state" where
  "sample_migration = fold (\<lambda>c r. case r of Inl e \<Rightarrow> Inl e | Inr s \<Rightarrow> mig_run c s) sample_commands
     (cmd_migration_init ''op'' ''fam'' ''meta.json'' [''fwd'', ''bwd''] M_DEV_LOOP None)"

lemma sample_migration_reaches: "reaches mig_created mig_run (projr sample_migration)"
proof -
  have "\<not> isl sample_migration" by code_simp
  then have "sample_migration = Inr (projr sample_migration)" by simp
  then show ?thesis
    unfolding sample_migration_def by (rule fold_reaches, intro reaches.first) (unfold mig_created_def, blast)
qed

text \<open>
  C23: in every aggregate state that can be reached, integration and delivery come only after every
  function is done, delivery only after a passing integration test, at most three integrations have
  failed, and a reason is recorded exactly when the migration has failed.
\<close>

theorem migration_invariant:
  assumes "reaches mig_created mig_run s"
  shows "(mg_phase s \<in> {M_INTEGRATE, M_DONE} \<longrightarrow> (\<forall>f \<in> set (mg_functions s). snd f = Func_Done)) \<and>
    (mg_phase s = M_DONE \<longrightarrow> mg_passed s) \<and> mg_attempts s \<le> 3 \<and>
    (mg_phase s = M_FAILED \<longleftrightarrow> mg_failure_reason s \<noteq> None)"
  using migration.reaches_inv [OF assms]
  by (simp add: mig_inv_def pending_functions_def filter_empty_conv)

theorem migration_invariant_witness:
  "mg_phase (projr sample_migration) = M_DONE \<and> mg_passed (projr sample_migration) \<and>
   list_all (\<lambda>f. snd f = Func_Done) (mg_functions (projr sample_migration))"
proof -
  have "mg_phase (projr sample_migration) = M_DONE" by code_simp
  then show ?thesis using migration_invariant [OF sample_migration_reaches] by (simp add: list_all_iff)
qed

text \<open>
  C19: the migration commands and the delivery process make the same moves.  In every aggregate state
  that can be reached, a command that is accepted is a step of the process or leaves the delivery as it
  is; a delivered or abandoned migration, and no other, refuses every command; and the stages that some command
  leads to are exactly those that a step of the process leads to.
\<close>

theorem migration_refines_delivery:
  assumes "reaches mig_created mig_run s"
  shows "(\<forall>c s'. mig_run c s = Inr s' \<longrightarrow>
        abs_migration s' = abs_migration s \<or> delivery_step (abs_migration s) (abs_migration s')) \<and>
    (dl_stage (abs_migration s) \<in> {Delivered, Abandoned} \<longleftrightarrow> (\<forall>c. isl (mig_run c s))) \<and>
    (\<forall>g. g \<noteq> dl_stage (abs_migration s) \<longrightarrow>
       ((\<exists>c s'. mig_run c s = Inr s' \<and> dl_stage (abs_migration s') = g) \<longleftrightarrow>
        (\<exists>d'. delivery_step (abs_migration s) d' \<and> dl_stage d' = g)))"
proof (intro conjI)
  have inv: "mig_inv s" using assms by (rule migration.reaches_inv)
  show sim: "\<forall>c s'. mig_run c s = Inr s' \<longrightarrow>
        abs_migration s' = abs_migration s \<or> delivery_step (abs_migration s) (abs_migration s')"
    using mig_simulates [OF inv] by blast
  show "\<forall>g. g \<noteq> dl_stage (abs_migration s) \<longrightarrow>
       ((\<exists>c s'. mig_run c s = Inr s' \<and> dl_stage (abs_migration s') = g) \<longleftrightarrow>
        (\<exists>d'. delivery_step (abs_migration s) d' \<and> dl_stage d' = g))"
    using sim phase_makes_step by metis
  show "dl_stage (abs_migration s) \<in> {Delivered, Abandoned} \<longleftrightarrow> (\<forall>c. isl (mig_run c s))"
  proof
    assume "dl_stage (abs_migration s) \<in> {Delivered, Abandoned}"
    then have "mg_phase s \<in> {M_DONE, M_FAILED}" by (auto simp: abs_migration_def stage_phase)
    then show "\<forall>c. isl (mig_run c s)"
      by (auto simp: mig_run_def cmd_migration_func_def cmd_migration_phase_def cmd_migration_integrate_def
          split: mig_command.split)
  next
    assume "\<forall>c. isl (mig_run c s)"
    then have "isl (mig_run (Phase M_FAILED (Some ''x'')) s)" by blast
    then have "mg_phase s \<in> {M_DONE, M_FAILED}" by (auto simp: mig_run_def cmd_migration_phase_def split: if_splits)
    then show "dl_stage (abs_migration s) \<in> {Delivered, Abandoned}" by (auto simp: abs_migration_def stage_phase)
  qed
qed

theorem migration_refines_delivery_witness:
  "dl_stage (abs_migration (projr sample_migration)) = Delivered \<and> isl (mig_run (Phase M_FAILED (Some ''late'')) (projr sample_migration))"
proof -
  have "mg_phase (projr sample_migration) = M_DONE" by code_simp
  then have "dl_stage (abs_migration (projr sample_migration)) = Delivered" by (simp add: abs_migration_def stage_phase)
  then show ?thesis using migration_refines_delivery [OF sample_migration_reaches] by simp
qed

text \<open>Changes of phase and failed integrations cannot go on for ever.\<close>

theorem migration_terminates:
  "wf {(s', s). reaches mig_created mig_run s \<and> (\<exists>c. mig_moves c \<and> mig_run c s = Inr s')}"
  by (rule migration.moving_wf)

text \<open>
  A failing test does not withdraw an earlier pass: after a pass and then a failure the migration
  can still be delivered.
\<close>

theorem failing_test_keeps_pass:
  assumes "mg_phase s = M_INTEGRATE" and "mg_attempts s < 2"
  shows "\<exists>s1 s2 s3. mig_run (Integrate True) s = Inr s1 \<and> mig_run (Integrate False) s1 = Inr s2 \<and>
    mig_run (Phase M_DONE None) s2 = Inr s3 \<and> mg_phase s3 = M_DONE"
  using assms by (simp add: mig_run_def cmd_migration_integrate_def cmd_migration_phase_def phase_index_def Let_def)

end
