(* ===== verification/Timeline.thy ===== *)
theory Timeline
  imports StageControl
begin

text \<open>
  What the summary of a timeline (\<^verbatim>\<open>statectl timeline-summary\<close>) says of the events: one row for every
  stage that occurs, in the order of the stages, with counts and durations that a direct count over
  the events gives. The loop of the source keeps a dictionary of rows; here it is compared with the
  counts.
\<close>

section \<open>Counting over the events\<close>

definition stage_events :: "string \<Rightarrow> nat \<Rightarrow> event list \<Rightarrow> nat" where
  "stage_events action n evs = length (filter (\<lambda>e. ev_action e = action \<and> ev_stage e = Some n) evs)"

definition stage_durations :: "nat \<Rightarrow> event list \<Rightarrow> int list" where
  "stage_durations n evs = List.map_filter ev_duration
     (filter (\<lambda>e. ev_stage e = Some n \<and> (ev_action e = ''complete'' \<or> ev_action e = ''fail'')) evs)"

definition row_of :: "event list \<Rightarrow> nat \<Rightarrow> stage_row" where
  "row_of evs n = \<lparr>sr_stage = n, sr_attempts = stage_events ''start'' n evs, sr_completed = stage_events ''complete'' n evs,
     sr_failed = stage_events ''fail'' n evs, sr_durations = stage_durations n evs\<rparr>"

definition stages_seen :: "event list \<Rightarrow> nat set" where
  "stages_seen evs = {n. Some n \<in> ev_stage ` set evs}"

lemma stage_events_append [simp]:
  "stage_events a n (evs @ [e]) = stage_events a n evs + (if ev_action e = a \<and> ev_stage e = Some n then 1 else 0)"
  by (simp add: stage_events_def)

lemma map_filter_append1: "List.map_filter f (xs @ [x]) = List.map_filter f xs @ (case f x of None \<Rightarrow> [] | Some y \<Rightarrow> [y])"
  by (induction xs) (auto simp: map_filter_simps split: option.splits)

lemma stage_durations_append [simp]:
  "stage_durations n (evs @ [e]) = stage_durations n evs @
     (if ev_stage e = Some n \<and> (ev_action e = ''complete'' \<or> ev_action e = ''fail'')
      then (case ev_duration e of None \<Rightarrow> [] | Some d \<Rightarrow> [d]) else [])"
  by (auto simp: stage_durations_def map_filter_append1)

lemma stages_seen_append [simp]:
  "stages_seen (evs @ [e]) = stages_seen evs \<union> (case ev_stage e of None \<Rightarrow> {} | Some n \<Rightarrow> {n})"
  by (auto simp: stages_seen_def split: option.splits)

lemma row_of_append_same: "ev_stage e = Some n \<Longrightarrow> row_of (evs @ [e]) n = row_step e (row_of evs n)"
  by (auto simp: row_of_def row_step_def Let_def split: option.splits)

lemma row_of_append_other: "ev_stage e \<noteq> Some n \<Longrightarrow> row_of (evs @ [e]) n = row_of evs n"
  by (simp add: row_of_def)

lemma row_of_unseen:
  assumes "n \<notin> stages_seen evs"
  shows "row_of evs n = \<lparr>sr_stage = n, sr_attempts = 0, sr_completed = 0, sr_failed = 0, sr_durations = []\<rparr>"
proof -
  have none: "filter (\<lambda>e. P e \<and> ev_stage e = Some n) evs = []" "filter (\<lambda>e. ev_stage e = Some n \<and> P e) evs = []" for P
    using assms by (auto simp: stages_seen_def filter_empty_conv image_iff)
  show ?thesis by (simp add: row_of_def stage_events_def stage_durations_def none map_filter_simps)
qed

section \<open>The dictionary of rows\<close>

lemma summary_rows:
  "distinct (map fst (fold summary_step evs [])) \<and>
   map_of (fold summary_step evs []) = (\<lambda>n. if n \<in> stages_seen evs then Some (row_of evs n) else None)"
proof (induction evs rule: rev_induct)
  case Nil
  then show ?case by (simp add: stages_seen_def fun_eq_iff)
next
  case (snoc e evs)
  let ?rows = "fold summary_step evs []"
  show ?case
  proof (cases "ev_stage e")
    case None
    have "summary_step e ?rows = ?rows" by (simp add: summary_step_def None)
    moreover have "row_of (evs @ [e]) = row_of evs" using None by (intro ext row_of_append_other) simp
    ultimately show ?thesis using snoc None by (simp cong: if_cong)
  next
    case (Some n)
    have "(case map_of ?rows n of Some r \<Rightarrow> r
           | None \<Rightarrow> \<lparr>sr_stage = n, sr_attempts = 0, sr_completed = 0, sr_failed = 0, sr_durations = []\<rparr>) = row_of evs n"
      using snoc by (simp add: row_of_unseen)
    then have step: "fold summary_step (evs @ [e]) [] = AList.update n (row_of (evs @ [e]) n) ?rows"
      using Some by (simp add: summary_step_def row_of_append_same)
    have "map_of (fold summary_step (evs @ [e]) []) m =
        (if m \<in> stages_seen (evs @ [e]) then Some (row_of (evs @ [e]) m) else None)" for m
      unfolding step using snoc Some by (cases "m = n") (simp_all add: update_conv' row_of_append_other)
    then show ?thesis using snoc unfolding step by (simp add: distinct_update fun_eq_iff)
  qed
qed

lemma sort_key_rows:
  assumes "distinct (map fst rows)"
  shows "sort_key fst rows = map (\<lambda>n. (n, the (map_of rows n))) (sorted_list_of_set (fst ` set rows))"
proof (rule map_sorted_distinct_set_unique [where f = fst])
  let ?ys = "map (\<lambda>n. (n, the (map_of rows n))) (sorted_list_of_set (fst ` set rows))"
  show "distinct (map fst (sort_key fst rows))"
    using assms by (simp add: distinct_map)
  show same: "set (sort_key fst rows) = set ?ys"
    using assms by (force simp: map_of_eq_Some_iff)
  show "inj_on fst (set (sort_key fst rows) \<union> set ?ys)"
    using assms by (simp only: same [symmetric] Un_absorb set_sort) (simp add: distinct_map)
qed (simp_all add: comp_def)

section \<open>Properties\<close>

text \<open>
  The summary of a timeline has one row for every stage that occurs in it, in ascending order,
  and every row holds the number of starts, completions and failures of its stage and their
  durations in the order of the events.
\<close>

theorem timeline_summary_counts:
  "ts_stages (cmd_timeline_summary evs) = map (row_of evs) (sorted_list_of_set (stages_seen evs))"
proof -
  let ?rows = "fold summary_step evs []"
  have d: "distinct (map fst ?rows)"
    and m: "map_of ?rows = (\<lambda>n. if n \<in> stages_seen evs then Some (row_of evs n) else None)"
    using summary_rows by blast+
  have keys: "fst ` set ?rows = stages_seen evs"
    unfolding dom_map_of_conv_image_fst [symmetric] m by (auto simp: dom_def)
  have fin: "finite (stages_seen evs)" using keys [symmetric] by simp
  have "ts_stages (cmd_timeline_summary evs) = map snd (sort_key fst ?rows)"
    by (simp add: cmd_timeline_summary_def)
  also have "\<dots> = map (\<lambda>n. the (map_of ?rows n)) (sorted_list_of_set (stages_seen evs))"
    by (simp add: sort_key_rows [OF d] keys comp_def)
  also have "\<dots> = map (row_of evs) (sorted_list_of_set (stages_seen evs))"
    by (rule map_cong) (simp_all add: m fin)
  finally show ?thesis .
qed

text \<open>Every failure of a stage is listed, and the starts are the dispatches the budget counts.\<close>

theorem timeline_failures_and_dispatches:
  "length (ts_failures (cmd_timeline_summary evs)) =
     length (filter (\<lambda>e. ev_action e = ''fail'' \<and> ev_stage e \<noteq> None) evs) \<and>
   (case budget_watermark s evs now of
      None \<Rightarrow> True | Some b \<Rightarrow> bi_dispatches_used b = ts_dispatches (cmd_timeline_summary evs))"
proof -
  have "length (List.map_filter (\<lambda>e. case ev_stage e of
         Some n \<Rightarrow> if ev_action e = ''fail'' then Some (n, ev_verdict e, ev_ts e) else None | None \<Rightarrow> None) evs) =
     length (filter (\<lambda>e. ev_action e = ''fail'' \<and> ev_stage e \<noteq> None) evs)"
    by (induction evs) (auto simp: map_filter_simps split: option.splits)
  then show ?thesis
    by (auto simp: cmd_timeline_summary_def budget_watermark_def Let_def split: option.splits)
qed

end
