(* ===== verification/Symbolic.thy ===== *)
theory Symbolic
  imports Prelude
begin

text \<open>
  The symbolic shapes of a kernel (\<^verbatim>\<open>tilelang/jit/jit_npu.py\<close>): expressions over symbolic variables,
  the search for the tensor dimension that fixes each variable, directly or through an affine
  expression, the pass that promotes the variables to parameters, the evaluation of shapes
  at a call, and the extent of the launch grid.

  A variable of TVM is an object: two objects may have one name.  \<open>TirVar\<close> carries an object
  number beside the name, so equality of values is \<^verbatim>\<open>same_as\<close>.  The simplifier of TVM, which
  closes the expressions that the evaluator does not read itself, is the argument \<open>simplify\<close>;
  what \<^verbatim>\<open>==\<close> answers on a name and a variable is the argument \<open>name_eq\<close>.
\<close>

section \<open>Expressions\<close>

datatype tir_var = TirVar (var_id: nat) (var_name: string) (var_dtype: string)

datatype prim_expr =
    Var tir_var
  | IntImm int
  | Add prim_expr prim_expr
  | Sub prim_expr prim_expr
  | Mul prim_expr prim_expr
  | FloorDiv prim_expr prim_expr
  | Div prim_expr prim_expr
  | Mod prim_expr prim_expr
  | Max prim_expr prim_expr
  | Min prim_expr prim_expr
  | Call string "prim_expr list"

text \<open>The variables of an expression in post-order, and the first of each name.\<close>

fun vars_in :: "prim_expr \<Rightarrow> tir_var list" where
  "vars_in (Var x) = [x]"
| "vars_in (IntImm n) = []"
| "vars_in (Add a b) = vars_in a @ vars_in b"
| "vars_in (Sub a b) = vars_in a @ vars_in b"
| "vars_in (Mul a b) = vars_in a @ vars_in b"
| "vars_in (FloorDiv a b) = vars_in a @ vars_in b"
| "vars_in (Div a b) = vars_in a @ vars_in b"
| "vars_in (Mod a b) = vars_in a @ vars_in b"
| "vars_in (Max a b) = vars_in a @ vars_in b"
| "vars_in (Min a b) = vars_in a @ vars_in b"
| "vars_in (Call f es) = concat (map vars_in es)"

fun by_name :: "string list \<Rightarrow> tir_var list \<Rightarrow> tir_var list" where
  "by_name seen [] = []"
| "by_name seen (v # vs) =
     (if var_name v \<in> set seen then by_name seen vs else v # by_name (var_name v # seen) vs)"

definition collect_tir_vars :: "prim_expr \<Rightarrow> tir_var list" where
  "collect_tir_vars e = by_name [] (vars_in e)"

text \<open>
  The coefficients \<open>(a, b)\<close> of an expression \<open>a * v + b\<close>.  Both sides of a product are analysed
  first; a quotient is read only when it is a constant, and its divisor may be zero.
\<close>

fun add_affine :: "int \<times> int \<Rightarrow> int \<times> int \<Rightarrow> (int \<times> int) option" where
  "add_affine (a, b) (c, d) = Some (a + c, b + d)"

fun sub_affine :: "int \<times> int \<Rightarrow> int \<times> int \<Rightarrow> (int \<times> int) option" where
  "sub_affine (a, b) (c, d) = Some (a - c, b - d)"

fun mul_affine :: "int \<times> int \<Rightarrow> int \<times> int \<Rightarrow> (int \<times> int) option" where
  "mul_affine (a, b) (c, d) =
     (if a = 0 then Some (c * b, d * b) else if c = 0 then Some (a * d, b * d) else None)"

definition on_both :: "('a \<Rightarrow> 'a \<Rightarrow> 'a option) \<Rightarrow> 'a option res \<Rightarrow> 'a option res \<Rightarrow> 'a option res" where
  "on_both f l r = rbind l (\<lambda>p. rbind r (\<lambda>q. Inr (Option.bind p (\<lambda>x. Option.bind q (f x)))))"

fun const_div :: "(int \<times> int) option \<Rightarrow> prim_expr \<Rightarrow> (int \<times> int) option res" where
  "const_div (Some (a, b)) (IntImm n) =
     (if a = 0 then if n = 0 then Inl ZeroDivisionError else Inr (Some (0, b div n)) else Inr None)"
| "const_div _ _ = Inr None"

fun detect_affine :: "prim_expr \<Rightarrow> tir_var \<Rightarrow> (int \<times> int) option res" where
  "detect_affine (Var x) v = Inr (if x = v \<or> var_name x = var_name v then Some (1, 0) else None)"
| "detect_affine (IntImm n) v = Inr (Some (0, n))"
| "detect_affine (Add l r) v = on_both add_affine (detect_affine l v) (detect_affine r v)"
| "detect_affine (Sub l r) v = on_both sub_affine (detect_affine l v) (detect_affine r v)"
| "detect_affine (Mul l r) v = on_both mul_affine (detect_affine l v) (detect_affine r v)"
| "detect_affine (FloorDiv l r) v =
     rbind (detect_affine l v) (\<lambda>p. const_div p r)"
| "detect_affine _ v = Inr None"

text \<open>Evaluation under a dictionary from names to numbers.\<close>

type_synonym dynamic_val = "(string \<times> int) list"

definition lookup_val :: "dynamic_val \<Rightarrow> string \<Rightarrow> int res" where
  "lookup_val d n = (case map_of d n of None \<Rightarrow> Inl ValueError | Some x \<Rightarrow> Inr x)"

definition floor_div :: "int \<Rightarrow> int \<Rightarrow> int res" where
  "floor_div a b = (if b = 0 then Inl ZeroDivisionError else Inr (a div b))"

definition floor_mod :: "int \<Rightarrow> int \<Rightarrow> int res" where
  "floor_mod a b = (if b = 0 then Inl ZeroDivisionError else Inr (a mod b))"

fun substitute :: "(tir_var \<times> int) list \<Rightarrow> prim_expr \<Rightarrow> prim_expr" where
  "substitute m (Var x) = (case map_of m x of None \<Rightarrow> Var x | Some n \<Rightarrow> IntImm n)"
| "substitute m (IntImm n) = IntImm n"
| "substitute m (Add a b) = Add (substitute m a) (substitute m b)"
| "substitute m (Sub a b) = Sub (substitute m a) (substitute m b)"
| "substitute m (Mul a b) = Mul (substitute m a) (substitute m b)"
| "substitute m (FloorDiv a b) = FloorDiv (substitute m a) (substitute m b)"
| "substitute m (Div a b) = Div (substitute m a) (substitute m b)"
| "substitute m (Mod a b) = Mod (substitute m a) (substitute m b)"
| "substitute m (Max a b) = Max (substitute m a) (substitute m b)"
| "substitute m (Min a b) = Min (substitute m a) (substitute m b)"
| "substitute m (Call f es) = Call f (map (substitute m) es)"

text \<open>The last lines of the evaluator: substitute every variable and let TVM simplify.\<close>

definition simplified :: "(prim_expr \<Rightarrow> prim_expr) \<Rightarrow> dynamic_val \<Rightarrow> prim_expr \<Rightarrow> int res" where
  "simplified simplify d e =
     rbind (rmap (\<lambda>v. rbind (lookup_val d (var_name v)) (\<lambda>n. Inr (v, n))) (collect_tir_vars e)) (\<lambda>vmap.
       case simplify (substitute vmap e) of IntImm n \<Rightarrow> Inr n | _ \<Rightarrow> Inl ValueError)"

definition both :: "int res \<Rightarrow> int res \<Rightarrow> (int \<Rightarrow> int \<Rightarrow> int res) \<Rightarrow> int res" where
  "both m n f = rbind m (\<lambda>x. rbind n (f x))"

fun eval_tir_expr :: "(prim_expr \<Rightarrow> prim_expr) \<Rightarrow> dynamic_val \<Rightarrow> prim_expr \<Rightarrow> int res" where
  "eval_tir_expr smp d (Var x) = lookup_val d (var_name x)"
| "eval_tir_expr smp d (IntImm n) = Inr n"
| "eval_tir_expr smp d (Add a b) = both (eval_tir_expr smp d a) (eval_tir_expr smp d b) (\<lambda>x y. Inr (x + y))"
| "eval_tir_expr smp d (Sub a b) = both (eval_tir_expr smp d a) (eval_tir_expr smp d b) (\<lambda>x y. Inr (x - y))"
| "eval_tir_expr smp d (Mul a b) = both (eval_tir_expr smp d a) (eval_tir_expr smp d b) (\<lambda>x y. Inr (x * y))"
| "eval_tir_expr smp d (FloorDiv a b) = both (eval_tir_expr smp d a) (eval_tir_expr smp d b) floor_div"
| "eval_tir_expr smp d (Div a b) = both (eval_tir_expr smp d a) (eval_tir_expr smp d b) floor_div"
| "eval_tir_expr smp d (Mod a b) = both (eval_tir_expr smp d a) (eval_tir_expr smp d b) floor_mod"
| "eval_tir_expr smp d (Max a b) = both (eval_tir_expr smp d a) (eval_tir_expr smp d b) (\<lambda>x y. Inr (max x y))"
| "eval_tir_expr smp d (Min a b) = both (eval_tir_expr smp d a) (eval_tir_expr smp d b) (\<lambda>x y. Inr (min x y))"
| "eval_tir_expr smp d (Call f es) = simplified smp d (Call f es)"

section \<open>Statements\<close>

text \<open>
  The statements that the passes of this module tell apart.  A body that a pass removed is
  \<open>None\<close>, as in Python.
\<close>

datatype stmt =
    Block string "stmt option"
  | BlockRealize stmt
  | SeqStmt "stmt list"
  | LetStmt tir_var prim_expr "stmt option"
  | AttrStmt string string prim_expr stmt
  | For tir_var prim_expr stmt
  | IfThenElse prim_expr stmt "stmt option"
  | Evaluate prim_expr

record tir_buffer =
  buf_dtype :: string
  buf_shape :: "prim_expr list"

record prim_func =
  fn_params :: "tir_var list"
  buffer_map :: "(tir_var \<times> tir_buffer) list"
  fn_body :: "stmt option"

text \<open>
  \<^verbatim>\<open>_transform_stmt\<close>: definitions of symbolic variables are removed from blocks, sequences and
  lets; every other statement is returned as it is.
\<close>

fun transform_stmt :: "(string \<Rightarrow> tir_var \<Rightarrow> bool) \<Rightarrow> tir_var list \<Rightarrow> stmt \<Rightarrow> stmt option" where
  "transform_stmt name_eq syms (Block n body) =
     Some (Block n (case body of None \<Rightarrow> None | Some s \<Rightarrow> transform_stmt name_eq syms s))"
| "transform_stmt name_eq syms (SeqStmt ss) =
     (let ss' = concat (map (\<lambda>s. case transform_stmt name_eq syms s of None \<Rightarrow> [] | Some s' \<Rightarrow> [s']) ss) in
      if ss' = [] then None else Some (SeqStmt ss'))"
| "transform_stmt name_eq syms (LetStmt x e body) =
     (let body' = (case body of None \<Rightarrow> None | Some s \<Rightarrow> transform_stmt name_eq syms s) in
      if list_ex (name_eq (var_name x)) syms then body' else Some (LetStmt x e body'))"
| "transform_stmt name_eq syms s = Some s"

text \<open>
  \<^verbatim>\<open>LaunchThreadExtractor\<close>: the visit follows bodies, branches and blocks, but not the members of
  a sequence, which has none of these attributes; inner extents come first.
\<close>

fun visit_thread_extent :: "string \<Rightarrow> stmt \<Rightarrow> prim_expr list" where
  "visit_thread_extent t (Block n body) = (case body of None \<Rightarrow> [] | Some s \<Rightarrow> visit_thread_extent t s)"
| "visit_thread_extent t (BlockRealize s) = visit_thread_extent t s"
| "visit_thread_extent t (SeqStmt ss) = []"
| "visit_thread_extent t (LetStmt x e body) = (case body of None \<Rightarrow> [] | Some s \<Rightarrow> visit_thread_extent t s)"
| "visit_thread_extent t (AttrStmt key tag e s) =
     visit_thread_extent t s @ (if key = ''thread_extent'' \<and> tag = t then [e] else [])"
| "visit_thread_extent t (For x e s) = visit_thread_extent t s"
| "visit_thread_extent t (IfThenElse c s1 s2) =
     visit_thread_extent t s1 @ (case s2 of None \<Rightarrow> [] | Some s \<Rightarrow> visit_thread_extent t s)"
| "visit_thread_extent t (Evaluate e) = []"

definition extract_thread :: "prim_func \<Rightarrow> string \<Rightarrow> prim_expr option" where
  "extract_thread f t = (case fn_body f of
       None \<Rightarrow> None
     | Some s \<Rightarrow> (case visit_thread_extent t s of [] \<Rightarrow> None | e # _ \<Rightarrow> Some e))"

section \<open>Binding symbolic variables to dimensions\<close>

datatype binding = Direct nat nat | Affine nat nat int int

text \<open>The dimensions of the tensor parameters, with their position, in the order of the loops.\<close>

definition dims_of :: "prim_func \<Rightarrow> (nat \<times> nat \<times> prim_expr) list" where
  "dims_of f = concat (map (\<lambda>(i, p).
     case map_of (buffer_map f) p of
       None \<Rightarrow> []
     | Some b \<Rightarrow> map (\<lambda>(j, e). (i, j, e)) (enumerate 0 (buf_shape b))) (enumerate 0 (fn_params f)))"

definition shape_vars :: "prim_func \<Rightarrow> tir_var list" where
  "shape_vars f = by_name [] (concat (map (\<lambda>(i, j, e). collect_tir_vars e) (dims_of f)))"

fun find_direct :: "tir_var \<Rightarrow> (nat \<times> nat \<times> prim_expr) list \<Rightarrow> binding option" where
  "find_direct v [] = None"
| "find_direct v ((i, j, e) # ds) = (if e = Var v then Some (Direct i j) else find_direct v ds)"

definition is_var :: "prim_expr \<Rightarrow> bool" where
  "is_var e = (case e of Var x \<Rightarrow> True | _ \<Rightarrow> False)"

fun find_affine :: "tir_var \<Rightarrow> (nat \<times> nat \<times> prim_expr) list \<Rightarrow> binding option res" where
  "find_affine v [] = Inr None"
| "find_affine v ((i, j, e) # ds) =
     (if is_var e then find_affine v ds
      else rbind (detect_affine e v) (\<lambda>r.
        case r of
          None \<Rightarrow> find_affine v ds
        | Some (a, b) \<Rightarrow> if a \<noteq> 0 then Inr (Some (Affine i j a b)) else find_affine v ds))"

definition bind_var :: "prim_func \<Rightarrow> tir_var \<Rightarrow> binding option res" where
  "bind_var f v =
     (case find_direct v (dims_of f) of Some b \<Rightarrow> Inr (Some b) | None \<Rightarrow> find_affine v (dims_of f))"

fun bind_vars :: "prim_func \<Rightarrow> tir_var list \<Rightarrow> (tir_var \<times> binding) list res" where
  "bind_vars f [] = Inr []"
| "bind_vars f (v # vs) =
     (if v \<in> set (fn_params f) then bind_vars f vs
      else rbind (bind_var f v) (\<lambda>b. rbind (bind_vars f vs) (\<lambda>bs.
        Inr (case b of None \<Rightarrow> bs | Some b \<Rightarrow> (v, b) # bs))))"

definition process_dynamic_symbolic :: "prim_func \<Rightarrow> (tir_var \<times> binding) list res" where
  "process_dynamic_symbolic f = bind_vars f (shape_vars f)"

text \<open>The pass: the bound variables become trailing parameters.\<close>

definition symbolic_var_promoter_pass ::
  "(string \<Rightarrow> tir_var \<Rightarrow> bool) \<Rightarrow> prim_func \<Rightarrow> (prim_func \<times> (tir_var \<times> binding) list) res" where
  "symbolic_var_promoter_pass name_eq f =
     rbind (process_dynamic_symbolic f) (\<lambda>m.
       if m = [] then Inr (f, [])
       else Inr (f\<lparr>fn_params := fn_params f @ map fst m,
                    fn_body := (case fn_body f of None \<Rightarrow> None
                                | Some s \<Rightarrow> transform_stmt name_eq (map fst m) s)\<rparr>, m))"

text \<open>What the caller's dimension says about the variable, as \<^verbatim>\<open>_calcu_grid\<close> reads it.\<close>

fun bound_dim :: "binding \<Rightarrow> nat \<times> nat" where
  "bound_dim (Direct i j) = (i, j)"
| "bound_dim (Affine i j a b) = (i, j)"

fun recover_symbol :: "binding \<Rightarrow> int \<Rightarrow> int res" where
  "recover_symbol (Direct i j) n = Inr n"
| "recover_symbol (Affine i j a b) n = floor_div (n - b) a"

section \<open>Affine expressions\<close>

lemmas eval_step = both_def floor_div_def floor_mod_def

lemma on_both_Some:
  "on_both f l r = Inr (Some z) \<longleftrightarrow> (\<exists>x y. l = Inr (Some x) \<and> r = Inr (Some y) \<and> f x y = Some z)"
  by (auto simp: on_both_def rbind_Inr_iff Option.bind_eq_Some_conv)

lemma const_div_Some:
  "const_div p r = Inr (Some z) \<longleftrightarrow> (\<exists>c n. p = Some (0, c) \<and> r = IntImm n \<and> n \<noteq> 0 \<and> z = (0, c div n))"
  by (cases "(p, r)" rule: const_div.cases) auto

text \<open>The coefficients found are those of the expression, whatever the value of the variable.\<close>

lemma detect_affine_value:
  assumes "detect_affine e v = Inr (Some (a, b))" and "map_of d (var_name v) = Some x"
  shows "eval_tir_expr smp d e = Inr (a * x + b)"
  using assms
proof (induction e arbitrary: a b)
  case (Var y)
  then show ?case by (auto simp: lookup_val_def split: if_splits)
next
  case (FloorDiv l r)
  then show ?case by (force simp: rbind_Inr_iff const_div_Some eval_step)
qed (auto simp: on_both_Some eval_step algebra_simps split: if_splits)

lemma detect_affine_vars:
  assumes "detect_affine e v = Inr (Some (a, b))" and "y \<in> set (vars_in e)"
  shows "var_name y = var_name v"
  using assms
  by (induction e arbitrary: a b) (auto simp: on_both_Some rbind_Inr_iff const_div_Some split: if_splits)

section \<open>Evaluation under larger dictionaries\<close>

lemma lookup_val_mono: "lookup_val d n = Inr x \<Longrightarrow> map_of d \<subseteq>\<^sub>m map_of d' \<Longrightarrow> lookup_val d' n = Inr x"
  by (force simp: lookup_val_def map_le_def split: option.splits)

lemma simplified_mono:
  assumes "simplified smp d e = Inr n" and le: "map_of d \<subseteq>\<^sub>m map_of d'"
  shows "simplified smp d' e = Inr n"
proof -
  let ?look = "\<lambda>d v. rbind (lookup_val d (var_name v)) (\<lambda>n. Inr (v, n))"
  from assms(1) obtain m where m: "rmap (?look d) (collect_tir_vars e) = Inr m"
    and res: "(case smp (substitute m e) of IntImm n \<Rightarrow> Inr n | _ \<Rightarrow> Inl ValueError) = Inr n"
    unfolding simplified_def by (auto simp only: rbind_Inr_iff)
  have "rmap (?look d') (collect_tir_vars e) = Inr m"
    using m lookup_val_mono [OF _ le] unfolding rmap_Inr_iff
    by (elim list_all2_mono) (auto simp: rbind_Inr_iff)
  then show ?thesis using res by (simp add: simplified_def)
qed

lemma eval_tir_expr_mono:
  assumes "eval_tir_expr smp d e = Inr n" and le: "map_of d \<subseteq>\<^sub>m map_of d'"
  shows "eval_tir_expr smp d' e = Inr n"
  using assms
  by (induction smp d e arbitrary: n rule: eval_tir_expr.induct)
    (auto simp: both_def rbind_Inr_iff dest: lookup_val_mono simplified_mono)

section \<open>The bindings\<close>

lemma by_name_subset: "set (by_name seen vs) \<subseteq> set vs"
  by (induction seen vs rule: by_name.induct) auto

lemma by_name_fresh: "v \<in> set (by_name seen vs) \<Longrightarrow> var_name v \<notin> set seen"
  by (induction seen vs rule: by_name.induct) (auto split: if_splits)

lemma by_name_distinct: "distinct (map var_name (by_name seen vs))"
  by (induction seen vs rule: by_name.induct) (auto dest: by_name_fresh)

lemma by_name_covers: "v \<in> set vs \<Longrightarrow> var_name v \<in> set seen \<union> var_name ` set (by_name seen vs)"
  by (induction seen vs rule: by_name.induct) (auto split: if_splits)

lemma dims_of_iff:
  "(i, j, e) \<in> set (dims_of f) \<longleftrightarrow>
     (i < length (fn_params f) \<and>
      (\<exists>b. map_of (buffer_map f) (fn_params f ! i) = Some b \<and> j < length (buf_shape b) \<and> e = buf_shape b ! j))"
  (is "?l \<longleftrightarrow> ?r")
proof -
  let ?at = "\<lambda>i p. case map_of (buffer_map f) p of None \<Rightarrow> []
                | Some b \<Rightarrow> map (\<lambda>(j, e). (i, j, e)) (enumerate 0 (buf_shape b))"
  have at: "(i, j, e) \<in> set (?at k p) \<longleftrightarrow>
      k = i \<and> (\<exists>b. map_of (buffer_map f) p = Some b \<and> j < length (buf_shape b) \<and> e = buf_shape b ! j)" for k p
    by (cases "map_of (buffer_map f) p")
      (auto simp: image_iff in_set_enumerate_eq intro!: bexI [of _ "(j, e)"])
  have "?l \<longleftrightarrow> (\<exists>kp \<in> set (enumerate 0 (fn_params f)). (i, j, e) \<in> set (?at (fst kp) (snd kp)))"
    by (simp add: dims_of_def case_prod_beta)
  also have "\<dots> \<longleftrightarrow> ?r"
    unfolding at by (auto simp: in_set_enumerate_eq intro!: bexI [of _ "(i, fn_params f ! i)"])
  finally show ?thesis .
qed

lemma find_direct_Some:
  "find_direct v ds = Some b \<Longrightarrow> \<exists>i j. b = Direct i j \<and> (i, j, Var v) \<in> set ds"
  by (induction v ds rule: find_direct.induct) (auto split: if_splits)

lemma find_direct_None: "find_direct v ds = None \<Longrightarrow> (i, j, Var v) \<notin> set ds"
  by (induction v ds rule: find_direct.induct) (auto split: if_splits)

lemma find_affine_Some:
  "find_affine v ds = Inr (Some bd) \<Longrightarrow>
   \<exists>i j e a b. bd = Affine i j a b \<and> (i, j, e) \<in> set ds \<and> detect_affine e v = Inr (Some (a, b)) \<and> a \<noteq> 0"
proof (induction v ds rule: find_affine.induct)
  case (2 v i j e ds)
  show ?case
  proof (cases "is_var e")
    case True
    then show ?thesis using 2 by force
  next
    case False
    then obtain r where "detect_affine e v = Inr r" using 2(4) by (auto simp: rbind_Inr_iff)
    then show ?thesis using 2 False by (cases r) (fastforce split: if_splits)+
  qed
qed simp

lemma bind_vars_elem:
  assumes "bind_vars f vs = Inr m" and "(v, bd) \<in> set m"
  shows "v \<in> set vs \<and> v \<notin> set (fn_params f) \<and> bind_var f v = Inr (Some bd)"
  using assms
  by (induction vs arbitrary: m)
    (auto simp: rbind_Inr_iff split: if_splits option.splits)

lemma bind_vars_covers:
  assumes "bind_vars f vs = Inr m" and "v \<in> set vs" and "v \<notin> set (fn_params f)"
    and "bind_var f v \<noteq> Inr None"
  shows "v \<in> fst ` set m"
  using assms
  by (induction vs arbitrary: m)
    (auto simp: rbind_Inr_iff split: if_splits option.splits; force)+

lemma bind_vars_names:
  assumes "bind_vars f vs = Inr m" and "distinct (map var_name vs)"
  shows "distinct (map (\<lambda>p. var_name (fst p)) m)"
  using assms
proof (induction vs arbitrary: m)
  case (Cons v vs)
  show ?case
  proof (cases "v \<in> set (fn_params f)")
    case False
    then obtain b bs where b: "bind_var f v = Inr b" and bs: "bind_vars f vs = Inr bs"
      and m: "m = (case b of None \<Rightarrow> bs | Some b \<Rightarrow> (v, b) # bs)"
      using Cons.prems(1) by (auto simp: rbind_Inr_iff)
    have "distinct (map (\<lambda>p. var_name (fst p)) bs)" using Cons.IH [OF bs] Cons.prems(2) by simp
    moreover have "var_name v \<notin> (\<lambda>p. var_name (fst p)) ` set bs"
      using bind_vars_elem [OF bs] Cons.prems(2) by force
    ultimately show ?thesis by (simp add: m split: option.splits)
  qed (use Cons in auto)
qed simp

lemma bind_var_sound:
  assumes "bind_var f v = Inr (Some bd)" and "bound_dim bd = (i, j)"
  obtains e where "(i, j, e) \<in> set (dims_of f)"
    and "\<And>smp d x n. map_of d (var_name v) = Some x \<Longrightarrow> eval_tir_expr smp d e = Inr n \<Longrightarrow>
           recover_symbol bd n = Inr x"
proof (cases "find_direct v (dims_of f)")
  case (Some b)
  then show thesis using assms that [of "Var v"] find_direct_Some [OF Some]
    by (auto simp: bind_var_def lookup_val_def)
next
  case None
  then obtain i' j' e a b where "bd = Affine i' j' a b" "(i', j', e) \<in> set (dims_of f)"
      "detect_affine e v = Inr (Some (a, b))" "a \<noteq> 0"
    using assms(1) find_affine_Some [of v "dims_of f" bd] by (auto simp: bind_var_def)
  moreover from this have "recover_symbol bd n = Inr x"
    if "map_of d (var_name v) = Some x" "eval_tir_expr smp d e = Inr n" for smp d x n
    using that detect_affine_value [of e v a b d x smp] by (auto simp: floor_div_def)
  ultimately show thesis using that [of e] assms(2) by simp
qed

text \<open>
  Expressions that are plainly affine in a variable: built from the variable and numbers with sums,
  differences, and products with a constant factor.
\<close>

fun const_expr :: "prim_expr \<Rightarrow> bool" where
  "const_expr (IntImm n) = True"
| "const_expr (Add l r) = (const_expr l \<and> const_expr r)"
| "const_expr (Sub l r) = (const_expr l \<and> const_expr r)"
| "const_expr (Mul l r) = (const_expr l \<and> const_expr r)"
| "const_expr (FloorDiv l (IntImm n)) = (const_expr l \<and> n \<noteq> 0)"
| "const_expr _ = False"

fun linear_in :: "tir_var \<Rightarrow> prim_expr \<Rightarrow> bool" where
  "linear_in v (Var x) = (var_name x = var_name v)"
| "linear_in v (IntImm n) = True"
| "linear_in v (Add l r) = (linear_in v l \<and> linear_in v r)"
| "linear_in v (Sub l r) = (linear_in v l \<and> linear_in v r)"
| "linear_in v (Mul l r) = (const_expr l \<and> linear_in v r \<or> linear_in v l \<and> const_expr r)"
| "linear_in v e = const_expr e"

lemma const_expr_affine: "const_expr e \<Longrightarrow> \<exists>b. detect_affine e v = Inr (Some (0, b))"
  by (induction e rule: const_expr.induct) (auto simp: on_both_def)

lemma linear_in_affine: "linear_in v e \<Longrightarrow> \<exists>a b. detect_affine e v = Inr (Some (a, b))"
proof (induction v e rule: linear_in.induct)
  case (5 v l r)
  then show ?case using const_expr_affine [of l v] const_expr_affine [of r v] by (fastforce simp: on_both_def)
qed (use const_expr_affine in \<open>fastforce simp: on_both_def\<close>)+

lemma find_affine_None:
  assumes "find_affine v ds = Inr None" and "(i, j, e) \<in> set ds" and "\<not> is_var e"
    and "detect_affine e v = Inr (Some (a, b))"
  shows "a = 0"
  using assms(1,2)
proof (induction ds)
  case (Cons c ds)
  obtain i' j' e' where c: "c = (i', j', e')" by (cases c)
  show ?case
  proof (cases "e' = e")
    case True
    then show ?thesis using Cons.prems(1) assms(3,4) by (simp add: c split: if_splits)
  next
    case False
    then have mem: "(i, j, e) \<in> set ds" using Cons.prems(2) c by auto
    have "find_affine v ds = Inr None"
      using Cons.prems(1) by (auto simp: c rbind_Inr_iff split: if_splits option.splits prod.splits)
    then show ?thesis using Cons.IH mem by blast
  qed
qed simp

text \<open>A variable that some dimension determines is not left unbound.\<close>

lemma bind_var_complete:
  assumes "(i, j, e) \<in> set (dims_of f)"
    and "e = Var v \<or> \<not> is_var e \<and> linear_in v e \<and>
      eval_tir_expr id [(var_name v, 0)] e \<noteq> eval_tir_expr id [(var_name v, 1)] e"
  shows "bind_var f v \<noteq> Inr None"
proof (cases "e = Var v")
  case True
  then show ?thesis using assms(1) find_direct_None [of v "dims_of f"] by (auto simp: bind_var_def split: option.splits)
next
  case False
  then obtain a b where ab: "detect_affine e v = Inr (Some (a, b))" using assms(2) linear_in_affine by blast
  then have "a \<noteq> 0"
    using assms(2) False detect_affine_value [OF ab, of "[(var_name v, 0)]" 0 id]
      detect_affine_value [OF ab, of "[(var_name v, 1)]" 1 id] by auto
  then show ?thesis using find_affine_None [OF _ assms(1) _ ab] assms(2) False by (auto simp: bind_var_def split: option.splits)
qed

text \<open>A bound variable is determined by its dimension, which is an affine function of the variable alone.\<close>

lemma bind_var_affine:
  assumes "bind_var f v = Inr (Some bd)"
  obtains e a b where "(fst (bound_dim bd), snd (bound_dim bd), e) \<in> set (dims_of f)"
    and "\<And>smp d x. map_of d (var_name v) = Some x \<Longrightarrow> eval_tir_expr smp d e = Inr (a * x + b)"
    and "\<And>x. recover_symbol bd (a * x + b) = Inr x"
proof (cases "find_direct v (dims_of f)")
  case (Some bd')
  then show thesis using assms that [of "Var v" 1 0] find_direct_Some [OF Some]
    by (auto simp: bind_var_def lookup_val_def)
next
  case None
  then obtain i j e a b where "bd = Affine i j a b" "(i, j, e) \<in> set (dims_of f)"
      "detect_affine e v = Inr (Some (a, b))" "a \<noteq> 0"
    using assms find_affine_Some [of v "dims_of f" bd] by (auto simp: bind_var_def)
  then show thesis using that [of e a b] detect_affine_value [of e v a b] by (simp add: floor_div_def)
qed

text \<open>
  C12: Which of a kernel's symbolic variables are bound to dimensions, and that the dimensions then
  determine them.  Each variable that \<open>process_dynamic_symbolic\<close> binds is no parameter, has a name of its
  own among the bound variables, and is bound to a dimension of a tensor parameter that is an affine
  function of it alone; whatever the value of the variable, reading that dimension gives it back.  A
  variable that is no parameter is bound as soon as some dimension is the variable itself, or is an expression
  plainly affine in it whose value depends on it.  Other variables, such as those of a dimension \<open>n * m\<close>, stay unbound.
\<close>

theorem symbols_recovered:
  assumes m: "process_dynamic_symbolic f = Inr m"
  shows "distinct (map (\<lambda>p. var_name (fst p)) m) \<and>
    (\<forall>(v, bd) \<in> set m. v \<notin> set (fn_params f) \<and>
       (\<exists>e a b. (fst (bound_dim bd), snd (bound_dim bd), e) \<in> set (dims_of f) \<and>
          (\<forall>smp d x. map_of d (var_name v) = Some x \<longrightarrow>
             eval_tir_expr smp d e = Inr (a * x + b) \<and> recover_symbol bd (a * x + b) = Inr x))) \<and>
    (\<forall>v \<in> set (shape_vars f). \<forall>(i, j, e) \<in> set (dims_of f). v \<notin> set (fn_params f) \<longrightarrow>
       e = Var v \<or> \<not> is_var e \<and> linear_in v e \<and>
         eval_tir_expr id [(var_name v, 0)] e \<noteq> eval_tir_expr id [(var_name v, 1)] e \<longrightarrow>
       v \<in> fst ` set m)"
proof (intro conjI)
  have vs: "bind_vars f (shape_vars f) = Inr m" using m by (simp add: process_dynamic_symbolic_def)
  show "distinct (map (\<lambda>p. var_name (fst p)) m)"
    using bind_vars_names [OF vs] by (simp add: shape_vars_def by_name_distinct)
  show "\<forall>(v, bd) \<in> set m. v \<notin> set (fn_params f) \<and>
       (\<exists>e a b. (fst (bound_dim bd), snd (bound_dim bd), e) \<in> set (dims_of f) \<and>
          (\<forall>smp d x. map_of d (var_name v) = Some x \<longrightarrow>
             eval_tir_expr smp d e = Inr (a * x + b) \<and> recover_symbol bd (a * x + b) = Inr x))"
  proof (clarify, intro conjI)
    fix v bd
    assume "(v, bd) \<in> set m"
    note bound = bind_vars_elem [OF vs this]
    show "v \<notin> set (fn_params f)" using bound by simp
    obtain e a b where "(fst (bound_dim bd), snd (bound_dim bd), e) \<in> set (dims_of f)"
        "\<And>smp d x. map_of d (var_name v) = Some x \<Longrightarrow> eval_tir_expr smp d e = Inr (a * x + b)"
        "\<And>x. recover_symbol bd (a * x + b) = Inr x"
      using bound bind_var_affine by blast
    then show "\<exists>e a b. (fst (bound_dim bd), snd (bound_dim bd), e) \<in> set (dims_of f) \<and>
          (\<forall>smp d x. map_of d (var_name v) = Some x \<longrightarrow>
             eval_tir_expr smp d e = Inr (a * x + b) \<and> recover_symbol bd (a * x + b) = Inr x)"
      by blast
  qed
  show "\<forall>v \<in> set (shape_vars f). \<forall>(i, j, e) \<in> set (dims_of f). v \<notin> set (fn_params f) \<longrightarrow>
       e = Var v \<or> \<not> is_var e \<and> linear_in v e \<and>
         eval_tir_expr id [(var_name v, 0)] e \<noteq> eval_tir_expr id [(var_name v, 1)] e \<longrightarrow>
       v \<in> fst ` set m"
    using bind_vars_covers [OF vs] bind_var_complete [of _ _ _ f] by blast
qed

text \<open>The example has one variable in an affine dimension, one that is a dimension, and two in a product.\<close>

definition example_shapes :: prim_func where
  "example_shapes =
     (let n = TirVar 1 ''n'' ''int32''; k = TirVar 2 ''k'' ''int32''; p = TirVar 5 ''p'' ''int32''; q = TirVar 6 ''q'' ''int32'';
          a = TirVar 3 ''A'' ''handle''; b = TirVar 4 ''B'' ''handle'' in
      \<lparr>fn_params = [a, b],
       buffer_map = [(a, \<lparr>buf_dtype = ''float16'', buf_shape = [Add (Mul (Var n) (IntImm 2)) (IntImm 4), Mul (Var p) (Var q)]\<rparr>),
                     (b, \<lparr>buf_dtype = ''float16'', buf_shape = [IntImm 8, Var k]\<rparr>)],
       fn_body = None\<rparr>)"

theorem symbols_recovered_witness:
  "let m = projr (process_dynamic_symbolic example_shapes) in
   map fst m = [TirVar 1 ''n'' ''int32'', TirVar 2 ''k'' ''int32''] \<and> distinct (map (\<lambda>p. var_name (fst p)) m) \<and>
   TirVar 1 ''n'' ''int32'' \<in> fst ` set m"
proof -
  let ?n = "TirVar 1 ''n'' ''int32''"
  let ?e = "Add (Mul (Var ?n) (IntImm 2)) (IntImm 4)"
  have run: "process_dynamic_symbolic example_shapes = Inr [(?n, Affine 0 0 2 4), (TirVar 2 ''k'' ''int32'', Direct 1 1)]"
    by code_simp
  note ok = symbols_recovered [OF run]
  have n: "?n \<in> set (shape_vars example_shapes)" "?n \<notin> set (fn_params example_shapes)"
    and e: "(0, 0, ?e) \<in> set (dims_of example_shapes)" "\<not> is_var ?e" "linear_in ?n ?e"
      "eval_tir_expr id [(var_name ?n, 0)] ?e \<noteq> eval_tir_expr id [(var_name ?n, 1)] ?e"
    by code_simp+
  have "?n \<in> fst ` set [(?n, Affine 0 0 2 4), (TirVar 2 ''k'' ''int32'', Direct 1 1)]"
    using ok n e by blast
  then show ?thesis using ok by (simp add: run)
qed

section \<open>What the promotion pass removes\<close>

text \<open>
  The pass hands the variables, not their names, to a test on names.  Where a name and a variable
  never compare equal, the pass returns the statement it was given, with every definition of a
  symbolic variable still in place.
\<close>

fun no_empty_seq :: "stmt \<Rightarrow> bool" where
  "no_empty_seq (Block n body) = (case body of None \<Rightarrow> True | Some s \<Rightarrow> no_empty_seq s)"
| "no_empty_seq (SeqStmt ss) = (ss \<noteq> [] \<and> list_all no_empty_seq ss)"
| "no_empty_seq (LetStmt x e body) = (case body of None \<Rightarrow> True | Some s \<Rightarrow> no_empty_seq s)"
| "no_empty_seq _ = True"

theorem transform_keeps_definitions:
  "no_empty_seq s \<Longrightarrow> transform_stmt (\<lambda>n v. False) syms s = Some s"
proof (induction "\<lambda>(n::string) (v::tir_var). False" syms s rule: transform_stmt.induct)
  case (2 syms ss)
  have "map (\<lambda>s. case transform_stmt (\<lambda>n v. False) syms s of None \<Rightarrow> [] | Some s' \<Rightarrow> [s']) ss = map (\<lambda>s. [s]) ss"
    using 2 by (auto simp: list_all_iff)
  then show ?case using 2(2) by (simp only: transform_stmt.simps concat_map_singleton Let_def) simp
qed (auto simp: list_ex_iff Let_def split: option.splits)

end
