(* ===== verification/KernelCall.thy ===== *)
theory KernelCall
  imports Symbolic "HOL-Library.Sublist" "HOL-Library.Char_ord" "HOL-Library.List_Lexorder" "HOL-Library.Product_Lexorder"
begin

text \<open>
  A compiled kernel and its calls (\<^verbatim>\<open>tilelang/jit/jit_npu.py\<close>): the canonical form of the output
  indices, the parameter records, the text of the grid expression with its variables replaced, the
  resolution of symbolic variables from the caller's tensors, the allocation of outputs, the
  arguments that reach the launcher and the value of the call; and the reading of the compiled
  module's text for the launcher's signature.

  Python's \<^verbatim>\<open>eval\<close> on the grid expression is the argument \<open>py_eval\<close>, TVM's simplifier the argument
  \<open>smp\<close>; \<open>None\<close> stands for an exception of \<^verbatim>\<open>eval\<close>, which the code turns into a \<open>ValueError\<close>.
\<close>

section \<open>Output indices\<close>

datatype out_spec = OutInt int | OutList "int list" | OutOther

definition normalize_index :: "nat \<Rightarrow> int \<Rightarrow> nat res" where
  "normalize_index n_params i =
     (let idx = (if i \<ge> 0 then i else int n_params + i) in
      if idx < 0 \<or> idx \<ge> int n_params then Inl ValueError else Inr (nat idx))"

definition normalize_out_idx :: "out_spec option \<Rightarrow> nat \<Rightarrow> nat list option res" where
  "normalize_out_idx out_idx n_params =
     (case out_idx of
        None \<Rightarrow> Inr None
      | Some (OutInt i) \<Rightarrow> rbind (rmap (normalize_index n_params) [i]) (\<lambda>js. Inr (Some js))
      | Some (OutList out_ids) \<Rightarrow> rbind (rmap (normalize_index n_params) out_ids) (\<lambda>js. Inr (Some js))
      | Some OutOther \<Rightarrow> Inl TypeError)"

section \<open>Parameter records\<close>

definition tvm_dtype_to_torch :: "string \<Rightarrow> string" where
  "tvm_dtype_to_torch s =
     (if s \<in> set [''float16'', ''float32'', ''float64'', ''bfloat16'', ''int8'', ''int16'', ''int32'', ''int64'', ''bool'']
      then s else ''float32'')"

record param_info =
  pi_dtype :: string
  pi_shape :: "prim_expr list"
  is_output :: bool

definition info_of :: "prim_func \<Rightarrow> int set \<Rightarrow> nat \<times> tir_var \<Rightarrow> param_info res" where
  "info_of f outs ip =
     (let out = (int (fst ip) \<in> outs) in
      case map_of (buffer_map f) (snd ip) of
        Some b \<Rightarrow>
          (if out \<and> buf_shape b = [] then Inl ValueError
           else Inr \<lparr>pi_dtype = tvm_dtype_to_torch (buf_dtype b), pi_shape = buf_shape b, is_output = out\<rparr>)
      | None \<Rightarrow>
          (if out then Inl ValueError
           else Inr \<lparr>pi_dtype = tvm_dtype_to_torch (var_dtype (snd ip)), pi_shape = [], is_output = False\<rparr>))"

definition extract_param_info :: "prim_func \<Rightarrow> out_spec option \<Rightarrow> param_info list res" where
  "extract_param_info f out_idx =
     (let n_params = int (length (fn_params f));
          each = (\<lambda>outs. rmap (info_of f outs) (enumerate 0 (fn_params f))) in
      case out_idx of
        None \<Rightarrow> each {}
      | Some (OutList out_ids) \<Rightarrow> each ((\<lambda>i. if i \<ge> 0 then i else n_params + i) ` set out_ids)
      | Some _ \<Rightarrow> Inl TypeError)"

section \<open>The grid expression\<close>

text \<open>\<^verbatim>\<open>str.replace\<close>: occurrences from the left that do not overlap.\<close>

function replace_from :: "string \<Rightarrow> string \<Rightarrow> string \<Rightarrow> string" where
  "replace_from old new [] = []"
| "replace_from old new (c # cs) =
     (if old \<noteq> [] \<and> prefix old (c # cs) then new @ replace_from old new (drop (length old) (c # cs))
      else c # replace_from old new cs)"
  by pat_completeness auto
termination by (relation "measure (\<lambda>(old, new, s). length s)") (auto simp: length_greater_0_conv diff_less_Suc)

definition py_replace :: "string \<Rightarrow> string \<Rightarrow> string \<Rightarrow> string" where
  "py_replace old new s =
     (if old = [] then new @ concat (map (\<lambda>c. c # new) s) else replace_from old new s)"

definition longest_first :: "string list \<Rightarrow> string list" where
  "longest_first ks = sort_key (\<lambda>k. (- int (length k), k)) ks"

definition replace_by_longest_key :: "string \<Rightarrow> dynamic_val \<Rightarrow> string" where
  "replace_by_longest_key text d =
     fold (\<lambda>k s. py_replace k (str_int (the (map_of d k))) s) (longest_first (map fst d)) text"

section \<open>Kernels and calls\<close>

datatype arg = Tensor "int list" string string | Scalar int

datatype grid_val = GridNum int | GridSeq "int list"

record kernel =
  symbolic :: "(tir_var \<times> binding) list"
  params :: "tir_var list"
  param_info :: "param_info list"
  out_idx :: "nat list option"
  signature :: "(nat \<times> string) list"
  prim_func :: prim_func
  mlir_content :: "string option"
  utils_shared :: nat
  kernel_name :: string
  gridfunc :: string
  mix_mode :: string
  utils_name :: string
  tensor_kinds :: "nat list"
  utils_kernel_src :: "nat list"
  so_launcher_path :: string

text \<open>Positions of the inputs among the arguments of the call.\<close>

fun input_positions :: "nat \<Rightarrow> nat \<Rightarrow> param_info list \<Rightarrow> (nat \<times> nat) list" where
  "input_positions i pos [] = []"
| "input_positions i pos (p # ps) =
     (if is_output p then input_positions (Suc i) pos ps
      else (i, pos) # input_positions (Suc i) (Suc pos) ps)"

definition resolve_symbol :: "(nat \<times> nat) list \<Rightarrow> arg list \<Rightarrow> tir_var \<times> binding \<Rightarrow> (string \<times> int) res" where
  "resolve_symbol orig_to_input args vb =
     (let (i, j) = bound_dim (snd vb) in
      case map_of orig_to_input i of
        None \<Rightarrow> Inl ValueError
      | Some pos \<Rightarrow>
          rbind (py_nth args (int pos)) (\<lambda>a.
            case a of
              Scalar n \<Rightarrow> Inl ValueError
            | Tensor shape dt dev \<Rightarrow>
                if j < length shape
                then rbind (recover_symbol (snd vb) (shape ! j)) (\<lambda>x. Inr (var_name (fst vb), x))
                else Inl ValueError))"

text \<open>
  The values of the symbols in order, of which \<^verbatim>\<open>extra_args\<close> are the numbers, and the launch grid.
  The names are those of distinct keys, so the pairs are the dictionary \<^verbatim>\<open>dynamic_val\<close>.
\<close>

definition calcu_grid ::
  "(string \<Rightarrow> dynamic_val \<Rightarrow> grid_val option) \<Rightarrow> kernel \<Rightarrow> (nat \<times> nat) list \<Rightarrow> arg list \<Rightarrow> (dynamic_val \<times> int list) res" where
  "calcu_grid py_eval k orig_to_input args =
     rbind (rmap (resolve_symbol orig_to_input args) (symbolic k)) (\<lambda>d.
       case py_eval (replace_by_longest_key (gridfunc k) d) d of
         None \<Rightarrow> Inl ValueError
       | Some (GridNum n) \<Rightarrow> Inr (d, [n, 1, 1])
       | Some (GridSeq ns) \<Rightarrow> Inr (d, ns))"

definition out_dim :: "(prim_expr \<Rightarrow> prim_expr) \<Rightarrow> dynamic_val \<Rightarrow> prim_expr \<Rightarrow> int res" where
  "out_dim smp d e =
     (case e of Var v \<Rightarrow> lookup_val d (var_name v) | IntImm n \<Rightarrow> Inr n | _ \<Rightarrow> eval_tir_expr smp d e)"

definition device_of :: "arg list \<Rightarrow> string res" where
  "device_of args =
     (case args of [] \<Rightarrow> Inr ''cpu'' | Tensor shape dt dev # _ \<Rightarrow> Inr dev | Scalar n # _ \<Rightarrow> Inl AttributeError)"

text \<open>An output is allocated with \<^verbatim>\<open>torch.empty\<close>, which raises \<^verbatim>\<open>RuntimeError\<close> for a negative dimension.\<close>

fun full_args :: "(prim_expr \<Rightarrow> prim_expr) \<Rightarrow> dynamic_val \<Rightarrow> arg list \<Rightarrow> arg list \<Rightarrow> param_info list \<Rightarrow> arg list res" where
  "full_args smp d args rest [] = Inr []"
| "full_args smp d args rest (p # ps) =
     (if is_output p
      then rbind (rmap (out_dim smp d) (pi_shape p)) (\<lambda>shape.
           rbind (device_of args) (\<lambda>dev.
           rbind (guard RuntimeError (list_all (\<lambda>n. 0 \<le> n) shape)) (\<lambda>_.
           rbind (full_args smp d args rest ps) (\<lambda>as. Inr (Tensor shape (pi_dtype p) dev # as)))))
      else case rest of
             [] \<Rightarrow> Inl IndexError
           | a # rest' \<Rightarrow> rbind (full_args smp d args rest' ps) (\<lambda>as. Inr (a # as)))"

datatype call_value = NoValue | OneValue arg | ValueList "arg list"

record kernel_launch =
  launch_grid :: "int \<times> int \<times> int"
  launch_args :: "arg list"

definition call_kernel ::
  "(prim_expr \<Rightarrow> prim_expr) \<Rightarrow> (string \<Rightarrow> dynamic_val \<Rightarrow> grid_val option) \<Rightarrow> kernel \<Rightarrow> arg list \<Rightarrow> (kernel_launch \<times> call_value) res" where
  "call_kernel smp py_eval k args =
     (let n_params = length (param_info k);
          num_inputs = int n_params - (case out_idx k of None \<Rightarrow> 0 | Some os \<Rightarrow> int (length os)) in
      if int (length args) \<noteq> num_inputs then Inl ValueError
      else
        rbind (calcu_grid py_eval k (input_positions 0 0 (param_info k)) args) (\<lambda>(d, grid).
        rbind (full_args smp d args args (param_info k)) (\<lambda>as.
        let full = as @ map (\<lambda>p. Scalar (snd p)) d in
        rbind (rmap (py_nth grid) [0, 1, 2]) (\<lambda>g.
        rbind (case out_idx k of
                 None \<Rightarrow> Inr NoValue
               | Some os \<Rightarrow>
                   rbind (rmap (\<lambda>i. py_nth full (int i)) os) (\<lambda>rs.
                     case rs of [r] \<Rightarrow> Inr (OneValue r) | _ \<Rightarrow> Inr (ValueList rs)))
          (\<lambda>r. Inr (\<lparr>launch_grid = (g ! 0, g ! 1, g ! 2), launch_args = full\<rparr>, r))))))"

section \<open>Parameter records and output indices\<close>

lemma rmap_nth: "rmap f xs = Inr ys \<Longrightarrow> i < length xs \<Longrightarrow> f (xs ! i) = Inr (ys ! i)"
  by (simp add: rmap_Inr_iff list_all2_conv_all_nth)

lemma normalize_index_Inr:
  "normalize_index n i = Inr j \<longleftrightarrow> j < n \<and> int j = (if i \<ge> 0 then i else int n + i)"
  by (auto simp: normalize_index_def Let_def)

lemma normalize_index_again: "j < n \<Longrightarrow> normalize_index n (int j) = Inr j"
  by (simp add: normalize_index_Inr)

definition out_positions :: "nat \<Rightarrow> int list \<Rightarrow> int set" where
  "out_positions n out_ids = (\<lambda>i. if i \<ge> 0 then i else int n + i) ` set out_ids"

lemma normalized_positions:
  assumes "normalize_out_idx (Some (OutList out_ids)) n = Inr (Some js)"
  shows "out_positions n out_ids = int ` set js" and "set js \<subseteq> {..<n}" and "length js = length out_ids"
proof -
  have js: "list_all2 (\<lambda>i j. normalize_index n i = Inr j) out_ids js"
    using assms by (auto simp: normalize_out_idx_def rbind_Inr_iff rmap_Inr_iff)
  then show "length js = length out_ids" by (simp add: list_all2_lengthD)
  from js show "out_positions n out_ids = int ` set js"
    unfolding out_positions_def by (induction rule: list_all2_induct) (auto simp: normalize_index_Inr)
  from js show "set js \<subseteq> {..<n}"
    by (induction rule: list_all2_induct) (auto simp: normalize_index_Inr)
qed

lemma info_of_Inr:
  assumes "info_of f outs (i, p) = Inr q"
  shows "is_output q \<longleftrightarrow> int i \<in> outs"
    and "pi_shape q = (case map_of (buffer_map f) p of None \<Rightarrow> [] | Some b \<Rightarrow> buf_shape b)"
    and "is_output q \<Longrightarrow> pi_shape q \<noteq> []"
  using assms by (auto simp: info_of_def Let_def split: option.splits if_splits)

lemma extract_param_info_nth:
  assumes "extract_param_info f (Some (OutList out_ids)) = Inr infos"
  shows "length infos = length (fn_params f)"
    and "i < length infos \<Longrightarrow> is_output (infos ! i) \<longleftrightarrow> int i \<in> out_positions (length infos) out_ids"
    and "i < length infos \<Longrightarrow> pi_shape (infos ! i) =
           (case map_of (buffer_map f) (fn_params f ! i) of None \<Rightarrow> [] | Some b \<Rightarrow> buf_shape b)"
proof -
  let ?outs = "out_positions (length (fn_params f)) out_ids"
  have infos: "rmap (info_of f ?outs) (enumerate 0 (fn_params f)) = Inr infos"
    using assms by (simp add: extract_param_info_def out_positions_def)
  show len: "length infos = length (fn_params f)" using rmap_Inr_length [OF infos] by simp
  assume i: "i < length infos"
  have at: "info_of f ?outs (i, fn_params f ! i) = Inr (infos ! i)"
    using rmap_nth [OF infos, of i] i len by (simp add: nth_enumerate_eq)
  show "is_output (infos ! i) \<longleftrightarrow> int i \<in> out_positions (length infos) out_ids"
    using info_of_Inr(1) [OF at] len by simp
  show "pi_shape (infos ! i) =
           (case map_of (buffer_map f) (fn_params f ! i) of None \<Rightarrow> [] | Some b \<Rightarrow> buf_shape b)"
    by (rule info_of_Inr(2) [OF at])
qed

text \<open>An output is a tensor with at least one dimension: scalars are refused as outputs.\<close>

lemma extract_param_info_outputs:
  assumes "extract_param_info f (Some (OutList out_ids)) = Inr infos" and "i < length infos"
    and "is_output (infos ! i)"
  shows "pi_shape (infos ! i) \<noteq> []"
proof -
  let ?outs = "out_positions (length (fn_params f)) out_ids"
  have infos: "rmap (info_of f ?outs) (enumerate 0 (fn_params f)) = Inr infos"
    using assms(1) by (simp add: extract_param_info_def out_positions_def)
  have "info_of f ?outs (i, fn_params f ! i) = Inr (infos ! i)"
    using rmap_nth [OF infos, of i] rmap_Inr_length [OF infos] assms(2) by (simp add: nth_enumerate_eq)
  then show ?thesis using assms(3) by (rule info_of_Inr(3))
qed

section \<open>What the caller passes\<close>

abbreviation inputs :: "param_info list \<Rightarrow> param_info list" where
  "inputs ps \<equiv> filter (\<lambda>p. \<not> is_output p) ps"

definition dims_match :: "(prim_expr \<Rightarrow> prim_expr) \<Rightarrow> dynamic_val \<Rightarrow> prim_expr list \<Rightarrow> int list \<Rightarrow> bool" where
  "dims_match smp d es ns = list_all2 (\<lambda>e n. eval_tir_expr smp d e = Inr n) es ns"

definition arg_matches :: "(prim_expr \<Rightarrow> prim_expr) \<Rightarrow> dynamic_val \<Rightarrow> param_info \<Rightarrow> arg \<Rightarrow> bool" where
  "arg_matches smp d p a =
     (case a of Tensor shape dt dev \<Rightarrow> dims_match smp d (pi_shape p) shape | Scalar n \<Rightarrow> pi_shape p = [])"

definition args_match :: "(prim_expr \<Rightarrow> prim_expr) \<Rightarrow> dynamic_val \<Rightarrow> param_info list \<Rightarrow> arg list \<Rightarrow> bool" where
  "args_match smp d ps args = list_all2 (arg_matches smp d) (inputs ps) args"

text \<open>
  The arguments of the launcher: the caller's at the inputs, in order, and a fresh tensor of
  the declared type and shape at every output.
\<close>

definition laid_out :: "(prim_expr \<Rightarrow> prim_expr) \<Rightarrow> dynamic_val \<Rightarrow> param_info list \<Rightarrow> arg list \<Rightarrow> arg list \<Rightarrow> bool" where
  "laid_out smp d ps args as \<longleftrightarrow>
     length as = length ps \<and> map snd (filter (\<lambda>pa. \<not> is_output (fst pa)) (zip ps as)) = args \<and>
     (\<forall>(p, a) \<in> set (zip ps as). is_output p \<longrightarrow>
        (\<exists>shape dev. a = Tensor shape (pi_dtype p) dev \<and> dims_match smp d (pi_shape p) shape))"

lemma filter_nth_take:
  "i < length xs \<Longrightarrow> P (xs ! i) \<Longrightarrow>
   length (filter P (take i xs)) < length (filter P xs) \<and> filter P xs ! length (filter P (take i xs)) = xs ! i"
proof (induction xs arbitrary: i)
  case (Cons x xs)
  then show ?case by (cases i) auto
qed simp

lemma input_positions_iff:
  "(i, pos) \<in> set (input_positions i0 p0 ps) \<longleftrightarrow>
     i0 \<le> i \<and> i < i0 + length ps \<and> \<not> is_output (ps ! (i - i0)) \<and> pos = p0 + length (inputs (take (i - i0) ps))"
proof (induction i0 p0 ps rule: input_positions.induct)
  case (2 i0 p0 p ps)
  show ?case
  proof (cases "i = i0")
    case True
    then show ?thesis using 2 by auto
  next
    case False
    then have "i0 \<le> i \<longleftrightarrow> Suc i0 \<le> i" and "Suc i0 \<le> i \<Longrightarrow> i - i0 = Suc (i - Suc i0)" by auto
    then show ?thesis using 2 False by (cases "Suc i0 \<le> i") auto
  qed
qed simp

lemma input_arg:
  assumes "args_match smp d ps args" and "(i, pos) \<in> set (input_positions 0 0 ps)"
  shows "i < length ps \<and> pos < length args \<and> arg_matches smp d (ps ! i) (args ! pos)"
proof -
  have i: "i < length ps" "\<not> is_output (ps ! i)" "pos = length (inputs (take i ps))"
    using assms(2) by (auto simp: input_positions_iff)
  have "pos < length (inputs ps)" "inputs ps ! pos = ps ! i"
    using filter_nth_take [of i ps "\<lambda>p. \<not> is_output p"] i by auto
  then show ?thesis using assms(1) i(1) unfolding args_match_def by (metis list_all2_conv_all_nth)
qed

section \<open>The values of the symbols\<close>

lemma out_dim_eval [simp]: "out_dim = eval_tir_expr"
proof (intro ext)
  show "out_dim smp d e = eval_tir_expr smp d e" for smp d e
    by (cases e) (simp_all add: out_dim_def)
qed

lemma resolve_symbol_value:
  assumes info: "extract_param_info f (Some (OutList out_ids)) = Inr ps"
    and m: "process_dynamic_symbolic f = Inr m" "(v, bd) \<in> set m"
    and args: "args_match smp d ps args" and x: "map_of d (var_name v) = Some x"
    and res: "resolve_symbol (input_positions 0 0 ps) args (v, bd) = Inr r"
  shows "r = (var_name v, x)"
proof -
  obtain i j where ij: "bound_dim bd = (i, j)" by fastforce
  have "bind_var f v = Inr (Some bd)"
    using bind_vars_elem m by (auto simp: process_dynamic_symbolic_def)
  then obtain e where e: "(i, j, e) \<in> set (dims_of f)"
    and inverse: "\<And>n. eval_tir_expr smp d e = Inr n \<Longrightarrow> recover_symbol bd n = Inr x"
    using ij x by (metis bind_var_sound)
  obtain pos shape dt dev where pos: "map_of (input_positions 0 0 ps) i = Some pos"
      and arg: "py_nth args (int pos) = Inr (Tensor shape dt dev)" and j: "j < length shape"
      and r: "rbind (recover_symbol bd (shape ! j)) (\<lambda>x. Inr (var_name v, x)) = Inr r"
  proof (cases "map_of (input_positions 0 0 ps) i")
    case (Some pos)
    then obtain a where "py_nth args (int pos) = Inr a"
      using res ij by (auto simp: resolve_symbol_def rbind_Inr_iff)
    then show thesis using that Some res ij by (cases a) (auto simp: resolve_symbol_def split: if_splits)
  qed (use res ij in \<open>simp add: resolve_symbol_def\<close>)
  have i: "i < length ps" "pos < length args" "arg_matches smp d (ps ! i) (args ! pos)"
    using input_arg [OF args map_of_SomeD [OF pos]] by auto
  have "pi_shape (ps ! i) ! j = e"
    using e extract_param_info_nth(1) [OF info] extract_param_info_nth(3) [OF info i(1)] by (auto simp: dims_of_iff)
  moreover have "args ! pos = Tensor shape dt dev" using arg i(2) by simp
  ultimately have "eval_tir_expr smp d e = Inr (shape ! j)"
    using i(3) j by (auto simp: arg_matches_def dims_match_def list_all2_conv_all_nth)
  then show ?thesis using r inverse by (auto simp: rbind_Inr_iff)
qed

lemma resolved_symbols:
  assumes info: "extract_param_info f (Some (OutList out_ids)) = Inr ps"
    and m: "process_dynamic_symbolic f = Inr m" and args: "args_match smp d ps args"
    and known: "\<forall>(v, bd) \<in> set m. var_name v \<in> dom (map_of d)"
    and res: "rmap (resolve_symbol (input_positions 0 0 ps) args) m = Inr r"
  shows "r = map (\<lambda>p. (var_name (fst p), the (map_of d (var_name (fst p))))) m" and "map_of r \<subseteq>\<^sub>m map_of d"
proof -
  have each: "r ! i = (var_name (fst (m ! i)), the (map_of d (var_name (fst (m ! i)))))" if i: "i < length m" for i
  proof -
    obtain v bd where vb: "m ! i = (v, bd)" "(v, bd) \<in> set m" using i by (metis nth_mem surjective_pairing)
    then obtain x where "map_of d (var_name v) = Some x" using known by fastforce
    then show ?thesis
      using resolve_symbol_value [OF info m vb(2) args] rmap_nth [OF res i] vb(1) by simp
  qed
  then show r: "r = map (\<lambda>p. (var_name (fst p), the (map_of d (var_name (fst p))))) m"
    using rmap_Inr_length [OF res] by (intro nth_equalityI) auto
  show "map_of r \<subseteq>\<^sub>m map_of d"
    unfolding map_le_def
  proof
    fix n
    assume "n \<in> dom (map_of r)"
    then obtain x where "map_of r n = Some x" by blast
    moreover from this have "(n, x) \<in> set r" by (rule map_of_SomeD)
    ultimately show "map_of r n = map_of d n" using known unfolding r by force
  qed
qed

section \<open>The arguments of the launcher\<close>

lemma full_args_laid_out:
  assumes "full_args smp d args rest ps = Inr as" and "map_of d \<subseteq>\<^sub>m map_of d'"
  shows "length as = length ps \<and>
    map snd (filter (\<lambda>pa. \<not> is_output (fst pa)) (zip ps as)) = take (length (inputs ps)) rest \<and>
    length (inputs ps) \<le> length rest \<and>
    (\<forall>(p, a) \<in> set (zip ps as). is_output p \<longrightarrow>
        (\<exists>shape dev. a = Tensor shape (pi_dtype p) dev \<and> dims_match smp d' (pi_shape p) shape))"
  using assms
proof (induction ps arbitrary: rest as)
  case (Cons p ps)
  show ?case
  proof (cases "is_output p")
    case True
    then obtain shape dev as' where "rmap (eval_tir_expr smp d) (pi_shape p) = Inr shape"
        and rec: "full_args smp d args rest ps = Inr as'" and as: "as = Tensor shape (pi_dtype p) dev # as'"
      using Cons.prems(1) by (auto simp: rbind_Inr_iff)
    then have "dims_match smp d' (pi_shape p) shape"
      using eval_tir_expr_mono [OF _ assms(2)] unfolding rmap_Inr_iff dims_match_def
      by (auto elim: list_all2_mono)
    then show ?thesis using Cons.IH [OF rec assms(2)] True by (auto simp: as)
  next
    case False
    then obtain a rest' as' where "rest = a # rest'" and rec: "full_args smp d args rest' ps = Inr as'"
        and "as = a # as'"
      using Cons.prems(1) by (auto simp: rbind_Inr_iff split: list.splits)
    then show ?thesis using Cons.IH [OF rec assms(2)] False by auto
  qed
qed simp

lemma inputs_count:
  assumes "extract_param_info f (Some (OutList out_ids)) = Inr ps"
    and "normalize_out_idx (Some (OutList out_ids)) (length (fn_params f)) = Inr (Some js)"
  shows "length (inputs ps) = length ps - card (set js)" and "set js \<subseteq> {..<length ps}"
    and "i < length ps \<Longrightarrow> is_output (ps ! i) \<longleftrightarrow> i \<in> set js"
proof -
  note pos = normalized_positions [OF assms(2)] and nth = extract_param_info_nth [OF assms(1)]
  show js: "set js \<subseteq> {..<length ps}" using pos(2) nth(1) by simp
  have out: "is_output (ps ! i) \<longleftrightarrow> i \<in> set js" if "i < length ps" for i
    using nth(1) nth(2) [OF that] pos(1) by auto
  then show "i < length ps \<Longrightarrow> is_output (ps ! i) \<longleftrightarrow> i \<in> set js" .
  have "length (inputs ps) = card {i. i < length ps \<and> \<not> is_output (ps ! i)}"
    by (rule length_filter_conv_card)
  also have "{i. i < length ps \<and> \<not> is_output (ps ! i)} = {..<length ps} - set js"
    using out by auto
  finally show "length (inputs ps) = length ps - card (set js)"
    using js by (simp add: card_Diff_subset)
qed

lemma call_kernel_Inr:
  assumes "call_kernel smp py_eval k args = Inr (l, r)" and js: "out_idx k = Some js"
  obtains d grid as rs where
    "rmap (resolve_symbol (input_positions 0 0 (param_info k)) args) (symbolic k) = Inr d"
    and "calcu_grid py_eval k (input_positions 0 0 (param_info k)) args = Inr (d, grid)"
    and "full_args smp d args args (param_info k) = Inr as"
    and "length args + length js = length (param_info k)"
    and "launch_args l = as @ map (\<lambda>p. Scalar (snd p)) d"
    and "rmap (\<lambda>i. py_nth (launch_args l) (int i)) js = Inr rs"
    and "r = (case rs of [a] \<Rightarrow> OneValue a | rs \<Rightarrow> ValueList rs)"
proof -
  from assms obtain d grid as where count: "int (length args) = int (length (param_info k)) - int (length js)"
      and g: "calcu_grid py_eval k (input_positions 0 0 (param_info k)) args = Inr (d, grid)"
      and as: "full_args smp d args args (param_info k) = Inr as"
      and l: "launch_args l = as @ map (\<lambda>p. Scalar (snd p)) d"
      and out: "rbind (rmap (\<lambda>i. py_nth (launch_args l) (int i)) js)
            (\<lambda>rs. case rs of [r] \<Rightarrow> Inr (OneValue r) | _ \<Rightarrow> Inr (ValueList rs)) = Inr r"
    by (auto simp: call_kernel_def Let_def rbind_Inr_iff split: if_splits)
  have "rmap (resolve_symbol (input_positions 0 0 (param_info k)) args) (symbolic k) = Inr d"
    using g by (cases "rmap (resolve_symbol (input_positions 0 0 (param_info k)) args) (symbolic k)")
      (auto simp: calcu_grid_def split: option.splits grid_val.splits)
  moreover obtain rs where rs: "rmap (\<lambda>i. py_nth (launch_args l) (int i)) js = Inr rs"
    and r: "(case rs of [r] \<Rightarrow> Inr (OneValue r) | _ \<Rightarrow> Inr (ValueList rs)) = (Inr r :: call_value res)"
    using out by (auto simp: rbind_Inr_iff)
  moreover have "r = (case rs of [a] \<Rightarrow> OneValue a | rs \<Rightarrow> ValueList rs)"
    using r by (auto split: list.splits)
  ultimately show thesis using that [of d grid as rs] g as l count by simp
qed

text \<open>
  Calling a kernel whose records were extracted from a function \<open>f\<close>.  Let the caller's tensors
  have the shapes that \<open>f\<close> declares, for some values \<open>d\<close> of the symbolic variables.  If the call
  returns, the launcher received the caller's arguments at the inputs and, at every output, a
  tensor of the declared type whose dimensions are the values of the declared ones under \<open>d\<close>, then
  the values of the symbolic variables under \<open>d\<close>; and the call returned the arguments at the output
  indices, in the order the caller asked for.
\<close>

lemma call_kernel_correct:
  assumes info: "extract_param_info f (Some (OutList out_ids)) = Inr (param_info k)"
    and outs: "normalize_out_idx (Some (OutList out_ids)) (length (fn_params f)) = Inr (Some js)" "out_idx k = Some js"
    and syms: "process_dynamic_symbolic f = Inr (symbolic k)"
    and args: "args_match smp d (param_info k) args"
    and known: "\<forall>(v, bd) \<in> set (symbolic k). var_name v \<in> dom (map_of d)"
    and ret: "call_kernel smp py_eval k args = Inr (l, r)"
  shows "\<exists>as. laid_out smp d (param_info k) args as \<and>
    launch_args l = as @ map (\<lambda>(v, bd). Scalar (the (map_of d (var_name v)))) (symbolic k) \<and>
    r = (case map ((!) as) js of [a] \<Rightarrow> OneValue a | rs \<Rightarrow> ValueList rs)"
proof -
  obtain r0 grid as rs where d: "rmap (resolve_symbol (input_positions 0 0 (param_info k)) args) (symbolic k) = Inr r0"
    and as: "full_args smp r0 args args (param_info k) = Inr as"
    and count: "length args + length js = length (param_info k)"
    and l: "launch_args l = as @ map (\<lambda>p. Scalar (snd p)) r0"
    and out: "rmap (\<lambda>i. py_nth (launch_args l) (int i)) js = Inr rs"
      "r = (case rs of [a] \<Rightarrow> OneValue a | rs \<Rightarrow> ValueList rs)"
    by (rule call_kernel_Inr [OF ret outs(2)])
  note r0 = resolved_symbols [OF info syms args known d]
  note laid = full_args_laid_out [OF as r0(2)]
  have "length (inputs (param_info k)) = length args"
    using laid inputs_count(1) [OF info outs(1)] count card_length [of js] by linarith
  then have "laid_out smp d (param_info k) args as" using laid by (simp add: laid_out_def)
  moreover have "rmap (\<lambda>i. py_nth (launch_args l) (int i)) js = Inr (map ((!) as) js)"
    using laid inputs_count(2) [OF info outs(1)]
    by (subst rmap_cong [OF refl, where g = "\<lambda>i. Inr (as ! i)"]) (auto simp: l nth_append)
  moreover have "map (\<lambda>p. Scalar (snd p)) r0 = map (\<lambda>(v, bd). Scalar (the (map_of d (var_name v)))) (symbolic k)"
    by (simp add: r0(1) case_prod_beta)
  ultimately show ?thesis using out l by (intro exI [of _ as]) simp
qed

section \<open>Calls that return and calls that are refused\<close>

definition symbol_values :: "dynamic_val \<Rightarrow> (tir_var \<times> binding) list \<Rightarrow> dynamic_val" where
  "symbol_values d m = map (\<lambda>p. (var_name (fst p), the (map_of d (var_name (fst p))))) m"

lemma resolve_symbol_total:
  assumes info: "extract_param_info f (Some (OutList out_ids)) = Inr ps"
    and m: "process_dynamic_symbolic f = Inr m" "(v, bd) \<in> set m"
    and args: "args_match smp d ps args" and x: "map_of d (var_name v) = Some x"
    and input: "\<not> is_output (ps ! fst (bound_dim bd))"
  shows "\<exists>r. resolve_symbol (input_positions 0 0 ps) args (v, bd) = Inr r"
proof -
  obtain i j where ij: "bound_dim bd = (i, j)" by fastforce
  have "bind_var f v = Inr (Some bd)"
    using bind_vars_elem m by (auto simp: process_dynamic_symbolic_def)
  then obtain e where e: "(i, j, e) \<in> set (dims_of f)"
    and inverse: "\<And>n. eval_tir_expr smp d e = Inr n \<Longrightarrow> recover_symbol bd n = Inr x"
    using ij x by (metis bind_var_sound)
  have i: "i < length ps" using e extract_param_info_nth(1) [OF info] by (auto simp: dims_of_iff)
  have shape: "pi_shape (ps ! i) ! j = e" "j < length (pi_shape (ps ! i))"
    using e extract_param_info_nth(3) [OF info i] by (auto simp: dims_of_iff)
  have "(i, length (inputs (take i ps))) \<in> set (input_positions 0 0 ps)"
    using i input ij by (simp add: input_positions_iff)
  then obtain pos where pos: "map_of (input_positions 0 0 ps) i = Some pos"
    by (metis weak_map_of_SomeI)
  have arg: "pos < length args" "arg_matches smp d (ps ! i) (args ! pos)"
    using input_arg [OF args map_of_SomeD [OF pos]] by auto
  then obtain shape' dt dev where t: "args ! pos = Tensor shape' dt dev"
    and dims: "dims_match smp d (pi_shape (ps ! i)) shape'"
    using shape(2) by (auto simp: arg_matches_def split: arg.splits)
  then have "eval_tir_expr smp d e = Inr (shape' ! j)" and "j < length shape'"
    using shape by (auto simp: dims_match_def list_all2_conv_all_nth)
  then show ?thesis using pos arg(1) t inverse ij by (simp add: resolve_symbol_def)
qed

lemma full_args_total:
  assumes "\<And>p. p \<in> set ps \<Longrightarrow> is_output p \<Longrightarrow>
      \<exists>ns. rmap (eval_tir_expr smp d) (pi_shape p) = Inr ns \<and> list_all (\<lambda>n. 0 \<le> n) ns"
    and "\<exists>dev. device_of args = Inr dev" and "length rest = length (inputs ps)"
  shows "\<exists>as. full_args smp d args rest ps = Inr as"
  using assms
proof (induction ps arbitrary: rest)
  case (Cons p ps)
  show ?case
  proof (cases "is_output p")
    case True
    then have "\<exists>as. full_args smp d args rest ps = Inr as" using Cons by auto
    then show ?thesis using True Cons.prems(1,2) by fastforce
  next
    case False
    then obtain a rest' where "rest = a # rest'" using Cons.prems(3) by (cases rest) auto
    then show ?thesis using False Cons.IH [of rest'] Cons.prems by fastforce
  qed
qed simp

text \<open>
  A call with tensors of the declared shapes returns, when the symbolic variables are all
  bound to inputs, the outputs' shapes can be computed from them and have no negative dimension, the
  output indices are distinct, the first argument is a tensor (or there is none) and Python evaluates
  the kernel's grid expression, with the values written in, to a number.
\<close>

lemma call_kernel_returns:
  assumes info: "extract_param_info f (Some (OutList out_ids)) = Inr (param_info k)"
    and outs: "normalize_out_idx (Some (OutList out_ids)) (length (fn_params f)) = Inr (Some js)"
      "out_idx k = Some js" "distinct js"
    and syms: "process_dynamic_symbolic f = Inr (symbolic k)"
    and args: "args_match smp d (param_info k) args"
    and known: "\<forall>(v, bd) \<in> set (symbolic k). var_name v \<in> dom (map_of d)"
    and input: "\<forall>(v, bd) \<in> set (symbolic k). \<not> is_output (param_info k ! fst (bound_dim bd))"
    and shapes: "\<forall>p \<in> set (param_info k). is_output p \<longrightarrow>
       (\<exists>ns. rmap (eval_tir_expr smp (symbol_values d (symbolic k))) (pi_shape p) = Inr ns \<and> list_all (\<lambda>n. 0 \<le> n) ns)"
    and dev: "case args of Scalar n # _ \<Rightarrow> False | _ \<Rightarrow> True"
    and grid: "py_eval (replace_by_longest_key (gridfunc k) (symbol_values d (symbolic k))) (symbol_values d (symbolic k)) =
       Some (GridNum g)"
  shows "\<exists>l r. call_kernel smp py_eval k args = Inr (l, r) \<and> launch_grid l = (g, 1, 1)"
proof -
  let ?pos = "input_positions 0 0 (param_info k)"
  have "\<exists>r. resolve_symbol ?pos args p = Inr r" if "p \<in> set (symbolic k)" for p
    using resolve_symbol_total [OF info syms, of "fst p" "snd p"] args that known input
    by (cases p) fastforce
  then obtain r0 where r0: "rmap (resolve_symbol ?pos args) (symbolic k) = Inr r0"
    using rmap_total by blast
  then have vals: "r0 = symbol_values d (symbolic k)"
    using resolved_symbols(1) [OF info syms args known r0] by (simp add: symbol_values_def)
  have count: "length (inputs (param_info k)) = length (param_info k) - length js" "set js \<subseteq> {..<length (param_info k)}"
    using inputs_count(1,2) [OF info outs(1)] outs(3) by (simp_all add: distinct_card)
  have inp: "length args = length (inputs (param_info k))"
    using args by (simp add: args_match_def list_all2_lengthD)
  have "length js \<le> length (param_info k)"
    using card_mono [OF _ count(2)] outs(3) by (simp add: distinct_card)
  then have n: "int (length args) = int (length (param_info k)) - int (length js)"
    using inp count(1) by simp
  have "\<exists>as. full_args smp r0 args args (param_info k) = Inr as"
  proof (rule full_args_total [OF _ _ inp])
    show "\<exists>ns. rmap (eval_tir_expr smp r0) (pi_shape p) = Inr ns \<and> list_all (\<lambda>n. 0 \<le> n) ns"
      if "p \<in> set (param_info k)" "is_output p" for p
      using shapes that vals by blast
    show "\<exists>dev. device_of args = Inr dev" using dev by (auto simp: device_of_def split: list.splits arg.splits)
  qed
  then obtain as where as: "full_args smp r0 args args (param_info k) = Inr as" by blast
  then have "length as = length (param_info k)" using full_args_laid_out [OF as map_le_refl] by simp
  then have "rmap (\<lambda>i. py_nth (as @ map (\<lambda>p. Scalar (snd p)) r0) (int i)) js = Inr (map ((!) as) js)"
    using count(2) by (subst rmap_cong [OF refl, where g = "\<lambda>i. Inr (as ! i)"]) (auto simp: nth_append)
  moreover have "py_eval (replace_by_longest_key (gridfunc k) r0) r0 = Some (GridNum g)"
    using grid vals by simp
  moreover have "rmap (py_nth [g, 1, 1]) [0, 1, 2] = Inr [g, 1, 1]" by (simp add: py_nth_def)
  ultimately show ?thesis
    using n r0 as outs(2) by (simp add: call_kernel_def calcu_grid_def Let_def split: list.splits)
qed

text \<open>
  A symbolic variable that is bound to a dimension of an output cannot be resolved: whatever
  the caller passes, the call raises.  The binding takes the first parameter that mentions the
  variable, so this happens to every kernel whose output comes before the input of the same size.
\<close>

theorem symbol_on_output_refused:
  assumes "(v, bd) \<in> set (symbolic k)" and "fst (bound_dim bd) < length (param_info k)"
    and "is_output (param_info k ! fst (bound_dim bd))"
  shows "\<exists>e. call_kernel smp py_eval k args = Inl e"
proof -
  obtain i j where ij: "bound_dim bd = (i, j)" by fastforce
  have "map_of (input_positions 0 0 (param_info k)) i = None"
    using assms(3) ij by (auto simp: map_of_eq_None_iff input_positions_iff)
  then have "resolve_symbol (input_positions 0 0 (param_info k)) args (v, bd) = Inl ValueError"
    by (simp add: resolve_symbol_def ij)
  then have "\<not> (\<exists>r. rmap (resolve_symbol (input_positions 0 0 (param_info k)) args) (symbolic k) = Inr r)"
    using assms(1) rmap_Inr_elem by fastforce
  then show ?thesis
    by (cases "rmap (resolve_symbol (input_positions 0 0 (param_info k)) args) (symbolic k)")
      (auto simp: call_kernel_def calcu_grid_def Let_def)
qed

text \<open>A kernel with given records, for the example.\<close>

definition kernel_of :: "prim_func \<Rightarrow> (tir_var \<times> binding) list \<Rightarrow> param_info list \<Rightarrow> nat list option \<Rightarrow> kernel" where
  "kernel_of f m ps outs =
     \<lparr>symbolic = m, params = fn_params f @ map fst m, param_info = ps, out_idx = outs, signature = [],
      prim_func = f, mlir_content = None, utils_shared = 1, kernel_name = ''main'', gridfunc = ''n'',
      mix_mode = ''aiv'', utils_name = ''main'', tensor_kinds = [], utils_kernel_src = [], so_launcher_path = []\<rparr>"

theorem symbol_on_output_refused_witness:
  "let n = TirVar 0 ''n'' ''int32''; a = TirVar 1 ''A'' ''handle''; b = TirVar 2 ''B'' ''handle'';
       t = \<lparr>buf_dtype = ''float16'', buf_shape = [Var n]\<rparr>;
       f = \<lparr>fn_params = [a, b], buffer_map = [(a, t), (b, t)], fn_body = None\<rparr>;
       ps = projr (extract_param_info f (Some (OutList [0])))
   in process_dynamic_symbolic f = Inr [(n, Direct 0 0)] \<and>
      (\<exists>e. call_kernel id (\<lambda>s d. Some (GridNum 1)) (kernel_of f [(n, Direct 0 0)] ps (Some [0]))
         [Tensor [5] ''float16'' ''npu''] = Inl e)"
proof -
  define n a b where vars: "n = TirVar 0 ''n'' ''int32''" "a = TirVar 1 ''A'' ''handle''" "b = TirVar 2 ''B'' ''handle''"
  define t where t: "t = \<lparr>buf_dtype = ''float16'', buf_shape = [Var n]\<rparr>"
  define f where f: "f = \<lparr>fn_params = [a, b], buffer_map = [(a, t), (b, t)], fn_body = None :: stmt option\<rparr>"
  let ?k = "kernel_of f [(n, Direct 0 0)] (projr (extract_param_info f (Some (OutList [0])))) (Some [0])"
  have sym: "process_dynamic_symbolic f = Inr [(n, Direct 0 0)]" unfolding f t vars by code_simp
  have mem: "(n, Direct 0 0) \<in> set (symbolic ?k)" by (simp add: kernel_of_def)
  have len: "fst (bound_dim (Direct 0 0)) < length (param_info ?k)" unfolding f t vars by code_simp
  have out: "is_output (param_info ?k ! fst (bound_dim (Direct 0 0)))" unfolding f t vars by code_simp
  show ?thesis using sym symbol_on_output_refused [OF mem len out] unfolding Let_def f t vars by simp
qed

text \<open>A kernel with an output cannot be called with a scalar first: the device is read from it.\<close>

theorem scalar_first_refused:
  assumes "p \<in> set (param_info k)" and "is_output p"
  shows "\<exists>e. call_kernel smp py_eval k (Scalar n # args) = Inl e"
proof -
  have "\<exists>e. full_args smp d (Scalar n # args) rest ps = Inl e" if "p \<in> set ps" for d rest ps
    using that assms(2)
  proof (induction ps arbitrary: rest)
    case (Cons q ps)
    then show ?case
      by (cases "is_output q"; cases "rmap (eval_tir_expr smp d) (pi_shape q)")
        (auto simp: device_of_def rbind_Inl_iff split: list.split)
  qed simp
  then have "\<exists>e. full_args smp d (Scalar n # args) (Scalar n # args) (param_info k) = Inl e" for d
    using assms(1) by blast
  then have "call_kernel smp py_eval k (Scalar n # args) \<noteq> Inr r" for r
    by (auto simp: call_kernel_def Let_def rbind_Inr_iff split: if_splits) (metis Inl_Inr_False)
  then show ?thesis by (meson old.sum.exhaust)
qed

text \<open>The text of the grid is not read as tokens: the name of a function is changed by a short variable.\<close>

theorem replace_hits_substrings: "replace_by_longest_key ''min(n, 4)'' [(''n'', 8)] = ''mi8(8, 4)''"
  by code_simp

end
