(* ===== verification/NpuCompile.thy ===== *)
theory NpuCompile
  imports KernelCall
begin

text \<open>
  The compilation of a function for the NPU (\<^verbatim>\<open>compiler_npu\<close> of \<^verbatim>\<open>tilelang/jit/jit_npu.py\<close> with
  the command lines of \<^verbatim>\<open>tilelang/contrib/bishengir.py\<close>): the launcher's signature and the names read
  from the text of the lowered module, the types of the launcher's arguments, the options of the
  external compiler, the workspace size, and \<^verbatim>\<open>compile\<close>, which puts them together with the
  records of the theory \<open>KernelCall\<close>.

  The lowering passes, the external compiler, the symbol tables of what it produces, the files and
  the printer of expressions are fields of the record \<open>toolchain\<close>; what the code reads from
  the process environment is the record \<open>npu_env\<close>.
\<close>

section \<open>Searching text\<close>

definition is_word :: "char \<Rightarrow> bool" where
  "is_word c = (let n = (of_char c :: nat) in
     (48 \<le> n \<and> n \<le> 57) \<or> (65 \<le> n \<and> n \<le> 90) \<or> (97 \<le> n \<and> n \<le> 122) \<or> n = 95)"

text \<open>\<^verbatim>\<open>re.search(r"\b" + w + r"\b", text)\<close> for a word \<open>w\<close>; \<open>pw\<close>: the character before is of a word.\<close>

fun has_word :: "string \<Rightarrow> bool \<Rightarrow> string \<Rightarrow> bool" where
  "has_word w pw [] = False"
| "has_word w pw (c # cs) =
     (\<not> pw \<and> prefix w (c # cs) \<and>
        (case drop (length w) (c # cs) of [] \<Rightarrow> True | d # _ \<Rightarrow> \<not> is_word d) \<or>
      has_word w (is_word c) cs)"

text \<open>The first position of the text at which a matcher succeeds.\<close>

fun search_text :: "(string \<Rightarrow> 'a option) \<Rightarrow> string \<Rightarrow> 'a option" where
  "search_text m [] = m []"
| "search_text m (c # cs) = (case m (c # cs) of Some r \<Rightarrow> Some r | None \<Rightarrow> search_text m cs)"

definition after :: "string \<Rightarrow> string \<Rightarrow> string option" where
  "after p s = (if prefix p s then Some (drop (length p) s) else None)"

text \<open>The parameters of the first function: \<^verbatim>\<open>func\.func\s*@[^(]*\(([^)]*)\)\<close>.\<close>

definition match_params :: "string \<Rightarrow> string option" where
  "match_params s =
     (case after ''func.func'' s of
        None \<Rightarrow> None
      | Some r \<Rightarrow>
          (case dropWhile is_space r of
             CHR ''@'' # r1 \<Rightarrow>
               (case dropWhile (\<lambda>c. c \<noteq> CHR ''('') r1 of
                  [] \<Rightarrow> None
                | _ # r2 \<Rightarrow>
                    (if CHR '')'' \<in> set r2 then Some (takeWhile (\<lambda>c. c \<noteq> CHR '')'') r2) else None))
           | _ \<Rightarrow> None))"

text \<open>The kernel's name \<^verbatim>\<open>func\.func\s+@(\w+)\<close> and the core type \<^verbatim>\<open>#hivm\.module_core_type<([^>]+)>\<close>.\<close>

definition match_name :: "string \<Rightarrow> string option" where
  "match_name s =
     (case after ''func.func'' s of
        None \<Rightarrow> None
      | Some r \<Rightarrow>
          (case (takeWhile is_space r, dropWhile is_space r) of
             (_ # _, CHR ''@'' # r1) \<Rightarrow>
               (let w = takeWhile is_word r1 in if w = [] then None else Some w)
           | _ \<Rightarrow> None))"

definition match_core_type :: "string \<Rightarrow> string option" where
  "match_core_type s =
     (case after ''#hivm.module_core_type<'' s of
        None \<Rightarrow> None
      | Some r \<Rightarrow>
          (let w = takeWhile (\<lambda>c. c \<noteq> CHR ''>'') r in
           if w \<noteq> [] \<and> CHR ''>'' \<in> set r then Some w else None))"

definition strip_mix_suffix :: "string \<Rightarrow> string" where
  "strip_mix_suffix s =
     (if suffix ''_mix_aic'' s \<or> suffix ''_mix_aiv'' s then take (length s - 8) s else s)"

text \<open>\<^verbatim>\<open>_parse_npuir_metadata\<close>: the kernel's name, the name without its suffix and the mix mode.\<close>

definition parse_npuir_metadata :: "string \<Rightarrow> (string \<times> string \<times> string) res" where
  "parse_npuir_metadata text =
     (case search_text match_name text of
        None \<Rightarrow> Inl AttributeError
      | Some n \<Rightarrow>
          (case search_text match_core_type text of
             None \<Rightarrow> Inl AttributeError
           | Some m \<Rightarrow> Inr (n, strip_mix_suffix n, map lower_char m)))"

section \<open>The signature\<close>

text \<open>Splitting at the commas outside braces and angle brackets.\<close>

fun split_raw :: "string \<Rightarrow> int \<Rightarrow> int \<Rightarrow> string \<Rightarrow> string list" where
  "split_raw cur braces angles [] = (if cur = [] then [] else [cur])"
| "split_raw cur braces angles (c # cs) =
     (if c = CHR '','' \<and> braces = 0 \<and> angles = 0 then cur # split_raw [] braces angles cs
      else split_raw (cur @ [c])
        (if c = CHR ''{'' then braces + 1 else if c = CHR ''}'' then braces - 1 else braces)
        (if c = CHR ''<'' then angles + 1 else if c = CHR ''>'' then angles - 1 else angles) cs)"

definition split_params :: "string \<Rightarrow> string list" where
  "split_params s = map py_strip (split_raw [] 0 0 s)"

definition target_types :: "string list" where
  "target_types = [''i1'', ''i8'', ''i16'', ''i32'', ''i64'', ''u32'', ''u64'', ''fp16'', ''bf16'', ''fp32'', ''f32'', ''fp64'', ''f16'']"

text \<open>The loop over the set of types; \<open>order\<close> is the order in which the set is traversed.\<close>

fun found_type :: "string list \<Rightarrow> string \<Rightarrow> string option" where
  "found_type [] p = None"
| "found_type (t # ts) p =
     (if has_word (CHR ''x'' # t) False p then Some (CHR ''*'' # t)
      else if has_word t False p then Some t else found_type ts p)"

definition canonical_type :: "string \<Rightarrow> string" where
  "canonical_type t =
     (if t = ''f16'' then ''fp16'' else if t = ''*f16'' then ''*fp16''
      else if t = ''f32'' then ''fp32'' else if t = ''*f32'' then ''*fp32'' else t)"

definition kept_params :: "bool \<Rightarrow> string list \<Rightarrow> string list" where
  "kept_params a5 ps = drop (if a5 then 2 else 3) (take (length ps - 6) ps)"

definition parse_signature :: "bool \<Rightarrow> string list \<Rightarrow> string \<Rightarrow> (nat \<times> string) list" where
  "parse_signature a5 order text =
     (case search_text match_params text of
        None \<Rightarrow> []
      | Some ps \<Rightarrow>
          enumerate 0 (concat (map (\<lambda>p. case found_type order p of None \<Rightarrow> [] | Some t \<Rightarrow> [canonical_type t])
            (kept_params a5 (split_params ps)))))"

text \<open>The types of the launcher's arguments in C++, those its arguments are parsed into, and their format.\<close>

definition ty_to_cpp :: "string \<Rightarrow> string res" where
  "ty_to_cpp t =
     (case t of
        [] \<Rightarrow> Inl IndexError
      | c # _ \<Rightarrow>
          if c = CHR ''*'' then Inr ''void*''
          else case map_of [(''i1'', ''int32_t''), (''i8'', ''int8_t''), (''i16'', ''int16_t''), (''i32'', ''int32_t''),
                 (''i64'', ''int64_t''), (''u32'', ''uint32_t''), (''u64'', ''uint64_t''), (''fp16'', ''float''),
                 (''bf16'', ''float''), (''fp32'', ''float''), (''f32'', ''float''), (''fp64'', ''double'')] t of
                 None \<Rightarrow> Inl KeyError | Some r \<Rightarrow> Inr r)"

definition extracted_ty :: "string \<Rightarrow> string res" where
  "extracted_ty t =
     (case t of
        [] \<Rightarrow> Inl IndexError
      | c # _ \<Rightarrow>
          if c = CHR ''*'' then Inr ''PyObject*''
          else case map_of [(''i1'', ''int32_t''), (''i32'', ''int32_t''), (''i64'', ''int64_t''), (''u32'', ''uint32_t''),
                 (''u64'', ''uint64_t''), (''fp16'', ''float''), (''bf16'', ''float''), (''fp32'', ''float''),
                 (''f32'', ''float''), (''fp64'', ''double'')] t of
                 None \<Rightarrow> Inl KeyError | Some r \<Rightarrow> Inr r)"

definition format_of :: "string \<Rightarrow> char res" where
  "format_of t =
     (case map_of [(''PyObject*'', CHR ''O''), (''float'', CHR ''f''), (''double'', CHR ''d''), (''long'', CHR ''l''),
            (''uint32_t'', CHR ''I''), (''int32_t'', CHR ''i''), (''uint64_t'', CHR ''K''), (''int64_t'', CHR ''L'')] t of
        None \<Rightarrow> Inl KeyError | Some c \<Rightarrow> Inr c)"

text \<open>The declarations and the format of the launcher's arguments, at the head of the wrapper's source.\<close>

definition wrapper_types :: "(nat \<times> string) list \<Rightarrow> (string list \<times> string) res" where
  "wrapper_types sig =
     rbind (rmap (\<lambda>(i, t). rbind (ty_to_cpp t) (\<lambda>c. Inr (c @ '' arg'' @ str_nat i))) sig) (\<lambda>decls.
     rbind (rmap (\<lambda>(i, t). rbind (extracted_ty t) format_of) sig) (\<lambda>fmt.
       Inr (decls, ''iiiKKOOOO'' @ fmt)))"

definition convert_sigtype_to_int :: "string \<Rightarrow> nat res" where
  "convert_sigtype_to_int t =
     (case map_of [(''i1'', 12), (''i8'', 2), (''i16'', 6), (''i32'', 3), (''i64'', 9), (''u32'', 8), (''u64'', 10),
            (''fp16'', 1), (''bf16'', 27), (''fp32'', 0), (''fp64'', 11)] t of
        None \<Rightarrow> Inl ValueError | Some n \<Rightarrow> Inr n)"

section \<open>The external compiler\<close>

datatype cfg_value = CfgBool bool | CfgInt int | CfgStr string

type_synonym pass_configs = "(string \<times> cfg_value) list"

definition cfg_str :: "cfg_value \<Rightarrow> string" where
  "cfg_str v = (case v of CfgBool b \<Rightarrow> (if b then ''true'' else ''false'') | CfgInt i \<Rightarrow> str_int i
     | CfgStr s \<Rightarrow> map lower_char s)"

definition get_pass_config :: "pass_configs \<Rightarrow> string \<Rightarrow> cfg_value \<Rightarrow> cfg_value" where
  "get_pass_config cfg key dflt = (case map_of cfg key of None \<Rightarrow> dflt | Some v \<Rightarrow> v)"

text \<open>What the process environment holds; the override of the workspace size is \<open>Some None\<close> when it is no number.\<close>

record npu_env =
  env_ascend_mode :: "string option"
  env_workspace_size :: "int option option"
  env_a5 :: bool

definition resolve_mode :: "npu_env \<Rightarrow> string option \<Rightarrow> string" where
  "resolve_mode env mode =
     (case (case mode of None \<Rightarrow> env_ascend_mode env | Some m \<Rightarrow> Some m) of
        None \<Rightarrow> ''expert'' | Some m \<Rightarrow> map lower_char (py_strip m))"

definition expert_aliases :: "string list" where
  "expert_aliases = [''expert'', ''exp'', ''e'']"

definition build_compile_options :: "npu_env \<Rightarrow> pass_configs \<Rightarrow> string option \<Rightarrow> string list" where
  "build_compile_options env cfg mode =
     [''--enable-auto-multi-buffer='' @ cfg_str (get_pass_config cfg ''npuir.enable_auto_multi_buffer'' (CfgBool True)),
      ''--disable-hivm-auto-inject-sync='' @
         cfg_str (get_pass_config cfg ''npuir.disable_hivm_auto_inject_sync'' (CfgBool False)),
      ''--enable-triton-kernel-compile=true'', ''--enable-hivm-compile=true''] @
     (if resolve_mode env mode \<in> set expert_aliases then [''--disable-hivm-tensor-compile=true''] else [])"

text \<open>What a successful run leaves behind: the object file, the library and its symbol tables.\<close>

record build =
  b_object :: "nat list option"
  b_lib_exists :: bool
  b_nm_dynamic :: "string list option"
  b_nm_full :: "string list option"
  b_dlopen :: bool
  b_call :: "string \<Rightarrow> int option"

record toolchain =
  tc_name_eq :: "string \<Rightarrow> tir_var \<Rightarrow> bool"
  tc_show :: "prim_expr \<Rightarrow> string"
  tc_lower :: "prim_func \<Rightarrow> pass_configs \<Rightarrow> string"
  tc_read :: "string \<Rightarrow> string option"
  tc_type_order :: "string list"
  tc_bishengir :: "string list \<Rightarrow> string \<Rightarrow> build option"
  tc_launcher :: "string \<Rightarrow> (string list \<times> string) \<Rightarrow> int \<Rightarrow> string \<Rightarrow> string"

fun split_words :: "string \<Rightarrow> string \<Rightarrow> string list" where
  "split_words cur [] = (if cur = [] then [] else [cur])"
| "split_words cur (c # cs) =
     (if is_space c then (if cur = [] then split_words [] cs else cur # split_words [] cs)
      else split_words (cur @ [c]) cs)"

definition add_symbol :: "string \<Rightarrow> string \<Rightarrow> string list \<Rightarrow> string list" where
  "add_symbol suf line found =
     (let parts = split_words [] line in
      if length parts \<ge> 3 \<and> suffix suf (parts ! 2) \<and> parts ! 2 \<notin> set found then found @ [parts ! 2] else found)"

fun scan_tables :: "string \<Rightarrow> string list option list \<Rightarrow> string list \<Rightarrow> string list" where
  "scan_tables suf [] found = found"
| "scan_tables suf (t # ts) found =
     (case t of
        None \<Rightarrow> scan_tables suf ts found
      | Some lines \<Rightarrow>
          (let found' = fold (add_symbol suf) lines found in
           if found' \<noteq> [] then found' else scan_tables suf ts found'))"

definition find_infer_symbols :: "build \<Rightarrow> string \<Rightarrow> string \<Rightarrow> string list" where
  "find_infer_symbols b kname suf =
     (let found = scan_tables suf [b_nm_dynamic b, b_nm_full b] [] in
      if kname @ suf \<in> set found then [kname @ suf] else found)"

fun first_size :: "(string \<Rightarrow> int option) \<Rightarrow> string list \<Rightarrow> int option" where
  "first_size call [] = None"
| "first_size call (s # ss) =
     (case call s of None \<Rightarrow> first_size call ss | Some n \<Rightarrow> Some (if n \<le> 0 then 0 else n))"

definition get_workspace_size :: "build \<Rightarrow> string \<Rightarrow> string \<Rightarrow> int \<Rightarrow> int" where
  "get_workspace_size b kname suf dflt =
     (if \<not> b_lib_exists b then dflt
      else let symbols = find_infer_symbols b kname suf in
        if symbols = [] then 0
        else if \<not> b_dlopen b then dflt
        else case first_size (b_call b) symbols of None \<Rightarrow> dflt | Some n \<Rightarrow> n)"

definition npuir_to_bin :: "toolchain \<Rightarrow> npu_env \<Rightarrow> pass_configs \<Rightarrow> string \<Rightarrow> string \<Rightarrow> (nat list \<times> int) res" where
  "npuir_to_bin tc env cfg text kname =
     (case tc_bishengir tc (build_compile_options env cfg None) text of
        None \<Rightarrow> Inl RuntimeError
      | Some b \<Rightarrow>
          (case b_object b of
             None \<Rightarrow> Inl RuntimeError
           | Some bytes \<Rightarrow> Inr (bytes, get_workspace_size b kname ''_infer_workspace_shape_function'' 0)))"

section \<open>Compilation\<close>

text \<open>
  \<^verbatim>\<open>JitKernel_NPU.__init__\<close>: the object's fields from the metadata; the output indices are
  normalised again, with the promoted parameters; importing the launcher raises \<^verbatim>\<open>ImportError\<close> where its file is absent.
\<close>

record metadata =
  md_symbolic :: "(tir_var \<times> binding) list"
  md_params :: "tir_var list"
  md_param_info :: "param_info list"
  md_out_idx :: "nat list option"
  md_signature :: "(nat \<times> string) list"
  md_primfunc :: prim_func
  md_mlir :: "string option"
  md_shared :: nat
  md_gridfunc :: string
  md_mix_mode :: string
  md_name :: string
  md_tensor_kinds :: "nat list"
  md_kernel_src :: "nat list"

definition out_list :: "nat list option \<Rightarrow> out_spec option" where
  "out_list = map_option (\<lambda>js. OutList (map int js))"

definition jit_kernel_init :: "bool \<Rightarrow> metadata \<Rightarrow> string \<Rightarrow> kernel res" where
  "jit_kernel_init launcher_exists md so_path =
     rbind (normalize_out_idx (out_list (md_out_idx md)) (length (md_params md))) (\<lambda>outs.
       if \<not> launcher_exists then Inl ImportError
       else Inr \<lparr>symbolic = md_symbolic md, params = md_params md, param_info = md_param_info md, out_idx = outs,
                 signature = md_signature md, prim_func = md_primfunc md, mlir_content = md_mlir md,
                 utils_shared = md_shared md, kernel_name = md_name md, gridfunc = md_gridfunc md,
                 mix_mode = md_mix_mode md, utils_name = md_name md, tensor_kinds = md_tensor_kinds md,
                 utils_kernel_src = md_kernel_src md, so_launcher_path = so_path\<rparr>)"

definition workspace_size :: "npu_env \<Rightarrow> int \<Rightarrow> int" where
  "workspace_size env inferred = (case env_workspace_size env of Some (Some n) \<Rightarrow> n | _ \<Rightarrow> inferred)"

definition lowered_text :: "toolchain \<Rightarrow> prim_func \<Rightarrow> pass_configs \<Rightarrow> string res" where
  "lowered_text tc f cfg =
     (let lowered = tc_lower tc f cfg in
      case (if suffix ''.mlir'' lowered then tc_read tc lowered else Some lowered) of
        None \<Rightarrow> Inl TypeError
      | Some text \<Rightarrow> Inr text)"

definition assemble_kernel ::
  "toolchain \<Rightarrow> npu_env \<Rightarrow> pass_configs \<Rightarrow> param_info list \<Rightarrow> nat list option \<Rightarrow> prim_func \<Rightarrow> (tir_var \<times> binding) list
   \<Rightarrow> string \<Rightarrow> kernel res" where
  "assemble_kernel tc env cfg infos outs f syms text =
     (let grid = (case extract_thread f ''blockIdx.x'' of None \<Rightarrow> ''None'' | Some e \<Rightarrow> tc_show tc e);
          sig = parse_signature (env_a5 env) (tc_type_order tc) text in
      rbind (parse_npuir_metadata text) (\<lambda>(kname, name, mode).
      rbind (npuir_to_bin tc env cfg text kname) (\<lambda>(bytes, ws).
      rbind (wrapper_types sig) (\<lambda>wrapper.
        jit_kernel_init True
          \<lparr>md_symbolic = syms, md_params = fn_params f, md_param_info = infos, md_out_idx = outs,
           md_signature = sig, md_primfunc = f, md_mlir = Some text, md_shared = 1, md_gridfunc = grid,
           md_mix_mode = mode, md_name = name, md_tensor_kinds = [], md_kernel_src = bytes\<rparr>
          (tc_launcher tc kname wrapper (workspace_size env ws) mode)))))"

definition compile_kernel ::
  "toolchain \<Rightarrow> npu_env \<Rightarrow> prim_func \<Rightarrow> out_spec option \<Rightarrow> pass_configs \<Rightarrow> kernel res" where
  "compile_kernel tc env f out cfg =
     rbind (extract_param_info f out) (\<lambda>infos.
     rbind (normalize_out_idx out (length infos)) (\<lambda>outs.
     rbind (symbolic_var_promoter_pass (tc_name_eq tc) f) (\<lambda>(f', syms).
     rbind (lowered_text tc f' cfg) (assemble_kernel tc env cfg infos outs f' syms))))"

section \<open>Reading the signature\<close>

definition mentions :: "string \<Rightarrow> string \<Rightarrow> bool" where
  "mentions p t = (has_word (CHR ''x'' # t) False p \<or> has_word t False p)"

lemma found_type_find:
  "found_type ts p = map_option (\<lambda>t. if has_word (CHR ''x'' # t) False p then CHR ''*'' # t else t) (find (mentions p) ts)"
  by (induction ts) (auto simp: mentions_def)

lemma find_unique:
  assumes "set xs = set ys" and "\<And>x y. x \<in> set xs \<Longrightarrow> y \<in> set xs \<Longrightarrow> P x \<Longrightarrow> P y \<Longrightarrow> x = y"
  shows "find P xs = find P ys"
proof (cases "find P xs")
  case None
  then have "find P ys = None" using assms(1) by (simp add: find_None_iff)
  then show ?thesis using None by simp
next
  case (Some x)
  then have x: "x \<in> set xs" "P x" by (auto simp: find_Some_iff)
  then obtain y where y: "find P ys = Some y" using assms(1) by (metis find_None_iff not_Some_eq)
  then have "y \<in> set xs" "P y" using assms(1) by (auto simp: find_Some_iff)
  then show ?thesis using assms(2) x Some y by auto
qed

definition unambiguous :: "string list \<Rightarrow> string \<Rightarrow> bool" where
  "unambiguous ts p = (length (filter (mentions p) ts) \<le> 1)"

lemma unambiguous_unique:
  assumes "unambiguous ts p" and "x \<in> set ts" "y \<in> set ts" "mentions p x" "mentions p y"
  shows "x = y"
proof -
  have "x \<in> set (filter (mentions p) ts)" "y \<in> set (filter (mentions p) ts)" using assms by auto
  then show ?thesis using assms(1) unfolding unambiguous_def
    by (cases "filter (mentions p) ts" rule: remdups_adj.cases) auto
qed

text \<open>
  The launcher's signature does not depend on the order in which Python traverses the set of
  types, as long as every parameter that is read mentions at most one of them.
\<close>

theorem signature_order_irrelevant:
  assumes "set order = set target_types"
    and "\<And>ps. search_text match_params text = Some ps \<Longrightarrow>
           list_all (unambiguous target_types) (kept_params a5 (split_params ps))"
  shows "parse_signature a5 order text = parse_signature a5 target_types text"
proof (cases "search_text match_params text")
  case (Some ps)
  have "found_type order p = found_type target_types p" if "p \<in> set (kept_params a5 (split_params ps))" for p
  proof -
    have "unambiguous target_types p" using assms(2) [OF Some] that by (simp add: list_all_iff)
    then have "find (mentions p) target_types = find (mentions p) order"
      by (intro find_unique) (auto simp: assms(1) dest: unambiguous_unique)
    then show ?thesis by (simp add: found_type_find)
  qed
  then show ?thesis unfolding parse_signature_def Some option.case by (metis (no_types, lifting) map_cong)
qed (simp add: parse_signature_def)

text \<open>
  A parameter that mentions two types, here the element type and the type of an attribute, gets a
  type that depends on the order; and a tensor of doubles, which MLIR writes \<^verbatim>\<open>f64\<close>, gets none, so that it
  is missing from the signature.
\<close>

theorem signature_order_matters:
  "found_type [''f16'', ''i32''] ''%arg3: memref<?xf16> {divisibility = 16 : i32}'' = Some ''*f16''"
  "found_type [''i32'', ''f16''] ''%arg3: memref<?xf16> {divisibility = 16 : i32}'' = Some ''i32''"
  by code_simp+

theorem double_parameters_dropped: "found_type target_types ''%arg3: memref<?xf64>'' = None"
  by code_simp

text \<open>What the wrapper declares: one argument and one format character per entry of the signature.\<close>

lemma wrapper_types_lengths:
  assumes "wrapper_types sig = Inr (decls, fmt)"
  shows "length decls = length sig" and "length fmt = 9 + length sig"
  using assms by (auto simp: wrapper_types_def rbind_Inr_iff dest!: rmap_Inr_length)

text \<open>Scalars of eight and sixteen bits are declared but cannot be parsed: the wrapper is not generated.\<close>

theorem narrow_scalars_refused:
  assumes "(i, t) \<in> set sig" and "t \<in> {''i8'', ''i16''}"
  shows "\<exists>e. wrapper_types sig = Inl e"
proof -
  have "rbind (extracted_ty t) format_of = Inl KeyError" using assms(2) by (auto simp: extracted_ty_def)
  then have "\<nexists>r. rmap (\<lambda>(i, t). rbind (extracted_ty t) format_of) sig = Inr r"
    using rmap_Inr_elem [OF _ assms(1)] by fastforce
  then have "wrapper_types sig \<noteq> Inr r" for r by (auto simp: wrapper_types_def rbind_Inr_iff)
  then show ?thesis by (meson old.sum.exhaust)
qed

section \<open>Compiled kernels\<close>

lemma get_workspace_size_nonneg: "0 \<le> get_workspace_size b kname suf 0"
proof -
  have "first_size call ss = Some n \<Longrightarrow> 0 \<le> n" for call ss n
    by (induction ss) (auto split: option.splits if_splits)
  then show ?thesis by (auto simp: get_workspace_size_def Let_def split: option.splits)
qed

lemma promoter_symbols:
  assumes "symbolic_var_promoter_pass eq f = Inr (f', m)"
  shows "process_dynamic_symbolic f = Inr m" and "fn_params f' = fn_params f @ map fst m"
  using assms by (auto simp: symbolic_var_promoter_pass_def rbind_Inr_iff split: if_splits)

lemma normalize_again:
  assumes "\<forall>j \<in> set js. j < n"
  shows "normalize_out_idx (Some (OutList (map int js))) n = Inr (Some js)"
proof -
  have "rmap (normalize_index n) (map int js) = Inr js"
    using assms by (induction js) (auto simp: normalize_index_again)
  then show ?thesis by (simp add: normalize_out_idx_def)
qed

lemma assemble_kernel_Inr:
  assumes "assemble_kernel tc env cfg infos outs f syms text = Inr k"
  shows "symbolic k = syms \<and> param_info k = infos \<and> kernel_name k = utils_name k \<and> params k = fn_params f \<and>
    normalize_out_idx (out_list outs) (length (fn_params f)) = Inr (out_idx k)"
  using assms
  by (auto simp: assemble_kernel_def Let_def jit_kernel_init_def elim!: rbind_InrE)

lemma compile_kernel_Inr:
  assumes "compile_kernel tc env f (Some (OutList out_ids)) cfg = Inr k"
  obtains js where "extract_param_info f (Some (OutList out_ids)) = Inr (param_info k)"
    and "normalize_out_idx (Some (OutList out_ids)) (length (fn_params f)) = Inr (Some js)"
    and "out_idx k = Some js" and "process_dynamic_symbolic f = Inr (symbolic k)"
proof -
  obtain infos outs f' syms mlir where
      info: "extract_param_info f (Some (OutList out_ids)) = Inr infos"
    and outs: "normalize_out_idx (Some (OutList out_ids)) (length infos) = Inr outs"
    and syms: "symbolic_var_promoter_pass (tc_name_eq tc) f = Inr (f', syms)"
    and k: "assemble_kernel tc env cfg infos outs f' syms mlir = Inr k"
    using assms by (auto simp: compile_kernel_def elim!: rbind_InrE)
  note k = assemble_kernel_Inr [OF k]
  obtain js where js: "outs = Some js" "set js \<subseteq> {..<length infos}"
  proof -
    obtain js where "outs = Some js" using outs by (auto simp: normalize_out_idx_def rbind_Inr_iff)
    then show thesis using that normalized_positions(2) outs by blast
  qed
  have len: "length infos = length (fn_params f)" by (rule extract_param_info_nth(1) [OF info])
  have "normalize_out_idx (Some (OutList (map int js))) (length (fn_params f')) = Inr (Some js)"
    using js(2) len promoter_symbols(2) [OF syms] by (intro normalize_again) auto
  then have "out_idx k = Some js" "param_info k = infos" "symbolic k = syms"
    using k js(1) by (auto simp: out_list_def)
  then show thesis using that info outs promoter_symbols(1) [OF syms] js(1) len by simp
qed

text \<open>
  C3: A compiled kernel, called.  Let \<open>f\<close> be compiled for the output indices \<open>out_ids\<close>, and let the
  caller's tensors have the shapes that \<open>f\<close> declares for some values \<open>d\<close> of the symbolic variables.  If
  the call returns, the launcher received the caller's arguments at the inputs and, at every
  output, a tensor of the declared type whose dimensions are the values of the declared ones under
  \<open>d\<close>, followed by the values of the promoted variables under \<open>d\<close>; and the call returned the
  arguments at the output indices, in the order asked for.
\<close>

theorem compiled_call_correct:
  assumes "compile_kernel tc env f (Some (OutList out_ids)) cfg = Inr k"
    and "args_match smp d (param_info k) args"
    and "\<forall>(v, bd) \<in> set (symbolic k). var_name v \<in> dom (map_of d)"
    and "call_kernel smp py_eval k args = Inr (l, r)"
  shows "\<exists>as js. laid_out smp d (param_info k) args as \<and>
    launch_args l = as @ map (\<lambda>(v, bd). Scalar (the (map_of d (var_name v)))) (symbolic k) \<and>
    list_all2 (\<lambda>i j. int j = (if i \<ge> 0 then i else int (length (fn_params f)) + i)) out_ids js \<and>
    r = (case map ((!) as) js of [a] \<Rightarrow> OneValue a | rs \<Rightarrow> ValueList rs)"
proof (rule compile_kernel_Inr [OF assms(1)])
  fix js
  assume k: "extract_param_info f (Some (OutList out_ids)) = Inr (param_info k)"
    "normalize_out_idx (Some (OutList out_ids)) (length (fn_params f)) = Inr (Some js)"
    "out_idx k = Some js" "process_dynamic_symbolic f = Inr (symbolic k)"
  have "list_all2 (\<lambda>i j. int j = (if i \<ge> 0 then i else int (length (fn_params f)) + i)) out_ids js"
    using k(2) by (auto simp: normalize_out_idx_def rbind_Inr_iff rmap_Inr_iff normalize_index_Inr elim: list_all2_mono)
  then show ?thesis using call_kernel_correct [OF k assms(2,3,4)] by blast
qed

text \<open>An example: one input of \<open>n\<close> elements and one output of \<open>n + 1\<close>.\<close>

definition example_func :: prim_func where
  "example_func =
     (let n = TirVar 0 ''n'' ''int32''; a = TirVar 1 ''A'' ''handle''; b = TirVar 2 ''B'' ''handle'' in
      \<lparr>fn_params = [a, b],
       buffer_map = [(a, \<lparr>buf_dtype = ''float16'', buf_shape = [Var n]\<rparr>),
                     (b, \<lparr>buf_dtype = ''float32'', buf_shape = [Add (Var n) (IntImm 1)]\<rparr>)],
       fn_body = Some (AttrStmt ''thread_extent'' ''blockIdx.x'' (Var n) (Evaluate (IntImm 0)))\<rparr>)"

definition example_build :: build where
  "example_build = \<lparr>b_object = Some [1, 2], b_lib_exists = True,
     b_nm_dynamic = Some [''0010 T main_infer_workspace_shape_function''], b_nm_full = None,
     b_dlopen = True, b_call = (\<lambda>s. Some 64)\<rparr>"

definition example_tc :: toolchain where
  "example_tc = \<lparr>tc_name_eq = (\<lambda>n v. False), tc_show = (\<lambda>e. ''n''),
     tc_lower = (\<lambda>f cfg. ''#hivm.module_core_type<AIV> func.func @main(%arg0: i64)''),
     tc_read = (\<lambda>p. None), tc_type_order = target_types, tc_bishengir = (\<lambda>os t. Some example_build),
     tc_launcher = (\<lambda>n w s m. n @ ''.so'')\<rparr>"

definition example_env :: npu_env where
  "example_env = \<lparr>env_ascend_mode = None, env_workspace_size = None, env_a5 = False\<rparr>"

definition example_kernel :: kernel where
  "example_kernel = projr (compile_kernel example_tc example_env example_func (Some (OutList [-1])) [])"

lemma example_compiles:
  "compile_kernel example_tc example_env example_func (Some (OutList [-1])) [] = Inr example_kernel"
proof -
  have "\<not> isl (compile_kernel example_tc example_env example_func (Some (OutList [-1])) [])" by code_simp
  then show ?thesis by (simp add: example_kernel_def)
qed

theorem compiled_call_correct_witness:
  "\<exists>l r as js. call_kernel id (\<lambda>s d. Some (GridNum 5)) example_kernel [Tensor [5] ''float16'' ''npu''] = Inr (l, r) \<and>
     laid_out id [(''n'', 5)] (param_info example_kernel) [Tensor [5] ''float16'' ''npu''] as \<and>
     launch_args l = as @ [Scalar 5] \<and> js = [1] \<and> r = OneValue (as ! 1)"
proof -
  let ?args = "[Tensor [5] ''float16'' ''npu'']"
  have ok: "\<not> isl (call_kernel id (\<lambda>s d. Some (GridNum 5)) example_kernel ?args)" by code_simp
  then obtain l r where call: "call_kernel id (\<lambda>s d. Some (GridNum 5)) example_kernel ?args = Inr (l, r)"
    by (metis isl_def sum.exhaust surj_pair)
  have args: "args_match id [(''n'', 5)] (param_info example_kernel) ?args" by code_simp
  have syms: "symbolic example_kernel = [(TirVar 0 ''n'' ''int32'', Direct 0 0)]" by code_simp
  have "length (fn_params example_func) = 2" by code_simp
  then obtain as js where "laid_out id [(''n'', 5)] (param_info example_kernel) ?args as"
      "launch_args l = as @ [Scalar 5]" "js = [1]" "r = OneValue (as ! 1)"
    using compiled_call_correct [OF example_compiles args _ call]
    by (auto simp: syms list_all2_Cons1)
  then show ?thesis using call by blast
qed

text \<open>
  C28: The call of a compiled kernel returns when the tensors have the declared shapes, the output
  indices are distinct, the symbolic variables are bound to inputs, the outputs' shapes can be
  computed from them and have no negative dimension, the first argument is a tensor or there is
  none, and Python evaluates the text of the kernel's own grid, with the values of the variables
  written in, to a number; the kernel is launched on a grid of that many blocks.
\<close>

theorem compiled_call_returns:
  assumes compiled: "compile_kernel tc env f (Some (OutList out_ids)) cfg = Inr k"
    and "distinct (the (out_idx k))" and "args_match smp d (param_info k) args"
    and "\<forall>(v, bd) \<in> set (symbolic k). var_name v \<in> dom (map_of d)"
    and "\<forall>(v, bd) \<in> set (symbolic k). \<not> is_output (param_info k ! fst (bound_dim bd))"
    and "\<forall>p \<in> set (param_info k). is_output p \<longrightarrow>
       (\<exists>ns. rmap (eval_tir_expr smp (symbol_values d (symbolic k))) (pi_shape p) = Inr ns \<and> list_all (\<lambda>n. 0 \<le> n) ns)"
    and "case args of Scalar n # _ \<Rightarrow> False | _ \<Rightarrow> True"
    and "py_eval (replace_by_longest_key (gridfunc k) (symbol_values d (symbolic k))) (symbol_values d (symbolic k)) =
       Some (GridNum g)"
  shows "\<exists>l r. call_kernel smp py_eval k args = Inr (l, r) \<and> launch_grid l = (g, 1, 1)"
proof (rule compile_kernel_Inr [OF compiled])
  fix js
  assume k: "extract_param_info f (Some (OutList out_ids)) = Inr (param_info k)"
    "normalize_out_idx (Some (OutList out_ids)) (length (fn_params f)) = Inr (Some js)"
    "out_idx k = Some js" "process_dynamic_symbolic f = Inr (symbolic k)"
  have "distinct js" using assms(2) k(3) by simp
  from call_kernel_returns [OF k(1-3) this k(4) assms(3-7), where py_eval = py_eval and g = g] assms(8)
  show ?thesis by blast
qed

text \<open>The example: Python's evaluation is only asked for the text \<^verbatim>\<open>5\<close>, the grid \<^verbatim>\<open>n\<close> with the value written in.\<close>

definition eval_five :: "string \<Rightarrow> dynamic_val \<Rightarrow> grid_val option" where
  "eval_five s d = (if s = ''5'' then Some (GridNum 5) else None)"

theorem compiled_call_returns_witness:
  "\<exists>l r. call_kernel id eval_five example_kernel [Tensor [5] ''float16'' ''npu''] = Inr (l, r) \<and> launch_grid l = (5, 1, 1)"
proof (rule compiled_call_returns [OF example_compiles, where d = "[(''n'', 5)]"])
  show "distinct (the (out_idx example_kernel))" by code_simp
  show "args_match id [(''n'', 5)] (param_info example_kernel) [Tensor [5] ''float16'' ''npu'']" by code_simp
  have syms: "symbolic example_kernel = [(TirVar 0 ''n'' ''int32'', Direct 0 0)]" by code_simp
  then show "\<forall>(v, bd) \<in> set (symbolic example_kernel). var_name v \<in> dom (map_of [(''n'', 5 :: int)])" by simp
  show "\<forall>(v, bd) \<in> set (symbolic example_kernel). \<not> is_output (param_info example_kernel ! fst (bound_dim bd))"
    by code_simp
  have ok: "list_all (\<lambda>p. is_output p \<longrightarrow>
     (case rmap (eval_tir_expr id (symbol_values [(''n'', 5)] (symbolic example_kernel))) (pi_shape p) of
        Inr ns \<Rightarrow> list_all (\<lambda>n. 0 \<le> n) ns | Inl _ \<Rightarrow> False)) (param_info example_kernel)" by code_simp
  have ex: "\<exists>ns. x = Inr ns \<and> list_all (\<lambda>n. 0 \<le> n) ns" if "case x of Inr ns \<Rightarrow> list_all (\<lambda>n. 0 \<le> n) ns | Inl _ \<Rightarrow> False"
    for x :: "int list res"
    using that by (cases x) auto
  show "\<forall>p \<in> set (param_info example_kernel). is_output p \<longrightarrow>
     (\<exists>ns. rmap (eval_tir_expr id (symbol_values [(''n'', 5)] (symbolic example_kernel))) (pi_shape p) = Inr ns \<and>
       list_all (\<lambda>n. 0 \<le> n) ns)"
  proof (intro ballI impI)
    fix p
    assume "p \<in> set (param_info example_kernel)" and "is_output p"
    with ok show "\<exists>ns. rmap (eval_tir_expr id (symbol_values [(''n'', 5)] (symbolic example_kernel))) (pi_shape p) = Inr ns \<and>
       list_all (\<lambda>n. 0 \<le> n) ns"
      unfolding list.pred_set [where P = "\<lambda>p. is_output p \<longrightarrow> _ p"] by (intro ex) blast
  qed
  show "eval_five (replace_by_longest_key (gridfunc example_kernel) (symbol_values [(''n'', 5)] (symbolic example_kernel)))
     (symbol_values [(''n'', 5)] (symbolic example_kernel)) = Some (GridNum 5)" by code_simp
qed simp

text \<open>An output with a negative dimension is refused, here \<open>n - 3\<close> elements of an input with two.\<close>

definition shrink_func :: prim_func where
  "shrink_func =
     (let n = TirVar 0 ''n'' ''int32''; a = TirVar 1 ''A'' ''handle''; b = TirVar 2 ''B'' ''handle'' in
      \<lparr>fn_params = [a, b],
       buffer_map = [(a, \<lparr>buf_dtype = ''float16'', buf_shape = [Var n]\<rparr>),
                     (b, \<lparr>buf_dtype = ''float16'', buf_shape = [Sub (Var n) (IntImm 3)]\<rparr>)],
       fn_body = Some (AttrStmt ''thread_extent'' ''blockIdx.x'' (IntImm 5) (Evaluate (IntImm 0)))\<rparr>)"

theorem negative_output_refused:
  "call_kernel id (\<lambda>s d. Some (GridNum 5))
     (projr (compile_kernel example_tc example_env shrink_func (Some (OutList [-1])) []))
     [Tensor [2] ''float16'' ''npu''] = Inl RuntimeError"
  by code_simp

theorem signature_order_irrelevant_witness:
  "parse_signature True (rev target_types)
     ''func.func @main(%l: i64, %w: i64, %a: memref<?xf16>, %n: i32, %x: i32, %y: i32, %z: i32, %u: i32, %v: i32, %t: i32)''
   = [(0, ''*fp16''), (1, ''i32'')]"
proof -
  let ?t = "''func.func @main(%l: i64, %w: i64, %a: memref<?xf16>, %n: i32, %x: i32, %y: i32, %z: i32, %u: i32, %v: i32, %t: i32)''"
  have "parse_signature True (rev target_types) ?t = parse_signature True target_types ?t"
  proof (rule signature_order_irrelevant)
    show "set (rev target_types) = set target_types" by simp
    have "case search_text match_params ?t of None \<Rightarrow> True
      | Some ps \<Rightarrow> list_all (unambiguous target_types) (kept_params True (split_params ps))" by code_simp
    then show "list_all (unambiguous target_types) (kept_params True (split_params ps))"
      if "search_text match_params ?t = Some ps" for ps
      unfolding that by simp
  qed
  also have "\<dots> = [(0, ''*fp16''), (1, ''i32'')]" by code_simp
  finally show ?thesis .
qed

end
