(* ===== verification/KernelCache.thy ===== *)
theory KernelCache
  imports NpuCompile
begin

text \<open>
  The two-level cache of compiled kernels (\<^verbatim>\<open>tilelang/cache/kernel_cache.py\<close>): a dictionary in the
  process and one directory per key on disk, with the key computed from the request, the files of
  a directory, loading a kernel back, and the autotuning results beside it.

  The hash, the printed form of a function and the version are the record \<open>key_fns\<close>.  What becomes
  of each write, what the launcher files hold and which files the dynamic loader accepts is the record
  \<open>store_io\<close>.  Every write is wrapped in \<^verbatim>\<open>_try_save\<close>, which logs a failure and goes on: a write that
  failed leaves the former file, or the beginning of the new one, because opening the file for writing
  cuts it first.  A pickled or JSON file that was cut cannot be read back.
\<close>

section \<open>Keys\<close>

record request =
  rq_func :: prim_func
  rq_out :: "out_spec option"
  rq_backend :: string
  rq_target :: string
  rq_host :: "string option"
  rq_verbose :: bool
  rq_cfg :: pass_configs

record key_data =
  kd_version :: string
  kd_func :: string
  kd_out :: "nat list"
  kd_target :: string
  kd_host :: "string option"
  kd_backend :: string
  kd_verbose :: bool
  kd_cfg :: "pass_configs option"

record key_fns =
  kf_version :: string
  kf_script_hash :: "prim_func \<Rightarrow> string"
  kf_hash :: "key_data \<Rightarrow> string"

definition compile_key_data :: "key_fns \<Rightarrow> request \<Rightarrow> nat list option \<Rightarrow> key_data" where
  "compile_key_data kf r outs =
       \<lparr>kd_version = kf_version kf, kd_func = kf_script_hash kf (rq_func r),
        kd_out = (case outs of None \<Rightarrow> [] | Some js \<Rightarrow> js), kd_target = rq_target r,
        kd_host = (if rq_host r = Some [] then None else rq_host r), kd_backend = rq_backend r,
        kd_verbose = rq_verbose r,
        kd_cfg = (if rq_cfg r = [] then None else Some (sort_key fst (rq_cfg r)))\<rparr>"

definition generate_compile_key :: "key_fns \<Rightarrow> request \<Rightarrow> nat list option \<Rightarrow> string" where
  "generate_compile_key kf r outs = kf_hash kf (compile_key_data kf r outs)"

section \<open>Entries on disk\<close>

text \<open>A serialised object is \<open>None\<close> where there is no file and \<open>Some None\<close> where the file cannot be read back.\<close>

record autotune =
  at_config :: "pass_configs option option"
  at_function :: "prim_func option option"
  at_latency :: "(rat option \<times> rat option) option option"

record entry =
  e_mlir :: "string option"
  e_wrapped :: "nat list option"
  e_so :: "nat list option"
  e_metadata :: "metadata option option"
  e_autotune :: "autotune option"

text \<open>What a write leaves: the whole file, the former file, or the first bytes of the new one.\<close>

datatype write_outcome = Written | Untouched | Cut nat

record store_io =
  io_write :: "string \<Rightarrow> write_outcome"
  io_file :: "string \<Rightarrow> nat list option"
  io_import :: "nat list \<Rightarrow> bool"

type_synonym path = "string \<times> string"

definition empty_entry :: entry where
  "empty_entry = \<lparr>e_mlir = None, e_wrapped = None, e_so = None, e_metadata = None, e_autotune = None\<rparr>"

definition entry_at :: "(path \<times> entry) list \<Rightarrow> path \<Rightarrow> entry" where
  "entry_at d p = (case map_of d p of None \<Rightarrow> empty_entry | Some e \<Rightarrow> e)"

definition metadata_of :: "kernel \<Rightarrow> metadata" where
  "metadata_of k =
     \<lparr>md_symbolic = symbolic k, md_params = params k, md_param_info = param_info k, md_out_idx = out_idx k,
      md_signature = signature k, md_primfunc = prim_func k, md_mlir = mlir_content k,
      md_shared = utils_shared k, md_gridfunc = gridfunc k, md_mix_mode = mix_mode k, md_name = utils_name k,
      md_tensor_kinds = tensor_kinds k, md_kernel_src = utils_kernel_src k\<rparr>"

definition save_bytes :: "store_io \<Rightarrow> string \<Rightarrow> 'a list \<Rightarrow> 'a list option \<Rightarrow> 'a list option" where
  "save_bytes io label new old =
     (case io_write io label of Written \<Rightarrow> Some new | Untouched \<Rightarrow> old | Cut n \<Rightarrow> Some (take n new))"

definition save_object :: "store_io \<Rightarrow> string \<Rightarrow> 'a \<Rightarrow> 'a option option \<Rightarrow> 'a option option" where
  "save_object io label new old =
     (case io_write io label of Written \<Rightarrow> Some (Some new) | Untouched \<Rightarrow> old | Cut n \<Rightarrow> Some None)"

definition save_npu_kernel_to_disk :: "store_io \<Rightarrow> kernel \<Rightarrow> entry \<Rightarrow> entry" where
  "save_npu_kernel_to_disk io k e =
     e\<lparr>e_mlir := (case mlir_content k of None \<Rightarrow> e_mlir e | Some t \<Rightarrow> save_bytes io ''kernel MLIR'' t (e_mlir e)),
       e_wrapped := save_bytes io ''wrapped kernel'' (utils_kernel_src k) (e_wrapped e),
       e_so := (case io_file io (so_launcher_path k) of
                  None \<Rightarrow> e_so e | Some bytes \<Rightarrow> save_bytes io ''main.so'' bytes (e_so e)),
       e_metadata := save_object io ''metadata'' (metadata_of k) (e_metadata e)\<rparr>"

definition so_path :: "path \<Rightarrow> string" where
  "so_path p = fst p @ ''/'' @ snd p @ ''/main.so''"

text \<open>
  The object file must be there and not empty and the metadata must be readable; the launcher is
  not looked for, and creating the kernel raises where it is missing or cannot be imported.
\<close>

definition launcher_imports :: "store_io \<Rightarrow> entry \<Rightarrow> bool" where
  "launcher_imports io e = (case e_so e of None \<Rightarrow> False | Some bytes \<Rightarrow> io_import io bytes)"

definition load_npu_kernel_from_disk :: "store_io \<Rightarrow> path \<Rightarrow> entry \<Rightarrow> kernel option res" where
  "load_npu_kernel_from_disk io p e =
     (case Option.bind (e_metadata e) id of
        None \<Rightarrow> Inr None
      | Some md \<Rightarrow>
          (case e_wrapped e of
             None \<Rightarrow> Inr None
           | Some bytes \<Rightarrow>
               if bytes = [] then Inr None
               else rbind (jit_kernel_init (launcher_imports io e) md (so_path p)) (\<lambda>k. Inr (Some k))))"

section \<open>The cache\<close>

record cache =
  cache_dir :: string
  memory_cache :: "(string \<times> kernel) list"
  disk :: "(path \<times> entry) list"

definition save_compile_result :: "store_io \<Rightarrow> string \<Rightarrow> kernel \<Rightarrow> cache \<Rightarrow> cache" where
  "save_compile_result io key k s =
     (let p = (cache_dir s, key) in
      s\<lparr>disk := AList.update p (save_npu_kernel_to_disk io k (entry_at (disk s) p)) (disk s)\<rparr>)"

definition load_compile_result :: "store_io \<Rightarrow> string \<Rightarrow> cache \<Rightarrow> kernel option res" where
  "load_compile_result io key s =
     (let p = (cache_dir s, key); e = entry_at (disk s) p in
      if e_metadata e = None then Inr None else load_npu_kernel_from_disk io p e)"

definition request_outs :: "request \<Rightarrow> nat list option res" where
  "request_outs r = normalize_out_idx (rq_out r) (length (fn_params (rq_func r)))"

definition compile_request :: "toolchain \<Rightarrow> npu_env \<Rightarrow> request \<Rightarrow> kernel res" where
  "compile_request tc env r =
     rbind (request_outs r) (\<lambda>outs. compile_kernel tc env (rq_func r) (out_list outs) (rq_cfg r))"

definition is_cache_enabled :: "string \<Rightarrow> bool \<Rightarrow> bool" where
  "is_cache_enabled disable_var enabled =
     (map lower_char disable_var \<notin> set [''1'', ''true'', ''yes'', ''on''] \<and> enabled)"

definition cached_npu ::
  "key_fns \<Rightarrow> toolchain \<Rightarrow> npu_env \<Rightarrow> bool \<Rightarrow> store_io \<Rightarrow> request \<Rightarrow> cache \<Rightarrow> (kernel \<times> cache) res" where
  "cached_npu kf tc env enabled io r s =
     rbind (request_outs r) (\<lambda>outs.
       let key = generate_compile_key kf r outs;
           build = rbind (compile_kernel tc env (rq_func r) (out_list outs) (rq_cfg r)) in
       if \<not> enabled then build (\<lambda>k. Inr (k, s))
       else case map_of (memory_cache s) key of
         Some k \<Rightarrow> Inr (k, s)
       | None \<Rightarrow>
           rbind (load_compile_result io key s) (\<lambda>hit.
             case hit of
               Some k \<Rightarrow> Inr (k, s\<lparr>memory_cache := AList.update key k (memory_cache s)\<rparr>)
             | None \<Rightarrow> build (\<lambda>k.
                 let s' = save_compile_result io key k s in
                 Inr (k, s'\<lparr>memory_cache := AList.update key k (memory_cache s')\<rparr>))))"

definition set_cache_dir :: "string \<Rightarrow> cache \<Rightarrow> cache" where
  "set_cache_dir d s = s\<lparr>cache_dir := d\<rparr>"

definition clear_cache :: "bool \<Rightarrow> cache \<Rightarrow> cache" where
  "clear_cache removed s =
     s\<lparr>memory_cache := [], disk := (if removed then filter (\<lambda>(p, e). fst p \<noteq> cache_dir s) (disk s) else disk s)\<rparr>"

section \<open>Autotuning results\<close>

record tune_result =
  tr_config :: pass_configs
  tr_func :: prim_func
  tr_kernel :: kernel
  tr_libcode :: "nat list"
  tr_latency :: "rat option"
  tr_ref_latency :: "rat option"

definition save_autotune_result :: "store_io \<Rightarrow> string \<Rightarrow> tune_result \<Rightarrow> cache \<Rightarrow> cache" where
  "save_autotune_result io key t s =
     (let p = (cache_dir s, key);
          e = save_npu_kernel_to_disk io (tr_kernel t) (entry_at (disk s) p);
          a = (case e_autotune e of None \<Rightarrow> \<lparr>at_config = None, at_function = None, at_latency = None\<rparr> | Some a \<Rightarrow> a);
          a' = \<lparr>at_config = save_object io ''best config'' (tr_config t) (at_config a),
                at_function = save_object io ''function'' (tr_func t) (at_function a),
                at_latency = save_object io ''latency'' (tr_latency t, tr_ref_latency t) (at_latency a)\<rparr> in
      s\<lparr>disk := AList.update p (e\<lparr>e_autotune := Some a'\<rparr>) (disk s)\<rparr>)"

definition load_autotune_result :: "store_io \<Rightarrow> string \<Rightarrow> cache \<Rightarrow> tune_result option res" where
  "load_autotune_result io key s =
     (let p = (cache_dir s, key); e = entry_at (disk s) p in
      case e_autotune e of
        None \<Rightarrow> Inr None
      | Some a \<Rightarrow>
          (case (at_config a, at_function a, at_latency a) of
             (Some (Some cfg), Some (Some f), Some (Some (lat, ref))) \<Rightarrow>
               rbind (load_npu_kernel_from_disk io p e) (\<lambda>k.
                 case k of
                   None \<Rightarrow> Inr None
                 | Some k \<Rightarrow>
                     Inr (Some \<lparr>tr_config = cfg, tr_func = f, tr_kernel = k, tr_libcode = utils_kernel_src k,
                                tr_latency = lat, tr_ref_latency = ref\<rparr>))
           | _ \<Rightarrow> Inr None))"

section \<open>Levels of a cache\<close>

text \<open>
  What both levels promise: after storing a value, a lookup finds either a copy of that value
  under its key, or what it found before.  So a property of all the entries survives a store that has it.
\<close>

definition coherent :: "('s \<Rightarrow> 'k \<Rightarrow> 'w option) \<Rightarrow> ('k \<Rightarrow> 'w \<Rightarrow> bool) \<Rightarrow> 's \<Rightarrow> bool" where
  "coherent look good s \<longleftrightarrow> (\<forall>k w. look s k = Some w \<longrightarrow> good k w)"

locale cache_level =
  fixes look :: "'s \<Rightarrow> 'k \<Rightarrow> 'w option" and store :: "'k \<Rightarrow> 'v \<Rightarrow> 's \<Rightarrow> 's" and copy :: "'v \<Rightarrow> 'w \<Rightarrow> bool"
  assumes look_store: "look (store k v s) k' = Some w \<Longrightarrow> k' = k \<and> copy v w \<or> look s k' = Some w"
begin

lemma store_coherent:
  assumes "coherent look good s" and "\<And>w. copy v w \<Longrightarrow> good k w"
  shows "coherent look good (store k v s)"
  using assms look_store unfolding coherent_def by metis

end

interpretation memory_level: cache_level "map_of" "AList.update" "(=)"
  by unfold_locales (auto simp: update_conv' split: if_splits)

definition stored_metadata :: "(path \<times> entry) list \<Rightarrow> path \<Rightarrow> metadata option" where
  "stored_metadata d p = Option.bind (e_metadata (entry_at d p)) id"

definition save_at :: "store_io \<Rightarrow> path \<Rightarrow> kernel \<Rightarrow> (path \<times> entry) list \<Rightarrow> (path \<times> entry) list" where
  "save_at io p k d = AList.update p (save_npu_kernel_to_disk io k (entry_at d p)) d"

lemma entry_at_update: "entry_at (AList.update p e d) q = (if q = p then e else entry_at d q)"
  by (simp add: entry_at_def update_conv')

interpretation disk_level: cache_level stored_metadata "save_at io" "\<lambda>k md. md = metadata_of k" for io
  by unfold_locales
    (auto simp: stored_metadata_def save_at_def entry_at_update save_npu_kernel_to_disk_def save_object_def
      split: if_splits write_outcome.splits)

section \<open>Loading what was saved\<close>

lemma normalize_idem:
  assumes "normalize_out_idx out n = Inr outs"
  shows "normalize_out_idx (out_list outs) n = Inr outs"
proof (cases outs)
  case (Some js)
  have "list_all (\<lambda>j. j < n) js"
    using assms Some
    by (cases out) (auto simp: normalize_out_idx_def rbind_Inr_iff rmap_Inr_iff list_all_iff normalize_index_Inr
        list_all2_conv_all_nth in_set_conv_nth split: out_spec.splits)
  then show ?thesis using Some normalize_again by (auto simp: out_list_def list_all_iff)
qed (simp add: out_list_def normalize_out_idx_def)

lemma compiled_wf:
  assumes "compile_kernel tc env f out cfg = Inr k"
  shows "kernel_name k = utils_name k" and "normalize_out_idx (out_list (out_idx k)) (length (params k)) = Inr (out_idx k)"
proof -
  obtain infos outs f' syms mlir where "assemble_kernel tc env cfg infos outs f' syms mlir = Inr k"
    using assms by (auto simp: compile_kernel_def elim!: rbind_InrE)
  note k = assemble_kernel_Inr [OF this]
  then show "kernel_name k = utils_name k" by blast
  show "normalize_out_idx (out_list (out_idx k)) (length (params k)) = Inr (out_idx k)"
    using k normalize_idem by metis
qed

lemma reload_kernel:
  assumes "compile_kernel tc env f out cfg = Inr k"
  shows "jit_kernel_init b (metadata_of k) p = (if b then Inr (k\<lparr>so_launcher_path := p\<rparr>) else Inl ImportError)"
  using compiled_wf [OF assms] by (auto simp: jit_kernel_init_def metadata_of_def)

section \<open>Transparency\<close>

text \<open>
  The kernels that a key may stand for, among the requests \<open>R\<close>, and the states whose entries are all
  of that kind.  Two kernels are the same when they differ at most in the file of their launcher.
\<close>

definition same_kernel :: "kernel \<Rightarrow> kernel \<Rightarrow> bool" where
  "same_kernel k k' = (k' = k\<lparr>so_launcher_path := so_launcher_path k'\<rparr>)"

definition request_key :: "key_fns \<Rightarrow> request \<Rightarrow> string res" where
  "request_key kf r = rbind (request_outs r) (\<lambda>outs. Inr (generate_compile_key kf r outs))"

definition stands_for :: "key_fns \<Rightarrow> toolchain \<Rightarrow> npu_env \<Rightarrow> request set \<Rightarrow> string \<Rightarrow> kernel \<Rightarrow> bool" where
  "stands_for kf tc env R key k \<longleftrightarrow>
     (\<forall>r \<in> R. request_key kf r = Inr key \<longrightarrow> (\<exists>k0. compile_request tc env r = Inr k0 \<and> same_kernel k0 k))"

definition cache_ok :: "key_fns \<Rightarrow> toolchain \<Rightarrow> npu_env \<Rightarrow> request set \<Rightarrow> cache \<Rightarrow> bool" where
  "cache_ok kf tc env R s \<longleftrightarrow>
     coherent map_of (stands_for kf tc env R) (memory_cache s) \<and>
     coherent stored_metadata (\<lambda>p md. \<forall>r \<in> R. request_key kf r = Inr (snd p) \<longrightarrow>
        (\<exists>k0. compile_request tc env r = Inr k0 \<and> md = metadata_of k0)) (disk s)"

text \<open>
  What the key rests on, all of it about the requests and the code the cache only calls: among the
  requests no two keys collide in the hash, different functions print differently, no request
  names an empty list of outputs, pass configurations are dictionaries, and the lowering reads them as such.
\<close>

definition sound_keys :: "key_fns \<Rightarrow> request set \<Rightarrow> bool" where
  "sound_keys kf R \<longleftrightarrow>
     inj_on (kf_hash kf) {compile_key_data kf r outs | r outs. r \<in> R \<and> request_outs r = Inr outs} \<and>
     inj_on (kf_script_hash kf) (rq_func ` R)"

definition plain_request :: "request \<Rightarrow> bool" where
  "plain_request r = (rq_out r \<noteq> Some (OutList []) \<and> distinct (map fst (rq_cfg r)))"

definition lowers_by_value :: "toolchain \<Rightarrow> bool" where
  "lowers_by_value tc \<longleftrightarrow> (\<forall>f cfg cfg'. map_of cfg = map_of cfg' \<longrightarrow> tc_lower tc f cfg = tc_lower tc f cfg')"

definition key_determines :: "key_fns \<Rightarrow> toolchain \<Rightarrow> npu_env \<Rightarrow> request set \<Rightarrow> bool" where
  "key_determines kf tc env R \<longleftrightarrow>
     (\<forall>r \<in> R. \<forall>r' \<in> R. \<forall>key. request_key kf r = Inr key \<longrightarrow> request_key kf r' = Inr key \<longrightarrow>
        compile_request tc env r = compile_request tc env r')"

text \<open>The key of the code determines the compilation: it mentions everything the compilation reads.\<close>

lemma sort_key_map_of:
  assumes "sort_key fst xs = sort_key fst ys" and "distinct (map fst xs)" and "distinct (map fst ys)"
  shows "map_of xs = map_of ys"
proof -
  have "mset xs = mset ys" using assms(1) by (metis mset_sort)
  then have "set xs = set ys" by (rule mset_eq_setD)
  then have "map_of xs k = Some v \<longleftrightarrow> map_of ys k = Some v" for k v
    using assms(2,3) by (simp add: map_of_eq_Some_iff)
  then show ?thesis by (metis ext not_Some_eq)
qed

lemma compile_kernel_cfg:
  assumes "map_of cfg = map_of cfg'" and "lowers_by_value tc"
  shows "compile_kernel tc env f out cfg = compile_kernel tc env f out cfg'"
proof -
  have "tc_lower tc g cfg = tc_lower tc g cfg'" for g
    using assms unfolding lowers_by_value_def by blast
  then have "lowered_text tc g cfg = lowered_text tc g cfg'" for g
    by (simp add: lowered_text_def)
  moreover have "assemble_kernel tc env cfg = assemble_kernel tc env cfg'"
    using assms(1) by (intro ext) (simp add: assemble_kernel_def npuir_to_bin_def build_compile_options_def get_pass_config_def)
  ultimately show ?thesis by (simp add: compile_kernel_def)
qed

lemma plain_outs:
  assumes "plain_request r" and "request_outs r = Inr outs"
  shows "outs \<noteq> Some []"
  using assms by (auto simp: plain_request_def request_outs_def normalize_out_idx_def rbind_Inr_iff
      split: option.splits out_spec.splits dest!: rmap_Inr_length)

lemma key_determines_compilation:
  assumes keys: "sound_keys kf R" and plain: "\<forall>r \<in> R. plain_request r" and tc: "lowers_by_value tc"
  shows "key_determines kf tc env R"
  unfolding key_determines_def
proof (intro ballI allI impI)
  fix r r' key
  assume r: "r \<in> R" "r' \<in> R" and k: "request_key kf r = Inr key" "request_key kf r' = Inr key"
  obtain outs outs' where o: "request_outs r = Inr outs" "request_outs r' = Inr outs'"
    and h: "kf_hash kf (compile_key_data kf r outs) = kf_hash kf (compile_key_data kf r' outs')"
    using k by (auto simp: request_key_def rbind_Inr_iff generate_compile_key_def)
  have "inj_on (kf_hash kf) {compile_key_data kf r outs | r outs. r \<in> R \<and> request_outs r = Inr outs}"
    using keys by (simp add: sound_keys_def)
  from inj_onD [OF this h] have d: "compile_key_data kf r outs = compile_key_data kf r' outs'"
    using r o by blast
  have "kf_script_hash kf (rq_func r) = kf_script_hash kf (rq_func r')"
    using d by (simp add: compile_key_data_def)
  then have f: "rq_func r = rq_func r'" using keys r unfolding sound_keys_def inj_on_def by blast
  have "outs \<noteq> Some []" "outs' \<noteq> Some []"
    using plain_outs [OF _ o(1)] plain_outs [OF _ o(2)] plain r by blast+
  moreover have "kd_out (compile_key_data kf r outs) = kd_out (compile_key_data kf r' outs')" using d by simp
  ultimately have outs: "outs = outs'"
    by (auto simp: compile_key_data_def split: option.splits)
  have "kd_cfg (compile_key_data kf r outs) = kd_cfg (compile_key_data kf r' outs')" using d by simp
  then have "sort_key fst (rq_cfg r) = sort_key fst (rq_cfg r')"
    by (simp add: compile_key_data_def split: if_splits)
  then have "map_of (rq_cfg r) = map_of (rq_cfg r')"
    by (rule sort_key_map_of) (use plain r in \<open>simp_all add: plain_request_def\<close>)
  from compile_kernel_cfg [OF this tc, of env "rq_func r'" "out_list outs'"]
  show "compile_request tc env r = compile_request tc env r'"
    unfolding compile_request_def o f outs by simp
qed

lemma save_compile_result_disk:
  "disk (save_compile_result io key k s) = save_at io (cache_dir s, key) k (disk s)"
  "memory_cache (save_compile_result io key k s) = memory_cache s"
  by (simp_all add: save_compile_result_def save_at_def Let_def)

lemma same_kernel_refl [simp]: "same_kernel k k"
  by (simp add: same_kernel_def)

lemma cache_ok_memory:
  assumes "cache_ok kf tc env R s" and "map_of (memory_cache s) key = Some k" and "r \<in> R" and "request_key kf r = Inr key"
  obtains k0 where "compile_request tc env r = Inr k0" and "same_kernel k0 k"
  using assms unfolding cache_ok_def coherent_def stands_for_def by blast

lemma cache_ok_disk:
  assumes "cache_ok kf tc env R s" and "load_compile_result io key s = Inr (Some k)"
    and "r \<in> R" and "request_key kf r = Inr key"
  obtains k0 where "compile_request tc env r = Inr k0" and "same_kernel k0 k"
proof -
  let ?p = "(cache_dir s, key)"
  obtain md where md: "stored_metadata (disk s) ?p = Some md"
    and k: "jit_kernel_init (launcher_imports io (entry_at (disk s) ?p)) md (so_path ?p) = Inr k"
    using assms(2)
    by (auto simp: load_compile_result_def load_npu_kernel_from_disk_def Let_def stored_metadata_def rbind_Inr_iff
        split: option.splits if_splits)
  obtain k0 where k0: "compile_request tc env r = Inr k0" "md = metadata_of k0"
    using assms(1,3,4) md unfolding cache_ok_def coherent_def by fastforce
  then obtain outs where "compile_kernel tc env (rq_func r) outs (rq_cfg r) = Inr k0"
    by (auto simp: compile_request_def rbind_Inr_iff)
  then have "same_kernel k0 k" using reload_kernel k k0(2) by (auto simp: same_kernel_def split: if_splits)
  then show thesis using that k0(1) by blast
qed

lemma good_kernel:
  assumes "key_determines kf tc env R" and "r \<in> R" and "request_key kf r = Inr key"
    and "compile_request tc env r = Inr k0" and "same_kernel k0 k"
  shows "stands_for kf tc env R key k"
  using assms unfolding key_determines_def stands_for_def by metis

lemma cache_ok_remember:
  assumes "cache_ok kf tc env R s" and "stands_for kf tc env R key k"
  shows "cache_ok kf tc env R (s\<lparr>memory_cache := AList.update key k (memory_cache s)\<rparr>)"
  using assms memory_level.store_coherent by (auto simp: cache_ok_def)

lemma cache_ok_save:
  assumes "cache_ok kf tc env R s" and det: "key_determines kf tc env R" and "r \<in> R"
    and "request_key kf r = Inr key" and "compile_request tc env r = Inr k"
  shows "cache_ok kf tc env R (save_compile_result io key k s)"
  unfolding cache_ok_def save_compile_result_disk
proof
  show "coherent map_of (stands_for kf tc env R) (memory_cache s)" using assms(1) by (simp add: cache_ok_def)
  show "coherent stored_metadata (\<lambda>p md. \<forall>r \<in> R. request_key kf r = Inr (snd p) \<longrightarrow>
        (\<exists>k0. compile_request tc env r = Inr k0 \<and> md = metadata_of k0)) (save_at io (cache_dir s, key) k (disk s))"
  proof (rule disk_level.store_coherent)
    show "coherent stored_metadata (\<lambda>p md. \<forall>r \<in> R. request_key kf r = Inr (snd p) \<longrightarrow>
        (\<exists>k0. compile_request tc env r = Inr k0 \<and> md = metadata_of k0)) (disk s)"
      using assms(1) by (simp add: cache_ok_def)
    have "compile_request tc env r' = Inr k" if "r' \<in> R" "request_key kf r' = Inr key" for r'
      using det assms(3-5) that unfolding key_determines_def by metis
    then show "\<forall>r \<in> R. request_key kf r = Inr (snd (cache_dir s, key)) \<longrightarrow>
        (\<exists>k0. compile_request tc env r = Inr k0 \<and> md = metadata_of k0)" if "md = metadata_of k" for md
      using that by auto
  qed
qed

text \<open>One request through the cache: the kernel is the compiled one, and the cache stays coherent.\<close>

lemma cached_npu_sound:
  assumes det: "key_determines kf tc env R" and ok: "cache_ok kf tc env R s" and r: "r \<in> R"
    and run: "cached_npu kf tc env enabled io r s = Inr (k, s')"
  shows "(\<exists>k0. compile_request tc env r = Inr k0 \<and> same_kernel k0 k) \<and> cache_ok kf tc env R s'"
proof -
  obtain outs where outs: "request_outs r = Inr outs" using run by (auto simp: cached_npu_def elim!: rbind_InrE)
  define key where "key = generate_compile_key kf r outs"
  have rk: "request_key kf r = Inr key" by (simp add: request_key_def outs key_def)
  have comp: "compile_kernel tc env (rq_func r) (out_list outs) (rq_cfg r) = compile_request tc env r"
    by (simp add: compile_request_def outs)
  show ?thesis
  proof (cases enabled)
    case False
    then show ?thesis using run ok by (auto simp: cached_npu_def outs comp Let_def elim!: rbind_InrE)
  next
    case True
    note run = run [unfolded cached_npu_def outs rbind_simps Let_def key_def [symmetric] comp] True
    show ?thesis
    proof (cases "map_of (memory_cache s) key")
      case (Some k1)
      then have "k = k1" "s' = s" using run by auto
      then show ?thesis using ok cache_ok_memory [OF ok Some r rk] by metis
    next
      case None
      then obtain hit where hit: "load_compile_result io key s = Inr hit" using run by (auto elim!: rbind_InrE)
      show ?thesis
      proof (cases hit)
        case (Some k1)
        then obtain k0 where k0: "compile_request tc env r = Inr k0" "same_kernel k0 k1"
          using cache_ok_disk [OF ok _ r rk] hit by blast
        have "k = k1" "s' = s\<lparr>memory_cache := AList.update key k1 (memory_cache s)\<rparr>"
          using run None hit Some by auto
        then show ?thesis using k0 cache_ok_remember [OF ok good_kernel [OF det r rk k0]] by blast
      next
        case N: None
        then have k: "compile_request tc env r = Inr k"
          and s': "s' = (save_compile_result io key k s)\<lparr>memory_cache := AList.update key k (memory_cache s)\<rparr>"
          using run None hit by (auto simp: save_compile_result_disk elim!: rbind_InrE)
        have "cache_ok kf tc env R (save_compile_result io key k s)"
          by (rule cache_ok_save [OF ok det r rk k])
        from cache_ok_remember [OF this good_kernel [OF det r rk k same_kernel_refl]] k show ?thesis
          by (auto simp: s' save_compile_result_disk)
      qed
    qed
  qed
qed

lemma cached_npu_error:
  assumes ok: "cache_ok kf tc env R s" and r: "r \<in> R" and run: "cached_npu kf tc env enabled io r s = Inl e"
  shows "compile_request tc env r = Inl e \<or>
     e = ImportError \<and> enabled \<and>
       (\<exists>key. request_key kf r = Inr key \<and> \<not> launcher_imports io (entry_at (disk s) (cache_dir s, key)))"
proof (cases "request_outs r")
  case (Inl e')
  then show ?thesis using run by (simp add: cached_npu_def compile_request_def)
next
  case (Inr outs)
  define key where "key = generate_compile_key kf r outs"
  have rk: "request_key kf r = Inr key" by (simp add: request_key_def Inr key_def)
  have comp: "compile_kernel tc env (rq_func r) (out_list outs) (rq_cfg r) = compile_request tc env r"
    by (simp add: compile_request_def Inr)
  note run = run [unfolded cached_npu_def Inr rbind_simps Let_def key_def [symmetric] comp]
  have load: "e' = ImportError \<and> \<not> launcher_imports io (entry_at (disk s) (cache_dir s, key))"
    if failed: "load_compile_result io key s = Inl e'" for e'
  proof -
    let ?p = "(cache_dir s, key)"
    obtain md where md: "stored_metadata (disk s) ?p = Some md"
      and e': "jit_kernel_init (launcher_imports io (entry_at (disk s) ?p)) md (so_path ?p) = Inl e'"
      using failed
      by (auto simp: load_compile_result_def load_npu_kernel_from_disk_def Let_def stored_metadata_def rbind_Inl_iff
          split: option.splits if_splits)
    obtain k0 where k0: "compile_request tc env r = Inr k0" "md = metadata_of k0"
      using ok r rk md unfolding cache_ok_def coherent_def by fastforce
    then have "compile_kernel tc env (rq_func r) (out_list outs) (rq_cfg r) = Inr k0" by (simp add: comp)
    then show ?thesis using reload_kernel e' k0(2) by (auto split: if_splits)
  qed
  show ?thesis
    using run load rk by (auto simp: rbind_Inl_iff split: if_splits option.splits)
qed

text \<open>
  The life of a cache: it starts empty, and requests of the class \<open>R\<close>, changes of the directory and
  clearing follow in any order, with any writes failing.
\<close>

datatype cache_op = Request bool store_io request | SetDir string | Clear bool

definition cache_created :: "cache \<Rightarrow> bool" where
  "cache_created s \<longleftrightarrow> memory_cache s = [] \<and> disk s = []"

fun cache_step :: "key_fns \<Rightarrow> toolchain \<Rightarrow> npu_env \<Rightarrow> request set \<Rightarrow> cache_op \<Rightarrow> cache \<Rightarrow> cache res" where
  "cache_step kf tc env R (Request enabled io r) s =
     (if r \<in> R then rbind (cached_npu kf tc env enabled io r s) (\<lambda>(k, s'). Inr s') else Inl ValueError)"
| "cache_step kf tc env R (SetDir d) s = Inr (set_cache_dir d s)"
| "cache_step kf tc env R (Clear removed) s = Inr (clear_cache removed s)"

lemma cache_ok_created: "cache_created s \<Longrightarrow> cache_ok kf tc env R s"
  by (simp add: cache_created_def cache_ok_def coherent_def stored_metadata_def entry_at_def empty_entry_def)

lemma cache_ok_clear:
  assumes "cache_ok kf tc env R s"
  shows "cache_ok kf tc env R (clear_cache removed s)"
proof -
  have "map_of (filter (\<lambda>(p, e). fst p \<noteq> d) xs) p = (if fst p \<noteq> d then map_of xs p else None)"
    for d and xs :: "(path \<times> entry) list" and p
    by (induction xs) auto
  then have sub: "stored_metadata (filter (\<lambda>(p, e). fst p \<noteq> d) xs) p = Some md \<Longrightarrow> stored_metadata xs p = Some md"
    for d xs p md
    by (auto simp: stored_metadata_def entry_at_def empty_entry_def split: if_splits)
  have "coherent stored_metadata good (filter (\<lambda>(p, e). fst p \<noteq> d) xs)" if "coherent stored_metadata good xs" for good d xs
    using that sub unfolding coherent_def by blast
  then show ?thesis using assms unfolding cache_ok_def clear_cache_def
    by (simp add: coherent_def [of map_of])
qed

interpretation kernel_cache: command_machine cache_created "cache_step kf tc env R"
    "\<lambda>s. key_determines kf tc env R \<longrightarrow> cache_ok kf tc env R s" for kf tc env R
proof
  show "key_determines kf tc env R \<longrightarrow> cache_ok kf tc env R s" if "cache_created s" for s
    using that cache_ok_created by blast
  show "key_determines kf tc env R \<longrightarrow> cache_ok kf tc env R s'"
    if "key_determines kf tc env R \<longrightarrow> cache_ok kf tc env R s" and "cache_step kf tc env R op s = Inr s'" for s s' op
  proof (cases op)
    case (Request enabled io r)
    then show ?thesis using that cached_npu_sound [of kf tc env R s r enabled io]
      by (auto elim!: rbind_InrE split: if_splits)
  next
    case (SetDir d)
    then show ?thesis using that by (auto simp: set_cache_dir_def cache_ok_def)
  next
    case (Clear removed)
    then show ?thesis using that cache_ok_clear by auto
  qed
qed


text \<open>
  Examples: two requests for the same function with different outputs, a hash of the script and
  the outputs, and a disk on which every write succeeds.
\<close>

definition example_kf :: key_fns where
  "example_kf = \<lparr>kf_version = ''0'', kf_script_hash = (\<lambda>f. str_nat (length (fn_params f))),
     kf_hash = (\<lambda>kd. kd_func kd @ concat (map (\<lambda>j. CHR ''.'' # str_nat j) (kd_out kd)))\<rparr>"

definition example_request :: request where
  "example_request = \<lparr>rq_func = example_func, rq_out = Some (OutList [-1]), rq_backend = ''cython'', rq_target = ''npuir'',
     rq_host = None, rq_verbose = False, rq_cfg = []\<rparr>"

definition other_request :: request where
  "other_request = example_request\<lparr>rq_out := Some (OutList [0])\<rparr>"

definition example_io :: "(string \<Rightarrow> write_outcome) \<Rightarrow> store_io" where
  "example_io w = \<lparr>io_write = w, io_file = (\<lambda>p. Some [7]), io_import = (\<lambda>bytes. bytes = [7])\<rparr>"

definition empty_cache :: "string \<Rightarrow> cache" where
  "empty_cache d = \<lparr>cache_dir = d, memory_cache = [], disk = []\<rparr>"

text \<open>A process that asks once, and the cache that the next process finds: the files and no dictionary.\<close>

definition next_process :: "(kernel \<times> cache) res \<Rightarrow> cache" where
  "next_process r = (snd (projr r))\<lparr>memory_cache := []\<rparr>"

definition first_use :: cache where
  "first_use = snd (projr (cached_npu example_kf example_tc example_env True (example_io (\<lambda>l. Written)) example_request
     (empty_cache ''c'')))"

lemma first_use_run:
  "\<exists>k. cached_npu example_kf example_tc example_env True (example_io (\<lambda>l. Written)) example_request (empty_cache ''c'') =
     Inr (k, first_use)"
proof -
  let ?run = "cached_npu example_kf example_tc example_env True (example_io (\<lambda>l. Written)) example_request (empty_cache ''c'')"
  have "\<not> isl ?run" by code_simp
  then obtain k s' where "?run = Inr (k, s')" by (metis isl_def sum.exhaust surj_pair)
  then show ?thesis by (simp add: first_use_def)
qed

lemma example_reaches:
  "reaches cache_created (cache_step example_kf example_tc example_env {example_request, other_request}) first_use"
proof (rule reaches.later)
  show "reaches cache_created (cache_step example_kf example_tc example_env {example_request, other_request}) (empty_cache ''c'')"
    by (rule reaches.first) (simp add: cache_created_def empty_cache_def)
  show "cache_step example_kf example_tc example_env {example_request, other_request}
     (Request True (example_io (\<lambda>l. Written)) example_request) (empty_cache ''c'') = Inr first_use"
    using first_use_run by auto
qed

lemma example_outs: "request_outs example_request = Inr (Some [1])" "request_outs other_request = Inr (Some [0])"
  by code_simp+

lemma example_keys: "sound_keys example_kf {example_request, other_request}"
proof -
  have "kf_hash example_kf (compile_key_data example_kf example_request (Some [1])) \<noteq>
        kf_hash example_kf (compile_key_data example_kf other_request (Some [0]))" by code_simp
  then have "inj_on (kf_hash example_kf)
      {compile_key_data example_kf example_request (Some [1]), compile_key_data example_kf other_request (Some [0])}"
    by (auto simp: inj_on_def)
  moreover have "{compile_key_data example_kf r outs | r outs. r \<in> {example_request, other_request} \<and> request_outs r = Inr outs} =
      {compile_key_data example_kf example_request (Some [1]), compile_key_data example_kf other_request (Some [0])}"
    by (auto simp: example_outs) (use example_outs in force)+
  moreover have "rq_func other_request = rq_func example_request" by (simp add: other_request_def)
  ultimately show ?thesis by (simp add: sound_keys_def)
qed


text \<open>
  A launcher that could not be copied, or was copied in part, is not noticed when the entry is
  written, and makes every later process raise for that request, although compiling it would succeed.
  Metadata that was cut is noticed: the kernel is compiled again.
\<close>

definition save_then_load :: "(string \<Rightarrow> write_outcome) \<Rightarrow> (kernel \<times> cache) res" where
  "save_then_load w =
     cached_npu example_kf example_tc example_env True (example_io (\<lambda>l. Written)) example_request
       (next_process (cached_npu example_kf example_tc example_env True (example_io w) example_request (empty_cache ''c'')))"

theorem missing_launcher_raises:
  "save_then_load (\<lambda>l. if l = ''main.so'' then Untouched else Written) = Inl ImportError"
  "save_then_load (\<lambda>l. if l = ''main.so'' then Cut 0 else Written) = Inl ImportError"
  "\<not> isl (save_then_load (\<lambda>l. if l = ''metadata'' then Cut 3 else Written))"
  by code_simp+

text \<open>No outputs and an empty list of outputs have one key, although the compiled kernels differ.\<close>

theorem no_outputs_collide: "generate_compile_key kf r None = generate_compile_key kf r (Some [])"
  by (simp add: generate_compile_key_def compile_key_data_def)

text \<open>
  The key does not mention the mode in which the external compiler runs: a kernel compiled in expert
  mode is handed out in developer mode.
\<close>

definition mode_tc :: toolchain where
  "mode_tc = example_tc\<lparr>tc_bishengir := (\<lambda>os t. Some (example_build\<lparr>b_object := Some [length os]\<rparr>))\<rparr>"

theorem mode_not_in_key:
  "let expert = example_env\<lparr>env_ascend_mode := Some ''expert''\<rparr>; developer = example_env\<lparr>env_ascend_mode := Some ''developer''\<rparr>;
       first = cached_npu example_kf mode_tc expert True (example_io (\<lambda>l. Written)) example_request (empty_cache ''c'');
       second = cached_npu example_kf mode_tc developer True (example_io (\<lambda>l. Written)) example_request (snd (projr first))
   in utils_kernel_src (fst (projr second)) = [5] \<and>
      utils_kernel_src (projr (compile_request mode_tc developer example_request)) = [4]"
  by code_simp

text \<open>
  An autotuning result that is saved with every write succeeding is loaded again: configuration,
  function, latencies and kernel, the kernel with the launcher in the cache directory.
\<close>

theorem autotune_round_trip:
  assumes "compile_kernel tc env f out cfg = Inr (tr_kernel t)" and "utils_kernel_src (tr_kernel t) \<noteq> []"
    and "\<And>label. io_write io label = Written" and "io_file io (so_launcher_path (tr_kernel t)) = Some so" and "io_import io so"
  shows "load_autotune_result io key (save_autotune_result io key t s) =
    Inr (Some (t\<lparr>tr_kernel := (tr_kernel t)\<lparr>so_launcher_path := so_path (cache_dir s, key)\<rparr>,
                 tr_libcode := utils_kernel_src (tr_kernel t)\<rparr>))"
  using assms(2-5) reload_kernel [OF assms(1), of True]
  by (simp add: load_autotune_result_def save_autotune_result_def Let_def entry_at_update launcher_imports_def
      load_npu_kernel_from_disk_def save_npu_kernel_to_disk_def save_bytes_def save_object_def)

theorem autotune_round_trip_witness:
  "let t = \<lparr>tr_config = [(''block'', CfgInt 64)], tr_func = example_func, tr_kernel = example_kernel, tr_libcode = [],
            tr_latency = Some (3 / 2), tr_ref_latency = None\<rparr>
   in load_autotune_result (example_io (\<lambda>l. Written)) ''k'' (save_autotune_result (example_io (\<lambda>l. Written)) ''k'' t (empty_cache ''c'')) =
      Inr (Some (t\<lparr>tr_kernel := example_kernel\<lparr>so_launcher_path := ''c/k/main.so''\<rparr>,
                   tr_libcode := utils_kernel_src example_kernel\<rparr>))"
proof -
  let ?t = "\<lparr>tr_config = [(''block'', CfgInt 64)], tr_func = example_func, tr_kernel = example_kernel, tr_libcode = [],
            tr_latency = Some (3 / 2 :: rat), tr_ref_latency = None\<rparr>"
  have src: "utils_kernel_src example_kernel \<noteq> []" by code_simp
  have comp: "compile_kernel example_tc example_env example_func (Some (OutList [-1])) [] = Inr (tr_kernel ?t)"
    using example_compiles by simp
  show ?thesis
    using autotune_round_trip [OF comp, of "example_io (\<lambda>l. Written)" "[7]" "''k''" "empty_cache ''c''"] src
    by (simp add: Let_def example_io_def empty_cache_def so_path_def)
qed

end
