(* ===== verification/TensorCore.thy ===== *)
theory TensorCore
  imports AscendPolicy "HOL-Library.Char_ord" "HOL-Library.Word"
begin

unbundle bit_operations_syntax

text \<open>
  The policy for GPU tensor cores (\<^verbatim>\<open>carver/roller/policy/tensorcore.py\<close>) and the order in which
  thread blocks walk the grid (\<^verbatim>\<open>carver/roller/rasterization.py\<close>).  The policy extends the default
  one: reduction steps that suit the intrinsics, the expansion of steps for small tiles, the
  validity of tiles, the split of a tile into warp tiles, and the choice of a rasterization.

  The architecture is the record \<open>tc_arch\<close>; what the analysis says of a node are the views of
  the theories \<open>ReduceSteps\<close> and \<open>AscendPolicy\<close>.  Scores are exact rational numbers.
\<close>

section \<open>Rasterization\<close>

text \<open>
  The device function \<^verbatim>\<open>rasterization2DColumn\<close>: the grid is cut into panels of \<open>pw\<close> rows, which are walked
  column by column, alternately from the left and from the right.  The coordinates of the grid are
  unsigned 32-bit integers, and so is every expression that mentions them: sums and products wrap.
\<close>

definition raster_panels :: "32 word \<Rightarrow> 32 word \<Rightarrow> 32 word \<Rightarrow> 32 word" where
  "raster_panels pw gx gy = (gx * gy + pw * gx - 1) div (pw * gx)"

definition raster_stride :: "32 word \<Rightarrow> 32 word \<Rightarrow> 32 word \<Rightarrow> 32 word \<Rightarrow> 32 word" where
  "raster_stride pw gx gy panel =
     (if panel + 1 < raster_panels pw gx gy then pw else (gx * gy - panel * (pw * gx)) div gx)"

definition rasterization2DColumn :: "32 word \<Rightarrow> 32 word \<Rightarrow> 32 word \<Rightarrow> 32 word \<times> 32 word \<Rightarrow> 32 word \<times> 32 word" where
  "rasterization2DColumn pw gx gy b =
     (let base = fst b + gx * snd b;
          panel = base div (pw * gx);
          stride = raster_stride pw gx gy panel;
          r = base - panel * pw * gx in
      (if panel AND 1 \<noteq> 0 then gx - r div stride - 1 else r div stride, r mod stride + panel * pw))"

datatype rasterization = NoRasterization | Rasterization2DColumn nat

section \<open>The policy\<close>

record tc_arch =
  ta_capability :: string
  ta_warp_size :: nat
  ta_intrin_shapes :: "(nat \<times> nat) list"
  ta_transaction :: nat
  ta_max_smem :: int
  ta_smem_cap :: int
  ta_bandwidth :: rat
  ta_l2_bytes :: nat
  ta_cores :: nat

record tc_settings =
  ts_stage :: nat
  ts_async :: bool
  ts_depth :: "nat option"

text \<open>\<^verbatim>\<open>_legalize_info\<close>: tags of the function first, then the architecture; a tag of zero is no tag.\<close>

definition legalize_info :: "tc_arch \<Rightarrow> nat option \<Rightarrow> bool \<Rightarrow> nat option \<Rightarrow> tc_settings" where
  "legalize_info a stage_tag async_tag depth_tag =
     (let recent = ta_capability a \<in> {''sm_80'', ''sm_90'', ''sm_90a''} in
      \<lparr>ts_stage = (case stage_tag of Some s \<Rightarrow> if s \<noteq> 0 then s else if recent then 2 else 1
                   | None \<Rightarrow> if recent then 2 else 1),
       ts_async = (async_tag \<or> recent),
       ts_depth = (case depth_tag of Some d \<Rightarrow> if d \<noteq> 0 then Some d else None | None \<Rightarrow> None)\<rparr>)"

text \<open>Strides, and candidates in multiples of the depth of the intrinsics, as in the cube policy.\<close>

definition compute_tc_strides :: "cube_view \<Rightarrow> nat list \<Rightarrow> rsteps \<Rightarrow> (stride \<times> stride \<times> stride) res" where
  "compute_tc_strides = cube_strides"

text \<open>The strides are computed and not used: no layout is implemented, and the outputs keep the default stride.\<close>

definition tc_node_stride_map :: "node_analysis \<Rightarrow> cube_view \<Rightarrow> nat \<Rightarrow> tile_dict \<Rightarrow> (nat \<times> stride) list res" where
  "tc_node_stride_map an cv n td =
     (if cv_config cv = None then Inr (compute_node_stride_map an n)
      else
        rbind (get_tile td n) (\<lambda>tile.
        rbind (get_rstep td n) (\<lambda>rstep.
        rbind (compute_tc_strides cv tile rstep) (\<lambda>_.
        rbind (compute_tc_strides cv tile []) (\<lambda>_. Inr (compute_node_stride_map an n))))))"

definition wmma_k :: nat where
  "wmma_k = 16"

definition tc_step_candidates :: "cube_view \<Rightarrow> all_steps res" where
  "tc_step_candidates cv = cube_step_candidates wmma_k cv"

definition tc_assign_reduce_step :: "tc_arch \<Rightarrow> cube_view \<Rightarrow> reduce_view \<Rightarrow> rsteps res" where
  "tc_assign_reduce_step a cv rv =
     (if cv_config cv = None then assign_reduce_step (ta_transaction a) rv
      else case cv_in_bits cv of
        [] \<Rightarrow> Inl IndexError
      | bits # _ \<Rightarrow>
          rbind (div_res (ta_transaction a * 2 * 8) bits) (\<lambda>basic.
          rbind (cube_steps 16 basic (cv_raxis cv)) (\<lambda>r.
            case r of Some rs \<Rightarrow> Inr rs | None \<Rightarrow> assign_reduce_step (ta_transaction a) rv)))"

definition tc_node_ok :: "tc_arch \<Rightarrow> cube_view \<Rightarrow> nat \<Rightarrow> tile_dict \<Rightarrow> bool res" where
  "tc_node_ok a cv n td =
     (case cv_config cv of
        None \<Rightarrow> Inr True
      | Some (ax_m, ax_n) \<Rightarrow>
          rbind (get_tile td n) (\<lambda>tile.
          rbind (nth_res tile ax_m) (\<lambda>block_m.
          rbind (nth_res tile ax_n) (\<lambda>block_n.
            if list_all (\<lambda>(wm, wn). block_m < wm \<or> block_n < wn) (ta_intrin_shapes a) then Inr False
            else rbind (rmap (\<lambda>(x, y). if x = 0 then Inl ZeroDivisionError else Inr (y mod x))
                          (zip tile (cv_space cv))) (\<lambda>rems.
              Inr (list_all (\<lambda>r. r = 0) rems))))))"

definition tc_check_tile ::
  "policy \<Rightarrow> tc_arch \<Rightarrow> (nat \<Rightarrow> cube_view) \<Rightarrow> (nat \<Rightarrow> nat list option) \<Rightarrow> tile_dict \<Rightarrow> bool res" where
  "tc_check_tile p a views reduce_axes td =
     rbind (all_ok (\<lambda>n. tc_node_ok a (views n) n td) (p_ordered p)) (\<lambda>ok.
       if ok then check_tile_shape_isvalid p td reduce_axes else Inr False)"

section \<open>Warp tiles\<close>

text \<open>The estimate of the data a warp tile reads; small is better.\<close>

definition warp_score :: "tc_arch \<Rightarrow> reduce_view \<Rightarrow> nat list \<Rightarrow> nat list \<Rightarrow> rat res" where
  "warp_score a rv tile thread =
     (let shape = rv_propagate rv (map2 cdiv tile thread) [] in
      rbind (rmap (\<lambda>i. rbind (nth_res shape i) (\<lambda>s. Inr (of_nat (prod_list s) / ta_bandwidth a)))
               [0..<length (rv_inputs rv)])
        (\<lambda>ss. Inr (sum_list ss)))"

text \<open>One factor: to the axis with the least score among those it divides, the first of them; none fits: no configuration.\<close>

definition warp_step :: "(nat list \<Rightarrow> rat res) \<Rightarrow> nat list \<Rightarrow> nat \<Rightarrow> nat list \<Rightarrow> nat list option res" where
  "warp_step score tile factor warp =
     rbind (rmap (\<lambda>i. rbind (score (warp[i := warp ! i * factor])) (\<lambda>s. Inr (s, i)))
              (filter (\<lambda>i. tile ! i mod (warp ! i * factor) = 0) [0..<length tile])) (\<lambda>score_map.
       Inr (case sort score_map of [] \<Rightarrow> None | (_, i) # _ \<Rightarrow> Some (warp[i := warp ! i * factor])))"

fun warp_loop :: "(nat list \<Rightarrow> rat res) \<Rightarrow> nat list \<Rightarrow> nat list \<Rightarrow> nat list \<Rightarrow> nat list option res" where
  "warp_loop score tile [] warp = Inr (Some warp)"
| "warp_loop score tile (f # fs) warp =
     rbind (warp_step score tile f warp) (\<lambda>r.
       case r of None \<Rightarrow> Inr None | Some w \<Rightarrow> warp_loop score tile fs w)"

definition wmma_tile :: "nat list \<Rightarrow> nat \<Rightarrow> nat \<Rightarrow> nat \<times> nat \<Rightarrow> nat list" where
  "wmma_tile tile ax_m ax_n wmma = ((map (\<lambda>_. 1) tile)[ax_m := fst wmma])[ax_n := snd wmma]"

text \<open>
  The warp tile of a block, if there is one.  The intrinsic shape has positive sides; dividing by no
  warps gives zero in numpy, whose factorisation the model refuses.
\<close>

definition warp_tile ::
  "tc_arch \<Rightarrow> reduce_view \<Rightarrow> nat list \<Rightarrow> nat \<Rightarrow> nat \<Rightarrow> nat \<Rightarrow> nat list option res" where
  "warp_tile a rv tile ax_m ax_n bsize =
     (if ta_warp_size a = 0 then Inl ZeroDivisionError
      else if bsize mod ta_warp_size a \<noteq> 0 then Inr None
      else if ta_intrin_shapes a = [] \<or> length tile \<le> ax_m \<or> length tile \<le> ax_n then Inl IndexError
      else
        let warps = bsize div ta_warp_size a;
            unit = wmma_tile tile ax_m ax_n (last (ta_intrin_shapes a));
            space = map2 (div) tile unit in
        if 0 \<in> set unit then Inl ZeroDivisionError
        else if tile ! ax_m < unit ! ax_m \<or> tile ! ax_n < unit ! ax_n then Inr None
        else case factorize (prod_list space div warps) of
               None \<Rightarrow> Inl ValueError
             | Some factors \<Rightarrow> warp_loop (warp_score a rv tile) tile (rev factors) unit)"

section \<open>Configurations\<close>

text \<open>
  The test on the capability compares strings.  The global inputs are sizes and widths of
  the buffers of all nodes.
\<close>

definition floor_sqrt :: "nat \<Rightarrow> nat" where
  "floor_sqrt n = (if ceil_sqrt n * ceil_sqrt n = n then ceil_sqrt n else ceil_sqrt n - 1)"

definition plan_rasterization :: "tc_arch \<Rightarrow> nat list \<Rightarrow> (nat list \<times> nat) list \<Rightarrow> rasterization" where
  "plan_rasterization a ordered buffers =
     (if 1 < length ordered \<or> ta_capability a < ''80'' \<or>
         sum_list (map (\<lambda>(shape, bits). prod_list shape * bits div 8) buffers) < ta_l2_bytes a
      then NoRasterization else Rasterization2DColumn (floor_sqrt (ta_cores a)))"

definition tc_assign_block_size ::
  "tc_arch \<Rightarrow> tc_settings \<Rightarrow> cube_view \<Rightarrow> reduce_view \<Rightarrow> node_view \<Rightarrow> (nat list \<Rightarrow> rat res) \<Rightarrow> rasterization \<Rightarrow>
     nat \<Rightarrow> tile_dict \<Rightarrow> nat \<Rightarrow> (hint \<times> rasterization option) option res" where
  "tc_assign_block_size a ts cv rv nv score raster n td bsize =
     rbind (get_tile td n) (\<lambda>tile.
     rbind (get_rstep td n) (\<lambda>rsteps.
       case cv_config cv of
         None \<Rightarrow> rbind (assign_block_size score nv tile rsteps bsize) (\<lambda>h. Inr (Some (h, None)))
       | Some (ax_m, ax_n) \<Rightarrow>
           rbind (warp_tile a rv tile ax_m ax_n bsize) (\<lambda>w.
             case w of
               None \<Rightarrow> Inr None
             | Some warp \<Rightarrow>
                 rbind (lookup_all rsteps (map fst (cv_raxis cv))) (\<lambda>rstep.
                 rbind (dict_get (td_cached_tensors_map td) n) (\<lambda>cached.
                 rbind (plan_vectorize bsize (nv_shapes nv) (nv_dtypes nv)) (\<lambda>vec.
                   let h = hint_init\<lparr>h_block := tile, h_warp := warp, h_use_tc := Some True,
                             h_pipeline_stage := ts_stage ts, h_block_reduction_depth := ts_depth ts,
                             h_use_async := ts_async ts, h_rstep := rstep, h_cached_tensors := cached,
                             h_intrin_info := (case cv_intrin cv of Some i \<Rightarrow> i | None \<Rightarrow> h_intrin_info hint_init),
                             h_shared_scope := ''shared.dyn''\<rparr> in
                   Inr (Some (tensorcore_legalization
                     ((complete_config h)\<lparr>h_vectorize := vec, h_opt_shapes := cv_opt_shapes cv\<rparr>), Some raster)))))))) "

section \<open>Expanding the reduction steps of small tiles\<close>

text \<open>
  The memory test measures the footprint of the output tile with the new steps, without the factor of
  the pipeline.  The last branch multiplies the dictionaries of steps, not the steps.
\<close>

definition tc_node_fits :: "policy \<Rightarrow> rat \<Rightarrow> tile_dict \<Rightarrow> nat \<Rightarrow> rsteps \<Rightarrow> bool res" where
  "tc_node_fits p limit td n rs = Inr (of_nat (fst (an_footprint (p_an p) n (td_output_tile td) rs)) \<le> limit)"

definition tc_expand_node ::
  "policy \<Rightarrow> rat \<Rightarrow> (nat \<Rightarrow> cube_view) \<Rightarrow> (nat \<Rightarrow> reduce_view) \<Rightarrow> tile_dict \<Rightarrow> nat \<Rightarrow>
     (nat \<times> rsteps) list \<Rightarrow> (nat \<times> rsteps) list res" where
  "tc_expand_node p limit cviews views td n m =
     (if rv_raxis (views n) = [] then Inr m
      else
        rbind (dict_get m n) (\<lambda>rstep.
        rbind (optimize_node True (tc_step_candidates (cviews n)) (run_score (views n) (get_tile td n))
                 (tc_node_fits p limit td n) (views n) rstep)
          (\<lambda>rs. Inr (AList.update n rs m))))"

definition tc_expand_reduce_axis ::
  "policy \<Rightarrow> tc_arch \<Rightarrow> tc_settings \<Rightarrow> (nat \<Rightarrow> cube_view) \<Rightarrow> (nat \<Rightarrow> reduce_view) \<Rightarrow> tile_dict \<Rightarrow> tile_dict res" where
  "tc_expand_reduce_axis p a ts cviews views td =
     rbind (has_small_tile p td) (\<lambda>small.
     rbind (if small then
         (if td_block_per_SM td = 0 then Inl ZeroDivisionError
          else
            let limit = of_int (min (ta_max_smem a div td_block_per_SM td) (ta_smem_cap a)) in
            rbind (rfold (tc_expand_node p limit cviews views td) (p_ordered p) (td_rstep_map td)) (\<lambda>m.
            let td1 = td\<lparr>td_rstep_map := m\<rparr>; q = staged (ts_stage ts) p in
            rbind (compute_shared_memory_usage (p_mem_mul q) (p_graph q) (p_an q) (p_ordered q) td1) (\<lambda>(usage, cached).
              Inr (td1\<lparr>td_smem_cost := usage, td_cached_tensors_map := cached\<rparr>))))
       else Inr td) (\<lambda>td1.
       case ts_depth ts of
         None \<Rightarrow> Inr td1
       | Some d \<Rightarrow>
           if td_rstep_map td1 \<noteq> [] \<and> list_ex (\<lambda>n. rv_raxis (views n) \<noteq> []) (p_ordered p) then Inl TypeError
           else Inr td1))"

section \<open>The walk of the grid\<close>

text \<open>The same walk in unbounded arithmetic, which the device function computes on grids that are not too large.\<close>

definition walk_panels :: "nat \<Rightarrow> nat \<Rightarrow> nat \<Rightarrow> nat" where
  "walk_panels pw gx gy = (gx * gy + pw * gx - 1) div (pw * gx)"

definition walk_stride :: "nat \<Rightarrow> nat \<Rightarrow> nat \<Rightarrow> nat \<Rightarrow> nat" where
  "walk_stride pw gx gy panel =
     (if panel + 1 < walk_panels pw gx gy then pw else (gx * gy - panel * (pw * gx)) div gx)"

definition walk_column :: "nat \<Rightarrow> nat \<Rightarrow> nat \<Rightarrow> nat \<times> nat \<Rightarrow> nat \<times> nat" where
  "walk_column pw gx gy b =
     (let base = fst b + gx * snd b;
          panel = base div (pw * gx);
          stride = walk_stride pw gx gy panel;
          r = base - panel * pw * gx in
      (if odd panel then gx - r div stride - 1 else r div stride, r mod stride + panel * pw))"

lemma walk_panels_cdiv: "walk_panels pw gx gy = cdiv (gx * gy) (pw * gx)"
  by (simp add: walk_panels_def cdiv_def)

text \<open>The number of rows of a panel: the width, or what is left for the last one.\<close>

lemma walk_stride_min:
  assumes "0 < pw" and "0 < gx" and "panel * pw < gy"
  shows "walk_stride pw gx gy panel = min pw (gy - panel * pw)"
proof -
  have "panel + 1 < walk_panels pw gx gy \<longleftrightarrow> (panel + 1) * (pw * gx) < gx * gy"
    using assms by (simp add: walk_panels_cdiv less_cdiv_iff)
  also have "\<dots> \<longleftrightarrow> gx * ((panel + 1) * pw) < gx * gy" by (simp add: ac_simps)
  also have "\<dots> \<longleftrightarrow> (panel + 1) * pw < gy" using assms(2) by (subst mult_less_cancel1) simp
  finally have test: "panel + 1 < walk_panels pw gx gy \<longleftrightarrow> (panel + 1) * pw < gy" .
  have "gx * gy - panel * (pw * gx) = gx * (gy - panel * pw)"
    by (simp add: diff_mult_distrib2 ac_simps)
  then have "(gx * gy - panel * (pw * gx)) div gx = gy - panel * pw" using assms(2) by simp
  then show ?thesis using test assms(3) by (auto simp: walk_stride_def min_def)
qed

text \<open>The position of a block in its panel, and what is read back from the coordinates it is sent to.\<close>

lemma walk_panel:
  fixes pw gx gy x y :: nat
  assumes "0 < pw" and "x < gx" and "y < gy" and base: "base = x + gx * y"
    and panel: "panel = base div (pw * gx)" and r: "r = base - panel * pw * gx"
  shows "panel * pw < gy" and "r < gx * min pw (gy - panel * pw)" and "base = panel * (pw * gx) + r"
proof -
  have total: "base < gx * gy"
  proof -
    have "gx * Suc y \<le> gx * gy" using assms(3) by (intro mult_le_mono2) simp
    then have "gx * y + gx \<le> gx * gy" by simp
    then show ?thesis using assms(2) base by linarith
  qed
  have le: "panel * (pw * gx) \<le> base" using panel by (metis div_times_less_eq_dividend)
  then show eq: "base = panel * (pw * gx) + r" using r by (simp add: mult.assoc)
  have "gx * (panel * pw) \<le> base" using le by (simp add: ac_simps)
  then have "gx * (panel * pw) < gx * gy" using total by linarith
  then show "panel * pw < gy" by simp
  have "0 < pw * gx" using assms(1,2) by simp
  moreover have "r = base mod (pw * gx)" using eq panel by (metis add_diff_cancel_left' minus_div_mult_eq_mod)
  ultimately have "r < pw * gx" by simp
  moreover have "r < gx * (gy - panel * pw)" using eq total by (simp add: diff_mult_distrib2 ac_simps)
  ultimately show "r < gx * min pw (gy - panel * pw)" by (simp add: min_def ac_simps)
qed

lemma walk_coordinates:
  assumes "0 < pw" and "x < gx" and "y < gy"
  obtains panel s q t where "walk_column pw gx gy (x, y) = (if odd panel then gx - q - 1 else q, t + panel * pw)"
    and "s = min pw (gy - panel * pw)" and "q < gx" and "t < s" and "x + gx * y = panel * (pw * gx) + (q * s + t)"
    and "panel * pw < gy"
proof -
  define base where "base = x + gx * y"
  define panel where "panel = base div (pw * gx)"
  define r where "r = base - panel * pw * gx"
  define s where "s = min pw (gy - panel * pw)"
  note pr = walk_panel [OF assms base_def panel_def r_def]
  have s: "walk_stride pw gx gy panel = s" "0 < s"
    using walk_stride_min [OF assms(1) _ pr(1)] assms pr(1) by (simp_all add: s_def)
  have "r div s < gx" using pr(2) s(2) by (simp add: s_def less_mult_imp_div_less)
  moreover have "r mod s < s" "r = r div s * s + r mod s" using s(2) by simp_all
  moreover have "walk_column pw gx gy (x, y) =
      (if odd panel then gx - r div s - 1 else r div s, r mod s + panel * pw)"
    using s(1) unfolding walk_column_def Let_def fst_conv snd_conv base_def [symmetric] panel_def [symmetric]
      r_def [symmetric] by simp
  ultimately show thesis using that [of panel "r div s" "r mod s" s] pr s_def base_def by simp
qed

lemma walk_column_bijective:
  assumes "0 < pw"
  shows "bij_betw (walk_column pw gx gy) ({..<gx} \<times> {..<gy}) ({..<gx} \<times> {..<gy})"
proof -
  let ?f = "walk_column pw gx gy" and ?G = "{..<gx} \<times> {..<gy}"
  have into: "?f ` ?G \<subseteq> ?G"
  proof (rule image_subsetI)
    fix b
    assume "b \<in> ?G"
    then obtain x y where b: "b = (x, y)" "x < gx" "y < gy" by auto
    obtain panel s q t where "?f (x, y) = (if odd panel then gx - q - 1 else q, t + panel * pw)"
        "s = min pw (gy - panel * pw)" "q < gx" "t < s" "panel * pw < gy"
      by (rule walk_coordinates [OF assms b(2,3)])
    then show "?f b \<in> ?G" using b(1) by auto
  qed
  moreover have "inj_on ?f ?G"
  proof (rule inj_onI)
    fix b b'
    assume "b \<in> ?G" "b' \<in> ?G" and "?f b = ?f b'"
    then obtain x y x' y' where b: "b = (x, y)" "b' = (x', y')" and lt: "x < gx" "y < gy" "x' < gx" "y' < gy"
      and eq: "?f (x, y) = ?f (x', y')" by auto
    obtain panel s q t where f: "?f (x, y) = (if odd panel then gx - q - 1 else q, t + panel * pw)"
      and d: "s = min pw (gy - panel * pw)" "q < gx" "t < s" "x + gx * y = panel * (pw * gx) + (q * s + t)"
      by (rule walk_coordinates [OF assms lt(1,2)])
    obtain panel' s' q' t' where f': "?f (x', y') = (if odd panel' then gx - q' - 1 else q', t' + panel' * pw)"
      and d': "s' = min pw (gy - panel' * pw)" "q' < gx" "t' < s'" "x' + gx * y' = panel' * (pw * gx) + (q' * s' + t')"
      by (rule walk_coordinates [OF assms lt(3,4)])
    have "t + panel * pw = t' + panel' * pw" using eq f f' by simp
    moreover have "t < pw" "t' < pw" using d d' by auto
    ultimately have "panel = panel'" "t = t'"
      using digits_eq [of t pw t' panel panel'] by simp_all
    moreover from this have "q = q'" using eq f f' d(2) d'(2) by (auto split: if_splits)
    ultimately have base: "x + gx * y = x' + gx * y'" using d d' by simp
    then show "b = b'" unfolding b using digits_eq [of x gx x' y y'] lt by (simp add: ac_simps)
  qed
  ultimately show ?thesis by (simp add: bij_betw_def endo_inj_surj)
qed

text \<open>No expression of the device function wraps when the rounded-up number of blocks fits into 32 bits.\<close>

lemma unat_plus: "unat x + unat y < 2 ^ 32 \<Longrightarrow> unat (x + y) = unat x + unat y" for x y :: "32 word"
  by (simp add: unat_word_ariths)

lemma unat_times: "unat x * unat y < 2 ^ 32 \<Longrightarrow> unat (x * y) = unat x * unat y" for x y :: "32 word"
  by (simp add: unat_word_ariths)

lemma unat_minus: "unat y \<le> unat x \<Longrightarrow> unat (x - y) = unat x - unat y" for x y :: "32 word"
  by (rule unat_sub) (simp add: word_le_nat_alt)

lemma word_odd: "w AND 1 \<noteq> 0 \<longleftrightarrow> odd (unat w)" for w :: "32 word"
proof -
  have "unat (w AND 1) = unat w mod 2" by (simp add: and_one_eq unat_mod)
  moreover have "w AND 1 = 0 \<longleftrightarrow> unat (w AND 1) = 0" by (simp only: unat_eq_0)
  ultimately show ?thesis by presburger
qed

lemma unat_bound: "unat w < 2 ^ 32" for w :: "32 word"
  by (rule order_less_le_trans [OF unsigned_less]) simp

lemma unat_pos: "0 < w \<Longrightarrow> 0 < unat w" for w :: "32 word"
  by (simp add: word_less_nat_alt)

lemma unat_raster_panels:
  assumes "0 < pw" and "0 < gx" and fits: "unat gx * unat gy + unat pw * unat gx < 2 ^ 32"
  shows "unat (raster_panels pw gx gy) = walk_panels (unat pw) (unat gx) (unat gy)"
proof -
  have pos: "0 < unat pw * unat gx" using assms(1,2) by (simp add: unat_pos)
  have prod: "unat (gx * gy) = unat gx * unat gy" "unat (pw * gx) = unat pw * unat gx"
    using fits by (auto intro!: unat_times)
  then have total: "unat (gx * gy + pw * gx) = unat gx * unat gy + unat pw * unat gx"
    using fits by (subst unat_plus) simp_all
  have one: "unat (1 :: 32 word) = 1" by simp
  have "1 \<le> unat gx * unat gy + unat pw * unat gx" using pos by linarith
  then have "unat (gx * gy + pw * gx - 1) = unat gx * unat gy + unat pw * unat gx - 1"
    using unat_minus [of 1 "gx * gy + pw * gx", unfolded one total] by blast
  then show ?thesis by (simp add: raster_panels_def walk_panels_def unat_div prod)
qed

lemma unat_raster_stride:
  assumes "0 < pw" and "0 < gx" and fits: "unat gx * unat gy + unat pw * unat gx < 2 ^ 32"
    and panel: "unat panel * unat pw < unat gy"
  shows "unat (raster_stride pw gx gy panel) = walk_stride (unat pw) (unat gx) (unat gy) (unat panel)"
proof -
  have pos: "0 < unat pw" using assms(1) by (rule unat_pos)
  have prod: "unat (gx * gy) = unat gx * unat gy" "unat (pw * gx) = unat pw * unat gx"
    using fits by (auto intro!: unat_times)
  have "unat panel \<le> unat panel * unat pw" using pos by simp
  then have "unat panel + 1 \<le> unat gy" using panel by linarith
  then have succ: "unat (panel + 1) = unat panel + 1"
    using unat_bound [of gy] by (subst unat_plus) simp_all
  have le: "unat panel * (unat pw * unat gx) \<le> unat gx * unat gy"
    using mult_le_mono1 [OF less_imp_le [OF panel], of "unat gx"] by (simp add: ac_simps)
  then have used: "unat (panel * (pw * gx)) = unat panel * (unat pw * unat gx)"
    using unat_times [of panel "pw * gx", unfolded prod(2)] fits by linarith
  have "unat (gx * gy - panel * (pw * gx)) = unat gx * unat gy - unat panel * (unat pw * unat gx)"
    using le by (subst unat_minus) (simp_all add: prod used)
  then show ?thesis
    by (simp add: raster_stride_def walk_stride_def word_less_nat_alt succ unat_raster_panels [OF assms(1-3)] unat_div)
qed

lemma unat_rasterization:
  assumes pw: "0 < pw" and fits: "unat gx * unat gy + unat pw * unat gx < 2 ^ 32" and b: "x < gx" "y < gy"
  shows "map_prod unat unat (rasterization2DColumn pw gx gy (x, y)) =
    walk_column (unat pw) (unat gx) (unat gy) (unat x, unat y)"
proof -
  let ?w = unat
  have lt: "?w x < ?w gx" "?w y < ?w gy" and pos: "0 < ?w pw" "0 < ?w gx" "0 < gx"
    using b pw by (auto simp: word_less_nat_alt)
  have "?w gx * ?w y + ?w gx \<le> ?w gx * ?w gy" using mult_le_mono2 [of "Suc (?w y)" "?w gy" "?w gx"] lt(2) by simp
  then have cell: "?w x + ?w gx * ?w y < ?w gx * ?w gy" using lt(1) by linarith
  then have row: "?w gx * ?w y < 2 ^ 32" using fits by linarith
  define base where "base = x + gx * y"
  have base: "?w base = ?w x + ?w gx * ?w y"
    unfolding base_def using cell fits row by (subst unat_plus) (simp_all add: unat_times)
  define panel where "panel = base div (pw * gx)"
  have width: "?w (pw * gx) = ?w pw * ?w gx" using fits by (intro unat_times) linarith
  have panel: "?w panel = ?w base div (?w pw * ?w gx)" by (simp add: panel_def unat_div width)
  define r where "r = base - panel * pw * gx"
  note wp = walk_panel [OF pos(1) lt base panel refl]
  have p1: "?w panel * ?w pw < 2 ^ 32" using wp(1) unat_bound [of gy] by simp
  have le: "?w panel * ?w pw * ?w gx \<le> ?w base" using wp(3) by (simp add: mult.assoc)
  have p2: "?w (panel * pw * gx) = ?w panel * ?w pw * ?w gx"
  proof (subst unat_times)
    have "?w (panel * pw) = ?w panel * ?w pw" using p1 by (rule unat_times)
    then show "?w (panel * pw) * ?w gx < 2 ^ 32" using le unat_bound [of base] by simp
    then show "?w (panel * pw) * ?w gx = ?w panel * ?w pw * ?w gx" using unat_times [OF p1] by simp
  qed
  have r: "?w r = ?w base - ?w panel * ?w pw * ?w gx" unfolding r_def using le p2 by (subst unat_minus) simp_all
  define stride where "stride = raster_stride pw gx gy panel"
  have stride: "?w stride = walk_stride (?w pw) (?w gx) (?w gy) (?w panel)"
    unfolding stride_def by (rule unat_raster_stride [OF pw pos(3) fits wp(1)])
  have smin: "?w stride = min (?w pw) (?w gy - ?w panel * ?w pw)"
    unfolding stride by (rule walk_stride_min [OF pos(1,2) wp(1)])
  then have "0 < ?w stride" using pos(1) wp(1) by simp
  then have quot: "?w r div ?w stride < ?w gx"
    using wp(2) by (simp add: r smin less_mult_imp_div_less)
  have "?w (gx - r div stride - 1) = ?w gx - ?w r div ?w stride - 1"
    using quot by (subst unat_minus; subst unat_minus) (simp_all add: unat_div)
  moreover have "?w (r mod stride + panel * pw) = ?w r mod ?w stride + ?w panel * ?w pw"
  proof -
    have "?w r mod ?w stride < ?w stride" using \<open>0 < ?w stride\<close> by simp
    then have "?w r mod ?w stride + ?w panel * ?w pw < ?w gy" using smin wp(1) by linarith
    then show ?thesis using unat_bound [of gy] p1 by (subst unat_plus) (simp_all add: unat_mod unat_times)
  qed
  ultimately show ?thesis
    unfolding rasterization2DColumn_def walk_column_def Let_def fst_conv snd_conv base_def [symmetric] panel_def [symmetric]
      r_def [symmetric] stride_def [symmetric] base [symmetric] panel [symmetric] r [symmetric] stride [symmetric]
    by (simp add: word_odd unat_div)
qed

text \<open>
  C22: The rasterization is a walk of the whole grid: for every panel width above zero, the device
  function sends the blocks of a grid to its coordinates one to one and onto, whether or not the
  width divides the number of rows, as long as the number of blocks plus one full panel is below \<open>2 ^ 32\<close>, so
  that its unsigned 32-bit arithmetic does not wrap.
\<close>

theorem rasterization_bijective:
  fixes pw gx gy :: "32 word"
  assumes "0 < pw" and "unat gx * unat gy + unat pw * unat gx < 2 ^ 32"
  shows "bij_betw (rasterization2DColumn pw gx gy) ({..<gx} \<times> {..<gy}) ({..<gx} \<times> {..<gy})"
proof -
  let ?f = "rasterization2DColumn pw gx gy" and ?G = "{..<gx} \<times> {..<gy}" and ?u = "map_prod unat unat"
  let ?w = "walk_column (unat pw) (unat gx) (unat gy)"
  have nat: "?u (?f b) = ?w (?u b)" if "b \<in> ?G" for b
    using unat_rasterization [OF assms] that by auto
  have grid: "b \<in> ?G \<longleftrightarrow> ?u b \<in> {..<unat gx} \<times> {..<unat gy}" for b
    by (cases b) (simp add: word_less_nat_alt)
  have bij: "bij_betw ?w ({..<unat gx} \<times> {..<unat gy}) ({..<unat gx} \<times> {..<unat gy})"
    using assms(1) by (intro walk_column_bijective) (rule unat_pos)
  have "?f ` ?G \<subseteq> ?G"
  proof (rule image_subsetI)
    fix b
    assume b: "b \<in> ?G"
    then have "?w (?u b) \<in> {..<unat gx} \<times> {..<unat gy}" using bij_betwE [OF bij] grid by blast
    then show "?f b \<in> ?G" using nat [OF b] grid by metis
  qed
  moreover have "inj_on ?f ?G"
  proof (rule inj_onI)
    fix b c
    assume bc: "b \<in> ?G" "c \<in> ?G" and eq: "?f b = ?f c"
    then have "?w (?u b) = ?w (?u c)" using nat by metis
    then have "?u b = ?u c" using bij bc grid by (metis bij_betw_imp_inj_on inj_onD)
    then show "b = c" by (cases b; cases c) (simp add: word_unat_eq_iff)
  qed
  ultimately show ?thesis by (simp add: bij_betw_def endo_inj_surj)
qed

theorem rasterization_bijective_witness:
  "bij_betw (rasterization2DColumn 4 5 10) ({..<5} \<times> {..<10}) ({..<5} \<times> {..<10})"
  using rasterization_bijective [of 4 5 10] by simp

text \<open>
  On a larger grid, which the hardware admits, the number of panels wraps to zero and two blocks are
  sent to the same coordinates.
\<close>

theorem rasterization_wraps:
  "rasterization2DColumn 4 65536 65535 (8, 0) = (0, 8) \<and> rasterization2DColumn 4 65536 65535 (0, 8) = (0, 8)"
  by code_simp

section \<open>The split into warp tiles\<close>

lemma warp_step_Some:
  assumes "warp_step score tile f warp = Inr (Some w)"
  obtains i where "i < length tile" and "warp ! i * f dvd tile ! i" and "w = warp[i := warp ! i * f]"
proof -
  let ?fits = "filter (\<lambda>i. tile ! i mod (warp ! i * f) = 0) [0..<length tile]"
  obtain sm where sm: "rmap (\<lambda>i. rbind (score (warp[i := warp ! i * f])) (\<lambda>s. Inr (s, i))) ?fits = Inr sm"
    and w: "(case sort sm of [] \<Rightarrow> None | (_, i) # _ \<Rightarrow> Some (warp[i := warp ! i * f])) = Some w"
    using assms by (auto simp: warp_step_def rbind_Inr_iff)
  obtain s i rest where "sort sm = (s, i) # rest" and w: "w = warp[i := warp ! i * f]"
    using w by (auto split: list.splits)
  then have "(s, i) \<in> set sm" by (metis list.set_intros(1) set_sort)
  then have "i \<in> set ?fits" using rmap_Inr_set [OF sm] by (auto simp: rbind_Inr_iff)
  then show thesis using that w by (auto simp: dvd_eq_mod_eq_0)
qed

lemma warp_loop_Some:
  assumes "warp_loop score tile fs warp = Inr (Some w)" and "length warp = length tile"
  shows "length w = length tile \<and> prod_list w = prod_list warp * prod_list fs \<and> list_all2 (dvd) warp w \<and>
    (list_all2 (dvd) warp tile \<longrightarrow> list_all2 (dvd) w tile)"
  using assms
proof (induction fs arbitrary: warp)
  case Nil
  then show ?case by (simp add: list.rel_refl)
next
  case (Cons f fs)
  obtain w1 where step: "warp_step score tile f warp = Inr (Some w1)" and rest: "warp_loop score tile fs w1 = Inr (Some w)"
    using Cons.prems(1) by (auto elim!: rbind_InrE split: option.splits)
  obtain i where i: "i < length tile" "warp ! i * f dvd tile ! i" "w1 = warp[i := warp ! i * f]"
    using step by (rule warp_step_Some)
  have len: "length w1 = length tile" using i(3) Cons.prems(2) by simp
  have "prod_list w1 = prod_list warp * f" using prod_list_update i Cons.prems(2) by simp
  moreover have "list_all2 (dvd) warp w1"
    using i Cons.prems(2) by (auto simp: list_all2_conv_all_nth nth_list_update)
  moreover have "list_all2 (dvd) w1 tile" if "list_all2 (dvd) warp tile"
    using that i by (auto simp: list_all2_conv_all_nth nth_list_update)
  ultimately show ?case using Cons.IH [OF rest len]
    by (auto simp: ac_simps elim: list_all2_trans [of "(dvd)" "(dvd)" "(dvd)", rotated] intro: dvd_trans)
qed

lemma factorize_prod: "0 < n \<Longrightarrow> factorize n = Some fs \<Longrightarrow> prod_list fs = n"
  using factorize_loop_correct [of n 2 "[]"] by (auto simp: factorize_def no_divisor_below_def)

lemma prod_list_quotients:
  "list_all2 (dvd) us ts \<Longrightarrow> prod_list us * prod_list (map2 (div) ts us) = prod_list (ts :: nat list)"
  by (induction us ts rule: list_all2_induct) (auto simp: ac_simps dvd_div_mult_self)

text \<open>
  C37: A block is split exactly among its warps.  If the tile is a whole number of intrinsic tiles
  along every axis, and the warps of the block divide the number of intrinsic tiles, the warp tile
  that is found divides the tile along every axis, is a whole number of intrinsic tiles, and there
  are as many warp tiles in the tile as warps in the block.
\<close>

theorem warp_tiles_cover:
  assumes w: "warp_tile a rv tile ax_m ax_n bsize = Inr (Some w)"
    and unit: "unit = wmma_tile tile ax_m ax_n (last (ta_intrin_shapes a))" "list_all2 (dvd) unit tile"
    and warps: "warps = bsize div ta_warp_size a" "warps dvd prod_list (map2 (div) tile unit)"
    and tile: "0 < prod_list tile"
  shows "list_all2 (dvd) w tile \<and> list_all2 (dvd) unit w \<and> prod_list w * warps = prod_list tile"
proof -
  let ?n = "prod_list (map2 (div) tile unit)"
  obtain fs where fs: "factorize (?n div warps) = Some fs"
    and loop: "warp_loop (warp_score a rv tile) tile (rev fs) unit = Inr (Some w)"
    using w unit(1) warps(1) by (auto simp: warp_tile_def Let_def split: if_splits option.splits)
  have len: "length unit = length tile" using unit(1) by (simp add: wmma_tile_def)
  have all: "prod_list unit * ?n = prod_list tile" using unit(2) by (rule prod_list_quotients)
  then have "0 < ?n" using tile by (metis mult_0_right neq0_conv)
  then have "0 < ?n div warps" using warps(2) by (metis dvd_div_eq_0_iff neq0_conv)
  then have "prod_list (rev fs) = ?n div warps" using factorize_prod [OF _ fs] by simp
  moreover have "?n div warps * warps = ?n" using warps(2) by simp
  ultimately have "prod_list w * warps = prod_list unit * ?n"
    using warp_loop_Some [OF loop len] by (simp add: mult.assoc)
  then show ?thesis using warp_loop_Some [OF loop len] unit(2) all by simp
qed

text \<open>A tile of 64 by 64 with four warps and intrinsics of 16 by 16.\<close>

definition demo_tc_arch :: tc_arch where
  "demo_tc_arch = \<lparr>ta_capability = ''sm_80'', ta_warp_size = 32, ta_intrin_shapes = [(16, 16)], ta_transaction = 32,
     ta_max_smem = 163840, ta_smem_cap = 49152, ta_bandwidth = 750, ta_l2_bytes = 1000, ta_cores = 108\<rparr>"

definition demo_tc_view :: reduce_view where
  "demo_tc_view = \<lparr>rv_reduces = True, rv_raxis = [(''k'', 32)], rv_ndim = 2, rv_inputs = [([128, 32], 16), ([32, 128], 16)],
     rv_propagate = (\<lambda>tile rs. [[tile ! 0, 32], [32, tile ! 1]])\<rparr>"

theorem warp_tiles_cover_witness:
  "let w = [32, 32] in warp_tile demo_tc_arch demo_tc_view [64, 64] 0 1 128 = Inr (Some w) \<and>
     list_all2 (dvd) w [64, 64] \<and> list_all2 (dvd) [16, 16] w \<and> prod_list w * 4 = 64 * 64"
proof -
  have w: "warp_tile demo_tc_arch demo_tc_view [64, 64] 0 1 128 = Inr (Some [32, 32])" by code_simp
  have u: "[16, 16] = wmma_tile [64, 64] 0 1 (last (ta_intrin_shapes demo_tc_arch))" by code_simp
  have d: "list_all2 (dvd) [16, 16] [64, 64 :: nat]" by simp
  have n: "4 = 128 div ta_warp_size demo_tc_arch" by code_simp
  show ?thesis using w warp_tiles_cover [OF w u d n] by simp
qed

section \<open>Tests that do not test\<close>

text \<open>
  Capabilities begin with \<^verbatim>\<open>sm_\<close>, and no such string is below \<^verbatim>\<open>80\<close>: the condition on the architecture
  never holds.  A depth of the block reduction makes the expansion of any node that reduces raise.
\<close>

theorem capability_test_vacuous: "\<not> ''sm_'' @ v < ''80''"
  by (simp add: less_char_def)

theorem block_reduction_raises:
  assumes "ts_depth ts = Some d" and "tc_expand_reduce_axis p a ts cviews views td = Inr td'"
    and "n \<in> set (p_ordered p)" and "rv_raxis (views n) \<noteq> []"
  shows "td_rstep_map td' = []"
  using assms by (auto simp: tc_expand_reduce_axis_def Let_def list_ex_iff elim!: rbind_InrE split: if_splits)

end
