(* ===== verification/Anneal.thy ===== *)
theory Anneal
  imports TileFactors AscendPolicy
begin

text \<open>
  The search for tiles by simulated annealing (\<^verbatim>\<open>carver/anneal/policy.py\<close> and \<^verbatim>\<open>customtemplate.py\<close>):
  constraints and values as polynomials and functions of the tile, the random start, the neighbours
  and their acceptance, the final selection, and the templates that set up a search.

  Tiles are searched in units of 16 elements.  The module \<^verbatim>\<open>random\<close> is a sequence of numbers, the argument
  \<open>draws\<close>, with the position of the next one in the state: \<^verbatim>\<open>randint(lo, hi)\<close> is \<open>lo + d mod (hi - lo + 1)\<close> and
  \<^verbatim>\<open>random()\<close> is \<open>d mod 2 ^ 53 / 2 ^ 53\<close>, so that every sequence of outcomes is one of some \<open>draws\<close>.  Floating
  point numbers are exact rational numbers, exponents of polynomials natural numbers; the
  exponential is the argument \<open>expf\<close>.
\<close>

section \<open>Constraints\<close>

record config =
  cf_kwargs :: "nat list"
  cf_value :: rat

record poly =
  pc_polynomial :: "nat list"
  pc_other :: "rat list"

definition poly_results :: "poly \<Rightarrow> nat list \<Rightarrow> rat res" where
  "poly_results p tile =
     (if length tile \<noteq> length (pc_polynomial p) then Inl ValueError
      else Inr (prod_list (map2 (\<lambda>x y. of_nat ((x * 16) ^ y)) tile (pc_polynomial p)) * prod_list (pc_other p)))"

record func_constraint =
  fc_using :: "nat list"
  fc_other :: "rat list"
  fc_func :: "nat list \<Rightarrow> rat res"

definition func_results :: "func_constraint \<Rightarrow> nat list \<Rightarrow> rat res" where
  "func_results f tile =
     (if fc_using f = [] \<or> length tile < Max (set (fc_using f)) then Inl ValueError
      else rbind (fc_func f (map (\<lambda>u. if u > 0 then tile ! (u - 1) * 16 else 0) (fc_using f)))
        (\<lambda>v. Inr (v * prod_list (fc_other f))))"

record constraints =
  cs_poly_add :: "poly list"
  cs_poly_mul :: "poly list"
  cs_func_add :: "func_constraint list"
  cs_func_mul :: "func_constraint list"

text \<open>The functions listed as factors are added, like those listed as terms.\<close>

definition calc_results :: "constraints \<Rightarrow> nat list \<Rightarrow> rat res" where
  "calc_results cs tile =
     rbind (rmap (\<lambda>p. poly_results p tile) (cs_poly_add cs)) (\<lambda>ps.
     rbind (rmap (\<lambda>f. func_results f tile) (cs_func_add cs)) (\<lambda>fs.
     rbind (rmap (\<lambda>p. poly_results p tile) (cs_poly_mul cs)) (\<lambda>ms.
     rbind (rmap (\<lambda>f. func_results f tile) (cs_func_mul cs)) (\<lambda>gs.
       Inr ((sum_list ps + sum_list fs) * prod_list ms + sum_list gs)))))"

record custom_template =
  ct_low_tile :: "nat list"
  ct_tile :: "nat list"
  ct_only_factor :: "bool list"
  ct_mem_caps :: "constraints list"

record anneal_param =
  ap_expand :: nat
  ap_onestep :: rat
  ap_topk :: nat
  ap_number :: nat
  ap_steps :: nat
  ap_temperature :: rat
  ap_alpha :: rat
  ap_mem_multiply :: rat

definition default_param :: anneal_param where
  "default_param = \<lparr>ap_expand = 2, ap_onestep = 7 / 10, ap_topk = 10, ap_number = 100, ap_steps = 60,
     ap_temperature = 100, ap_alpha = 97 / 100, ap_mem_multiply = 7 / 10\<rparr>"

record carver =
  ac_policy :: "constraints list"
  ac_kernel :: custom_template
  ac_caps :: "rat list"
  ac_param :: anneal_param

text \<open>The first constraint that is broken decides; lists of different lengths raise where they end.\<close>

fun caps_hold :: "rat \<Rightarrow> nat list \<Rightarrow> constraints list \<Rightarrow> rat list \<Rightarrow> bool res" where
  "caps_hold mul cfg [] [] = Inr True"
| "caps_hold mul cfg (c # cs) (cap # caps) =
     rbind (calc_results c cfg) (\<lambda>v. if cap < v * mul then Inr False else caps_hold mul cfg cs caps)"
| "caps_hold mul cfg _ _ = Inl ValueError"

definition check_valid :: "carver \<Rightarrow> nat list \<Rightarrow> bool res" where
  "check_valid c cfg = caps_hold (ap_mem_multiply (ac_param c)) cfg (ct_mem_caps (ac_kernel c)) (ac_caps c)"

definition calc_value :: "carver \<Rightarrow> nat list \<Rightarrow> rat res" where
  "calc_value c cfg = rbind (rmap (\<lambda>p. calc_results p cfg) (ac_policy c)) (\<lambda>vs. Inr (sum_list vs))"

definition make_config :: "carver \<Rightarrow> nat list \<Rightarrow> config res" where
  "make_config c cfg = rbind (calc_value c cfg) (\<lambda>v. Inr \<lparr>cf_kwargs = cfg, cf_value = v\<rparr>)"

section \<open>The space of tiles\<close>

text \<open>The bounds of one axis and its factors: positions in the list of factors, or sizes.\<close>

record axis =
  ax_lo :: nat
  ax_hi :: nat
  ax_factors :: "nat list"
  ax_only :: bool

definition axis_of :: "nat \<times> nat \<times> bool \<Rightarrow> axis res" where
  "axis_of t =
     (case t of (x, y, only) \<Rightarrow>
        if only then
          (if y mod 16 \<noteq> 0 then Inl ValueError
           else
             let factors = dropWhile (\<lambda>f. f < max 1 (x div 16)) (get_all_factors (y div 16)) in
             if factors = [] then Inl IndexError
             else Inr \<lparr>ax_lo = 1, ax_hi = length factors, ax_factors = factors, ax_only = True\<rparr>)
        else Inr \<lparr>ax_lo = max 1 (x div 16), ax_hi = max 1 (y div 16), ax_factors = [1], ax_only = False\<rparr>)"

definition axes_of :: "custom_template \<Rightarrow> axis list res" where
  "axes_of k =
     rbind (rmap axis_of (zip (ct_low_tile k) (zip (ct_tile k) (ct_only_factor k)))) (\<lambda>axes.
       if length (ct_low_tile k) = length (ct_tile k) \<and> length (ct_tile k) = length (ct_only_factor k)
       then Inr axes else Inl ValueError)"

text \<open>The size that a position of the axis stands for.\<close>

definition size_at :: "axis \<Rightarrow> nat \<Rightarrow> nat" where
  "size_at a v = (if ax_only a then ax_factors a ! (v - 1) else v)"

section \<open>Draws\<close>

type_synonym draws = "nat \<Rightarrow> nat"

definition draw_int :: "draws \<Rightarrow> nat \<Rightarrow> nat \<Rightarrow> nat \<Rightarrow> nat res" where
  "draw_int ds p lo hi = (if hi < lo then Inl ValueError else Inr (lo + ds p mod (hi - lo + 1)))"

definition draw_unit :: "draws \<Rightarrow> nat \<Rightarrow> rat" where
  "draw_unit ds p = of_nat (ds p mod 2 ^ 53) / 2 ^ 53"

section \<open>Neighbours\<close>

definition clamp :: "nat \<Rightarrow> nat \<Rightarrow> int \<Rightarrow> nat" where
  "clamp lo hi v = nat (max (int lo) (min (int hi) v))"

definition bisect_left :: "nat list \<Rightarrow> nat \<Rightarrow> nat" where
  "bisect_left xs x = length (takeWhile (\<lambda>y. y < x) xs)"

definition get_neighbour :: "axis list \<Rightarrow> nat list \<Rightarrow> nat \<Rightarrow> int \<Rightarrow> nat list" where
  "get_neighbour axes cfg x step =
     (let a = axes ! x;
          pos = (if ax_only a then bisect_left (ax_factors a) (cfg ! x) + 1 else cfg ! x) in
      cfg[x := size_at a (clamp (ax_lo a) (ax_hi a) (int pos + step))])"

text \<open>One try, from the position \<open>p\<close> of the draws; the position after it comes with the result.\<close>

definition neighbor_try :: "carver \<Rightarrow> axis list \<Rightarrow> rat \<Rightarrow> draws \<Rightarrow> nat list \<Rightarrow> nat \<Rightarrow> (nat list \<times> nat) res" where
  "neighbor_try c axes temperature ds cfg p =
     (if axes = [] then Inl ValueError
      else
        let x = ds p mod length axes; a = axes ! x in
        if draw_unit ds (p + 1) < ap_onestep (ac_param c)
        then
          let step = (if temperature > 1 / 2 then max 1 (ax_hi a div 16) else 1);
              step_p = (if draw_unit ds (p + 2) < 1 / 2 then int step else - int step) in
          Inr (get_neighbour axes cfg x step_p, p + 3)
        else rbind (draw_int ds (p + 2) (ax_lo a) (ax_hi a)) (\<lambda>v. Inr (cfg[x := size_at a v], p + 3)))"

fun neighbor :: "nat \<Rightarrow> carver \<Rightarrow> axis list \<Rightarrow> rat \<Rightarrow> draws \<Rightarrow> nat list \<Rightarrow> nat \<Rightarrow> (nat list \<times> nat) res" where
  "neighbor 0 c axes temperature ds cfg p = Inl ValueError"
| "neighbor (Suc tries) c axes temperature ds cfg p =
     rbind (neighbor_try c axes temperature ds cfg p) (\<lambda>(new_cfg, p').
     rbind (check_valid c new_cfg) (\<lambda>ok.
       if ok then Inr (new_cfg, p') else neighbor tries c axes temperature ds cfg p'))"

definition accept :: "(rat \<Rightarrow> rat) \<Rightarrow> draws \<Rightarrow> rat \<Rightarrow> rat \<Rightarrow> rat \<Rightarrow> nat \<Rightarrow> (bool \<times> nat) res" where
  "accept expf ds new_value old_value temperature p =
     (if new_value < old_value then Inr (True, p)
      else if temperature = 0 then Inl ZeroDivisionError
      else Inr (draw_unit ds p < expf (- (new_value - old_value) / temperature), p + 1))"

section \<open>The search\<close>

text \<open>A random tile, axis by axis.\<close>

fun draw_tile :: "draws \<Rightarrow> axis list \<Rightarrow> nat \<Rightarrow> (nat list \<times> nat) res" where
  "draw_tile ds [] p = Inr ([], p)"
| "draw_tile ds (a # axes) p =
     rbind (draw_int ds p (ax_lo a) (ax_hi a)) (\<lambda>v.
     rbind (draw_tile ds axes (p + 1)) (\<lambda>(cfg, p'). Inr (size_at a v # cfg, p')))"

fun start_configs :: "nat \<Rightarrow> nat \<Rightarrow> carver \<Rightarrow> axis list \<Rightarrow> draws \<Rightarrow> nat \<Rightarrow> (config list \<times> nat) res" where
  "start_configs 0 wanted c axes ds p = Inr ([], p)"
| "start_configs (Suc tries) wanted c axes ds p =
     rbind (draw_tile ds axes p) (\<lambda>(cfg, p1).
     rbind (check_valid c cfg) (\<lambda>ok.
       if \<not> ok then start_configs tries wanted c axes ds p1
       else rbind (make_config c cfg) (\<lambda>cf.
         if wanted = 1 then Inr ([cf], p1)
         else rbind (start_configs tries (wanted - 1) c axes ds p1) (\<lambda>(cfs, p2). Inr (cf # cfs, p2)))))"

definition anneal_one ::
  "(rat \<Rightarrow> rat) \<Rightarrow> carver \<Rightarrow> axis list \<Rightarrow> draws \<Rightarrow> rat \<Rightarrow> config \<Rightarrow> nat \<Rightarrow> (config \<times> nat) res" where
  "anneal_one expf c axes ds temperature cf p =
     rbind (neighbor 15 c axes temperature ds (cf_kwargs cf) p) (\<lambda>(new_cfg, p1).
     rbind (make_config c new_cfg) (\<lambda>new.
     rbind (accept expf ds (cf_value new) (cf_value cf) temperature p1) (\<lambda>(ok, p2).
       Inr (if ok then new else cf, p2))))"

fun anneal_all ::
  "(rat \<Rightarrow> rat) \<Rightarrow> carver \<Rightarrow> axis list \<Rightarrow> draws \<Rightarrow> rat \<Rightarrow> config list \<Rightarrow> nat \<Rightarrow> (config list \<times> nat) res" where
  "anneal_all expf c axes ds temperature [] p = Inr ([], p)"
| "anneal_all expf c axes ds temperature (cf # cfs) p =
     rbind (anneal_one expf c axes ds temperature cf p) (\<lambda>(cf', p1).
     rbind (anneal_all expf c axes ds temperature cfs p1) (\<lambda>(cfs', p2). Inr (cf' # cfs', p2)))"

fun anneal_steps ::
  "nat \<Rightarrow> (rat \<Rightarrow> rat) \<Rightarrow> carver \<Rightarrow> axis list \<Rightarrow> draws \<Rightarrow> rat \<Rightarrow> config list \<Rightarrow> nat \<Rightarrow> (config list \<times> nat) res" where
  "anneal_steps 0 expf c axes ds temperature cfs p = Inr (cfs, p)"
| "anneal_steps (Suc n) expf c axes ds temperature cfs p =
     rbind (anneal_all expf c axes ds temperature cfs p) (\<lambda>(cfs', p').
       anneal_steps n expf c axes ds (temperature * ap_alpha (ac_param c)) cfs' p')"

text \<open>The first configuration of each tile.\<close>

fun unique_from :: "nat list list \<Rightarrow> config list \<Rightarrow> config list" where
  "unique_from seen [] = []"
| "unique_from seen (cf # cfs) =
     (if cf_kwargs cf \<in> set seen then unique_from seen cfs else cf # unique_from (cf_kwargs cf # seen) cfs)"

definition get_unique_configs :: "config list \<Rightarrow> config list" where
  "get_unique_configs cfs = unique_from [] cfs"

definition if_valid :: "carver \<Rightarrow> nat list \<Rightarrow> config list res" where
  "if_valid c cfg = rbind (check_valid c cfg) (\<lambda>ok. if ok then rbind (make_config c cfg) (\<lambda>cf. Inr [cf]) else Inr [])"

definition neighbor_configs :: "carver \<Rightarrow> axis list \<Rightarrow> config list \<Rightarrow> config list res" where
  "neighbor_configs c axes cfs =
     rbind (rmap (\<lambda>cf.
         rbind (rmap (\<lambda>(x, p).
             rbind (if_valid c (get_neighbour axes (cf_kwargs cf) x (int p + 1))) (\<lambda>up.
             rbind (if_valid c (get_neighbour axes (cf_kwargs cf) x (- (int p + 1)))) (\<lambda>down. Inr (up @ down))))
           (List.product [0..<length axes] [0..<ap_expand (ac_param c)]))
           (\<lambda>near. Inr (cf # concat near))) cfs)
       (\<lambda>all. Inr (get_unique_configs (concat all)))"

definition scale_config :: "nat list \<Rightarrow> config \<Rightarrow> config" where
  "scale_config tile cf = cf\<lparr>cf_kwargs := map2 (\<lambda>t v. min t (v * 16)) tile (cf_kwargs cf)\<rparr>"

text \<open>The candidates before the final cut, in the order of their values.\<close>

definition ranked_configs :: "(rat \<Rightarrow> rat) \<Rightarrow> draws \<Rightarrow> carver \<Rightarrow> config list res" where
  "ranked_configs expf ds c =
     rbind (axes_of (ac_kernel c)) (\<lambda>axes.
     rbind (start_configs (ap_number (ac_param c) * 4) (ap_number (ac_param c)) c axes ds 0) (\<lambda>(cfs, p).
     rbind (anneal_steps (ap_steps (ac_param c)) expf c axes ds (ap_temperature (ac_param c)) cfs p) (\<lambda>(cfs', _).
     rbind (neighbor_configs c axes (get_unique_configs (sort_key cf_value cfs'))) (\<lambda>near.
       Inr (sort_key cf_value near)))))"

definition get_configs_from_anneal :: "(rat \<Rightarrow> rat) \<Rightarrow> draws \<Rightarrow> carver \<Rightarrow> config list res" where
  "get_configs_from_anneal expf ds c =
     rbind (ranked_configs expf ds c) (\<lambda>cfs.
       Inr (map (scale_config (ct_tile (ac_kernel c))) (take (ap_topk (ac_param c)) cfs)))"

section \<open>Templates\<close>

definition nth_of :: "'a list \<Rightarrow> nat \<Rightarrow> 'a res" where
  "nth_of xs i = (if i < length xs then Inr (xs ! i) else Inl IndexError)"

definition memory_traffic_matmul :: "nat list \<Rightarrow> int list \<Rightarrow> int res" where
  "memory_traffic_matmul idx nbytes =
     rbind (rmap (nth_of idx) [0, 1, 2]) (\<lambda>i.
     rbind (rmap (nth_of nbytes) [0, 1, 2]) (\<lambda>b.
       Inr (max 32 (int (i ! 0 * i ! 1) * b ! 0) + max 32 (int (i ! 0 * i ! 2) * b ! 1) + max 32 (int (i ! 1 * i ! 2) * b ! 2))))"

definition memory_traffic_vector :: "nat list \<Rightarrow> int list \<Rightarrow> int res" where
  "memory_traffic_vector idx nbytes =
     rbind (rmap (nth_of idx) [0, 1]) (\<lambda>i. rbind (nth_of nbytes 0) (\<lambda>b. Inr (max 32 (int (i ! 0 * i ! 1) * b))))"

definition tiles_along :: "nat list \<Rightarrow> nat list \<Rightarrow> nat list res" where
  "tiles_along idx init_idx =
     rbind (rmap (\<lambda>(x, y). if x = 0 then Inl ZeroDivisionError else Inr (cdiv y x)) (zip idx init_idx)) (\<lambda>w.
       if length idx = length init_idx then Inr w else Inl ValueError)"

definition waves :: "nat \<Rightarrow> nat \<Rightarrow> nat res" where
  "waves num_grids cores = (if cores = 0 then Inl ZeroDivisionError else Inr (cdiv num_grids cores))"

text \<open>The number of tiles of a matrix product counts the third axis twice.\<close>

definition num_waves_matmul :: "nat list \<Rightarrow> nat list \<Rightarrow> nat \<Rightarrow> nat res" where
  "num_waves_matmul idx init_idx cores =
     rbind (tiles_along idx init_idx) (\<lambda>w.
     rbind (rmap (nth_of w) [0, 2, 1, 2]) (\<lambda>v. waves (prod_list v) cores))"

definition num_waves_vector :: "nat list \<Rightarrow> nat list \<Rightarrow> nat \<Rightarrow> nat res" where
  "num_waves_vector idx init_idx cores = rbind (tiles_along idx init_idx) (\<lambda>w. waves (prod_list w) cores)"

definition policy_matmul :: "int list \<Rightarrow> nat list \<Rightarrow> nat \<Rightarrow> nat list \<Rightarrow> rat res" where
  "policy_matmul nbytes init_idx cores idx =
     rbind (memory_traffic_matmul idx nbytes) (\<lambda>t. rbind (num_waves_matmul idx init_idx cores) (\<lambda>n. Inr (of_int (t * int n))))"

definition policy_vector :: "int list \<Rightarrow> nat list \<Rightarrow> nat \<Rightarrow> nat list \<Rightarrow> rat res" where
  "policy_vector nbytes init_idx cores idx =
     rbind (memory_traffic_vector idx nbytes) (\<lambda>t. rbind (num_waves_vector idx init_idx cores) (\<lambda>n. Inr (of_int (t * int n))))"

text \<open>
  Policies on selected axes: an entry of \<^verbatim>\<open>other_idx\<close> that is positive is the size itself, each other entry
  takes the next axis of \<^verbatim>\<open>use_idx\<close>.  The number of cores is the one passed, or the chip's when it is negative.
\<close>

definition get_cores :: "nat \<Rightarrow> int \<Rightarrow> nat" where
  "get_cores device num_ai_cores = (if num_ai_cores < 0 then device else nat num_ai_cores)"

fun get_real_idx :: "nat list \<Rightarrow> nat list \<Rightarrow> int list \<Rightarrow> nat list res" where
  "get_real_idx idx use [] = Inr []"
| "get_real_idx idx use (z # zs) =
     (if z \<le> 0
      then rbind (nth_of use 0) (\<lambda>u. rbind (nth_of idx u) (\<lambda>x.
             rbind (get_real_idx idx (tl use) zs) (\<lambda>xs. Inr (x # xs))))
      else rbind (get_real_idx idx use zs) (\<lambda>xs. Inr (nat z # xs)))"

definition policy_matmul_custom_idx ::
  "ascend_arch \<Rightarrow> nat list \<Rightarrow> int list \<Rightarrow> int list \<Rightarrow> nat list \<Rightarrow> int \<Rightarrow> nat list \<Rightarrow> rat res" where
  "policy_matmul_custom_idx device use other nbytes init_idx cores idx =
     rbind (get_real_idx idx use other)
       (policy_matmul nbytes init_idx (get_cores (ar_cube_cores device) cores))"

definition policy_vector_custom_idx ::
  "ascend_arch \<Rightarrow> nat list \<Rightarrow> int list \<Rightarrow> int list \<Rightarrow> nat list \<Rightarrow> int \<Rightarrow> nat list \<Rightarrow> rat res" where
  "policy_vector_custom_idx device use other nbytes init_idx cores idx =
     rbind (get_real_idx idx use other)
       (policy_vector nbytes init_idx (get_cores (ar_vector_cores device) cores))"

definition poly_sum :: "poly list \<Rightarrow> constraints" where
  "poly_sum ps = \<lparr>cs_poly_add = ps, cs_poly_mul = [], cs_func_add = [], cs_func_mul = []\<rparr>"

definition func_sum :: "func_constraint list \<Rightarrow> constraints" where
  "func_sum fs = \<lparr>cs_poly_add = [], cs_poly_mul = [], cs_func_add = fs, cs_func_mul = []\<rparr>"

abbreviation pc :: "nat list \<Rightarrow> int list \<Rightarrow> poly" where
  "pc es others \<equiv> \<lparr>pc_polynomial = es, pc_other = map of_int others\<rparr>"

datatype template = Elementwise | Matmul | FlashAttention | Custom

text \<open>The constraints on memory of each template, with the bytes of the element and accumulator types.\<close>

fun template_caps :: "template \<Rightarrow> nat \<Rightarrow> int \<Rightarrow> int \<Rightarrow> constraints list" where
  "template_caps Elementwise n d a = [poly_sum [pc (replicate n 1) [2, a]]]"
| "template_caps Matmul n d a = [poly_sum [pc [1, 0, 1] [d], pc [0, 1, 1] [d]]]"
| "template_caps FlashAttention n d a =
     [poly_sum [pc [1, 0, 1] [d], pc [0, 1, 1] [d]],
      poly_sum [pc [1, 1, 0] [a], pc [0, 1, 1] [d]],
      (poly_sum [pc [1, 0, 1] [d + 2 * a], pc [1, 1, 0] [d + a]])
        \<lparr>cs_poly_mul := [\<lparr>pc_polynomial = [0, 0, 0], pc_other = [1 / 2]\<rparr>]\<rparr>]"
| "template_caps Custom n d a = []"

fun template_policy :: "template \<Rightarrow> nat list \<Rightarrow> int \<Rightarrow> int \<Rightarrow> ascend_arch \<Rightarrow> constraints list" where
  "template_policy Elementwise shape d a arch =
     [func_sum [\<lparr>fc_using = map Suc [0..<length shape], fc_other = [],
        fc_func = policy_vector (replicate (length shape) d) shape (ar_vector_cores arch)\<rparr>]]"
| "template_policy Matmul shape d a arch =
     [func_sum [\<lparr>fc_using = [1, 2, 3], fc_other = [], fc_func = policy_matmul [d, d, a] shape (ar_cube_cores arch)\<rparr>]]"
| "template_policy FlashAttention shape d a arch =
     [func_sum [\<lparr>fc_using = [1, 2, 3], fc_other = [], fc_func = policy_matmul [d, d, a] shape (ar_cube_cores arch)\<rparr>,
        \<lparr>fc_using = [1, 3, 2], fc_other = [],
         fc_func = policy_matmul [d, d, a] [shape ! 0, shape ! 2, shape ! 1] (ar_cube_cores arch)\<rparr>,
        \<lparr>fc_using = [1, 3], fc_other = [512],
         fc_func = policy_vector [a, a] [shape ! 0, shape ! 2] (ar_vector_cores arch)\<rparr>]]"
| "template_policy Custom shape d a arch = []"

fun template_mem :: "template \<Rightarrow> string list res" where
  "template_mem Custom = Inl ValueError"
| "template_mem Elementwise = Inr [''UB'']"
| "template_mem Matmul = Inr [''L1'']"
| "template_mem FlashAttention = Inr [''L1'', ''L1'', ''UB'']"

definition mem_cap :: "ascend_arch \<Rightarrow> (string \<times> nat) list" where
  "mem_cap a = [(''UB'', ar_ub a), (''L1'', ar_l1 a), (''L0A'', ar_l0a a), (''L0B'', ar_l0b a), (''L0C'', ar_l0c a), (''L2'', ar_l2 a)]"

definition get_mem_caps :: "ascend_arch \<Rightarrow> string list \<Rightarrow> rat list res" where
  "get_mem_caps a caps =
     rmap (\<lambda>cap. case map_of (mem_cap a) cap of None \<Rightarrow> Inl ValueError | Some n \<Rightarrow> Inr (of_nat n)) caps"

definition byte_per_numel :: "(string \<times> int) list" where
  "byte_per_numel =
     [(''float32'', 4), (''float64'', 8), (''float16'', 2), (''bfloat16'', 2), (''int32'', 4), (''int64'', 8),
      (''int16'', 2), (''int8'', 1), (''uint8'', 1), (''bool'', 1), (''complex32'', 4), (''complex64'', 8),
      (''complex128'', 16)]"

definition get_byte_per_numel :: "string \<Rightarrow> int res" where
  "get_byte_per_numel t =
     (if t = ''None'' then Inr (- 1)
      else case map_of byte_per_numel t of None \<Rightarrow> Inl KeyError | Some n \<Rightarrow> Inr n)"

text \<open>The defaults of a template; the second axis of the attention is bounded twice, the first not at all.\<close>

definition default_low_tile :: "template \<Rightarrow> nat list \<Rightarrow> nat list res" where
  "default_low_tile t shape =
     (if t = FlashAttention then rbind (nth_of shape 2) (\<lambda>s. Inr ((replicate (length shape) 16)[2 := s]))
      else Inr (replicate (length shape) 16))"

definition default_tile :: "template \<Rightarrow> nat list \<Rightarrow> nat list res" where
  "default_tile t shape =
     (if t = FlashAttention
      then rbind (nth_of shape 0) (\<lambda>s0. rbind (nth_of shape 1) (\<lambda>s1.
             Inr ((shape[1 := min s0 256])[1 := min s1 256])))
      else Inr shape)"

definition default_only_factor :: "template \<Rightarrow> nat list \<Rightarrow> bool list res" where
  "default_only_factor t shape =
     (if t = FlashAttention
      then (if shape = [] then Inl IndexError else Inr ((replicate (length shape) True)[0 := False]))
      else Inr (replicate (length shape) True))"

text \<open>
  \<^verbatim>\<open>AnnealTemplate\<close> and the search it sets up: each default applies where the caller passes nothing; the
  policy and the kernel of the caller are those of the custom template.
\<close>

record anneal_template =
  at_shape :: "nat list"
  at_low_tile :: "nat list"
  at_tile :: "nat list"
  at_only_factor :: "bool list"
  at_param :: anneal_param
  at_use :: template
  at_dtype :: string
  at_accum_dtype :: string
  at_kernel :: custom_template
  at_policy :: "constraints list"
  at_mem_caps :: "string list"
  at_arch :: ascend_arch

definition template_map :: "(string \<times> template) list" where
  "template_map = [(''Elementwise'', Elementwise), (''Matmul'', Matmul), (''FlashAttention'', FlashAttention), (''Custom'', Custom)]"

definition given_or :: "'a option \<Rightarrow> 'a res \<Rightarrow> 'a res" where
  "given_or given r = (case given of None \<Rightarrow> r | Some v \<Rightarrow> Inr v)"

record template_args =
  tp_low_tile :: "nat list option"
  tp_tile :: "nat list option"
  tp_only_factor :: "bool list option"
  tp_param :: "anneal_param option"
  tp_use :: string
  tp_dtype :: string
  tp_accum_dtype :: string
  tp_kernel :: custom_template
  tp_policy :: "constraints list"
  tp_mem_caps :: "string list option"

definition anneal_template_init :: "nat list \<Rightarrow> template_args \<Rightarrow> ascend_arch \<Rightarrow> anneal_template res" where
  "anneal_template_init shape args arch =
     (case map_of template_map (tp_use args) of
        None \<Rightarrow> Inl ValueError
      | Some t \<Rightarrow>
          rbind (given_or (tp_mem_caps args) (template_mem t)) (\<lambda>mem.
          rbind (given_or (tp_low_tile args) (default_low_tile t shape)) (\<lambda>low.
          rbind (given_or (tp_tile args) (default_tile t shape)) (\<lambda>tile.
          rbind (given_or (tp_only_factor args) (default_only_factor t shape)) (\<lambda>only.
            Inr \<lparr>at_shape = shape, at_low_tile = low, at_tile = tile, at_only_factor = only,
                 at_param = (case tp_param args of None \<Rightarrow> default_param | Some pm \<Rightarrow> pm), at_use = t,
                 at_dtype = tp_dtype args, at_accum_dtype = tp_accum_dtype args, at_kernel = tp_kernel args,
                 at_policy = tp_policy args, at_mem_caps = mem, at_arch = arch\<rparr>)))))"

definition template_carver :: "anneal_template \<Rightarrow> carver res" where
  "template_carver tpl =
     (if at_use tpl = Custom
      then rbind (get_mem_caps (at_arch tpl) (at_mem_caps tpl)) (\<lambda>caps.
             Inr \<lparr>ac_policy = at_policy tpl, ac_kernel = at_kernel tpl, ac_caps = caps, ac_param = at_param tpl\<rparr>)
      else
        rbind (get_byte_per_numel (at_dtype tpl)) (\<lambda>d.
        rbind (get_byte_per_numel (at_accum_dtype tpl)) (\<lambda>a.
        if at_use tpl = FlashAttention \<and> length (at_shape tpl) < 3 then Inl IndexError
        else rbind (get_mem_caps (at_arch tpl) (at_mem_caps tpl)) (\<lambda>caps.
          Inr \<lparr>ac_policy = template_policy (at_use tpl) (at_shape tpl) d a (at_arch tpl),
               ac_kernel = \<lparr>ct_low_tile = at_low_tile tpl, ct_tile = at_tile tpl, ct_only_factor = at_only_factor tpl,
                            ct_mem_caps = template_caps (at_use tpl) (length (at_shape tpl)) d a\<rparr>,
               ac_caps = caps, ac_param = at_param tpl\<rparr>))))"

definition get_configs :: "(rat \<Rightarrow> rat) \<Rightarrow> draws \<Rightarrow> anneal_template \<Rightarrow> config list res" where
  "get_configs expf ds tpl = rbind (template_carver tpl) (get_configs_from_anneal expf ds)"

section \<open>Staying in the space of tiles\<close>

text \<open>A tile of the search: one of the factors, or a size between the bounds, along every axis.\<close>

definition in_axis :: "axis \<Rightarrow> nat \<Rightarrow> bool" where
  "in_axis a v = (if ax_only a then v \<in> set (ax_factors a) else ax_lo a \<le> v \<and> v \<le> ax_hi a)"

definition axis_ok :: "axis \<Rightarrow> bool" where
  "axis_ok a \<longleftrightarrow> (ax_only a \<longrightarrow> ax_lo a = 1 \<and> ax_hi a = length (ax_factors a))"

lemma axis_of_ok: "axis_of t = Inr a \<Longrightarrow> axis_ok a"
  by (auto simp: axis_of_def axis_ok_def Let_def split: prod.splits if_splits)

lemma size_at_in_axis:
  assumes "axis_ok a" and "ax_lo a \<le> v" and "v \<le> ax_hi a"
  shows "in_axis a (size_at a v)"
  using assms by (auto simp: axis_ok_def in_axis_def size_at_def)

lemma clamp_bounds: "lo \<le> hi \<Longrightarrow> lo \<le> clamp lo hi v \<and> clamp lo hi v \<le> hi"
  by (auto simp: clamp_def)

lemma draw_int_bounds: "draw_int ds p lo hi = Inr v \<Longrightarrow> lo \<le> v \<and> v \<le> hi"
proof -
  assume "draw_int ds p lo hi = Inr v"
  then have "lo \<le> hi" "v = lo + ds p mod (hi - lo + 1)" by (auto simp: draw_int_def split: if_splits)
  moreover have "ds p mod (hi - lo + 1) < hi - lo + 1" by simp
  ultimately show ?thesis by linarith
qed

definition in_space :: "axis list \<Rightarrow> nat list \<Rightarrow> bool" where
  "in_space axes cfg = list_all2 in_axis axes cfg"

lemma in_space_update:
  "in_space axes cfg \<Longrightarrow> x < length axes \<Longrightarrow> in_axis (axes ! x) v \<Longrightarrow> in_space axes (cfg[x := v])"
  by (auto simp: in_space_def list_all2_conv_all_nth nth_list_update)

lemma get_neighbour_in_space:
  assumes ok: "\<forall>a \<in> set axes. axis_ok a" and cfg: "in_space axes cfg" and x: "x < length axes"
  shows "in_space axes (get_neighbour axes cfg x step)"
proof -
  let ?a = "axes ! x"
  have a: "axis_ok ?a" "in_axis ?a (cfg ! x)"
    using ok cfg x by (auto simp: in_space_def list_all2_conv_all_nth)
  then have "ax_lo ?a \<le> ax_hi ?a"
    by (cases "ax_factors ?a") (auto simp: axis_ok_def in_axis_def split: if_splits)
  then show ?thesis
    using in_space_update [OF cfg x] size_at_in_axis [OF a(1)] clamp_bounds by (simp add: get_neighbour_def Let_def)
qed

lemma neighbor_in_space:
  assumes "\<forall>a \<in> set axes. axis_ok a" and "in_space axes cfg"
    and "neighbor tries c axes temperature ds cfg p = Inr (new_cfg, p')"
  shows "in_space axes new_cfg \<and> check_valid c new_cfg = Inr True"
  using assms(3)
proof (induction tries arbitrary: p)
  case (Suc tries)
  obtain cfg1 p1 ok where one: "neighbor_try c axes temperature ds cfg p = Inr (cfg1, p1)"
    and valid: "check_valid c cfg1 = Inr ok"
    and rest: "(if ok then Inr (cfg1, p1) else neighbor tries c axes temperature ds cfg p1) = Inr (new_cfg, p')"
    using Suc.prems by (auto elim!: rbind_InrE)
  show ?case
  proof (cases ok)
    case True
    have "in_space axes cfg1"
    proof -
      have x: "ds p mod length axes < length axes" using one by (auto simp: neighbor_try_def split: if_splits)
      show ?thesis using one x assms(1,2)
        by (auto simp: neighbor_try_def Let_def rbind_Inr_iff in_space_update get_neighbour_in_space
            dest!: draw_int_bounds intro!: size_at_in_axis in_space_update split: if_splits)
    qed
    then show ?thesis using True rest valid by simp
  next
    case False
    then show ?thesis using Suc.IH rest by simp
  qed
qed simp

lemma draw_tile_in_space:
  assumes "\<forall>a \<in> set axes. axis_ok a" and "draw_tile ds axes p = Inr (cfg, p')"
  shows "in_space axes cfg"
  using assms unfolding in_space_def
  by (induction axes arbitrary: p cfg p') (fastforce elim!: rbind_InrE dest: draw_int_bounds intro: size_at_in_axis)+

section \<open>Configurations of the search\<close>

text \<open>A configuration in the space, within the memory, with its value.\<close>

definition good :: "carver \<Rightarrow> axis list \<Rightarrow> config \<Rightarrow> bool" where
  "good c axes cf \<longleftrightarrow> in_space axes (cf_kwargs cf) \<and> check_valid c (cf_kwargs cf) = Inr True \<and>
     calc_value c (cf_kwargs cf) = Inr (cf_value cf)"

lemma make_config_good:
  assumes "make_config c cfg = Inr cf" and "in_space axes cfg" and "check_valid c cfg = Inr True"
  shows "good c axes cf"
  using assms by (auto simp: make_config_def good_def rbind_Inr_iff)

lemma start_configs_good:
  assumes "\<forall>a \<in> set axes. axis_ok a" and "start_configs tries wanted c axes ds p = Inr (cfs, p')"
  shows "\<forall>cf \<in> set cfs. good c axes cf"
  using assms(2)
proof (induction tries arbitrary: wanted p cfs p')
  case (Suc tries)
  obtain cfg p1 ok where tile: "draw_tile ds axes p = Inr (cfg, p1)" and ok: "check_valid c cfg = Inr ok"
    and rest: "(if \<not> ok then start_configs tries wanted c axes ds p1
       else rbind (make_config c cfg) (\<lambda>cf.
         if wanted = 1 then Inr ([cf], p1)
         else rbind (start_configs tries (wanted - 1) c axes ds p1) (\<lambda>(cfs, p2). Inr (cf # cfs, p2)))) = Inr (cfs, p')"
    using Suc.prems by (auto elim!: rbind_InrE)
  show ?case
  proof (cases ok)
    case True
    then obtain cf where cf: "make_config c cfg = Inr cf"
      and more: "(if wanted = 1 then Inr ([cf], p1)
         else rbind (start_configs tries (wanted - 1) c axes ds p1) (\<lambda>(cfs, p2). Inr (cf # cfs, p2))) = Inr (cfs, p')"
      using rest by (auto elim!: rbind_InrE)
    have "good c axes cf" using make_config_good [OF cf] draw_tile_in_space [OF assms(1) tile] ok True by simp
    then show ?thesis using more Suc.IH by (auto elim!: rbind_InrE split: if_splits)
  next
    case False
    then show ?thesis using rest Suc.IH by simp
  qed
qed simp

lemma anneal_one_good:
  assumes "\<forall>a \<in> set axes. axis_ok a" and "good c axes cf"
    and "anneal_one expf c axes ds temperature cf p = Inr (cf', p')"
  shows "good c axes cf'"
proof -
  obtain cfg p1 new ok where n: "neighbor 15 c axes temperature ds (cf_kwargs cf) p = Inr (cfg, p1)"
    and new: "make_config c cfg = Inr new" and cf': "cf' = (if ok then new else cf)"
    using assms(3) by (auto simp: anneal_one_def elim!: rbind_InrE)
  have "good c axes new"
    using make_config_good [OF new, of axes] neighbor_in_space [OF assms(1) _ n] assms(2)
    by (auto simp: good_def)
  then show ?thesis using cf' assms(2) by simp
qed

lemma anneal_all_good:
  assumes "\<forall>a \<in> set axes. axis_ok a" and "\<forall>cf \<in> set cfs. good c axes cf"
    and "anneal_all expf c axes ds temperature cfs p = Inr (cfs', p')"
  shows "\<forall>cf \<in> set cfs'. good c axes cf"
  using assms(2,3)
proof (induction cfs arbitrary: p cfs' p')
  case (Cons cf cfs)
  obtain cf1 p1 cfs1 p2 where one: "anneal_one expf c axes ds temperature cf p = Inr (cf1, p1)"
    and rest: "anneal_all expf c axes ds temperature cfs p1 = Inr (cfs1, p2)" and "cfs' = cf1 # cfs1"
    using Cons.prems(2) by (auto elim!: rbind_InrE)
  moreover have "good c axes cf1" using anneal_one_good [OF assms(1) _ one] Cons.prems(1) by simp
  moreover have "\<forall>cf \<in> set cfs1. good c axes cf" using Cons.IH [OF _ rest] Cons.prems(1) by simp
  ultimately show ?case by simp
qed simp

lemma anneal_steps_good:
  assumes "\<forall>a \<in> set axes. axis_ok a" and "\<forall>cf \<in> set cfs. good c axes cf"
    and "anneal_steps n expf c axes ds temperature cfs p = Inr (cfs', p')"
  shows "\<forall>cf \<in> set cfs'. good c axes cf"
  using assms(2,3)
proof (induction n arbitrary: temperature cfs p)
  case (Suc n)
  obtain cfs1 p1 where all: "anneal_all expf c axes ds temperature cfs p = Inr (cfs1, p1)"
    and rest: "anneal_steps n expf c axes ds (temperature * ap_alpha (ac_param c)) cfs1 p1 = Inr (cfs', p')"
    using Suc.prems(2) by (auto elim!: rbind_InrE)
  show ?case by (rule Suc.IH [OF anneal_all_good [OF assms(1) Suc.prems(1) all] rest])
qed simp

lemma unique_from_subset: "set (unique_from seen cfs) \<subseteq> set cfs"
  by (induction seen cfs rule: unique_from.induct) auto

lemma unique_from_fresh: "cf \<in> set (unique_from seen cfs) \<Longrightarrow> cf_kwargs cf \<notin> set seen"
  by (induction seen cfs rule: unique_from.induct) (auto split: if_splits)

lemma unique_from_distinct: "distinct (map cf_kwargs (unique_from seen cfs))"
  by (induction seen cfs rule: unique_from.induct) (auto dest: unique_from_fresh)

lemma if_valid_good:
  assumes "if_valid c cfg = Inr cfs" and "in_space axes cfg" and "cf \<in> set cfs"
  shows "good c axes cf"
  using assms make_config_good by (auto simp: if_valid_def elim!: rbind_InrE split: if_splits)

lemma neighbor_configs_good:
  assumes ok: "\<forall>a \<in> set axes. axis_ok a" and cfs: "\<forall>cf \<in> set cfs. good c axes cf"
    and run: "neighbor_configs c axes cfs = Inr near"
  shows "(\<forall>cf \<in> set near. good c axes cf) \<and> distinct (map cf_kwargs near)"
proof -
  let ?pair = "\<lambda>cf (x, p). rbind (if_valid c (get_neighbour axes (cf_kwargs cf) x (int p + 1))) (\<lambda>up.
             rbind (if_valid c (get_neighbour axes (cf_kwargs cf) x (- (int p + 1)))) (\<lambda>down. Inr (up @ down)))"
  let ?pairs = "List.product [0..<length axes] [0..<ap_expand (ac_param c)]"
  let ?each = "\<lambda>cf. rbind (rmap (?pair cf) ?pairs) (\<lambda>near. Inr (cf # concat near))"
  obtain all where all: "rmap ?each cfs = Inr all" and near: "near = get_unique_configs (concat all)"
    using run by (auto simp: neighbor_configs_def elim!: rbind_InrE)
  have "good c axes cf" if mem: "cf \<in> set l" "l \<in> set all" for cf l
  proof -
    obtain cf0 near0 where cf0: "cf0 \<in> set cfs" and l: "l = cf0 # concat near0" and n0: "rmap (?pair cf0) ?pairs = Inr near0"
      using rmap_Inr_set [OF all mem(2)] by (auto elim!: rbind_InrE)
    have g0: "good c axes cf0" using cfs cf0 by blast
    show ?thesis
    proof (cases "cf = cf0")
      case False
      then obtain xs where xs: "xs \<in> set near0" "cf \<in> set xs" using mem(1) l by auto
      obtain x p where x: "x < length axes" and pair: "?pair cf0 (x, p) = Inr xs"
        using rmap_Inr_set [OF n0 xs(1)] by auto
      have "in_space axes (get_neighbour axes (cf_kwargs cf0) x step)" for step
        using get_neighbour_in_space [OF ok _ x] g0 by (simp add: good_def)
      then show ?thesis using pair xs(2) if_valid_good by (fastforce elim!: rbind_InrE)
    qed (use g0 in simp)
  qed
  then have "\<forall>cf \<in> set (concat all). good c axes cf" by auto
  then show ?thesis
    using unique_from_subset unique_from_distinct unfolding near get_unique_configs_def by blast
qed

lemma ranked_configs_good:
  assumes "ranked_configs expf ds c = Inr cfs"
  obtains axes where "axes_of (ac_kernel c) = Inr axes" and "\<forall>cf \<in> set cfs. good c axes cf"
    and "distinct (map cf_kwargs cfs)" and "sorted (map cf_value cfs)"
proof -
  obtain axes cfs0 p cfs1 p1 near where axes: "axes_of (ac_kernel c) = Inr axes"
    and s: "start_configs (ap_number (ac_param c) * 4) (ap_number (ac_param c)) c axes ds 0 = Inr (cfs0, p)"
    and a: "anneal_steps (ap_steps (ac_param c)) expf c axes ds (ap_temperature (ac_param c)) cfs0 p = Inr (cfs1, p1)"
    and n: "neighbor_configs c axes (get_unique_configs (sort_key cf_value cfs1)) = Inr near"
    and cfs: "cfs = sort_key cf_value near"
    using assms by (auto simp: ranked_configs_def elim!: rbind_InrE)
  have ok: "\<forall>a \<in> set axes. axis_ok a"
    using axes axis_of_ok by (auto simp: axes_of_def elim!: rbind_InrE split: if_splits dest: rmap_Inr_set)
  have "\<forall>cf \<in> set cfs1. good c axes cf"
    by (rule anneal_steps_good [OF ok start_configs_good [OF ok s] a])
  then have "\<forall>cf \<in> set (get_unique_configs (sort_key cf_value cfs1)). good c axes cf"
    using unique_from_subset by (fastforce simp: get_unique_configs_def)
  note near = neighbor_configs_good [OF ok this n]
  have "mset (map cf_kwargs cfs) = mset (map cf_kwargs near)" by (simp add: cfs)
  then have "distinct (map cf_kwargs cfs)" using near by (metis mset_eq_imp_distinct_iff)
  then show thesis using that axes near by (simp add: cfs)
qed

section \<open>The tiles that are returned\<close>

lemma axis_value:
  assumes "axis_of (x, y, only) = Inr a" and "in_axis a v"
  shows "1 \<le> v" and "x div 16 \<le> v" and "v \<le> max 1 (y div 16)" and "only \<Longrightarrow> v * 16 dvd y \<and> 0 < y"
proof -
  have "1 \<le> v \<and> x div 16 \<le> v \<and> v \<le> max 1 (y div 16) \<and> (only \<longrightarrow> v * 16 dvd y \<and> 0 < y)"
  proof (cases only)
    case True
    let ?fs = "get_all_factors (y div 16)" and ?low = "\<lambda>f. f < max 1 (x div 16)"
    have y: "y mod 16 = 0" and ne: "dropWhile ?low ?fs \<noteq> []" and v: "v \<in> set (dropWhile ?low ?fs)"
      using assms True by (auto simp: axis_of_def in_axis_def Let_def split: if_splits)
    have pos: "0 < y div 16"
    proof (rule ccontr)
      assume "\<not> 0 < y div 16"
      then have "?fs = [0]" by (simp add: get_all_factors_def ceil_sqrt_def ceil_sqrt_from.simps)
      then show False using ne by (simp add: max_def split: if_splits)
    qed
    have "v \<in> set ?fs" using v by (rule set_dropWhileD)
    then have d: "v dvd y div 16" using set_get_all_factors [OF pos] by simp
    have sorted: "sorted_wrt (<) (dropWhile ?low ?fs)"
      using sorted_get_all_factors [OF pos] by (metis append_take_drop_id dropWhile_eq_drop sorted_wrt_append)
    have "\<not> ?low (hd (dropWhile ?low ?fs))" using ne by (rule hd_dropWhile)
    moreover have "hd ds \<le> v" if "sorted_wrt (<) ds" "v \<in> set ds" for ds
      using that by (cases ds) auto
    ultimately have "max 1 (x div 16) \<le> v" using sorted v by (meson leI order.trans)
    moreover have "v \<le> y div 16" using d pos by (rule dvd_imp_le)
    moreover have "v * 16 dvd y" using d y by (metis dvd_div_mult_self dvd_eq_mod_eq_0 mult_dvd_mono dvd_refl)
    ultimately show ?thesis using pos by auto
  next
    case False
    then show ?thesis using assms by (auto simp: axis_of_def in_axis_def)
  qed
  then show "1 \<le> v" "x div 16 \<le> v" "v \<le> max 1 (y div 16)" "only \<Longrightarrow> v * 16 dvd y \<and> 0 < y" by auto
qed

lemma scaled_size:
  assumes "1 \<le> v" and "v \<le> max 1 (y div 16)"
  shows "min y (v * 16) = (if y < 16 then y else v * 16)" and "y < 16 \<Longrightarrow> v = (1 :: nat)"
proof -
  show "y < 16 \<Longrightarrow> v = 1" using assms by simp
  show "min y (v * 16) = (if y < 16 then y else v * 16)"
  proof (cases "y < 16")
    case False
    then have "v \<le> y div 16" using assms(2) by (simp add: max_def split: if_splits)
    then have "v * 16 \<le> y" by (simp add: less_eq_div_iff_mult_less_eq)
    then show ?thesis using False by (simp add: min_def)
  qed (use assms(1) in \<open>simp add: min_def\<close>)
qed

text \<open>Along every axis of a tile in the space: its bounds, and that scaling loses nothing.\<close>

lemma in_space_axis:
  assumes axes: "axes_of k = Inr axes" and kw: "in_space axes kw" and i: "i < length (ct_tile k)"
  shows "length kw = length (ct_tile k)" and "1 \<le> kw ! i" and "ct_low_tile k ! i div 16 \<le> kw ! i"
    and "kw ! i \<le> max 1 (ct_tile k ! i div 16)" and "ct_only_factor k ! i \<Longrightarrow> kw ! i * 16 dvd ct_tile k ! i \<and> 0 < ct_tile k ! i"
proof -
  let ?z = "zip (ct_low_tile k) (zip (ct_tile k) (ct_only_factor k))"
  have r: "rmap axis_of ?z = Inr axes" and len: "length (ct_low_tile k) = length (ct_tile k)"
      "length (ct_tile k) = length (ct_only_factor k)"
    using axes by (auto simp: axes_of_def elim!: rbind_InrE split: if_splits)
  have n: "length axes = length (ct_tile k)" using rmap_Inr_length [OF r] len by simp
  then show "length kw = length (ct_tile k)" using kw by (simp add: in_space_def list_all2_lengthD)
  have "axis_of (ct_low_tile k ! i, ct_tile k ! i, ct_only_factor k ! i) = Inr (axes ! i)"
    using r i len unfolding rmap_Inr_iff by (auto simp: list_all2_conv_all_nth)
  moreover have "in_axis (axes ! i) (kw ! i)" using kw i n by (simp add: in_space_def list_all2_conv_all_nth)
  ultimately show "1 \<le> kw ! i" "ct_low_tile k ! i div 16 \<le> kw ! i" "kw ! i \<le> max 1 (ct_tile k ! i div 16)"
      "ct_only_factor k ! i \<Longrightarrow> kw ! i * 16 dvd ct_tile k ! i \<and> 0 < ct_tile k ! i"
    using axis_value by blast+
qed

abbreviation scaled :: "nat list \<Rightarrow> nat list \<Rightarrow> nat list" where
  "scaled tile kw \<equiv> map2 (\<lambda>t v. min t (v * 16)) tile kw"

lemma scaled_inj:
  assumes axes: "axes_of k = Inr axes" and kw: "in_space axes kw" "in_space axes kw'"
    and eq: "scaled (ct_tile k) kw = scaled (ct_tile k) kw'"
  shows "kw = kw'"
proof (cases "ct_tile k = []")
  case True
  then have "axes = []" using axes by (auto simp: axes_of_def elim!: rbind_InrE split: if_splits)
  then show ?thesis using kw by (simp add: in_space_def)
next
  case False
  then have len: "length kw = length (ct_tile k)" "length kw' = length (ct_tile k)"
    using in_space_axis(1) [OF axes] kw by (metis length_greater_0_conv)+
  show ?thesis
  proof (rule nth_equalityI)
    show "length kw = length kw'" using len by simp
    fix i
    assume "i < length kw"
    then have i: "i < length (ct_tile k)" using len by simp
    have "min (ct_tile k ! i) (kw ! i * 16) = min (ct_tile k ! i) (kw' ! i * 16)"
      using arg_cong [OF eq, of "\<lambda>l. l ! i"] i len by simp
    then show "kw ! i = kw' ! i"
      using scaled_size [OF in_space_axis(2,4) [OF axes kw(1) i]] scaled_size [OF in_space_axis(2,4) [OF axes kw(2) i]]
      by (auto split: if_splits)
  qed
qed

lemma caps_hold_all:
  "caps_hold mul cfg ks caps = Inr True \<longleftrightarrow> list_all2 (\<lambda>k cap. \<exists>v. calc_results k cfg = Inr v \<and> v * mul \<le> cap) ks caps"
  by (induction mul cfg ks caps rule: caps_hold.induct) (auto elim!: rbind_InrE simp: not_less split: if_splits)

lemma check_valid_caps:
  "check_valid c kw = Inr True \<longleftrightarrow>
   list_all2 (\<lambda>k cap. \<exists>v. calc_results k kw = Inr v \<and> v * ap_mem_multiply (ac_param c) \<le> cap) (ct_mem_caps (ac_kernel c)) (ac_caps c)"
  by (simp add: check_valid_def caps_hold_all)

text \<open>
  C36: Whatever the random draws, the search returns at most \<open>topk\<close> different tiles in the order of
  their values; each stands for a tile in units of 16 whose every memory requirement, times the multiplier of the parameters, is at
  most its cap, and which has the value returned with it, lies between the bounds along every axis, and divides the
  whole tile along the axes restricted to factors.  The multiplier is 0.7 unless it is set, so that a requirement itself may be up to
  10/7 of its cap.
\<close>

theorem anneal_results:
  assumes run: "get_configs_from_anneal expf ds c = Inr cs"
  shows "length cs \<le> ap_topk (ac_param c) \<and> sorted (map cf_value cs) \<and> distinct (map cf_kwargs cs) \<and>
    (\<forall>cf \<in> set cs. \<exists>kw. cf_kwargs cf = scaled (ct_tile (ac_kernel c)) kw \<and>
       list_all2 (\<lambda>k cap. \<exists>v. calc_results k kw = Inr v \<and> v * ap_mem_multiply (ac_param c) \<le> cap)
         (ct_mem_caps (ac_kernel c)) (ac_caps c) \<and>
       calc_value c kw = Inr (cf_value cf) \<and>
       (\<forall>i < length (ct_tile (ac_kernel c)).
          1 \<le> kw ! i \<and> ct_low_tile (ac_kernel c) ! i div 16 \<le> kw ! i \<and> cf_kwargs cf ! i \<le> ct_tile (ac_kernel c) ! i \<and>
          (ct_only_factor (ac_kernel c) ! i \<longrightarrow> cf_kwargs cf ! i dvd ct_tile (ac_kernel c) ! i)))"
proof -
  let ?k = "ac_kernel c"
  obtain cfs where cfs: "ranked_configs expf ds c = Inr cfs"
    and cs: "cs = map (scale_config (ct_tile ?k)) (take (ap_topk (ac_param c)) cfs)"
    using run by (auto simp: get_configs_from_anneal_def elim!: rbind_InrE)
  obtain axes where axes: "axes_of ?k = Inr axes" and good: "\<forall>cf \<in> set cfs. good c axes cf"
    and dist: "distinct (map cf_kwargs cfs)" and sorted: "sorted (map cf_value cfs)"
    by (rule ranked_configs_good [OF cfs])
  let ?top = "take (ap_topk (ac_param c)) cfs"
  have space: "in_space axes (cf_kwargs cf)" if "cf \<in> set ?top" for cf
    using good in_set_takeD [OF that] by (simp add: good_def)
  have "map cf_value cs = take (ap_topk (ac_param c)) (map cf_value cfs)"
    by (simp add: cs scale_config_def take_map comp_def)
  then have "sorted (map cf_value cs)" using sorted by (simp add: sorted_wrt_take)
  moreover have "distinct (map cf_kwargs cs)"
  proof -
    have kws: "distinct (map cf_kwargs ?top)" using dist by (simp add: distinct_take flip: take_map)
    have "inj_on (scaled (ct_tile ?k)) (set (map cf_kwargs ?top))"
      using scaled_inj [OF axes] space by (auto intro!: inj_onI)
    then have "distinct (map (scaled (ct_tile ?k)) (map cf_kwargs ?top))" using kws
      by (simp add: distinct_map comp_inj_on)
    moreover have "map cf_kwargs cs = map (scaled (ct_tile ?k)) (map cf_kwargs ?top)"
      by (simp add: cs scale_config_def comp_def)
    ultimately show ?thesis by simp
  qed
  moreover have "\<exists>kw. cf_kwargs cf = scaled (ct_tile ?k) kw \<and>
       list_all2 (\<lambda>k cap. \<exists>v. calc_results k kw = Inr v \<and> v * ap_mem_multiply (ac_param c) \<le> cap)
         (ct_mem_caps (ac_kernel c)) (ac_caps c) \<and>
       calc_value c kw = Inr (cf_value cf) \<and>
       (\<forall>i < length (ct_tile ?k). 1 \<le> kw ! i \<and> ct_low_tile ?k ! i div 16 \<le> kw ! i \<and> cf_kwargs cf ! i \<le> ct_tile ?k ! i \<and>
          (ct_only_factor ?k ! i \<longrightarrow> cf_kwargs cf ! i dvd ct_tile ?k ! i))" if mem: "cf \<in> set cs" for cf
  proof -
    obtain cf0 where cf0: "cf0 \<in> set ?top" and cf: "cf = scale_config (ct_tile ?k) cf0"
      using mem by (auto simp: cs)
    have g: "good c axes cf0" using good in_set_takeD [OF cf0] by blast
    have "1 \<le> kw ! i \<and> ct_low_tile ?k ! i div 16 \<le> kw ! i \<and> scaled (ct_tile ?k) kw ! i \<le> ct_tile ?k ! i \<and>
        (ct_only_factor ?k ! i \<longrightarrow> scaled (ct_tile ?k) kw ! i dvd ct_tile ?k ! i)"
      if "i < length (ct_tile ?k)" "kw = cf_kwargs cf0" for i kw
    proof -
      note ax = in_space_axis [OF axes space [OF cf0] that(1), folded that(2)]
      have "min (ct_tile ?k ! i) (kw ! i * 16) dvd ct_tile ?k ! i" if "ct_only_factor ?k ! i"
        using ax(5) [OF that] by (metis dvd_imp_le min.absorb2)
      then show ?thesis using ax that by simp
    qed
    then show ?thesis using g by (intro exI [of _ "cf_kwargs cf0"]) (auto simp: cf scale_config_def good_def check_valid_caps)
  qed
  ultimately show ?thesis by (simp add: cs)
qed

text \<open>A short search for an element-wise operator of 64 by 64.\<close>

definition demo_carver :: carver where
  "demo_carver =
     projr (template_carver (projr (anneal_template_init [64, 64]
       \<lparr>tp_low_tile = None, tp_tile = None, tp_only_factor = None,
        tp_param = Some (default_param\<lparr>ap_number := 1, ap_steps := 1, ap_topk := 2\<rparr>), tp_use = ''Elementwise'',
        tp_dtype = ''float16'', tp_accum_dtype = ''float32'',
        tp_kernel = \<lparr>ct_low_tile = [], ct_tile = [], ct_only_factor = [], ct_mem_caps = []\<rparr>, tp_policy = [],
        tp_mem_caps = None\<rparr> (ascend_arch_init None ''Ascend910B''))))"

theorem anneal_results_witness:
  "let cs = projr (get_configs_from_anneal (\<lambda>_. 0) (\<lambda>n. n * 3 + 1) demo_carver) in
   get_configs_from_anneal (\<lambda>_. 0) (\<lambda>n. n * 3 + 1) demo_carver = Inr cs \<and>
   length cs \<le> 2 \<and> cs \<noteq> [] \<and> sorted (map cf_value cs) \<and> distinct (map cf_kwargs cs)"
proof -
  let ?run = "get_configs_from_anneal (\<lambda>_. 0) (\<lambda>n. n * 3 + 1) demo_carver"
  have ok: "?run = Inr (projr ?run)" and ne: "projr ?run \<noteq> []" and k: "ap_topk (ac_param demo_carver) = 2"
    by code_simp+
  show ?thesis unfolding Let_def using ok ne k anneal_results [OF ok] by simp
qed

section \<open>Slips in the set-up\<close>

text \<open>
  The attention template bounds the second axis twice and the first never; the number of tiles of a
  matrix product counts the reduction axis twice; functions listed as factors are added; and a requirement
  above its cap is accepted with the multiplier that is the default.
\<close>

theorem attention_first_axis_unbounded: "default_tile FlashAttention [4096, 512, 64] = Inr [4096, 256, 64]"
  by code_simp

theorem reduction_tiles_counted_twice: "num_waves_matmul [16, 16, 16] [16, 16, 64] 1 = Inr 16"
  by code_simp

theorem factors_are_added:
  "calc_results (func_sum [f]\<lparr>cs_func_mul := [g]\<rparr>) tile =
   rbind (func_results f tile) (\<lambda>v. rbind (func_results g tile) (\<lambda>w. Inr (v + w)))"
  by (simp add: calc_results_def func_sum_def rbind_assoc)

theorem cap_exceeded_by_default:
  assumes "calc_results k kw = Inr v"
  shows "check_valid \<lparr>ac_policy = ps, ac_kernel = t\<lparr>ct_mem_caps := [k]\<rparr>, ac_caps = [cap], ac_param = default_param\<rparr> kw = Inr (v \<le> 10 / 7 * cap)"
  using assms by (auto simp: check_valid_def default_param_def)

end
