(* ===== verification/Quantize.thy ===== *)
theory Quantize
  imports Prelude "HOL-Library.Word"
begin

text \<open>
  Packing and unpacking of quantized weights (\<^verbatim>\<open>quantize/quantization.py\<close> and \<^verbatim>\<open>quantize/utils.py\<close>):
  conversions that the compiler emits for packed integers and small floating point formats, the
  packing of weights into bytes, and the interleaving of a row of bytes.

  An unsigned or signed machine integer is a word of its width: \<^verbatim>\<open>>>\<close> is \<open>drop_bit\<close> for unsigned and
  \<open>signed_drop_bit\<close> for signed integers.  A floating point number that is reinterpreted as an integer
  is the word of its bits, and \<open>f16_value\<close> and \<open>f32_value\<close> are the numbers that the bits denote.  A cast of a small
  integer to another type of numbers keeps its value and is left out.
\<close>

unbundle bit_operations_syntax

section \<open>Fields and numbers\<close>

text \<open>The number in the \<open>n\<close> bits from position \<open>p\<close>.\<close>

definition field :: "nat \<Rightarrow> 'a::len word \<Rightarrow> nat \<Rightarrow> nat" where
  "field n w p = unat (take_bit n (drop_bit p w))"

definition pow2 :: "int \<Rightarrow> rat" where
  "pow2 e = (if 0 \<le> e then 2 ^ nat e else 1 / 2 ^ nat (- e))"

text \<open>
  Finite numbers of a binary format: sign, biased exponent, and fraction of \<open>m\<close> bits; an exponent of zero
  has no hidden one.
\<close>

definition binary_value :: "nat \<Rightarrow> int \<Rightarrow> bool \<Rightarrow> nat \<Rightarrow> nat \<Rightarrow> rat" where
  "binary_value m bias neg e fr =
     (if neg then - 1 else 1) *
     (if e = 0 then of_nat fr * pow2 (1 - bias - int m)
      else of_nat (2 ^ m + fr) * pow2 (int e - bias - int m))"

definition f16_value :: "16 word \<Rightarrow> rat" where
  "f16_value w = binary_value 10 15 (bit w 15) (field 5 w 10) (field 10 w 0)"

definition f32_value :: "32 word \<Rightarrow> rat" where
  "f32_value w = binary_value 23 127 (bit w 31) (field 8 w 23) (field 23 w 0)"

definition e4m3_value :: "8 word \<Rightarrow> rat" where
  "e4m3_value w = binary_value 3 7 (bit w 7) (field 4 w 3) (field 3 w 0)"

section \<open>Conversions\<close>

definition bf16_bits :: "bool \<Rightarrow> 32 word \<Rightarrow> 32 word" where
  "bf16_bits round_to_even data =
     (let v = (if round_to_even then data + ((drop_bit 16 data AND 1) + 0x7FFF) else data)
      in drop_bit 16 v AND mask 16)"

definition f32x2_to_bf16x2_to_u32 :: "32 word \<Rightarrow> 32 word \<Rightarrow> bool \<Rightarrow> 32 word" where
  "f32x2_to_bf16x2_to_u32 v0 v1 round_to_even =
     bf16_bits round_to_even v0 OR push_bit 16 (bf16_bits round_to_even v1)"

definition u32_to_bf16x2_to_f32x2 :: "32 word \<Rightarrow> 32 word \<times> 32 word" where
  "u32_to_bf16x2_to_f32x2 x = (push_bit 16 (x AND mask 16), push_bit 16 (drop_bit 16 x AND mask 16))"

definition u32_to_int_to_float :: "nat \<Rightarrow> 32 word \<Rightarrow> nat \<Rightarrow> int" where
  "u32_to_int_to_float nbit val pos = uint (drop_bit (pos * nbit) val AND mask nbit)"

text \<open>
  Packed integers: the storage word is widened to 32 bits, shifted and masked.  The two conversions to
  a signed number subtract a median, \<open>2 ^ (nbit - 1) - 1\<close> in one and \<open>2 ^ (nbit - 1)\<close> in the other; Python refuses the
  negative shift of a width of zero.
\<close>

definition packed_uint_to_uint_to_float :: "nat \<Rightarrow> 's::len word \<Rightarrow> nat \<Rightarrow> int res" where
  "packed_uint_to_uint_to_float nbit val pos =
     (if nbit = 0 then Inl ValueError
      else Inr (uint (drop_bit (pos * nbit) (ucast val :: 32 word) AND mask nbit) - (2 ^ (nbit - 1) - 1)))"

definition packed_to_signed_convert :: "nat \<Rightarrow> 's::len word \<Rightarrow> nat \<Rightarrow> int res" where
  "packed_to_signed_convert nbit val pos =
     (if nbit = 0 then Inl ValueError
      else Inr (uint (drop_bit (pos * nbit) (ucast val :: 32 word) AND mask nbit) - 2 ^ (nbit - 1)))"

definition packed_to_unsigned_convert :: "nat \<Rightarrow> 's::len word \<Rightarrow> nat \<Rightarrow> int" where
  "packed_to_unsigned_convert nbit val pos = uint (drop_bit (pos * nbit) val AND mask nbit)"

definition packed_to_unsigned_convert_with_zeros :: "nat \<Rightarrow> 's::len word \<Rightarrow> nat \<Rightarrow> 's word \<Rightarrow> int" where
  "packed_to_unsigned_convert_with_zeros nbit val pos zero = uint ((drop_bit (pos * nbit) val AND mask nbit) - zero)"

text \<open>Sign extension by a shift to the top of a signed word and back.\<close>

definition extend_sign :: "nat \<Rightarrow> 32 word \<Rightarrow> int" where
  "extend_sign nbit u = sint (signed_drop_bit (32 - nbit) (push_bit (32 - nbit) (u AND mask nbit)))"

definition packed_int_to_int_to_float :: "nat \<Rightarrow> 's::len word \<Rightarrow> nat \<Rightarrow> int" where
  "packed_int_to_int_to_float nbit val pos = extend_sign nbit (signed_drop_bit (pos * nbit) (scast val))"

definition packed_int_to_int_convert :: "nat \<Rightarrow> 's::len word \<Rightarrow> nat \<Rightarrow> int" where
  "packed_int_to_int_convert nbit val pos = extend_sign nbit (signed_drop_bit (pos * nbit) (ucast val))"

text \<open>The four bit float: a sign and an exponent of three bits, zero when the exponent is zero.\<close>

definition f4_exponent :: "32 word \<Rightarrow> 32 word \<Rightarrow> 32 word \<Rightarrow> 32 word" where
  "f4_exponent low e m_h =
     (if low < e then min (e - low + m_h) 7 else if e = low then 1 else 0)"

definition f32_to_uint_to_f4 :: "32 word \<Rightarrow> 32 word" where
  "f32_to_uint_to_f4 v =
     push_bit 3 (drop_bit 31 v) OR f4_exponent 120 (drop_bit 23 v AND 255) (drop_bit 22 v AND 1)"

definition f16_to_uint_to_f4 :: "16 word \<Rightarrow> 32 word" where
  "f16_to_uint_to_f4 val =
     (let v = ucast val in
      push_bit 3 (drop_bit 15 v) OR f4_exponent 8 (drop_bit 10 v AND 31) (drop_bit 9 v AND 1))"

definition f4_to_f32 :: "32 word \<Rightarrow> 32 word" where
  "f4_to_f32 f4 =
     (let s = drop_bit 3 f4;
          e_f4 = f4 AND 7;
          e_f32 = e_f4 OR 120
      in if e_f4 = 0 then 0 else push_bit 23 (e_f32 OR push_bit 8 s))"

definition u32_to_f4_to_f32 :: "32 word \<Rightarrow> nat \<Rightarrow> 32 word" where
  "u32_to_f4_to_f32 val pos = f4_to_f32 (drop_bit (pos * 4) val AND mask 4)"

definition f4_to_f16 :: "'s::len word \<Rightarrow> 16 word" where
  "f4_to_f16 f4 =
     (let s = drop_bit 3 f4;
          e_f4 = f4 AND 7;
          e_f16 = e_f4 OR 8
      in if e_f4 = 0 then 0 else ucast (push_bit 10 (e_f16 OR push_bit 5 s)))"

definition packed_to_fp4_to_f16 :: "'s::len word \<Rightarrow> nat \<Rightarrow> 16 word" where
  "packed_to_fp4_to_f16 val pos = f4_to_f16 (drop_bit (pos * 4) val AND mask 4)"

text \<open>The eight bit float with four exponent bits, converted by cases and without a branch.\<close>

definition u8_to_f8_e4m3_to_f16_naive :: "16 word \<Rightarrow> 16 word" where
  "u8_to_f8_e4m3_to_f16_naive val =
     (let s_f16 = push_bit 15 (drop_bit 7 val);
          e4 = val AND 0x40;
          prefix = (if e4 = 0 then 0x2000 else 0x4000);
          e_f16 = push_bit 7 (val AND 63) OR prefix
      in s_f16 OR e_f16)"

definition u8_to_f8_e4m3_to_f16 :: "16 word \<Rightarrow> 16 word" where
  "u8_to_f8_e4m3_to_f16 val =
     (let s_f16 = push_bit 15 (drop_bit 7 val);
          e4 = val AND 0x40;
          e_f16 = (push_bit 7 (val AND 63) OR push_bit 8 e4 OR push_bit 7 e4) XOR 0x2000
      in s_f16 OR e_f16)"

section \<open>Packing\<close>

text \<open>
  \<^verbatim>\<open>general_compress\<close> on one row of weights held as bytes, \<open>8 div source_bits\<close> weights to a byte; weights that do not fill the
  last byte are dropped.
\<close>

definition compress_byte :: "nat \<Rightarrow> 8 word list \<Rightarrow> 8 word" where
  "compress_byte source_bits ws =
     fold (\<lambda>(k, w) acc. acc OR push_bit (source_bits * k) w) (enumerate 0 ws) 0"

definition general_compress :: "nat \<Rightarrow> 8 word list \<Rightarrow> 8 word list res" where
  "general_compress source_bits ws =
     (if source_bits = 0 \<or> 8 div source_bits = 0 then Inl ZeroDivisionError
      else
        let elems_per_byte = 8 div source_bits in
        Inr (map (\<lambda>j. compress_byte source_bits (take elems_per_byte (drop (j * elems_per_byte) ws)))
               [0..<length ws div elems_per_byte]))"

text \<open>Reinterpreting a row of bytes as 32 bit integers in little-endian order, and back.\<close>

definition word_of_bytes :: "8 word \<Rightarrow> 8 word \<Rightarrow> 8 word \<Rightarrow> 8 word \<Rightarrow> 32 word" where
  "word_of_bytes b0 b1 b2 b3 = ucast b0 OR push_bit 8 (ucast b1) OR push_bit 16 (ucast b2) OR push_bit 24 (ucast b3)"

fun view_int32 :: "8 word list \<Rightarrow> 32 word list res" where
  "view_int32 [] = Inr []"
| "view_int32 (b0 # b1 # b2 # b3 # bs) = rbind (view_int32 bs) (\<lambda>ws. Inr (word_of_bytes b0 b1 b2 b3 # ws))"
| "view_int32 bs = Inl RuntimeError"

definition bytes_of :: "32 word \<Rightarrow> 8 word list" where
  "bytes_of w = map (\<lambda>i. ucast (drop_bit (8 * i) w)) [0, 1, 2, 3]"

definition view_int8 :: "32 word list \<Rightarrow> 8 word list" where
  "view_int8 ws = concat (map bytes_of ws)"

text \<open>
  \<^verbatim>\<open>interleave_weight\<close>: the fields of a word are dealt out to the 32 / \<open>bits_stride\<close> groups in turn.  Three formats
  then move parts of the word, with masks that come from a call of \<^verbatim>\<open>torch.int32\<close>, the argument \<open>int32\<close>.
\<close>

definition interleave_shift :: "nat \<Rightarrow> nat \<Rightarrow> nat \<Rightarrow> nat" where
  "interleave_shift bits_stride nbits offset =
     (let num_groups = 32 div bits_stride
      in (offset mod num_groups) * bits_stride + (offset div num_groups) * nbits)"

definition interleave_word :: "nat \<Rightarrow> nat \<Rightarrow> 32 word \<Rightarrow> 32 word" where
  "interleave_word bits_stride nbits q =
     (let num_groups = 32 div bits_stride;
          elems_per_group = bits_stride div nbits
      in fold (\<lambda>offset acc.
           acc OR push_bit (interleave_shift bits_stride nbits offset) (signed_drop_bit (nbits * offset) q AND mask nbits))
         [0..<num_groups * elems_per_group] 0)"

text \<open>One part: the masked bits move down by \<open>n\<close> and up by \<open>m\<close>.\<close>

definition moved :: "32 word \<Rightarrow> nat \<times> nat \<times> 32 word \<Rightarrow> 32 word" where
  "moved w p = (case p of (n, m, msk) \<Rightarrow> push_bit m (signed_drop_bit n (w AND msk)))"

definition rearrange :: "(int \<Rightarrow> 32 word res) \<Rightarrow> int \<Rightarrow> (int \<times> nat \<times> nat) list \<Rightarrow> 32 word \<Rightarrow> 32 word res" where
  "rearrange int32 kept moves w =
     rbind (int32 kept) (\<lambda>k.
     rbind (rmap (\<lambda>(m, down, up). rbind (int32 m) (\<lambda>msk. Inr (down, up, msk))) moves) (\<lambda>ms.
       Inr (fold (\<lambda>p acc. acc OR moved w p) ms (w AND k))))"

definition special_moves :: "nat \<Rightarrow> string \<Rightarrow> (int \<times> (int \<times> nat \<times> nat) list) option" where
  "special_moves nbits target_dtype =
     (if nbits = 1 \<and> target_dtype = ''int8''
      then Some (0xF0F00F0F, [(0x000000F0, 4, 16), (0x0000F000, 12, 24), (0x000F0000, 16, 4), (0x0F000000, 24, 12)])
      else if nbits = 2 \<and> target_dtype = ''float16''
      then Some (0xFF0000FF, [(0x0000FF00, 8, 16), (0x00FF0000, 16, 8)])
      else if nbits = 1 \<and> target_dtype = ''float16''
      then Some (0xF000000F, [(0x000000F0, 4, 8), (0x00000F00, 8, 16), (0x0000F000, 12, 24), (0x000F0000, 16, 4),
                              (0x00F00000, 20, 12), (0x0F000000, 24, 20)])
      else None)"

definition interleave_one :: "(int \<Rightarrow> 32 word res) \<Rightarrow> nat \<Rightarrow> string \<Rightarrow> 32 word \<Rightarrow> 32 word res" where
  "interleave_one int32 nbits target_dtype q =
     (let new_qweight = interleave_word (if target_dtype = ''int8'' then 8 else 16) nbits q
      in case special_moves nbits target_dtype of
           None \<Rightarrow> Inr new_qweight
         | Some (kept, moves) \<Rightarrow> rearrange int32 kept moves new_qweight)"

definition interleave_weight :: "(int \<Rightarrow> 32 word res) \<Rightarrow> 8 word list \<Rightarrow> nat \<Rightarrow> string \<Rightarrow> 8 word list res" where
  "interleave_weight int32 qweight nbits target_dtype =
     (if target_dtype \<notin> {''float16'', ''int8''} then Inl AssertionError
      else
        rbind (view_int32 qweight) (\<lambda>q.
        if nbits = 0 then Inl ZeroDivisionError
        else
          rbind (case special_moves nbits target_dtype of
                   None \<Rightarrow> Inr 0 | Some (kept, _) \<Rightarrow> int32 kept) (\<lambda>_.
          rbind (rmap (interleave_one int32 nbits target_dtype) q) (\<lambda>n. Inr (view_int8 n)))))"

section \<open>Fields by their bits\<close>

lemma bit_field: "bit (field n w p) k \<longleftrightarrow> k < n \<and> bit w (p + k)"
  by (auto simp: field_def bit_unsigned_iff bit_take_bit_iff bit_drop_bit_eq dest: bit_imp_le_length)

lemma field_less: "field n w p < 2 ^ n"
  using take_bit_nat_less_exp [of n "field n w p"]
  by (simp add: field_def unsigned_take_bit_eq)

lemma field_eqI: "(\<And>k. k < n \<Longrightarrow> bit v (p + k) = bit w (q + k)) \<Longrightarrow> field n v p = field n w q"
  by (rule bit_eqI) (auto simp: bit_field)

lemma uint_field: "uint (drop_bit p w AND mask n) = int (field n w p)"
  by (simp add: field_def flip: take_bit_eq_mask)

lemma field_0: "field n w 0 = unat (take_bit n w)"
  by (simp add: field_def)

lemma take_bit_of_less: "unat w < 2 ^ n \<Longrightarrow> take_bit n w = w"
  by (metis take_bit_nat_eq_self unsigned_take_bit_eq word_unat_eq_iff)

lemma field_small: "unat w < 2 ^ n \<Longrightarrow> field n w 0 = unat w"
  by (simp add: field_0 take_bit_of_less)

lemma bit_above: "unat w < 2 ^ n \<Longrightarrow> n \<le> k \<Longrightarrow> \<not> bit w k"
  by (metis bit_take_bit_iff take_bit_of_less leD)

section \<open>Packing and unpacking\<close>

lemma bit_fold_or:
  "bit (fold (\<lambda>x acc. acc OR f x) xs a) p \<longleftrightarrow> bit a p \<or> (\<exists>x \<in> set xs. bit (f x :: 'a::len word) p)"
  by (induction xs arbitrary: a) (auto simp: bit_or_iff)

lemma bit_compress:
  "bit (compress_byte b ws) p \<longleftrightarrow> (\<exists>k < length ws. b * k \<le> p \<and> p < 8 \<and> bit (ws ! k) (p - b * k))"
proof -
  have "compress_byte b ws = fold (\<lambda>x acc. acc OR push_bit (b * fst x) (snd x)) (enumerate 0 ws) 0"
    by (simp add: compress_byte_def split_def)
  then show ?thesis
    by (auto simp: bit_fold_or in_set_enumerate_eq bit_push_bit_iff Bex_def dest: bit_imp_le_length)
qed


lemma field_compress:
  assumes small: "\<forall>w \<in> set ws. unat w < 2 ^ b" and k: "k < length ws" and room: "b * length ws \<le> 8"
  shows "field b (compress_byte b ws) (b * k) = unat (ws ! k)"
proof -
  have "field b (compress_byte b ws) (b * k) = field b (ws ! k) 0"
  proof (rule field_eqI)
    fix i
    assume i: "i < b"
    have "b * Suc k \<le> b * length ws" using k by (intro mult_le_mono2) simp
    then have top: "b * k + i < 8" using i room by simp
    have "k' = k" if "k' < length ws" "b * k' \<le> b * k + i" "bit (ws ! k') (b * k + i - b * k')" for k'
    proof -
      have "b * k + i - b * k' < b" using that(1,3) small bit_above [of "ws ! k'" b] nth_mem by (metis not_le)
      then have "b * k + i = b * k' + (b * k + i - b * k')" using that(2) by simp
      then show ?thesis using digits_eq [of i b "b * k + i - b * k'" k k'] i \<open>b * k + i - b * k' < b\<close> by (simp add: ac_simps)
    qed
    then have "bit (ws ! k) i" if "k' < length ws" "b * k' \<le> b * k + i" "bit (ws ! k') (b * k + i - b * k')" for k'
      using that by (metis add_diff_cancel_left')
    then show "bit (compress_byte b ws) (b * k + i) = bit (ws ! k) (0 + i)"
      using top k by (auto simp: bit_compress intro: exI [of _ k])
  qed
  then show ?thesis using small k by (simp add: field_small)
qed

lemma general_compress_nth:
  assumes run: "general_compress b ws = Inr bs" and small: "\<forall>w \<in> set ws. unat w < 2 ^ b"
    and i: "i < length bs * (8 div b)"
  shows "i < length ws" and "field b (bs ! (i div (8 div b))) (i mod (8 div b) * b) = unat (ws ! i)"
proof -
  let ?e = "8 div b" and ?j = "i div (8 div b)"
  have e: "0 < ?e" and bs: "bs = map (\<lambda>j. compress_byte b (take ?e (drop (j * ?e) ws))) [0..<length ws div ?e]"
    using run by (auto simp: general_compress_def Let_def split: if_splits)
  have j: "?j < length ws div ?e" using i bs by (simp add: less_mult_imp_div_less)
  then have "Suc ?j * ?e \<le> length ws div ?e * ?e" by (intro mult_le_mono1) simp
  then have room: "?j * ?e + ?e \<le> length ws" using div_times_less_eq_dividend [of "length ws" ?e] by (metis add.commute le_trans mult_Suc)
  have i_eq: "?j * ?e + i mod ?e = i" by (rule div_mult_mod_eq)
  have lt: "i mod ?e < ?e" using e by simp
  show "i < length ws" using room lt i_eq by linarith
  let ?ws = "take ?e (drop (?j * ?e) ws)"
  have len: "length ?ws = ?e" using room by simp
  have "field b (compress_byte b ?ws) (b * (i mod ?e)) = unat (?ws ! (i mod ?e))"
  proof (rule field_compress)
    show "\<forall>w \<in> set ?ws. unat w < 2 ^ b" using small by (meson in_set_takeD in_set_dropD)
    show "i mod ?e < length ?ws" and "b * length ?ws \<le> 8" using lt len by simp_all
  qed
  then show "field b (bs ! ?j) (i mod ?e * b) = unat (ws ! i)"
    using bs j lt room i_eq by (simp add: ac_simps)
qed

text \<open>
  C34: Packed weights are read back.  If every weight fits its bits, then each weight of the bytes that the
  packing returns is the one that the conversion of a packed unsigned integer finds at its position, and
  with the offset \<open>2 ^ (b - 1)\<close> added before packing the conversion to signed integers finds the weight
  without it.
\<close>

theorem pack_unpack:
  assumes run: "general_compress b ws = Inr bs" and small: "\<forall>w \<in> set ws. unat w < 2 ^ b"
    and i: "i < length bs * (8 div b)"
  shows "packed_to_unsigned_convert b (bs ! (i div (8 div b))) (i mod (8 div b)) = int (unat (ws ! i)) \<and>
    packed_to_signed_convert b (bs ! (i div (8 div b))) (i mod (8 div b)) = Inr (int (unat (ws ! i)) - 2 ^ (b - 1))"
proof -
  have "b \<noteq> 0" using run by (auto simp: general_compress_def split: if_splits)
  moreover note general_compress_nth(2) [OF run small i]
  moreover have "field b (ucast v :: 32 word) p = field b v p" for v :: "8 word" and p
    by (rule field_eqI) (auto simp: bit_unsigned_iff dest: bit_imp_le_length)
  ultimately show ?thesis
    by (simp add: packed_to_unsigned_convert_def packed_to_signed_convert_def uint_field)
qed

theorem pack_unpack_witness:
  "general_compress 4 [1, 2, 15, 8] = Inr [0x21, 0x8F] \<and>
   packed_to_unsigned_convert 4 (0x8F :: 8 word) 0 = 15 \<and>
   packed_to_signed_convert 4 (0x8F :: 8 word) 0 = Inr 7"
proof -
  have run: "general_compress 4 [1, 2, 15, 8] = Inr [0x21, 0x8F]" by code_simp
  show ?thesis using run pack_unpack [OF run, of 2] by simp
qed

section \<open>Interleaving\<close>

text \<open>The groups and the elements of a group fill the word.\<close>

definition layout_ok :: "nat \<Rightarrow> nat \<Rightarrow> bool" where
  "layout_ok stride nbits \<longleftrightarrow> 0 < nbits \<and> nbits dvd stride \<and> stride dvd 32"

lemma interleave_position:
  assumes ok: "layout_ok stride nbits" and "o1 < 32 div nbits" "o2 < 32 div nbits" "k1 < nbits" "k2 < nbits"
    and eq: "interleave_shift stride nbits o1 + k1 = interleave_shift stride nbits o2 + k2"
  shows "o1 = o2 \<and> k1 = k2"
proof -
  obtain m where m: "stride = nbits * m" using ok by (auto simp: layout_ok_def)
  obtain g where g: "32 = stride * g" using ok unfolding layout_ok_def dvd_def by blast
  have pos: "0 < nbits" "0 < m" "0 < g" using ok m g by (auto simp: layout_ok_def intro: gr0I)
  have G: "32 div stride = g" unfolding g using m pos by simp
  have "32 = nbits * (g * m)" using g m by (simp add: ac_simps)
  then have N: "32 div nbits = g * m" using pos by (metis nonzero_mult_div_cancel_left not_less0)
  have inner: "x div g * nbits + k < stride" if "x < 32 div nbits" "k < nbits" for x k
  proof -
    have "x div g < m" using that(1) N by (simp add: less_mult_imp_div_less ac_simps)
    then have "Suc (x div g) * nbits \<le> m * nbits" by (intro mult_le_mono1) simp
    then have "Suc (x div g) * nbits \<le> stride" using m by (simp only: ac_simps)
    then show ?thesis using that(2) by simp
  qed
  have "o1 mod g * stride + (o1 div g * nbits + k1) = o2 mod g * stride + (o2 div g * nbits + k2)"
    using eq by (simp add: interleave_shift_def G Let_def)
  then have "o1 mod g = o2 mod g" "o1 div g * nbits + k1 = o2 div g * nbits + k2"
    using digits_eq [of "o1 div g * nbits + k1" stride "o2 div g * nbits + k2" "o1 mod g" "o2 mod g"] inner assms(2-5)
    by (simp_all add: ac_simps)
  moreover from this have "o1 div g = o2 div g \<and> k1 = k2"
    using digits_eq [of k1 nbits k2 "o1 div g" "o2 div g"] assms(4,5) by (simp add: ac_simps)
  ultimately show ?thesis by (metis div_mult_mod_eq)
qed


lemma layout_counts:
  assumes "layout_ok stride nbits"
  shows "32 div stride * (stride div nbits) = 32 div nbits" and "nbits * (32 div nbits) = 32"
proof -
  have "nbits dvd 32" and "stride dvd 32" and "nbits dvd stride" and "0 < nbits" "0 < stride"
    using assms by (auto simp: layout_ok_def intro: gr0I dvd_trans)
  then show "nbits * (32 div nbits) = 32" and "32 div stride * (stride div nbits) = 32 div nbits"
    by (simp_all add: div_mult_swap dvd_div_mult_self)
qed

lemma interleave_shift_less:
  assumes ok: "layout_ok stride nbits" and x: "x < 32 div nbits" and k: "k < nbits"
  shows "interleave_shift stride nbits x + k < 32"
proof -
  let ?g = "32 div stride" and ?m = "stride div nbits"
  have s: "stride * ?g = 32" "nbits * ?m = stride" using ok by (simp_all add: layout_ok_def)
  then have g: "0 < ?g" by (intro gr0I) simp
  have "x div ?g < ?m" using x layout_counts(1) [OF ok] by (simp add: less_mult_imp_div_less ac_simps)
  then have "Suc (x div ?g) * nbits \<le> ?m * nbits" by (intro mult_le_mono1) simp
  moreover have "Suc (x mod ?g) * stride \<le> ?g * stride" using g by (intro mult_le_mono1) (simp add: Suc_leI)
  ultimately show ?thesis using s k by (simp add: interleave_shift_def Let_def ac_simps)
qed

lemma bit_interleave:
  assumes ok: "layout_ok stride nbits" and x: "x < 32 div nbits" and k: "k < nbits"
  shows "bit (interleave_word stride nbits q) (interleave_shift stride nbits x + k) = bit q (nbits * x + k)"
proof -
  let ?s = "interleave_shift stride nbits"
  let ?part = "\<lambda>y. push_bit (?s y) (signed_drop_bit (nbits * y) q AND mask nbits)"
  have all: "interleave_word stride nbits q = fold (\<lambda>y acc. acc OR ?part y) [0..<32 div nbits] 0"
    using layout_counts(1) [OF ok] by (simp add: interleave_word_def)
  have fits: "nbits * y + j < 32" if "y < 32 div nbits" "j < nbits" for y j
  proof -
    have "nbits * Suc y \<le> nbits * (32 div nbits)" using that(1) by (intro mult_le_mono2) simp
    then show ?thesis using that(2) layout_counts(2) [OF ok] by simp
  qed
  have part: "bit (?part y) (?s y + j) = bit q (nbits * y + j)" if "y < 32 div nbits" "j < nbits" for y j
    using that fits [OF that] interleave_shift_less [OF ok that]
    by (auto simp: bit_push_bit_iff bit_and_iff bit_mask_iff bit_signed_drop_bit_iff)
  have "y = x" if "y < 32 div nbits" "bit (?part y) (?s x + k)" for y
  proof -
    have "?s y \<le> ?s x + k" and "?s x + k - ?s y < nbits"
      using that(2) by (auto simp: bit_push_bit_iff bit_and_iff bit_mask_iff)
    then show ?thesis
      using interleave_position [OF ok that(1) x, of "?s x + k - ?s y" k] k by simp
  qed
  then have "(\<exists>y \<in> set [0..<32 div nbits]. bit (?part y) (?s x + k)) \<longleftrightarrow> bit (?part x) (?s x + k)"
    using x by (metis atLeastLessThan_iff le0 set_upt)
  then show ?thesis unfolding all bit_fold_or part [OF x k] by simp
qed

lemma interleave_field:
  assumes "layout_ok stride nbits" and "x < 32 div nbits"
  shows "field nbits (interleave_word stride nbits q) (interleave_shift stride nbits x) = field nbits q (nbits * x)"
  using bit_interleave [OF assms] by (rule field_eqI)

section \<open>Conversions are right\<close>

lemma bit_exp_word: "bit (2 ^ n :: 'a::len word) i \<longleftrightarrow> i = n \<and> n < LENGTH('a)"
  by (auto simp: bit_exp_iff)

lemma and_exp_eq_0: "(val :: 'a::len word) AND 2 ^ n = 0 \<longleftrightarrow> \<not> bit val n"
proof
  assume "val AND 2 ^ n = 0"
  then have "\<not> bit (val AND 2 ^ n) n" by simp
  then show "\<not> bit val n" by (auto simp: bit_and_iff bit_exp_word dest: bit_imp_le_length)
next
  assume "\<not> bit val n"
  then show "val AND 2 ^ n = 0" by (intro bit_word_eqI) (auto simp: bit_and_iff bit_exp_word)
qed

lemma bits_16:
  "bit (0x40 :: 16 word) i \<longleftrightarrow> i = 6" "bit (0x2000 :: 16 word) i \<longleftrightarrow> i = 13"
  "bit (0x4000 :: 16 word) i \<longleftrightarrow> i = 14" "bit (63 :: 16 word) i \<longleftrightarrow> i < 6"
  using bit_exp_word [of 6 i, where 'a = 16] bit_exp_word [of 13 i, where 'a = 16] bit_exp_word [of 14 i, where 'a = 16]
    bit_mask_iff [of 6 i, where 'a = "16 word"]
  by (auto simp: mask_eq_exp_minus_1)

lemma e4m3_test: "(val :: 16 word) AND 0x40 = 0 \<longleftrightarrow> \<not> bit val 6"
  using and_exp_eq_0 [of val 6] by simp

lemma bit_if: "bit (if c then v else w) i = (if c then bit v i else bit w i)"
  by simp

text \<open>The bits of a converted number: exponent and fraction move up by seven, and the bias grows by eight.\<close>

definition e4m3_bit :: "16 word \<Rightarrow> nat \<Rightarrow> bool" where
  "e4m3_bit val i \<longleftrightarrow>
     7 \<le> i \<and> i < 13 \<and> bit val (i - 7) \<or> i = 13 \<and> \<not> bit val 6 \<or> i = 14 \<and> bit val 6 \<or> i = 15 \<and> bit val 7"

lemmas bit_ops = bit_or_iff bit_xor_iff bit_and_iff bit_push_bit_iff bit_drop_bit_eq bits_16

lemma bit_e4m3: "bit (u8_to_f8_e4m3_to_f16 val) i = e4m3_bit val i"
proof -
  consider "i = 13" | "i = 14" | "i = 15" | "i < 13" | "16 \<le> i" by linarith
  then show ?thesis
    unfolding u8_to_f8_e4m3_to_f16_def Let_def e4m3_bit_def bit_ops comp_def
    by cases auto
qed

lemma bit_e4m3_naive: "bit (u8_to_f8_e4m3_to_f16_naive val) i = e4m3_bit val i"
proof -
  consider "i = 13" | "i = 14" | "i = 15" | "i < 13" | "16 \<le> i" by linarith
  then show ?thesis
    unfolding u8_to_f8_e4m3_to_f16_naive_def Let_def e4m3_test e4m3_bit_def bit_ops bit_if comp_def
    by cases auto
qed

lemma field_Suc: "field (Suc n) w p = field n w p + 2 ^ n * of_bool (bit w (p + n))"
proof -
  have "field m w p = take_bit m (unat (drop_bit p w))" for m by (simp add: field_def unsigned_take_bit_eq)
  moreover have "bit (unat (drop_bit p w)) n = bit w (p + n)"
    by (auto simp: bit_unsigned_iff bit_drop_bit_eq dest: bit_imp_le_length)
  ultimately show ?thesis using take_bit_Suc_from_most [of n "unat (drop_bit p w)"] by simp
qed

lemma field_zero: "(\<And>k. k < n \<Longrightarrow> \<not> bit w (p + k)) \<Longrightarrow> field n w p = 0"
  by (rule bit_eqI) (auto simp: bit_field)

lemma pow2_add: "pow2 (a + int n) = pow2 a * 2 ^ n"
proof (induction n)
  case (Suc n)
  have "pow2 (b + 1) = pow2 b * 2" for b
  proof (cases "0 \<le> b")
    case True then show ?thesis by (simp add: pow2_def nat_add_distrib)
  next
    case False
    then have "nat (- b) = Suc (nat (- (b + 1)))" by linarith
    then show ?thesis using False by (auto simp: pow2_def)
  qed
  from this [of "a + int n"] Suc show ?case by (simp add: ac_simps)
qed (simp add: pow2_def)

lemma e4m3_fields:
  fixes b :: "8 word"
  defines "w \<equiv> u8_to_f8_e4m3_to_f16 (ucast b)"
  shows "bit w 15 = bit b 7" and "field 10 w 0 = 128 * field 3 b 0" and "field 5 w 10 = field 4 b 3 + 8"
proof -
  have w: "bit w i = e4m3_bit (ucast b) i" for i by (simp add: w_def bit_e4m3)
  have u: "bit (ucast b :: 16 word) i = bit b i" for i
    by (auto simp: bit_unsigned_iff dest: bit_imp_le_length)
  show "bit w 15 = bit b 7" by (simp add: w e4m3_bit_def u)
  show "field 10 w 0 = 128 * field 3 b 0"
  proof -
    have "field 10 w 0 = push_bit 7 (field 3 b 0)"
      by (rule bit_eqI) (auto simp: bit_field bit_push_bit_iff w e4m3_bit_def u)
    then show ?thesis by (simp add: push_bit_eq_mult)
  qed
  show "field 5 w 10 = field 4 b 3 + 8"
  proof -
    have "field 3 w 10 = field 3 b 3" by (rule field_eqI) (auto simp: w e4m3_bit_def u)
    moreover have "field 5 w 10 = field 3 w 10 + 8 * of_bool (bit w 13) + 16 * of_bool (bit w 14)"
      using field_Suc [of 3 w 10] field_Suc [of 4 w 10] by (simp add: eval_nat_numeral)
    moreover have "field 4 b 3 = field 3 b 3 + 8 * of_bool (bit b 6)"
      using field_Suc [of 3 b 3] by (simp add: eval_nat_numeral)
    ultimately show ?thesis by (simp add: w e4m3_bit_def u)
  qed
qed

text \<open>
  C33: The conversion of eight bit floats without a branch computes what the naive one does, for every word,
  and the half precision number that it returns is the number that the eight bits denote, whenever
  their exponent is not zero.
\<close>

theorem e4m3_convert_correct:
  "u8_to_f8_e4m3_to_f16 val = u8_to_f8_e4m3_to_f16_naive val \<and>
   (field 4 b 3 \<noteq> 0 \<longrightarrow> f16_value (u8_to_f8_e4m3_to_f16 (ucast b)) = e4m3_value b)"
proof
  show "u8_to_f8_e4m3_to_f16 val = u8_to_f8_e4m3_to_f16_naive val"
    by (rule bit_word_eqI) (simp add: bit_e4m3 bit_e4m3_naive)
  show "field 4 b 3 \<noteq> 0 \<longrightarrow> f16_value (u8_to_f8_e4m3_to_f16 (ucast b)) = e4m3_value b"
  proof
    assume e: "field 4 b 3 \<noteq> 0"
    have "of_nat (2 ^ 10 + 128 * f) * pow2 x = of_nat (2 ^ 3 + f) * pow2 (x + 7)" for f :: nat and x
      using pow2_add [of x 7] by (simp add: algebra_simps)
    from this [of "field 3 b 0" "int (field 4 b 3) - 17"] e
    show "f16_value (u8_to_f8_e4m3_to_f16 (ucast b)) = e4m3_value b"
      by (simp add: f16_value_def e4m3_value_def binary_value_def e4m3_fields algebra_simps)
  qed
qed

theorem e4m3_convert_correct_witness:
  "field 4 (0x3A :: 8 word) 3 \<noteq> 0 \<and> f16_value (u8_to_f8_e4m3_to_f16 0x3A) = e4m3_value 0x3A"
proof -
  have "field 4 (0x3A :: 8 word) 3 \<noteq> 0" by (simp add: field_def)
  then show ?thesis using e4m3_convert_correct [of 0 "0x3A"] by simp
qed

text \<open>An exponent of zero is converted as if it had a hidden one: zero becomes a power of two.\<close>

theorem e4m3_zero_not_zero: "e4m3_value 0 = 0 \<and> f16_value (u8_to_f8_e4m3_to_f16 0) = 1 / 128"
  by (simp add: e4m3_value_def f16_value_def binary_value_def field_def pow2_def u8_to_f8_e4m3_to_f16_def)


section \<open>Sign extension\<close>

lemma extend_sign_take: "0 < n \<Longrightarrow> n \<le> 32 \<Longrightarrow> extend_sign n u = signed_take_bit (n - 1) (uint u)"
proof -
  assume n: "0 < n" "n \<le> 32"
  have "signed_drop_bit (32 - n) (push_bit (32 - n) (u AND mask n)) = signed_take_bit (n - 1) u"
  proof (rule bit_word_eqI)
    fix i
    assume i: "i < LENGTH(32)"
    show "bit (signed_drop_bit (32 - n) (push_bit (32 - n) (u AND mask n))) i = bit (signed_take_bit (n - 1) u) i"
    proof (cases "n \<le> i")
      case True
      then show ?thesis using n i by (auto simp: bit_signed_drop_bit_iff bit_push_bit_iff bit_and_iff bit_mask_iff bit_signed_take_bit_iff min_def)
    next
      case False
      then have "min (n - 1) i = i" and "32 - n + i < 32" using n by linarith+
      then show ?thesis using n i False
        by (auto simp: bit_signed_drop_bit_iff bit_push_bit_iff bit_and_iff bit_mask_iff bit_signed_take_bit_iff)
    qed
  qed
  moreover have "sint (signed_take_bit (n - 1) u) = signed_take_bit (n - 1) (uint u)"
    using n by (intro bit_eqI) (auto simp: bit_sint_iff bit_uint_iff bit_signed_take_bit_iff min_def)
  ultimately show ?thesis by (simp add: extend_sign_def)
qed

lemma extend_sign_field:
  assumes n: "0 < n" "n \<le> 32"
  shows "extend_sign n u = int (field n u 0) - (if 2 ^ (n - 1) \<le> field n u 0 then 2 ^ n else 0)"
proof -
  obtain m where m: "n = Suc m" using n by (cases n) auto
  have f: "int (field n u 0) = take_bit n (uint u)" by (simp add: field_0 unsigned_take_bit_eq of_nat_take_bit)
  have "field n u 0 = field m u 0 + 2 ^ m * of_bool (bit u m)" unfolding m by (simp add: field_Suc)
  then have "2 ^ m \<le> field n u 0 \<longleftrightarrow> bit (uint u) m"
    using field_less [of m u 0] by (auto simp: bit_uint_iff dest: bit_imp_le_length)
  moreover have "extend_sign n u = take_bit n (uint u) - 2 ^ n * of_bool (bit (uint u) m)"
    using extend_sign_take [OF n, of u] by (simp add: m signed_take_bit_eq_take_bit_minus)
  ultimately show ?thesis using f by (simp add: m)
qed

text \<open>The field that a shift of the widened storage leaves in the low bits.\<close>

lemma shifted_field:
  assumes "p + n \<le> LENGTH('s::len)" and "LENGTH('s) \<le> 32"
  shows "field n (signed_drop_bit p (ucast (val :: 's word)) :: 32 word) 0 = field n val p"
    and "field n (signed_drop_bit p (scast val) :: 32 word) 0 = field n val p"
proof -
  have bits: "bit (signed_drop_bit p w) k = bit w (p + k)" if "k < n" for k and w :: "32 word"
    using that assms by (auto simp: bit_signed_drop_bit_iff)
  have low: "min (LENGTH('s) - Suc 0) (p + k) = p + k" and "p + k < 32" if "k < n" for k
    using that assms by linarith+
  then show "field n (signed_drop_bit p (ucast val) :: 32 word) 0 = field n val p"
    and "field n (signed_drop_bit p (scast val) :: 32 word) 0 = field n val p"
    by (auto intro!: field_eqI simp: bits bit_unsigned_iff bit_signed_iff low)
qed

text \<open>
  A packed signed integer is read as the number of its bits in two's complement, from signed
  storage and from unsigned storage of at most 32 bits, at every position within the storage.
\<close>

theorem packed_signed_value:
  assumes n: "0 < n" and p: "pos * n + n \<le> LENGTH('s::len)" and s: "LENGTH('s) \<le> 32"
  shows "packed_int_to_int_convert n (val :: 's word) pos = packed_int_to_int_to_float n val pos \<and>
    packed_int_to_int_convert n val pos =
      int (field n val (pos * n)) - (if 2 ^ (n - 1) \<le> field n val (pos * n) then 2 ^ n else 0)"
  using assms by (simp add: packed_int_to_int_convert_def packed_int_to_int_to_float_def extend_sign_field shifted_field)

theorem packed_signed_value_witness: "packed_int_to_int_convert 4 (0x9F :: 8 word) 1 = - 7"
  using packed_signed_value [of 4 1 "0x9F :: 8 word"] by (simp add: field_def)

section \<open>Rounding to bfloat16\<close>

lemma bf16_pair: "u32_to_bf16x2_to_f32x2 (f32x2_to_bf16x2_to_u32 v w r) = (push_bit 16 (bf16_bits r v), push_bit 16 (bf16_bits r w))"
proof -
  have small: "bit (bf16_bits r x) i \<Longrightarrow> i < 16" for x i
    by (simp add: bf16_bits_def Let_def bit_and_iff bit_mask_iff)
  have "(bf16_bits r v OR push_bit 16 (bf16_bits r w)) AND mask 16 = bf16_bits r v"
    by (intro bit_word_eqI) (auto simp: bit_or_iff bit_and_iff bit_mask_iff bit_push_bit_iff dest: small)
  moreover have "drop_bit 16 (bf16_bits r v OR push_bit 16 (bf16_bits r w)) AND mask 16 = bf16_bits r w"
    by (intro bit_word_eqI) (auto simp: bit_or_iff bit_and_iff bit_mask_iff bit_push_bit_iff bit_drop_bit_eq dest: small)
  ultimately show ?thesis by (simp add: u32_to_bf16x2_to_f32x2_def f32x2_to_bf16x2_to_u32_def)
qed

lemma unat_bf16:
  assumes "unat v + 0x8000 < 2 ^ 32"
  shows "unat (push_bit 16 (bf16_bits True v)) = (unat v + (unat v div 2 ^ 16 mod 2 + 0x7FFF)) div 2 ^ 16 * 2 ^ 16"
proof -
  let ?l = "drop_bit 16 v AND 1" and ?q = "unat v div 2 ^ 16"
  have l: "unat ?l = ?q mod 2"
    by (simp add: and_one_eq unat_mod unat_div drop_bit_eq_div)
  have m: "?q mod 2 \<le> 1" by (simp add: less_Suc_eq_le [symmetric])
  have "unat ?l + unat (0x7FFF :: 32 word) < 2 ^ LENGTH(32)" using l m by simp
  then have inner: "unat (?l + 0x7FFF) = ?q mod 2 + 0x7FFF" unfolding unat_add_lem using l by simp
  have "unat v + unat (?l + 0x7FFF) < 2 ^ LENGTH(32)" using inner m assms by simp
  then have sum: "unat (v + (?l + 0x7FFF)) = unat v + (?q mod 2 + 0x7FFF)" unfolding unat_add_lem using inner by simp
  let ?s = "unat v + (?q mod 2 + 0x7FFF)"
  have s: "?s < 2 ^ 32" using m assms by simp
  have "unat (drop_bit 16 (v + (?l + 0x7FFF)) AND mask 16) = take_bit 16 (?s div 2 ^ 16)"
    unfolding take_bit_eq_mask [symmetric] unsigned_take_bit_eq unat_drop_bit_eq sum by (simp only: drop_bit_eq_div)
  also have "\<dots> = ?s div 2 ^ 16" using s by (intro take_bit_nat_eq_self) (simp add: less_mult_imp_div_less)
  finally have bits: "unat (bf16_bits True v) = ?s div 2 ^ 16" by (simp add: bf16_bits_def)
  have "?s div 2 ^ 16 * 2 ^ 16 \<le> ?s" by (rule div_times_less_eq_dividend)
  then have "?s div 2 ^ 16 * 2 ^ 16 < 2 ^ LENGTH(32)" using s by simp
  then show ?thesis unfolding unsigned_push_bit_eq bits by (simp only: push_bit_eq_mult take_bit_nat_eq_self)
qed

lemma round_nearest_even:
  fixes v :: nat
  defines "r \<equiv> (v + (v div 65536 mod 2 + 0x7FFF)) div 65536 * 65536"
  shows "\<bar>int r - int v\<bar> \<le> 32768" and "\<bar>int r - int v\<bar> = 32768 \<Longrightarrow> even (r div 65536)"
proof -
  obtain q m where v: "v = 65536 * q + m" "m < 65536" by (metis mod_less_divisor mult_div_mod_eq zero_less_numeral)
  have q: "v div 65536 = q" using v by simp
  have "v + (q mod 2 + 0x7FFF) = m + (q mod 2 + 0x7FFF) + q * 65536" using v(1) by simp
  then have "r = (q + (m + (q mod 2 + 0x7FFF)) div 65536) * 65536"
    unfolding r_def q by (simp only: div_mult_self1 zero_neq_numeral)
  moreover have "(m + (q mod 2 + 0x7FFF)) div 65536 = (if m + q mod 2 + 0x7FFF < 65536 then 0 else 1)"
    using v(2) mod_less_divisor [of 2 q] by (auto simp: div_if)
  ultimately show "\<bar>int r - int v\<bar> \<le> 32768" and "\<bar>int r - int v\<bar> = 32768 \<Longrightarrow> even (r div 65536)"
    using v by (auto split: if_splits)
qed

text \<open>
  C32: Two single precision numbers packed as bfloat16 are read back rounded to the nearest: on the bits,
  ordered like the numbers of one sign, the error is at most half a unit of the upper half, and in a
  tie the upper half is even.  Without rounding the lower half is cut off.  The bits of the number must not
  be within half a unit of the largest word.
\<close>

theorem bf16_round_trip:
  assumes "unat v + 0x8000 < 2 ^ 32" and "unat w + 0x8000 < 2 ^ 32"
    and "(v', w') = u32_to_bf16x2_to_f32x2 (f32x2_to_bf16x2_to_u32 v w True)"
  shows "\<bar>int (unat v') - int (unat v)\<bar> \<le> 2 ^ 15 \<and> \<bar>int (unat w') - int (unat w)\<bar> \<le> 2 ^ 15 \<and>
    2 ^ 16 dvd unat v' \<and> 2 ^ 16 dvd unat w' \<and>
    (\<bar>int (unat v') - int (unat v)\<bar> = 2 ^ 15 \<longrightarrow> even (unat v' div 2 ^ 16)) \<and>
    u32_to_bf16x2_to_f32x2 (f32x2_to_bf16x2_to_u32 v w False) =
      (push_bit 16 (drop_bit 16 v), push_bit 16 (drop_bit 16 w))"
proof -
  have v: "unat v' = (unat v + (unat v div 65536 mod 2 + 0x7FFF)) div 65536 * 65536"
    and w: "unat w' = (unat w + (unat w div 65536 mod 2 + 0x7FFF)) div 65536 * 65536"
    using unat_bf16 [OF assms(1)] unat_bf16 [OF assms(2)] assms(3) by (simp_all add: bf16_pair)
  have "bf16_bits False x = drop_bit 16 x" for x
    by (rule bit_word_eqI) (auto simp: bf16_bits_def bit_and_iff bit_mask_iff bit_drop_bit_eq dest: bit_imp_le_length)
  then have cut: "u32_to_bf16x2_to_f32x2 (f32x2_to_bf16x2_to_u32 v w False) =
      (push_bit 16 (drop_bit 16 v), push_bit 16 (drop_bit 16 w))" by (simp only: bf16_pair)
  have pow: "(2 :: nat) ^ 16 = 65536" "(2 :: int) ^ 15 = 32768" by simp_all
  show ?thesis unfolding v w pow cut
    using round_nearest_even [of "unat v"] round_nearest_even(1) [of "unat w"] by (intro conjI impI) (assumption | rule dvd_triv_right refl)+
qed

theorem bf16_round_trip_witness:
  "u32_to_bf16x2_to_f32x2 (f32x2_to_bf16x2_to_u32 0x3F808000 0x40490FDB True) = (0x3F800000, 0x40490000) \<and>
   even (unat (0x3F800000 :: 32 word) div 2 ^ 16)"
proof -
  have r: "(0x3F800000, 0x40490000) = u32_to_bf16x2_to_f32x2 (f32x2_to_bf16x2_to_u32 0x3F808000 0x40490FDB True)"
    by (simp add: u32_to_bf16x2_to_f32x2_def f32x2_to_bf16x2_to_u32_def bf16_bits_def mask_eq_exp_minus_1)
  show ?thesis using bf16_round_trip [OF _ _ r] r by simp
qed

text \<open>The rounding of a number that is not a number can wrap around to minus zero.\<close>

theorem bf16_nan_becomes_zero:
  "fst (u32_to_bf16x2_to_f32x2 (f32x2_to_bf16x2_to_u32 0xFFFFFFFF 0 True)) = 0 \<and>
   fst (u32_to_bf16x2_to_f32x2 (f32x2_to_bf16x2_to_u32 0x7FFFFFFF 0 True)) = 0x80000000"
  by (simp add: u32_to_bf16x2_to_f32x2_def f32x2_to_bf16x2_to_u32_def bf16_bits_def mask_eq_exp_minus_1)

section \<open>Four bit floats\<close>

lemma nibble_all:
  assumes "list_all (\<lambda>k. P (word_of_nat k :: 'a::len word)) [0..<16]"
  shows "P (x AND mask 4)"
proof -
  have "unat (x AND mask 4) < 16"
    using field_less [of 4 x 0] by (simp add: field_0 take_bit_eq_mask)
  then have "unat (x AND mask 4) \<in> set [0..<16]" by simp
  then have "P (word_of_nat (unat (x AND mask 4)))" using assms unfolding list_all_iff by blast
  then show ?thesis by simp
qed

lemma f4_nibbles:
  "list_all (\<lambda>k. let x = word_of_nat k :: 32 word in
     f32_to_uint_to_f4 (f4_to_f32 x) = (if x AND 7 = 0 then 0 else x) \<and>
     f16_to_uint_to_f4 (f4_to_f16 x) = (if x AND 7 = 0 then 0 else x)) [0..<16]"
  by code_simp

lemma f4_values:
  "list_all (\<lambda>k. let x = word_of_nat k :: 32 word in f16_value (f4_to_f16 x) = f32_value (f4_to_f32 x)) [0..<16]"
  by (simp add: upt_conv_Cons Let_def f4_to_f16_def f4_to_f32_def f16_value_def f32_value_def binary_value_def field_def pow2_def
      take_bit_eq_mask mask_eq_exp_minus_1)

text \<open>
  The four bit float survives the conversions to single and half precision and back, from every
  position of a 32 bit word, up to the sign of zero, and both conversions give the same number.
\<close>

theorem f4_round_trip:
  fixes val :: "32 word" and pos :: nat
  defines "f \<equiv> drop_bit (pos * 4) val AND mask 4"
  shows "f32_to_uint_to_f4 (u32_to_f4_to_f32 val pos) = (if f AND 7 = 0 then 0 else f) \<and>
    f16_to_uint_to_f4 (packed_to_fp4_to_f16 val pos) = (if f AND 7 = 0 then 0 else f) \<and>
    f16_value (packed_to_fp4_to_f16 val pos) = f32_value (u32_to_f4_to_f32 val pos)"
  unfolding u32_to_f4_to_f32_def packed_to_fp4_to_f16_def f_def
  using nibble_all [OF f4_nibbles [unfolded Let_def], of "drop_bit (pos * 4) val"]
    nibble_all [OF f4_values [unfolded Let_def], of "drop_bit (pos * 4) val"] by blast

text \<open>In storage of eight bits, the default, the shift to the exponent of a half leaves nothing.\<close>

theorem fp4_lost_in_bytes: "packed_to_fp4_to_f16 (val :: 8 word) pos = 0"
proof -
  have "push_bit 10 (x :: 8 word) = 0" for x by (rule bit_word_eqI) (simp add: bit_push_bit_iff)
  then show ?thesis by (simp add: packed_to_fp4_to_f16_def f4_to_f16_def Let_def)
qed

section \<open>Rearranging after the interleaving\<close>

text \<open>
  The place of element \<open>x\<close> in an interleaved word.  With one or two bits and half precision as the target, bytes of
  8 and words of 16 bits hold complete groups; with one bit and bytes as the target, words of 16 bits do.
\<close>

definition element_position :: "nat \<Rightarrow> string \<Rightarrow> nat \<Rightarrow> nat" where
  "element_position nbits target_dtype x =
     (if nbits = 1 \<and> target_dtype = ''int8''
      then 16 * (x div 16) + [0, 8, 4, 12] ! (x mod 4) + x mod 16 div 4
      else if nbits = 2 \<and> target_dtype = ''float16'' then 16 * (x div 8) + 8 * (x mod 2) + 2 * (x mod 8 div 2)
      else if nbits = 1 \<and> target_dtype = ''float16'' then 8 * (x div 8) + 4 * (x mod 2) + x mod 8 div 2
      else interleave_shift (if target_dtype = ''int8'' then 8 else 16) nbits x)"

lemma bit_range: "bit (push_bit a (mask n) :: 32 word) p \<longleftrightarrow> a \<le> p \<and> p < a + n \<and> p < 32"
  by (auto simp: bit_push_bit_iff bit_mask_iff)

lemma group_masks:
  "bit (0x000000F0 :: 32 word) p \<longleftrightarrow> 4 \<le> p \<and> p < 8" "bit (0x00000F00 :: 32 word) p \<longleftrightarrow> 8 \<le> p \<and> p < 12"
  "bit (0x0000F000 :: 32 word) p \<longleftrightarrow> 12 \<le> p \<and> p < 16" "bit (0x000F0000 :: 32 word) p \<longleftrightarrow> 16 \<le> p \<and> p < 20"
  "bit (0x00F00000 :: 32 word) p \<longleftrightarrow> 20 \<le> p \<and> p < 24" "bit (0x0F000000 :: 32 word) p \<longleftrightarrow> 24 \<le> p \<and> p < 28"
  "bit (0x0000FF00 :: 32 word) p \<longleftrightarrow> 8 \<le> p \<and> p < 16" "bit (0x00FF0000 :: 32 word) p \<longleftrightarrow> 16 \<le> p \<and> p < 24"
  "bit (0xF0F00F0F :: 32 word) p \<longleftrightarrow> p < 4 \<or> 8 \<le> p \<and> p < 12 \<or> 20 \<le> p \<and> p < 24 \<or> 28 \<le> p \<and> p < 32"
  "bit (0xFF0000FF :: 32 word) p \<longleftrightarrow> p < 8 \<or> 24 \<le> p \<and> p < 32"
  "bit (0xF000000F :: 32 word) p \<longleftrightarrow> p < 4 \<or> 28 \<le> p \<and> p < 32"
proof -
  note m = mask_eq_exp_minus_1
  have "(0x000000F0 :: 32 word) = push_bit 4 (mask 4)" "(0x00000F00 :: 32 word) = push_bit 8 (mask 4)"
    "(0x0000F000 :: 32 word) = push_bit 12 (mask 4)" "(0x000F0000 :: 32 word) = push_bit 16 (mask 4)"
    "(0x00F00000 :: 32 word) = push_bit 20 (mask 4)" "(0x0F000000 :: 32 word) = push_bit 24 (mask 4)"
    "(0x0000FF00 :: 32 word) = push_bit 8 (mask 8)" "(0x00FF0000 :: 32 word) = push_bit 16 (mask 8)"
    "(0xF0F00F0F :: 32 word) = mask 4 OR push_bit 8 (mask 4) OR push_bit 20 (mask 4) OR push_bit 28 (mask 4)"
    "(0xFF0000FF :: 32 word) = mask 8 OR push_bit 24 (mask 8)"
    "(0xF000000F :: 32 word) = mask 4 OR push_bit 28 (mask 4)" by (simp_all add: m)
  note masks = this
  show "bit (0x000000F0 :: 32 word) p \<longleftrightarrow> 4 \<le> p \<and> p < 8" "bit (0x00000F00 :: 32 word) p \<longleftrightarrow> 8 \<le> p \<and> p < 12"
    "bit (0x0000F000 :: 32 word) p \<longleftrightarrow> 12 \<le> p \<and> p < 16" "bit (0x000F0000 :: 32 word) p \<longleftrightarrow> 16 \<le> p \<and> p < 20"
    "bit (0x00F00000 :: 32 word) p \<longleftrightarrow> 20 \<le> p \<and> p < 24" "bit (0x0F000000 :: 32 word) p \<longleftrightarrow> 24 \<le> p \<and> p < 28"
    "bit (0x0000FF00 :: 32 word) p \<longleftrightarrow> 8 \<le> p \<and> p < 16" "bit (0x00FF0000 :: 32 word) p \<longleftrightarrow> 16 \<le> p \<and> p < 24"
    "bit (0xF0F00F0F :: 32 word) p \<longleftrightarrow> p < 4 \<or> 8 \<le> p \<and> p < 12 \<or> 20 \<le> p \<and> p < 24 \<or> 28 \<le> p \<and> p < 32"
    "bit (0xFF0000FF :: 32 word) p \<longleftrightarrow> p < 8 \<or> 24 \<le> p \<and> p < 32"
    "bit (0xF000000F :: 32 word) p \<longleftrightarrow> p < 4 \<or> 28 \<le> p \<and> p < 32"
    unfolding masks bit_or_iff bit_range by (auto simp: bit_mask_iff)
qed

lemma bit_moved:
  "\<not> bit msk 31 \<Longrightarrow> bit (moved w (down, up, msk)) p \<longleftrightarrow>
     up \<le> p \<and> p < 32 \<and> down + p - up < 32 \<and> bit w (down + p - up) \<and> bit msk (down + p - up)"
  unfolding moved_def by (auto simp: bit_push_bit_iff bit_signed_drop_bit_iff bit_and_iff)

lemma rearrange_Inr:
  assumes "\<And>n. int32 n = Inr (word_of_int n)"
  shows "rearrange int32 kept moves w =
    Inr (fold (\<lambda>p acc. acc OR moved w p) (map (\<lambda>(m, down, up). (down, up, word_of_int m)) moves) (w AND word_of_int kept))"
proof -
  have "rmap (\<lambda>(m, down, up). rbind (int32 m) (\<lambda>msk. Inr (down, up, msk))) moves =
      Inr (map (\<lambda>(m, down, up). (down, up, word_of_int m)) moves)" for moves :: "(int \<times> nat \<times> nat) list"
    by (induction moves) (auto simp: assms)
  then show ?thesis by (simp add: rearrange_def assms)
qed

text \<open>Which group of four bits of the interleaved word each group of the result is.\<close>

definition source_groups :: "nat \<Rightarrow> string \<Rightarrow> nat list" where
  "source_groups nbits target_dtype =
     (if target_dtype = ''int8'' then [0, 4, 2, 6, 1, 5, 3, 7]
      else if nbits = 2 then [0, 1, 4, 5, 2, 3, 6, 7] else [0, 4, 1, 5, 2, 6, 3, 7])"

lemma special_bits:
  assumes int32: "\<And>n. int32 n = Inr (word_of_int n)" and special: "special_moves nbits t = Some (kept, moves)"
  obtains r where "rearrange int32 kept moves w = Inr r"
    and "\<And>j k. j < 8 \<Longrightarrow> k < 4 \<Longrightarrow> bit r (4 * j + k) = bit w (4 * (source_groups nbits t ! j) + k)"
proof
  show "rearrange int32 kept moves w = Inr (fold (\<lambda>p acc. acc OR moved w p)
      (map (\<lambda>(m, down, up). (down, up, word_of_int m)) moves) (w AND word_of_int kept))" (is "_ = Inr ?r")
    using int32 by (rule rearrange_Inr)
  fix j k :: nat
  assume jk: "j < 8" "k < 4"
  let ?P = "\<lambda>kept moves. \<lambda>j. bit (fold (\<lambda>p acc. acc OR moved w p)
      (map (\<lambda>(m, down, up). (down, up, word_of_int m)) moves) (w AND word_of_int kept)) (4 * j + k) =
      bit w (4 * (source_groups nbits t ! j) + k)"
  from jk(1) have j: "j \<in> set [0, 1, 2, 3, 4, 5, 6, 7]" by auto
  consider "nbits = 1 \<and> t = ''int8''" | "nbits = 2 \<and> t = ''float16''" | "nbits = 1 \<and> t = ''float16''"
    using special by (auto simp: special_moves_def split: if_splits)
  then have "list_all (?P kept moves) [0, 1, 2, 3, 4, 5, 6, 7]" using special jk(2)
    by cases (auto simp: special_moves_def source_groups_def bit_or_iff bit_and_iff bit_moved group_masks
        simp del: bit_numeral_word_iff)
  then show "bit ?r (4 * j + k) = bit w (4 * (source_groups nbits t ! j) + k)"
    using j unfolding list_all_iff by blast
qed

text \<open>The tables agree: the group of each element of the result is the one it was dealt to.\<close>

lemma element_groups:
  assumes "special_moves nbits t \<noteq> None"
  shows "list_all (\<lambda>x. list_all (\<lambda>k. let p = element_position nbits t x + k in
      p < 32 \<and> 4 * (source_groups nbits t ! (p div 4)) + p mod 4 =
        interleave_shift (if t = ''int8'' then 8 else 16) nbits x + k) [0..<nbits]) [0..<32 div nbits]"
proof -
  consider "nbits = 1 \<and> t = ''int8''" | "nbits = 2 \<and> t = ''float16''" | "nbits = 1 \<and> t = ''float16''"
    using assms by (auto simp: special_moves_def split: if_splits)
  then show ?thesis by cases (clarify, code_simp)+
qed

lemma interleave_one_field:
  assumes int32: "\<And>n. int32 n = Inr (word_of_int n)" and ok: "layout_ok (if t = ''int8'' then 8 else 16) nbits"
  obtains r where "interleave_one int32 nbits t w = Inr r"
    and "\<And>x. x < 32 div nbits \<Longrightarrow> field nbits r (element_position nbits t x) = field nbits w (nbits * x)"
proof (cases "special_moves nbits t")
  case None
  then have "element_position nbits t x = interleave_shift (if t = ''int8'' then 8 else 16) nbits x" for x
    by (auto simp: special_moves_def element_position_def split: if_splits)
  then show thesis using None that interleave_field [OF ok] by (simp add: interleave_one_def)
next
  case (Some m)
  obtain kept moves where m: "m = (kept, moves)" by (cases m)
  let ?w = "interleave_word (if t = ''int8'' then 8 else 16) nbits w"
  obtain r where r: "rearrange int32 kept moves ?w = Inr r"
    and bits: "\<And>j k. j < 8 \<Longrightarrow> k < 4 \<Longrightarrow> bit r (4 * j + k) = bit ?w (4 * (source_groups nbits t ! j) + k)"
    using special_bits [OF int32 Some [unfolded m], where w = ?w] by blast
  show thesis
  proof (rule that)
    show "interleave_one int32 nbits t w = Inr r" using Some m r by (simp add: interleave_one_def)
    fix x
    assume x: "x < 32 div nbits"
    have "field nbits r (element_position nbits t x) = field nbits ?w (interleave_shift (if t = ''int8'' then 8 else 16) nbits x)"
    proof (rule field_eqI)
      fix k
      assume k: "k < nbits"
      let ?p = "element_position nbits t x + k"
      have p: "?p < 32" "4 * (source_groups nbits t ! (?p div 4)) + ?p mod 4 =
          interleave_shift (if t = ''int8'' then 8 else 16) nbits x + k"
        using element_groups [of nbits t] Some x k by (auto simp: list_all_iff Let_def)
      have "bit r (4 * (?p div 4) + ?p mod 4) = bit ?w (4 * (source_groups nbits t ! (?p div 4)) + ?p mod 4)"
        using p(1) by (intro bits) auto
      then show "bit r ?p = bit ?w (interleave_shift (if t = ''int8'' then 8 else 16) nbits x + k)" using p(2) by simp
    qed
    then show "field nbits r (element_position nbits t x) = field nbits w (nbits * x)"
      using interleave_field [OF ok x] by simp
  qed
qed

lemma interleave_one_raises:
  assumes "\<And>n. int32 n = Inl e" and "special_moves nbits t \<noteq> None"
  shows "interleave_one int32 nbits t w = Inl e"
  using assms by (auto simp: interleave_one_def rearrange_def)



end
