(* ===== verification/Lop3.thy ===== *)
theory Lop3
  imports Quantize
begin

text \<open>
  The device functions that decode packed weights in registers (\<^verbatim>\<open>quantize/lop3.py\<close>).  A PTX instruction
  \<^verbatim>\<open>lop3\<close> takes the fields out of a word and puts them under the exponent of 1024, so that a subtraction of half
  precision numbers gives the weight; for bytes the fields are the result.

  A register is a 32 bit word, and the halves of it are numbers of half precision: finite ones, the infinities and
  NaN.  An instruction computes exactly and rounds once, to the nearest number and to even in a tie.
  A zero has no sign here.  Pointers to scales and zeros are the words they point to.
\<close>

section \<open>Instructions\<close>

text \<open>A bitwise operation of three words: bit \<open>4 a + 2 b + c\<close> of the table is the result for bits \<open>a\<close>, \<open>b\<close> and \<open>c\<close>.\<close>

definition lut_term :: "nat \<Rightarrow> 32 word \<Rightarrow> 32 word \<Rightarrow> 32 word \<Rightarrow> 32 word" where
  "lut_term i a b c =
     (if bit i 2 then a else NOT a) AND (if bit i 1 then b else NOT b) AND (if bit i 0 then c else NOT c)"

definition lop3 :: "8 word \<Rightarrow> 32 word \<Rightarrow> 32 word \<Rightarrow> 32 word \<Rightarrow> 32 word" where
  "lop3 lut a b c = fold (\<lambda>i acc. acc OR (if bit lut i then lut_term i a b c else 0)) [0..<8] 0"

definition immLut :: "8 word" where
  "immLut = (0xf0 AND 0xcc) OR 0xaa"

text \<open>
  Numbers of half precision.  The exponents of normal numbers are -14 to 15, and smaller numbers have the
  spacing of the smallest exponent; what rounds to 65536 or more overflows.
\<close>

datatype half = HFin rat | HInf bool | HNaN

definition half_of :: "16 word \<Rightarrow> half" where
  "half_of w = (if field 5 w 10 = 31 then if field 10 w 0 = 0 then HInf (bit w 15) else HNaN else HFin (f16_value w))"

definition finite_half :: "16 word \<Rightarrow> bool" where
  "finite_half w \<longleftrightarrow> field 5 w 10 \<noteq> 31"

fun f16_exponent :: "nat \<Rightarrow> rat \<Rightarrow> int" where
  "f16_exponent 0 x = - 14"
| "f16_exponent (Suc k) x = (if pow2 (int k - 13) \<le> \<bar>x\<bar> then int k - 13 else f16_exponent k x)"

definition half_even :: "rat \<Rightarrow> int" where
  "half_even y =
     (let f = \<lfloor>y\<rfloor>; r = y - of_int f
      in if r < 1 / 2 \<or> r = 1 / 2 \<and> even f then f else f + 1)"

definition f16_near :: "rat \<Rightarrow> rat" where
  "f16_near x = (let u = pow2 (f16_exponent 29 x - 10) in of_int (half_even (x / u)) * u)"

definition round_f16 :: "rat \<Rightarrow> half" where
  "round_f16 x = (if \<bar>f16_near x\<bar> < 65536 then HFin (f16_near x) else HInf (x < 0))"

text \<open>The exact product, the rounded sum, and the instructions made of them.\<close>

fun half_times :: "half \<Rightarrow> half \<Rightarrow> half" where
  "half_times (HFin x) (HFin y) = HFin (x * y)"
| "half_times (HInf s) (HFin y) = (if y = 0 then HNaN else HInf (s \<noteq> (y < 0)))"
| "half_times (HFin x) (HInf t) = (if x = 0 then HNaN else HInf ((x < 0) \<noteq> t))"
| "half_times (HInf s) (HInf t) = HInf (s \<noteq> t)"
| "half_times HNaN _ = HNaN"
| "half_times _ HNaN = HNaN"

fun half_plus :: "half \<Rightarrow> half \<Rightarrow> half" where
  "half_plus (HFin x) (HFin y) = round_f16 (x + y)"
| "half_plus (HInf s) (HFin y) = HInf s"
| "half_plus (HFin x) (HInf t) = HInf t"
| "half_plus (HInf s) (HInf t) = (if s = t then HInf s else HNaN)"
| "half_plus HNaN _ = HNaN"
| "half_plus _ HNaN = HNaN"

fun half_minus :: "half \<Rightarrow> half" where
  "half_minus (HFin x) = HFin (- x)"
| "half_minus (HInf s) = HInf (\<not> s)"
| "half_minus HNaN = HNaN"

type_synonym half_pair = "half \<times> half"

definition half2 :: "32 word \<Rightarrow> half_pair" where
  "half2 w = (half_of (ucast w), half_of (ucast (drop_bit 16 w)))"

definition pack_half2 :: "16 word \<Rightarrow> 16 word \<Rightarrow> 32 word" where
  "pack_half2 x y = ucast x OR push_bit 16 (ucast y)"

fun add_f16x2 :: "half_pair \<Rightarrow> half_pair \<Rightarrow> half_pair" where
  "add_f16x2 (a, b) (c, d) = (half_plus a c, half_plus b d)"

fun sub_f16x2 :: "half_pair \<Rightarrow> half_pair \<Rightarrow> half_pair" where
  "sub_f16x2 (a, b) (c, d) = (half_plus a (half_minus c), half_plus b (half_minus d))"

fun fma_f16x2 :: "half_pair \<Rightarrow> half_pair \<Rightarrow> half_pair \<Rightarrow> half_pair" where
  "fma_f16x2 (a, b) (c, d) (e, f) = (half_plus (half_times a c) e, half_plus (half_times b d) f)"

section \<open>Weights as half precision numbers\<close>

text \<open>The loop that all decoders share: two elements at a time, each pair then adjusted.\<close>

definition FP16_TOP_MAGIC_NUM :: "32 word" where
  "FP16_TOP_MAGIC_NUM = 0x64006400"

definition decode_pairs :: "nat \<Rightarrow> 32 word \<Rightarrow> (nat \<Rightarrow> half_pair \<Rightarrow> half_pair) \<Rightarrow> 32 word \<Rightarrow> nat \<Rightarrow> half list" where
  "decode_pairs step BOTTOM_MASK adjust w n =
     concat (map (\<lambda>i. case adjust i (half2 (lop3 immLut (drop_bit (step * i) w) BOTTOM_MASK FP16_TOP_MAGIC_NUM)) of
                        (x, y) \<Rightarrow> [x, y]) [0..<n div 2])"

definition median_i4 :: "bool \<Rightarrow> half_pair" where
  "median_i4 isSigned = half2 (if isSigned then 0x64086408 else 0x64006400)"

definition scaled_by :: "16 word \<Rightarrow> half_pair \<Rightarrow> half_pair" where
  "scaled_by scale h = fma_f16x2 h (half2 (pack_half2 scale scale)) (half2 0)"

definition minus_zeros :: "16 word \<Rightarrow> half_pair \<Rightarrow> half_pair" where
  "minus_zeros zeros h = sub_f16x2 h (half2 (pack_half2 zeros zeros))"

definition rescaled_by :: "16 word \<Rightarrow> 16 word \<Rightarrow> half_pair \<Rightarrow> half_pair" where
  "rescaled_by scale zeros h =
     fma_f16x2 h (half2 (pack_half2 scale scale)) (half2 (0x80008000 OR pack_half2 zeros zeros))"

text \<open>Minus 1024 and a quantized zero: the bits of the zero fill the fraction of -1024.\<close>

definition median_num :: "16 word \<Rightarrow> half_pair" where
  "median_num zero_r = half2 (push_bit 16 (0xe400 OR scast zero_r) OR (0xe400 OR scast zero_r))"

definition decode_i4b_to_f16 :: "bool \<Rightarrow> 32 word \<Rightarrow> nat \<Rightarrow> half list" where
  "decode_i4b_to_f16 isSigned i4s n =
     decode_pairs 4 0x000f000f (\<lambda>_ h. sub_f16x2 h (median_i4 isSigned)) i4s n"

definition decode_i4b_to_f16_scale :: "bool \<Rightarrow> 16 word \<Rightarrow> 32 word \<Rightarrow> nat \<Rightarrow> half list" where
  "decode_i4b_to_f16_scale isSigned scale i4s n =
     decode_pairs 4 0x000f000f (\<lambda>_ h. scaled_by scale (sub_f16x2 h (median_i4 isSigned))) i4s n"

text \<open>With an offset, the first half of the pairs has the scale (and zero) on the left and the second the one on the right.\<close>

definition side :: "nat \<Rightarrow> 'a \<times> 'a \<Rightarrow> nat \<Rightarrow> 'a" where
  "side n lr i = (if i < n div 4 then fst lr else snd lr)"

definition decode_i4b_to_f16_scale_offset :: "bool \<Rightarrow> 16 word \<times> 16 word \<Rightarrow> 32 word \<Rightarrow> nat \<Rightarrow> half list" where
  "decode_i4b_to_f16_scale_offset isSigned scales i4s n =
     decode_pairs 4 0x000f000f (\<lambda>i h. scaled_by (side n scales i) (sub_f16x2 h (median_i4 isSigned))) i4s n"

definition decode_i4b_to_f16_zeros_original :: "bool \<Rightarrow> 16 word \<Rightarrow> 16 word \<Rightarrow> 32 word \<Rightarrow> nat \<Rightarrow> half list" where
  "decode_i4b_to_f16_zeros_original isSigned scale zeros i4s n =
     decode_pairs 4 0x000f000f (\<lambda>_ h. scaled_by scale (minus_zeros zeros (sub_f16x2 h (median_i4 isSigned)))) i4s n"

definition decode_i4b_to_f16_zeros_original_offset ::
  "bool \<Rightarrow> 16 word \<times> 16 word \<Rightarrow> 16 word \<times> 16 word \<Rightarrow> 32 word \<Rightarrow> nat \<Rightarrow> half list" where
  "decode_i4b_to_f16_zeros_original_offset isSigned scales zeros i4s n =
     decode_pairs 4 0x000f000f (\<lambda>i h.
       scaled_by (side n scales i) (minus_zeros (side n zeros i) (sub_f16x2 h (median_i4 isSigned)))) i4s n"

definition decode_i4b_to_f16_scale_zeros_rescale :: "bool \<Rightarrow> 16 word \<Rightarrow> 16 word \<Rightarrow> 32 word \<Rightarrow> nat \<Rightarrow> half list" where
  "decode_i4b_to_f16_scale_zeros_rescale isSigned scale zeros i4s n =
     decode_pairs 4 0x000f000f (\<lambda>_ h. rescaled_by scale zeros (sub_f16x2 h (median_i4 isSigned))) i4s n"

definition decode_i4b_to_f16_scale_zeros_rescale_offset ::
  "bool \<Rightarrow> 16 word \<times> 16 word \<Rightarrow> 16 word \<times> 16 word \<Rightarrow> 32 word \<Rightarrow> nat \<Rightarrow> half list" where
  "decode_i4b_to_f16_scale_zeros_rescale_offset isSigned scales zeros i4s n =
     decode_pairs 4 0x000f000f (\<lambda>i h.
       rescaled_by (side n scales i) (side n zeros i) (sub_f16x2 h (median_i4 isSigned))) i4s n"

definition decode_i4b_to_f16_scale_zeros_quantized :: "16 word \<Rightarrow> 16 word \<Rightarrow> 32 word \<Rightarrow> nat \<Rightarrow> half list" where
  "decode_i4b_to_f16_scale_zeros_quantized scale zero_r i4s n =
     decode_pairs 4 0x000f000f (\<lambda>_ h. scaled_by scale (add_f16x2 h (median_num zero_r))) i4s n"

text \<open>The zeros of the variant with an offset are themselves packed, four bits at \<open>group_offset\<close> of a byte.\<close>

definition packed_zero :: "8 word \<Rightarrow> nat \<Rightarrow> 16 word" where
  "packed_zero qzeros group_offset = ucast (signed_drop_bit (group_offset * 4) (scast qzeros :: 32 word) AND 0xf)"

definition decode_i4b_to_f16_scale_zeros_quantized_offset ::
  "16 word \<times> 16 word \<Rightarrow> 8 word \<times> 8 word \<Rightarrow> nat \<Rightarrow> 32 word \<Rightarrow> nat \<Rightarrow> half list" where
  "decode_i4b_to_f16_scale_zeros_quantized_offset scales qzeros group_offset i4s n =
     decode_pairs 4 0x000f000f (\<lambda>i h.
       scaled_by (side n scales i) (add_f16x2 h (median_num (packed_zero (side n qzeros i) group_offset)))) i4s n"

text \<open>Two bits: a word of 16 bits is spread so that each half of the register holds one byte.\<close>

definition spread_i2 :: "16 word \<Rightarrow> 32 word" where
  "spread_i2 i2s_i16 = (scast i2s_i16 AND 0x00ff) OR push_bit 8 (scast i2s_i16 AND 0xff00)"

definition median_i2 :: "bool \<Rightarrow> half_pair" where
  "median_i2 isSigned = half2 (if isSigned then 0x64026402 else 0x64006400)"

definition decode_i2b_to_f16 :: "bool \<Rightarrow> 16 word \<Rightarrow> nat \<Rightarrow> half list" where
  "decode_i2b_to_f16 isSigned i2s n =
     decode_pairs 2 0x00030003 (\<lambda>_ h. sub_f16x2 h (median_i2 isSigned)) (spread_i2 i2s) n"

definition decode_i2b_to_f16_scale :: "bool \<Rightarrow> 16 word \<Rightarrow> 16 word \<Rightarrow> nat \<Rightarrow> half list" where
  "decode_i2b_to_f16_scale isSigned scale i2s n =
     decode_pairs 2 0x00030003 (\<lambda>_ h. scaled_by scale (sub_f16x2 h (median_i2 isSigned))) (spread_i2 i2s) n"

definition decode_i2b_to_f16_scale_zeros_original_offset ::
  "bool \<Rightarrow> 16 word \<times> 16 word \<Rightarrow> 16 word \<times> 16 word \<Rightarrow> 16 word \<Rightarrow> nat \<Rightarrow> half list" where
  "decode_i2b_to_f16_scale_zeros_original_offset isSigned scales zeros i2s n =
     decode_pairs 2 0x00030003 (\<lambda>i h.
       scaled_by (side n scales i) (minus_zeros (side n zeros i) (sub_f16x2 h (median_i2 isSigned)))) (spread_i2 i2s) n"

definition decode_i2b_to_f16_scale_zeros_original :: "bool \<Rightarrow> 16 word \<Rightarrow> 16 word \<Rightarrow> 16 word \<Rightarrow> nat \<Rightarrow> half list" where
  "decode_i2b_to_f16_scale_zeros_original isSigned scale zeros i2s n =
     decode_pairs 2 0x00030003 (\<lambda>_ h. scaled_by scale (minus_zeros zeros (sub_f16x2 h (median_i2 isSigned)))) (spread_i2 i2s) n"

definition decode_i2b_to_f16_scale_zeros_rescale :: "bool \<Rightarrow> 16 word \<Rightarrow> 16 word \<Rightarrow> 16 word \<Rightarrow> nat \<Rightarrow> half list" where
  "decode_i2b_to_f16_scale_zeros_rescale isSigned scale zeros i2s n =
     decode_pairs 2 0x00030003 (\<lambda>_ h. minus_zeros zeros (scaled_by scale (sub_f16x2 h (median_i2 isSigned)))) (spread_i2 i2s) n"

definition decode_i2b_to_f16_scale_zeros_quantized :: "16 word \<Rightarrow> 16 word \<Rightarrow> 16 word \<Rightarrow> nat \<Rightarrow> half list" where
  "decode_i2b_to_f16_scale_zeros_quantized scale zero_r i2s n =
     decode_pairs 2 0x00030003 (\<lambda>_ h. scaled_by scale (add_f16x2 h (median_num zero_r))) (spread_i2 i2s) n"

text \<open>One bit: a byte is spread to four bits in each half; a signed bit stands for -1 or 1.\<close>

definition spread_i1 :: "8 word \<Rightarrow> 32 word" where
  "spread_i1 i1s_i8 = (scast i1s_i8 AND 0x0f) OR push_bit 12 (scast i1s_i8 AND 0xf0)"

definition one_bit_value :: "bool \<Rightarrow> half_pair \<Rightarrow> half_pair" where
  "one_bit_value isSigned h =
     (let h1 = sub_f16x2 h (half2 0x64006400)
      in if isSigned then add_f16x2 (add_f16x2 h1 h1) (half2 0xbc00bc00) else h1)"

datatype zeros_kind = Original | Rescale | Quantized

definition decode_i1b_to_f16 ::
  "bool \<Rightarrow> 16 word option \<Rightarrow> (zeros_kind \<times> 16 word) option \<Rightarrow> 8 word \<Rightarrow> nat \<Rightarrow> half list" where
  "decode_i1b_to_f16 isSigned scale zeros i1s n =
     decode_pairs 1 0x00010001 (\<lambda>_ h0.
       let h1 = one_bit_value isSigned h0;
           h2 = (case zeros of Some (Original, z) \<Rightarrow> minus_zeros z h1 | _ \<Rightarrow> h1);
           h3 = (case scale of Some s \<Rightarrow> scaled_by s h2 | None \<Rightarrow> h2)
       in case zeros of Some (Rescale, z) \<Rightarrow> minus_zeros z h3 | _ \<Rightarrow> h3) (spread_i1 i1s) n"

definition decode_i1u_to_f16_scale :: "16 word \<Rightarrow> 8 word \<Rightarrow> nat \<Rightarrow> half list" where
  "decode_i1u_to_f16_scale scale i1s n =
     decode_pairs 1 0x00010001 (\<lambda>_ h. scaled_by scale (sub_f16x2 h (half2 0x64006400))) (spread_i1 i1s) n"

definition decode_i1s_to_f16_scale :: "16 word \<Rightarrow> 8 word \<Rightarrow> nat \<Rightarrow> half list" where
  "decode_i1s_to_f16_scale scale i1s n =
     decode_pairs 1 0x00010001 (\<lambda>_ h.
       let h1 = sub_f16x2 h (half2 0x64006400)
       in scaled_by scale (add_f16x2 (add_f16x2 h1 h1) (half2 0xbc00bc00))) (spread_i1 i1s) n"

definition decode_i1b_to_f16_zeros_original :: "16 word \<Rightarrow> 16 word \<Rightarrow> 8 word \<Rightarrow> nat \<Rightarrow> half list" where
  "decode_i1b_to_f16_zeros_original scale zeros i1s n =
     decode_pairs 1 0x00010001 (\<lambda>_ h. scaled_by scale (minus_zeros zeros (sub_f16x2 h (half2 0x64006400)))) (spread_i1 i1s) n"

definition decode_i1b_to_f16_scale_zeros_rescale :: "16 word \<Rightarrow> 16 word \<Rightarrow> 8 word \<Rightarrow> nat \<Rightarrow> half list" where
  "decode_i1b_to_f16_scale_zeros_rescale scale zeros i1s n =
     decode_pairs 1 0x00010001 (\<lambda>_ h. rescaled_by scale zeros (sub_f16x2 h (half2 0x64006400))) (spread_i1 i1s) n"

section \<open>Weights as bytes and as four bit integers\<close>

text \<open>Operations on the four bytes of a register; the last one saturates.\<close>

definition vsubss :: "8 word \<Rightarrow> 8 word \<Rightarrow> 8 word" where
  "vsubss a b = word_of_int (max (- 128) (min 127 (sint a - sint b)))"

definition decode_bytes :: "nat \<Rightarrow> 32 word \<Rightarrow> (8 word \<Rightarrow> 8 word) \<Rightarrow> 32 word \<Rightarrow> nat \<Rightarrow> 8 word list" where
  "decode_bytes step BOTTOM_MASK adjust w n =
     concat (map (\<lambda>i. map adjust (bytes_of (lop3 immLut (drop_bit (step * i) w) BOTTOM_MASK 0))) [0..<n div 4])"

definition spread_i1b :: "16 word \<Rightarrow> 32 word" where
  "spread_i1b i1b_i16 = (scast i1b_i16 AND 0x0f0f) OR push_bit 12 (scast i1b_i16 AND 0xf0f0)"

definition decode_i1s_to_i8s :: "16 word \<Rightarrow> nat \<Rightarrow> 8 word list" where
  "decode_i1s_to_i8s i1b n = decode_bytes 1 0x01010101 (\<lambda>b. (b + b) + 0xff) (spread_i1b i1b) n"

definition decode_i1u_to_i8s :: "16 word \<Rightarrow> nat \<Rightarrow> 8 word list" where
  "decode_i1u_to_i8s i1b n = decode_bytes 1 0x01010101 (\<lambda>b. b) (spread_i1b i1b) n"

definition decode_i2s_to_i8s :: "32 word \<Rightarrow> nat \<Rightarrow> 8 word list" where
  "decode_i2s_to_i8s i2b n = decode_bytes 2 0x03030303 (\<lambda>b. b - 0x02) i2b n"

definition decode_i2u_to_i8s :: "32 word \<Rightarrow> nat \<Rightarrow> 8 word list" where
  "decode_i2u_to_i8s i2b n = decode_bytes 2 0x03030303 (\<lambda>b. b) i2b n"

text \<open>Two words of four bit weights fill four words of the destination, the second from index 2 on.\<close>

definition decode_i4b_to_i8s :: "(8 word \<Rightarrow> 8 word) \<Rightarrow> 32 word \<times> 32 word \<Rightarrow> nat \<Rightarrow> 8 word list list \<Rightarrow> 8 word list list" where
  "decode_i4b_to_i8s adjust i4b n i8s =
     fold (\<lambda>i out.
       (out[i := map adjust (bytes_of (lop3 immLut (drop_bit (4 * i) (fst i4b)) 0x0f0f0f0f 0))])
           [i + 2 := map adjust (bytes_of (lop3 immLut (drop_bit (4 * i) (snd i4b)) 0x0f0f0f0f 0))])
       [0..<n div 8] i8s"

definition decode_i4s_to_i8s :: "32 word \<times> 32 word \<Rightarrow> nat \<Rightarrow> 8 word list list \<Rightarrow> 8 word list list" where
  "decode_i4s_to_i8s = decode_i4b_to_i8s (\<lambda>b. vsubss b 0x07)"

definition decode_i4u_to_i8s :: "32 word \<times> 32 word \<Rightarrow> nat \<Rightarrow> 8 word list list \<Rightarrow> 8 word list list" where
  "decode_i4u_to_i8s = decode_i4b_to_i8s (\<lambda>b. b)"

text \<open>The signed variant leaves the fields unsigned: its subtraction is commented out.\<close>

definition decode_i2b_to_i4s :: "bool \<Rightarrow> 32 word list \<Rightarrow> nat \<Rightarrow> 32 word list res" where
  "decode_i2b_to_i4s isSigned i2b n =
     rmap (\<lambda>i. rbind (py_nth i2b (int (i div 2))) (\<lambda>w. Inr (lop3 immLut (drop_bit (2 * (i mod 2)) w) 0x33333333 0))) [0..<n div 8]"

section \<open>Rounding\<close>

lemma pow2_pos [simp]: "0 < pow2 e" "pow2 e \<noteq> 0" "\<bar>pow2 e\<bar> = pow2 e"
  by (simp_all add: pow2_def)

lemma pow2_split: "a \<le> b \<Longrightarrow> pow2 b = pow2 a * 2 ^ nat (b - a)"
  using pow2_add [of a "nat (b - a)"] by simp

lemma pow2_mono: "a \<le> b \<Longrightarrow> pow2 a \<le> pow2 b"
  by (simp add: pow2_split)

lemma f16_exponent_range: "- 14 \<le> f16_exponent k x \<and> f16_exponent k x \<le> max (- 14) (int k - 14)"
  by (induction k) auto

lemma f16_exponent_below: "f16_exponent k x = - 14 \<or> pow2 (f16_exponent k x) \<le> \<bar>x\<bar>"
  by (induction k) auto

lemma half_even_bounds: "\<bar>of_int (half_even y) - y\<bar> \<le> 1 / 2"
proof -
  have "of_int \<lfloor>y\<rfloor> \<le> y" and "y < of_int \<lfloor>y\<rfloor> + 1" by linarith+
  then show ?thesis by (auto simp: half_even_def Let_def abs_le_iff)
qed

lemma half_even_nearest: "\<bar>of_int (half_even y) - y\<bar> \<le> \<bar>of_int m - y\<bar>"
proof (cases "m = half_even y")
  case False
  then have "1 \<le> \<bar>m - half_even y\<bar>" by linarith
  then have "(1 :: rat) \<le> \<bar>of_int m - of_int (half_even y)\<bar>"
    by (metis of_int_1_le_iff of_int_abs of_int_diff)
  then show ?thesis using half_even_bounds [of y] by linarith
qed simp

lemma half_even_int [simp]: "half_even (of_int n) = n"
  by (simp add: half_even_def)

lemma f16_near_multiple:
  "\<bar>f16_near x - x\<bar> \<le> \<bar>of_int m * pow2 (f16_exponent 29 x - 10) - x\<bar>" (is "_ \<le> \<bar>of_int m * ?u - x\<bar>")
proof -
  have "\<bar>of_int k * ?u - x\<bar> = \<bar>of_int k - x / ?u\<bar> * ?u" for k
  proof -
    have "of_int k * ?u - x = (of_int k - x / ?u) * ?u" by (simp add: left_diff_distrib)
    then show ?thesis by (simp add: abs_mult)
  qed
  then show ?thesis using half_even_nearest [of "x / ?u" m]
    by (simp add: f16_near_def Let_def mult_right_mono less_imp_le)
qed

lemma f16_near_error: "\<bar>f16_near x - x\<bar> \<le> 16"
proof -
  let ?u = "pow2 (f16_exponent 29 x - 10)"
  have u: "?u \<le> 32" using pow2_mono [of "f16_exponent 29 x - 10" 5] f16_exponent_range [of 29 x] by (simp add: pow2_def)
  have "f16_near x - x = (of_int (half_even (x / ?u)) - x / ?u) * ?u" by (simp add: f16_near_def Let_def left_diff_distrib)
  then have "\<bar>f16_near x - x\<bar> = \<bar>of_int (half_even (x / ?u)) - x / ?u\<bar> * ?u" by (simp add: abs_mult)
  also have "\<dots> \<le> 1 / 2 * ?u" using half_even_bounds by (intro mult_right_mono) (auto simp: less_imp_le)
  finally show ?thesis using u by simp
qed

lemma round_f16_finite: "\<bar>x\<bar> < 65520 \<Longrightarrow> round_f16 x = HFin (f16_near x)"
  using f16_near_error [of x] by (simp add: round_f16_def)

text \<open>A finite number of half precision is a whole number of units, of which there are fewer than 2048.\<close>

lemma f16_value_units:
  assumes "finite_half w"
  obtains m e where "f16_value w = of_int m * pow2 (e - 10)" "\<bar>m\<bar> < 2048" "- 14 \<le> e" "e \<le> 15"
proof -
  have fr: "field 10 w 0 < 1024" using field_less [of 10 w 0] by simp
  have ex: "field 5 w 10 < 31" using field_less [of 5 w 10] assms by (simp add: finite_half_def)
  let ?sg = "if bit w 15 then - 1 else 1 :: int"
  show thesis
  proof (cases "field 5 w 10 = 0")
    case True
    show thesis
      by (rule that [of "?sg * int (field 10 w 0)" "- 14"]) (use True fr in \<open>auto simp: f16_value_def binary_value_def\<close>)
  next
    case False
    show thesis
      by (rule that [of "?sg * int (1024 + field 10 w 0)" "int (field 5 w 10) - 15"])
        (use False fr ex in \<open>auto simp: f16_value_def binary_value_def algebra_simps\<close>)
  qed
qed

lemma f16_value_bound: "finite_half w \<Longrightarrow> \<bar>f16_value w\<bar> \<le> 65504"
proof -
  assume "finite_half w"
  then obtain m e where v: "f16_value w = of_int m * pow2 (e - 10)" "\<bar>m\<bar> < 2048" "e \<le> 15" by (rule f16_value_units)
  have "\<bar>of_int m\<bar> \<le> (2047 :: rat)" using v(2) by linarith
  moreover have "pow2 (e - 10) \<le> 32" using pow2_mono [of "e - 10" 5] v(3) by (simp add: pow2_def)
  ultimately have "\<bar>of_int m\<bar> * pow2 (e - 10) \<le> 2047 * 32" by (intro mult_mono) (auto simp: less_imp_le)
  then show ?thesis by (simp add: v(1) abs_mult)
qed

text \<open>No number of half precision is nearer than the one that is chosen, so numbers of half precision are kept.\<close>

theorem f16_near_nearest:
  assumes "finite_half w"
  shows "\<bar>f16_near x - x\<bar> \<le> \<bar>f16_value w - x\<bar>"
proof -
  obtain m e where v: "f16_value w = of_int m * pow2 (e - 10)" "\<bar>m\<bar> < 2048" "- 14 \<le> e" using assms by (rule f16_value_units)
  let ?e = "f16_exponent 29 x"
  show ?thesis
  proof (cases "?e \<le> e")
    case True
    then have "f16_value w = of_int (m * 2 ^ nat (e - ?e)) * pow2 (?e - 10)" using pow2_split [of "?e - 10" "e - 10"] v(1) by simp
    then show ?thesis using f16_near_multiple by metis
  next
    case False
    then have x: "pow2 ?e \<le> \<bar>x\<bar>" using f16_exponent_below [of 29 x] v(3) by auto
    have "\<bar>of_int m\<bar> \<le> (2048 :: rat)" using v(2) by linarith
    then have "\<bar>f16_value w\<bar> \<le> 2048 * pow2 (e - 10)" by (simp add: v(1) abs_mult mult_right_mono less_imp_le)
    also have "\<dots> = pow2 (e + 1)" using pow2_add [of "e - 10" 11] by (simp add: algebra_simps)
    also have "\<dots> \<le> pow2 ?e" using False by (intro pow2_mono) simp
    finally have w: "\<bar>f16_value w\<bar> \<le> pow2 ?e" .
    have p: "pow2 ?e = 1024 * pow2 (?e - 10)" using pow2_add [of "?e - 10" 10] by simp
    show ?thesis
      using f16_near_multiple [of x "1024"] f16_near_multiple [of x "- 1024"] p x w by (simp add: abs_if split: if_splits)
  qed
qed

lemma f16_near_exact: "finite_half w \<Longrightarrow> f16_near (f16_value w) = f16_value w"
  using f16_near_nearest [of w "f16_value w"] by simp

lemma f16_near_int: "\<bar>n\<bar> < 2048 \<Longrightarrow> f16_near (of_int n) = of_int n"
proof -
  assume n: "\<bar>n\<bar> < 2048"
  let ?e = "f16_exponent 29 (of_int n)"
  have "?e \<le> 10"
  proof (rule ccontr)
    assume "\<not> ?e \<le> 10"
    then have "pow2 11 \<le> pow2 ?e" "pow2 ?e \<le> \<bar>of_int n\<bar>" using f16_exponent_below [of 29 "of_int n"] by (auto intro: pow2_mono)
    moreover have "\<bar>of_int n\<bar> < (2048 :: rat)" using n by linarith
    ultimately show False by (simp add: pow2_def)
  qed
  then have "pow2 (?e - 10) * 2 ^ nat (10 - ?e) = 1" using pow2_split [of "?e - 10" 0] by (simp add: pow2_def)
  then have "of_int n = of_int (n * 2 ^ nat (10 - ?e)) * pow2 (?e - 10)" by (simp add: mult.assoc mult.commute)
  then have "\<bar>f16_near (of_int n) - of_int n\<bar> \<le> \<bar>of_int n - of_int n :: rat\<bar>" using f16_near_multiple by metis
  then show ?thesis by simp
qed

lemma round_f16_int [simp]: "\<bar>n\<bar> < 2048 \<Longrightarrow> round_f16 (of_int n) = HFin (of_int n)"
proof -
  assume n: "\<bar>n\<bar> < 2048"
  then have "\<bar>of_int n\<bar> < (2048 :: rat)" by linarith
  then show ?thesis by (simp add: round_f16_def f16_near_int n)
qed

section \<open>What the instructions compute\<close>

lemma immLut_bits: "filter (bit immLut) [0..<8] = [1, 3, 5, 6, 7]"
  by (simp add: immLut_def upt_conv_Cons)

lemma lop3_terms: "lop3 lut a b c = fold (\<lambda>i acc. acc OR lut_term i a b c) (filter (bit lut) [0..<8]) 0"
proof -
  have "fold (\<lambda>i acc. acc OR (if P i then f i else 0)) xs s = fold (\<lambda>i acc. acc OR f i) (filter P xs) s"
    for P and f :: "nat \<Rightarrow> 32 word" and xs s by (induction xs arbitrary: s) auto
  then show ?thesis by (simp add: lop3_def)
qed

lemma lop3_immLut: "lop3 immLut a b c = (a AND b) OR c"
  unfolding lop3_terms immLut_bits
  by (rule bit_word_eqI) (auto simp: lut_term_def bit_or_iff bit_and_iff bit_not_iff bit_0)

text \<open>Fields under the exponent of 1024: the bits of the magic number are 10, 13 and 14 of each half.\<close>

lemma magic_bits: "bit FP16_TOP_MAGIC_NUM p \<longleftrightarrow> p \<in> {10, 13, 14, 26, 29, 30}"
proof -
  have m: "FP16_TOP_MAGIC_NUM = 2 ^ 10 OR 2 ^ 13 OR 2 ^ 14 OR 2 ^ 26 OR 2 ^ 29 OR 2 ^ 30" by (simp add: FP16_TOP_MAGIC_NUM_def)
  show ?thesis unfolding m bit_or_iff bit_exp_word by auto
qed

lemma f16_1024:
  fixes h :: "16 word"
  assumes h: "\<And>p. bit h p \<longleftrightarrow> p < b \<and> bit u (q + p) \<or> p \<in> {10, 13, 14}" and b: "b \<le> 10"
  shows "half_of h = HFin (1024 + of_nat (field b u q))"
proof -
  have "field 5 h 10 = field 5 (0x6400 :: 16 word) 10"
  proof (rule field_eqI)
    fix k :: nat
    assume "k < 5"
    then have "k \<in> set [0, 1, 2, 3, 4]" by auto
    then show "bit h (10 + k) = bit (0x6400 :: 16 word) (10 + k)" using b by (auto simp: h)
  qed
  then have e: "field 5 h 10 = 25" by (simp add: field_def)
  have f: "field 10 h 0 = field b u q" using b by (intro bit_eqI) (auto simp: bit_field h)
  have s: "\<not> bit h 15" using b by (simp add: h)
  show ?thesis by (simp add: half_of_def f16_value_def binary_value_def e f s pow2_def)
qed

lemma half2_fields:
  assumes low: "\<And>p. p < 16 \<Longrightarrow> bit m p \<longleftrightarrow> p < b" and high: "\<And>p. p < 16 \<Longrightarrow> bit m (16 + p) \<longleftrightarrow> p < b" and b: "b \<le> 10"
  shows "half2 (lop3 immLut (drop_bit q w) m FP16_TOP_MAGIC_NUM) =
    (HFin (1024 + of_nat (field b w q)), HFin (1024 + of_nat (field b w (q + 16))))"
proof -
  let ?h = "(drop_bit q w AND m) OR FP16_TOP_MAGIC_NUM"
  have "bit (ucast ?h :: 16 word) p \<longleftrightarrow> p < b \<and> bit w (q + p) \<or> p \<in> {10, 13, 14}" for p
    using low [of p] b by (auto simp: bit_unsigned_iff bit_or_iff bit_and_iff bit_drop_bit_eq magic_bits)
  moreover have "bit (ucast (drop_bit 16 ?h) :: 16 word) p \<longleftrightarrow> p < b \<and> bit w (q + 16 + p) \<or> p \<in> {10, 13, 14}" for p
    using high [of p] b by (auto simp: bit_unsigned_iff bit_or_iff bit_and_iff bit_drop_bit_eq magic_bits ac_simps)
  ultimately show ?thesis unfolding half2_def lop3_immLut using b by (auto intro!: f16_1024)
qed

lemma concat_pairs: "concat (map (\<lambda>i. [g (2 * i), g (2 * i + 1)]) [0..<m]) = map g [0..<2 * m]"
  by (induction m) (simp_all add: ac_simps)

text \<open>The weights in a word: in the order of the pairs, the fields less the median.\<close>

definition weights :: "nat \<Rightarrow> nat \<Rightarrow> rat \<Rightarrow> 32 word \<Rightarrow> nat \<Rightarrow> rat list" where
  "weights b step c w n =
     map (\<lambda>e. of_nat (field b w (step * (e div 2) + 16 * (e mod 2))) - c) [0..<2 * (n div 2)]"

lemma decode_pairs_fields:
  assumes low: "\<And>p. p < 16 \<Longrightarrow> bit m p \<longleftrightarrow> p < b" and high: "\<And>p. p < 16 \<Longrightarrow> bit m (16 + p) \<longleftrightarrow> p < b" and b: "b \<le> 10"
    and adjust: "\<And>i k l. k < 2 ^ b \<Longrightarrow> l < 2 ^ b \<Longrightarrow>
      adjust i (HFin (1024 + of_nat k), HFin (1024 + of_nat l)) = (f (of_nat k - c), f (of_nat l - c))"
  shows "decode_pairs step m adjust w n = map f (weights b step c w n)"
proof -
  have "half2 (lop3 immLut (drop_bit q w) m FP16_TOP_MAGIC_NUM) =
    (HFin (1024 + of_nat (field b w q)), HFin (1024 + of_nat (field b w (q + 16))))" for q
    using low high b by (rule half2_fields)
  then show ?thesis unfolding weights_def map_map
    by (subst concat_pairs [symmetric]) (simp add: decode_pairs_def adjust field_less)
qed

lemma pair_masks:
  "p < 16 \<Longrightarrow> bit (0x000f000f :: 32 word) p \<longleftrightarrow> p < 4" "p < 16 \<Longrightarrow> bit (0x000f000f :: 32 word) (16 + p) \<longleftrightarrow> p < 4"
  "p < 16 \<Longrightarrow> bit (0x00030003 :: 32 word) p \<longleftrightarrow> p < 2" "p < 16 \<Longrightarrow> bit (0x00030003 :: 32 word) (16 + p) \<longleftrightarrow> p < 2"
  "p < 16 \<Longrightarrow> bit (0x00010001 :: 32 word) p \<longleftrightarrow> p < 1" "p < 16 \<Longrightarrow> bit (0x00010001 :: 32 word) (16 + p) \<longleftrightarrow> p < 1"
proof -
  have m: "(0x000f000f :: 32 word) = mask 4 OR push_bit 16 (mask 4)" "(0x00030003 :: 32 word) = mask 2 OR push_bit 16 (mask 2)"
    "(0x00010001 :: 32 word) = mask 1 OR push_bit 16 (mask 1)" by (simp_all add: mask_eq_exp_minus_1)
  show "p < 16 \<Longrightarrow> bit (0x000f000f :: 32 word) p \<longleftrightarrow> p < 4" "p < 16 \<Longrightarrow> bit (0x000f000f :: 32 word) (16 + p) \<longleftrightarrow> p < 4"
    "p < 16 \<Longrightarrow> bit (0x00030003 :: 32 word) p \<longleftrightarrow> p < 2" "p < 16 \<Longrightarrow> bit (0x00030003 :: 32 word) (16 + p) \<longleftrightarrow> p < 2"
    "p < 16 \<Longrightarrow> bit (0x00010001 :: 32 word) p \<longleftrightarrow> p < 1" "p < 16 \<Longrightarrow> bit (0x00010001 :: 32 word) (16 + p) \<longleftrightarrow> p < 1"
    unfolding m bit_or_iff bit_range by (auto simp: bit_mask_iff bit_1_iff)
qed

lemmas decode_pairs_i4 = decode_pairs_fields [OF pair_masks(1,2), simplified]
  and decode_pairs_i2 = decode_pairs_fields [OF pair_masks(3,4), simplified]

lemma decode_pairs_i1:
  "(\<And>i k l. k < 2 \<Longrightarrow> l < 2 \<Longrightarrow>
      adjust i (HFin (1024 + of_nat k), HFin (1024 + of_nat l)) = (f (of_nat k - c), f (of_nat l - c))) \<Longrightarrow>
   decode_pairs step 0x00010001 adjust w n = map f (weights 1 step c w n)"
  by (rule decode_pairs_fields [OF pair_masks(5,6)]) simp_all

lemma half2_constants:
  "half2 0x64006400 = (HFin 1024, HFin 1024)" "half2 0x64086408 = (HFin 1032, HFin 1032)"
  "half2 0x64026402 = (HFin 1026, HFin 1026)" "half2 0xbc00bc00 = (HFin (- 1), HFin (- 1))" "half2 0 = (HFin 0, HFin 0)"
  by (simp_all add: half2_def half_of_def f16_value_def binary_value_def field_def pow2_def take_bit_eq_mask mask_eq_exp_minus_1)

lemma half2_pack: "half2 (pack_half2 s s) = (half_of s, half_of s)"
proof -
  have "ucast (pack_half2 s s) = s" and "ucast (drop_bit 16 (pack_half2 s s)) = s"
    by (rule bit_word_eqI; auto simp: pack_half2_def bit_unsigned_iff bit_or_iff bit_push_bit_iff bit_drop_bit_eq dest: bit_imp_le_length)+
  then show ?thesis by (simp add: half2_def)
qed

lemma half_sign: "half_of (s OR 0x8000) = (if bit s 15 then half_of s else half_minus (half_of s))"
proof -
  have m: "(0x8000 :: 16 word) = 2 ^ 15" by simp
  have bits: "bit (s OR 0x8000) p \<longleftrightarrow> bit s p \<or> p = 15" for p unfolding m bit_or_iff bit_exp_word by auto
  have "field 5 (s OR 0x8000) 10 = field 5 s 10" "field 10 (s OR 0x8000) 0 = field 10 s 0"
    by (rule field_eqI; simp add: bits)+
  then show ?thesis by (simp add: half_of_def f16_value_def binary_value_def bits)
qed

lemma half2_negated:
  "half2 (0x80008000 OR pack_half2 z z) =
    (let v = (if bit z 15 then half_of z else half_minus (half_of z)) in (v, v))"
proof -
  have m: "(0x80008000 :: 32 word) = 2 ^ 15 OR 2 ^ 31" and m16: "(0x8000 :: 16 word) = 2 ^ 15" by simp_all
  have "ucast (0x80008000 OR pack_half2 z z) = z OR 0x8000" and "ucast (drop_bit 16 (0x80008000 OR pack_half2 z z)) = z OR 0x8000"
    unfolding m m16 pack_half2_def
    by (rule bit_word_eqI; auto simp only: bit_unsigned_iff bit_or_iff bit_push_bit_iff bit_drop_bit_eq bit_exp_word comp_def; auto dest: bit_imp_le_length)+
  then show ?thesis by (simp add: half2_def half_sign Let_def)
qed

section \<open>Scales and zeros\<close>

text \<open>On finite numbers: one rounding for each instruction, and none for a difference of small integers.\<close>

lemma half_of_finite: "finite_half w \<Longrightarrow> half_of w = HFin (f16_value w)"
  by (simp add: half_of_def finite_half_def)

lemma f16_value_sign: "\<bar>f16_value z\<bar> = (if bit z 15 then - f16_value z else f16_value z)"
  by (simp add: f16_value_def binary_value_def abs_mult)

lemma scaled_by:
  "finite_half s \<Longrightarrow> scaled_by s (HFin x, HFin y) = (round_f16 (x * f16_value s), round_f16 (y * f16_value s))"
  by (simp add: scaled_by_def half2_pack half2_constants half_of_finite)

lemma minus_zeros:
  "finite_half z \<Longrightarrow> minus_zeros z (HFin x, HFin y) = (round_f16 (x - f16_value z), round_f16 (y - f16_value z))"
  by (simp add: minus_zeros_def half2_pack half_of_finite)

lemma rescaled_by:
  "finite_half s \<Longrightarrow> finite_half z \<Longrightarrow>
   rescaled_by s z (HFin x, HFin y) =
     (round_f16 (x * f16_value s - \<bar>f16_value z\<bar>), round_f16 (y * f16_value s - \<bar>f16_value z\<bar>))"
  by (simp add: rescaled_by_def half2_pack half2_negated half_of_finite f16_value_sign Let_def)

lemma round_small:
  "k < 16 \<Longrightarrow> m < 1024 \<Longrightarrow> round_f16 (of_nat k - of_nat m) = HFin (of_nat k - of_nat m)"
  using round_f16_int [of "int k - int m"] by simp

lemma sub_median:
  assumes "k < 16" "l < 16" "m < 1024"
  shows "sub_f16x2 (HFin (1024 + of_nat k), HFin (1024 + of_nat l)) (HFin (1024 + of_nat m), HFin (1024 + of_nat m)) =
    (HFin (of_nat k - of_nat m), HFin (of_nat l - of_nat m))"
  using assms by (simp add: round_small)

lemma median_num:
  assumes "unat q < 1024"
  shows "median_num q = (HFin (- 1024 - of_nat (unat q)), HFin (- 1024 - of_nat (unat q)))"
proof -
  let ?h = "0x6400 OR q :: 16 word"
  have small: "bit q p \<Longrightarrow> p < 10" for p using bit_above [of q 10 p] assms by (cases "p < 10") auto
  have m: "(0x6400 :: 16 word) = 2 ^ 10 OR 2 ^ 13 OR 2 ^ 14" and sgn: "(0x8000 :: 16 word) = 2 ^ 15" by simp_all
  have "bit ?h p \<longleftrightarrow> p < 10 \<and> bit q (0 + p) \<or> p \<in> {10, 13, 14}" for p
    unfolding m bit_or_iff bit_exp_word using small by auto
  then have "half_of ?h = HFin (1024 + of_nat (field 10 q 0))" by (rule f16_1024) simp
  moreover have "field 10 q 0 = unat q" using assms by (simp add: field_small)
  moreover have "\<not> bit ?h 15" using small [of 15] by (auto simp: bit_or_iff)
  ultimately have v: "half_of (?h OR 0x8000) = HFin (- 1024 - of_nat (unat q))" by (simp add: half_sign)
  let ?w = "push_bit 16 (0xe400 OR scast q) OR (0xe400 OR scast q) :: 32 word"
  have m32: "(0xe400 :: 32 word) = 2 ^ 10 OR 2 ^ 13 OR 2 ^ 14 OR 2 ^ 15" by simp
  have sq: "bit (scast q :: 32 word) p = bit q p" for p
    using small [of p] small [of 15] by (auto simp: bit_signed_iff min_def)
  have c: "bit (0xe400 OR scast q :: 32 word) p \<longleftrightarrow> p \<in> {10, 13, 14, 15} \<or> bit q p" for p
    unfolding m32 bit_or_iff bit_exp_word sq by auto
  have h: "bit (?h OR 0x8000) p \<longleftrightarrow> p \<in> {10, 13, 14, 15} \<or> bit q p" for p
    unfolding m sgn bit_or_iff bit_exp_word by auto
  have "ucast ?w = ?h OR 0x8000" and "ucast (drop_bit 16 ?w) = ?h OR 0x8000"
    by (rule bit_word_eqI; unfold bit_unsigned_iff h bit_drop_bit_eq comp_def bit_or_iff [of "push_bit 16 _"] c bit_push_bit_iff;
        auto dest: small)+
  then show ?thesis unfolding median_num_def half2_def by (simp only: v)
qed

lemma sub_medians:
  assumes "k < 16" "l < 16"
  shows "sub_f16x2 (HFin (1024 + of_nat k), HFin (1024 + of_nat l)) (median_i4 g) =
      (HFin (of_nat k - (if g then 8 else 0)), HFin (of_nat l - (if g then 8 else 0)))"
    and "sub_f16x2 (HFin (1024 + of_nat k), HFin (1024 + of_nat l)) (median_i2 g) =
      (HFin (of_nat k - (if g then 2 else 0)), HFin (of_nat l - (if g then 2 else 0)))"
    and "sub_f16x2 (HFin (1024 + of_nat k), HFin (1024 + of_nat l)) (half2 0x64006400) = (HFin (of_nat k), HFin (of_nat l))"
  using sub_median [OF assms, of 0] sub_median [OF assms, of 2] sub_median [OF assms, of 8]
  by (simp_all add: median_i4_def median_i2_def half2_constants)

lemma add_median_num:
  assumes "k < 16" "l < 16" and q: "unat q < 1024"
  shows "add_f16x2 (HFin (1024 + of_nat k), HFin (1024 + of_nat l)) (median_num q) =
    (HFin (of_nat k - of_nat (unat q)), HFin (of_nat l - of_nat (unat q)))"
  using round_small [OF assms(1) q] round_small [OF assms(2) q] by (simp add: median_num [OF q])

lemma original_mode:
  assumes "finite_half s" "finite_half z" "\<bar>x\<bar> \<le> 15" "\<bar>y\<bar> \<le> 15"
  shows "scaled_by s (minus_zeros z (HFin x, HFin y)) =
    (round_f16 (f16_near (x - f16_value z) * f16_value s), round_f16 (f16_near (y - f16_value z) * f16_value s))"
proof -
  have "\<bar>x - f16_value z\<bar> < 65520" "\<bar>y - f16_value z\<bar> < 65520" using f16_value_bound [OF assms(2)] assms(3,4) by linarith+
  then show ?thesis by (simp add: minus_zeros scaled_by round_f16_finite assms(1,2))
qed

lemma small_weight: "k < 16 \<Longrightarrow> c \<le> 15 \<Longrightarrow> \<bar>of_nat k - of_nat c\<bar> \<le> (15 :: rat)"
proof -
  assume "k < 16" "c \<le> 15"
  then have "\<bar>int k - int c\<bar> \<le> 15" by linarith
  then have "of_int \<bar>int k - int c\<bar> \<le> (of_int 15 :: rat)" by (simp only: of_int_le_iff)
  then show ?thesis by simp
qed

lemma small_weights:
  assumes "k < 16"
  shows "\<bar>of_nat k - (if g then 8 else 0)\<bar> \<le> (15 :: rat)" "\<bar>of_nat k - (if g then 2 else 0)\<bar> \<le> (15 :: rat)"
    "\<bar>of_nat k\<bar> \<le> (15 :: rat)"
  using small_weight [OF assms, of 8] small_weight [OF assms, of 2] small_weight [OF assms, of 0] by auto

lemmas plain_decoders = decode_i4b_to_f16_def decode_i2b_to_f16_def decode_i1b_to_f16_def
  and original_decoders = decode_i4b_to_f16_zeros_original_def decode_i2b_to_f16_scale_zeros_original_def
    decode_i1b_to_f16_zeros_original_def
  and rescale_decoders = decode_i4b_to_f16_scale_zeros_rescale_def decode_i2b_to_f16_scale_zeros_rescale_def
    decode_i1b_to_f16_scale_zeros_rescale_def
  and quantized_decoders = decode_i4b_to_f16_scale_zeros_quantized_def decode_i2b_to_f16_scale_zeros_quantized_def

lemma plain_weights:
  "decode_i4b_to_f16 g w n = map HFin (weights 4 4 (if g then 8 else 0) w n)"
  "decode_i2b_to_f16 g v n = map HFin (weights 2 2 (if g then 2 else 0) (spread_i2 v) n)"
  "decode_i1b_to_f16 False None None u n = map HFin (weights 1 1 0 (spread_i1 u) n)"
  unfolding plain_decoders by (rule decode_pairs_i4 decode_pairs_i2 decode_pairs_i1; simp add: sub_medians one_bit_value_def Let_def)+

lemma weights_small:
  assumes "x \<in> set (weights b step c w n)" and "b \<le> 4" and "c \<in> {0, 2, 8}"
  shows "\<exists>m. x = of_int m \<and> \<bar>m\<bar> \<le> 15"
proof -
  obtain p where x: "x = of_nat (field b w p) - c" using assms(1) by (auto simp: weights_def)
  have "field b w p < 2 ^ b" by (rule field_less)
  also have "(2 :: nat) ^ b \<le> 2 ^ 4" using assms(2) by (intro power_increasing) auto
  finally have f: "field b w p < 16" by simp
  show ?thesis
    using assms(3) f by (intro exI [of _ "int (field b w p) - \<lfloor>c\<rfloor>"]) (auto simp: x)
qed



lemma zero_lost_in_rounding: "round_f16 (15 - f16_value 0x1400) = HFin 15 \<and> f16_value 0x1400 = 1 / 1024"
proof -
  have v: "f16_value 0x1400 = 1 / 1024"
    by (simp add: f16_value_def binary_value_def field_def pow2_def take_bit_eq_mask mask_eq_exp_minus_1)
  have "f16_exponent 29 (15359 / 1024) = 3" by (simp add: numeral_eq_Suc pow2_def)
  moreover have "\<lfloor>15359 / 8 :: rat\<rfloor> = 1919" by (simp add: floor_eq_iff)
  ultimately have "f16_near (15359 / 1024) = 15" by (simp add: f16_near_def pow2_def half_even_def Let_def)
  then show ?thesis by (simp add: v round_f16_def)
qed

lemma side_same: "side n (x, x) i = x"
  by (simp add: side_def)

text \<open>With one scale and one zero on both sides, the variants with an offset are the variants without.\<close>

theorem offset_variants:
  "decode_i4b_to_f16_scale_offset g (s, s) w n = decode_i4b_to_f16_scale g s w n \<and>
   decode_i4b_to_f16_zeros_original_offset g (s, s) (z, z) w n = decode_i4b_to_f16_zeros_original g s z w n \<and>
   decode_i4b_to_f16_scale_zeros_rescale_offset g (s, s) (z, z) w n = decode_i4b_to_f16_scale_zeros_rescale g s z w n \<and>
   decode_i4b_to_f16_scale_zeros_quantized_offset (s, s) (q, q) k w n =
     decode_i4b_to_f16_scale_zeros_quantized s (packed_zero q k) w n \<and>
   decode_i2b_to_f16_scale_zeros_original_offset g (s, s) (z, z) v n = decode_i2b_to_f16_scale_zeros_original g s z v n"
  by (simp add: decode_i4b_to_f16_scale_offset_def decode_i4b_to_f16_scale_def side_same
        decode_i4b_to_f16_zeros_original_offset_def decode_i4b_to_f16_zeros_original_def
        decode_i4b_to_f16_scale_zeros_rescale_offset_def decode_i4b_to_f16_scale_zeros_rescale_def
        decode_i4b_to_f16_scale_zeros_quantized_offset_def decode_i4b_to_f16_scale_zeros_quantized_def
        decode_i2b_to_f16_scale_zeros_original_offset_def decode_i2b_to_f16_scale_zeros_original_def)

section \<open>Decoding interleaved weights\<close>

lemma spread_masks:
  "bit (0xff :: 32 word) p \<longleftrightarrow> p < 8" "bit (0x0f :: 32 word) p \<longleftrightarrow> p < 4"
  "bit (0x0f0f :: 32 word) p \<longleftrightarrow> p < 4 \<or> 8 \<le> p \<and> p < 12" "bit (0xf0f0 :: 32 word) p \<longleftrightarrow> 4 \<le> p \<and> p < 8 \<or> 12 \<le> p \<and> p < 16"
proof -
  have m: "(0xff :: 32 word) = mask 8" "(0x0f :: 32 word) = mask 4" "(0x0f0f :: 32 word) = mask 4 OR push_bit 8 (mask 4)"
    "(0xf0f0 :: 32 word) = push_bit 4 (mask 4) OR push_bit 12 (mask 4)" by (simp_all add: mask_eq_exp_minus_1)
  show "bit (0xff :: 32 word) p \<longleftrightarrow> p < 8" "bit (0x0f :: 32 word) p \<longleftrightarrow> p < 4"
    "bit (0x0f0f :: 32 word) p \<longleftrightarrow> p < 4 \<or> 8 \<le> p \<and> p < 12" "bit (0xf0f0 :: 32 word) p \<longleftrightarrow> 4 \<le> p \<and> p < 8 \<or> 12 \<le> p \<and> p < 16"
    unfolding m bit_or_iff bit_range by (auto simp: bit_mask_iff)
qed

lemma bit_scast_low: "p < LENGTH('s::len) \<Longrightarrow> p < 32 \<Longrightarrow> bit (scast (c :: 's word) :: 32 word) p = bit c p"
  by (auto simp: bit_signed_iff min_def) (metis Suc_pred len_gt_0 less_Suc_eq_le le_antisym)+

lemma bit_spread_i2: "bit (spread_i2 c) p \<longleftrightarrow> p < 8 \<and> bit c p \<or> 16 \<le> p \<and> p < 24 \<and> bit c (p - 8)"
  unfolding spread_i2_def bit_or_iff bit_push_bit_iff bit_and_iff spread_masks group_masks
  by (auto simp: bit_scast_low)

lemma bit_spread_i1: "bit (spread_i1 c) p \<longleftrightarrow> p < 4 \<and> bit c p \<or> 16 \<le> p \<and> p < 20 \<and> bit c (p - 12)"
  unfolding spread_i1_def bit_or_iff bit_push_bit_iff bit_and_iff spread_masks group_masks
  by (auto simp: bit_scast_low)

lemma bit_spread_i1b:
  "bit (spread_i1b c) p \<longleftrightarrow>
     (p < 4 \<or> 8 \<le> p \<and> p < 12) \<and> bit c p \<or> (16 \<le> p \<and> p < 20 \<or> 24 \<le> p \<and> p < 28) \<and> bit c (p - 12)"
  unfolding spread_i1b_def bit_or_iff bit_push_bit_iff bit_and_iff spread_masks
  by (auto simp: bit_scast_low)

lemma field_chunk:
  "p + n \<le> LENGTH('s::len) \<Longrightarrow> field n (ucast (drop_bit q (w :: 32 word)) :: 's word) p = field n w (q + p)"
  by (rule field_eqI) (simp add: bit_unsigned_iff bit_drop_bit_eq ac_simps)

lemma field_spread_i2:
  assumes i: "i < 4" and h: "h < 2"
  shows "field 2 (spread_i2 c) (2 * i + 16 * h) = field 2 c (8 * h + 2 * i)"
proof (rule field_eqI)
  fix k :: nat
  assume "k < 2"
  then have "2 * i + k < 8" using i by linarith
  then show "bit (spread_i2 c) (2 * i + 16 * h + k) = bit c (8 * h + 2 * i + k)"
    using less_2_cases [OF h] by (auto simp: bit_spread_i2 ac_simps)
qed

lemma field_spread_i1:
  assumes i: "i < 4" and h: "h < 2"
  shows "field 1 (spread_i1 c) (i + 16 * h) = field 1 c (4 * h + i)"
  using less_2_cases [OF h] i by (auto intro!: field_eqI simp: bit_spread_i1 ac_simps)

lemma interleaved_field:
  assumes "\<And>n. int32 n = Inr (word_of_int n)" and "interleave_one int32 n t w = Inr r"
    and "layout_ok (if t = ''int8'' then 8 else 16) n" and "x < 32 div n"
  shows "field n r (element_position n t x) = field n w (n * x)"
  using interleave_one_field [OF assms(1,3), of w] assms(2,4) by force

text \<open>Where the elements are when the target is half precision.\<close>

lemma element_position_f16:
  "element_position 4 ''float16'' x = 4 * (x div 2) + 16 * (x mod 2)"
  "x < 8 \<Longrightarrow> element_position 2 ''float16'' (8 * c + x) = 16 * c + (8 * (x mod 2) + 2 * (x div 2))"
  "x < 8 \<Longrightarrow> element_position 1 ''float16'' (8 * c + x) = 8 * c + (4 * (x mod 2) + x div 2)"
proof -
  have m: "(8 * c + x) mod 2 = x mod 2" by presburger
  show "element_position 4 ''float16'' x = 4 * (x div 2) + 16 * (x mod 2)"
    by (simp add: element_position_def interleave_shift_def)
  show "x < 8 \<Longrightarrow> element_position 2 ''float16'' (8 * c + x) = 16 * c + (8 * (x mod 2) + 2 * (x div 2))"
    and "x < 8 \<Longrightarrow> element_position 1 ''float16'' (8 * c + x) = 8 * c + (4 * (x mod 2) + x div 2)"
    by (simp_all add: element_position_def m)
qed

lemma decode_i4b: "decode_i4b_to_f16 g w 8 =
    map (\<lambda>x. HFin (of_nat (field 4 w (4 * (x div 2) + 16 * (x mod 2))) - (if g then 8 else 0))) [0..<8]"
  by (simp add: plain_weights weights_def)

lemma decode_i2b: "decode_i2b_to_f16 g c 8 =
    map (\<lambda>x. HFin (of_nat (field 2 c (8 * (x mod 2) + 2 * (x div 2))) - (if g then 2 else 0))) [0..<8]"
  by (auto simp: plain_weights weights_def field_spread_i2)

lemma one_bit_value:
  assumes "k < 2" "l < 2"
  shows "one_bit_value g (HFin (1024 + of_nat k), HFin (1024 + of_nat l)) =
    (HFin (if g then 2 * of_nat k - 1 else of_nat k), HFin (if g then 2 * of_nat l - 1 else of_nat l))"
proof -
  have twice: "round_f16 (2 * of_nat j) = HFin (2 * of_nat j)" and less: "round_f16 (2 * of_nat j - 1) = HFin (2 * of_nat j - 1)"
    if "j < 2" for j
    using round_f16_int [of "2 * int j"] round_f16_int [of "2 * int j - 1"] that by simp_all
  have k: "k < 16" "l < 16" using assms by simp_all
  show ?thesis unfolding one_bit_value_def Let_def sub_medians(3) [OF k]
    by (cases g) (simp_all add: half2_constants twice [OF assms(1)] twice [OF assms(2)] less [OF assms(1)] less [OF assms(2)])
qed

lemma decode_i1b: "decode_i1b_to_f16 g None None c 8 =
    map (\<lambda>x. let b = of_nat (field 1 c (4 * (x mod 2) + x div 2)) in HFin (if g then 2 * b - 1 else b)) [0..<8]"
proof -
  have "decode_i1b_to_f16 g None None c 8 = map (\<lambda>b. HFin (if g then 2 * b - 1 else b)) (weights 1 1 0 (spread_i1 c) 8)"
    unfolding decode_i1b_to_f16_def by (rule decode_pairs_i1) (simp add: one_bit_value Let_def)
  then show ?thesis by (auto simp: weights_def field_spread_i1 [simplified] Let_def)
qed

text \<open>
  If \<^verbatim>\<open>torch.int32\<close> made the masks, interleaving and decoding would be inverse for half precision: the decoders of
  four, two and one bit weights return the weights of the original word in their order, less the median when
  they are signed, where a signed bit stands for -1 or 1.
\<close>

theorem dequantize_f16_masks:
  assumes int32: "\<And>n. int32 n = Inr (word_of_int n)"
    and r4: "interleave_one int32 4 ''float16'' w = Inr r4" and r2: "interleave_one int32 2 ''float16'' w = Inr r2"
    and r1: "interleave_one int32 1 ''float16'' w = Inr r1"
  shows "decode_i4b_to_f16 g r4 8 = map (\<lambda>x. HFin (of_nat (field 4 w (4 * x)) - (if g then 8 else 0))) [0..<8] \<and>
    (\<forall>c < 2. decode_i2b_to_f16 g (ucast (drop_bit (16 * c) r2)) 8 =
       map (\<lambda>x. HFin (of_nat (field 2 w (2 * (8 * c + x))) - (if g then 2 else 0))) [0..<8]) \<and>
    (\<forall>c < 4. decode_i1b_to_f16 g None None (ucast (drop_bit (8 * c) r1)) 8 =
       map (\<lambda>x. let b = of_nat (field 1 w (8 * c + x)) in HFin (if g then 2 * b - 1 else b)) [0..<8])"
proof (intro conjI allI impI)
  have ok: "layout_ok (if ''float16'' = ''int8'' then 8 else 16) 4" "layout_ok (if ''float16'' = ''int8'' then 8 else 16) 2"
    "layout_ok (if ''float16'' = ''int8'' then 8 else 16) 1" by (auto simp: layout_ok_def)
  note fields = interleaved_field [OF int32]
  show "decode_i4b_to_f16 g r4 8 = map (\<lambda>x. HFin (of_nat (field 4 w (4 * x)) - (if g then 8 else 0))) [0..<8]"
    using fields [OF r4 ok(1)] by (auto simp: decode_i4b element_position_f16)
  fix c :: nat
  show "decode_i2b_to_f16 g (ucast (drop_bit (16 * c) r2)) 8 =
      map (\<lambda>x. HFin (of_nat (field 2 w (2 * (8 * c + x))) - (if g then 2 else 0))) [0..<8]" if "c < 2"
  proof -
    have "field 2 (ucast (drop_bit (16 * c) r2) :: 16 word) (8 * (x mod 2) + 2 * (x div 2)) = field 2 w (2 * (8 * c + x))"
      if x: "x < 8" for x
    proof -
      have "x div 2 < 4" and "x mod 2 < 2" using x by (simp_all add: less_mult_imp_div_less)
      then have "8 * (x mod 2) + 2 * (x div 2) + 2 \<le> LENGTH(16)" by simp
      then show ?thesis using fields [OF r2 ok(2), of "8 * c + x"] \<open>c < 2\<close> x
        by (simp only: field_chunk element_position_f16)
    qed
    then show ?thesis by (simp add: decode_i2b)
  qed
  show "decode_i1b_to_f16 g None None (ucast (drop_bit (8 * c) r1)) 8 =
      map (\<lambda>x. let b = of_nat (field 1 w (8 * c + x)) in HFin (if g then 2 * b - 1 else b)) [0..<8]" if "c < 4"
  proof -
    have "field 1 (ucast (drop_bit (8 * c) r1) :: 8 word) (4 * (x mod 2) + x div 2) = field 1 w (8 * c + x)"
      if x: "x < 8" for x
    proof -
      have "x div 2 < 4" and "x mod 2 < 2" using x by (simp_all add: less_mult_imp_div_less)
      then have "4 * (x mod 2) + x div 2 + 1 \<le> LENGTH(8)" by simp
      then show ?thesis using fields [OF r1 ok(3), of "8 * c + x"] \<open>c < 4\<close> x
        by (simp only: field_chunk element_position_f16 mult_1 div_by_1)
    qed
    then show ?thesis by (simp add: decode_i1b)
  qed
qed

theorem dequantize_f16_masks_witness:
  "interleave_one (\<lambda>n. Inr (word_of_int n)) 4 ''float16'' 0x76543210 = Inr 0x75316420 \<and>
   decode_i4b_to_f16 True 0x75316420 8 = map HFin [-8, -7, -6, -5, -4, -3, -2, -1]"
proof -
  let ?int32 = "\<lambda>n. Inr (word_of_int n) :: 32 word res"
  have r: "interleave_one ?int32 4 ''float16'' 0x76543210 = Inr 0x75316420"
    "interleave_one ?int32 2 ''float16'' 0x76543210 = Inr 1441005796"
    "interleave_one ?int32 1 ''float16'' 0x76543210 = Inr 1577997316" by code_simp+
  have "map (\<lambda>x. HFin (of_nat (field 4 (0x76543210 :: 32 word) (4 * x)) - 8)) [0..<8] = map HFin [-8, -7, -6, -5, -4, -3, -2, -1]"
    by (simp add: upt_conv_Cons field_def take_bit_eq_mask mask_eq_exp_minus_1)
  then show ?thesis using r(1) dequantize_f16_masks [OF _ r, of True] by simp
qed

section \<open>Decoding to bytes\<close>

lemma bytes_fields:
  assumes m: "\<And>b j. b < 4 \<Longrightarrow> j < 8 \<Longrightarrow> bit m (8 * b + j) \<longleftrightarrow> j < n" and n: "n \<le> 8"
  shows "bytes_of (lop3 immLut (drop_bit q w) m 0) = map (\<lambda>b. word_of_nat (field n w (q + 8 * b))) [0..<4]"
proof -
  have "ucast (drop_bit (8 * b) (drop_bit q w AND m)) = (word_of_nat (field n w (q + 8 * b)) :: 8 word)" if "b < 4" for b
  proof (rule bit_word_eqI)
    fix j
    assume "j < LENGTH(8)"
    then show "bit (ucast (drop_bit (8 * b) (drop_bit q w AND m)) :: 8 word) j = bit (word_of_nat (field n w (q + 8 * b)) :: 8 word) j"
      using m [OF that, of j] n
      by (auto simp: bit_unsigned_iff bit_drop_bit_eq bit_and_iff bit_of_nat_iff bit_field ac_simps)
  qed
  from this [of 0] this [of 1] this [of 2] this [of 3] show ?thesis
    by (simp add: bytes_of_def lop3_immLut upt_conv_Cons)
qed

lemma byte_masks:
  assumes "b < 4" "j < 8"
  shows "bit (0x0f0f0f0f :: 32 word) (8 * b + j) \<longleftrightarrow> j < 4" "bit (0x03030303 :: 32 word) (8 * b + j) \<longleftrightarrow> j < 2"
    "bit (0x01010101 :: 32 word) (8 * b + j) \<longleftrightarrow> j < 1"
proof -
  have m: "(0x0f0f0f0f :: 32 word) = mask 4 OR push_bit 8 (mask 4) OR push_bit 16 (mask 4) OR push_bit 24 (mask 4)"
    "(0x03030303 :: 32 word) = mask 2 OR push_bit 8 (mask 2) OR push_bit 16 (mask 2) OR push_bit 24 (mask 2)"
    "(0x01010101 :: 32 word) = mask 1 OR push_bit 8 (mask 1) OR push_bit 16 (mask 1) OR push_bit 24 (mask 1)"
    by (simp_all add: mask_eq_exp_minus_1)
  have "b \<in> set [0, 1, 2, 3]" using assms(1) by auto
  then show "bit (0x0f0f0f0f :: 32 word) (8 * b + j) \<longleftrightarrow> j < 4" "bit (0x03030303 :: 32 word) (8 * b + j) \<longleftrightarrow> j < 2"
    "bit (0x01010101 :: 32 word) (8 * b + j) \<longleftrightarrow> j < 1"
    unfolding m bit_or_iff bit_range using assms(2) by (auto simp: bit_mask_iff bit_1_iff)
qed

lemma concat_quads: "concat (map (\<lambda>i. map (\<lambda>b. g (4 * i + b)) [0..<4]) [0..<m]) = map g [0..<4 * m]"
proof (induction m)
  case (Suc m)
  have "[0..<4 * Suc m] = [0..<4 * m] @ map (\<lambda>b. 4 * m + b) [0..<4]"
    using upt_add_eq_append [of 0 "4 * m" 4] by (simp add: map_add_upt ac_simps)
  then show ?case using Suc by simp
qed simp

lemma decode_bytes_fields:
  assumes m: "\<And>b j. b < 4 \<Longrightarrow> j < 8 \<Longrightarrow> bit m (8 * b + j) \<longleftrightarrow> j < n" and n: "n \<le> 8"
  shows "decode_bytes step m adjust w k =
    map (\<lambda>x. adjust (word_of_nat (field n w (step * (x div 4) + 8 * (x mod 4))))) [0..<4 * (k div 4)]"
proof -
  have "bytes_of (lop3 immLut (drop_bit q w) m 0) = map (\<lambda>b. word_of_nat (field n w (q + 8 * b))) [0..<4]" for q
    using m n by (rule bytes_fields)
  then have "decode_bytes step m adjust w k =
      concat (map (\<lambda>i. map (\<lambda>b. adjust (word_of_nat (field n w (step * ((4 * i + b) div 4) + 8 * ((4 * i + b) mod 4))))) [0..<4]) [0..<k div 4])"
    unfolding decode_bytes_def by (auto intro!: arg_cong [where f = concat] map_cong)
  then show ?thesis
    using concat_quads [where g = "\<lambda>x. adjust (word_of_nat (field n w (step * (x div 4) + 8 * (x mod 4))))"] by simp
qed

lemma field_spread_i1b:
  assumes i: "i < 4" and b: "b < 4"
  shows "field 1 (spread_i1b c) (i + 8 * b) = field 1 c ([0, 8, 4, 12] ! b + i)"
proof (rule field_eqI)
  fix k :: nat
  assume "k < 1"
  moreover have "b \<in> set [0, 1, 2, 3]" using b by auto
  ultimately show "bit (spread_i1b c) (i + 8 * b + k) = bit c ([0, 8, 4, 12] ! b + i + k)"
    using i by (auto simp: bit_spread_i1b ac_simps)
qed

lemma vsubss_median: "f < 16 \<Longrightarrow> vsubss (word_of_nat f) 7 = word_of_int (int f - 7)"
proof -
  assume "f < 16"
  then have "f \<in> set [0..<16]" by simp
  moreover have "list_all (\<lambda>f. vsubss (word_of_nat f) 7 = word_of_int (int f - 7)) [0..<16]" by code_simp
  ultimately show ?thesis unfolding list_all_iff by blast
qed

lemma element_position_i8:
  "element_position 4 ''int8'' x = 4 * (x div 4) + 8 * (x mod 4)" "element_position 2 ''int8'' x = 2 * (x div 4) + 8 * (x mod 4)"
  "x < 16 \<Longrightarrow> element_position 1 ''int8'' (16 * c + x) = 16 * c + ([0, 8, 4, 12] ! (x mod 4) + x div 4)"
proof -
  have "(16 * c + x) mod 4 = x mod 4" by presburger
  then show "x < 16 \<Longrightarrow> element_position 1 ''int8'' (16 * c + x) = 16 * c + ([0, 8, 4, 12] ! (x mod 4) + x div 4)"
    by (simp add: element_position_def)
qed (simp_all add: element_position_def interleave_shift_def)

lemma decode_i4b_words:
  "decode_i4b_to_i8s adjust (v, w) 16 [a, b, c, d] =
    [map (\<lambda>x. adjust (word_of_nat (field 4 v (8 * x)))) [0..<4], map (\<lambda>x. adjust (word_of_nat (field 4 v (4 + 8 * x)))) [0..<4],
     map (\<lambda>x. adjust (word_of_nat (field 4 w (8 * x)))) [0..<4], map (\<lambda>x. adjust (word_of_nat (field 4 w (4 + 8 * x)))) [0..<4]]"
proof -
  have b: "bytes_of (lop3 immLut (drop_bit q u) 0x0f0f0f0f 0) = map (\<lambda>b. word_of_nat (field 4 u (q + 8 * b))) [0..<4]" for q u
    using byte_masks(1) by (rule bytes_fields) simp_all
  have two: "[0..<16 div 8] = [0, 1 :: nat]" by (simp add: upt_conv_Cons)
  show ?thesis unfolding decode_i4b_to_i8s_def two fold_simps b fst_conv snd_conv by (simp add: comp_def)
qed

lemma interleaved_quads:
  assumes int32: "\<And>n. int32 n = Inr (word_of_int n)" and r: "interleave_one int32 4 ''int8'' v = Inr r"
  shows "map (\<lambda>x. f (word_of_nat (field 4 r (8 * x)))) [0..<4] @ map (\<lambda>x. f (word_of_nat (field 4 r (4 + 8 * x)))) [0..<4] @ xs =
    map (\<lambda>x. f (word_of_nat (field 4 v (4 * x)) :: 8 word)) [0..<8] @ xs"
proof -
  have "field 4 r (4 * (x div 4) + 8 * (x mod 4)) = field 4 v (4 * x)" if "x < 8" for x
    using interleaved_field [OF int32 r, of x] that by (simp add: layout_ok_def element_position_i8)
  from this [of 0] this [of 1] this [of 2] this [of 3] this [of 4] this [of 5] this [of 6] this [of 7]
  show ?thesis by (simp add: upt_conv_Cons)
qed

text \<open>
  If \<^verbatim>\<open>torch.int32\<close> made the masks, interleaving and decoding would be inverse for bytes: the decoders of unsigned weights return the weights of the
  original word in their order, for two words of four bit weights, a word of two bit weights, and each
  half of a word of one bit weights; the decoders of signed weights subtract 7 from four bits and 2 from two bits.
\<close>

theorem dequantize_i8_masks:
  assumes int32: "\<And>n. int32 n = Inr (word_of_int n)"
    and r4: "interleave_one int32 4 ''int8'' w = Inr r4" and r4': "interleave_one int32 4 ''int8'' w' = Inr r4'"
    and r2: "interleave_one int32 2 ''int8'' w = Inr r2" and r1: "interleave_one int32 1 ''int8'' w = Inr r1"
  shows "concat (decode_i4u_to_i8s (r4, r4') 16 [a, b, c, d]) =
      map (\<lambda>x. word_of_nat (field 4 w (4 * x))) [0..<8] @ map (\<lambda>x. word_of_nat (field 4 w' (4 * x))) [0..<8] \<and>
    concat (decode_i4s_to_i8s (r4, r4') 16 [a, b, c, d]) =
      map (\<lambda>x. word_of_int (int (field 4 w (4 * x)) - 7)) [0..<8] @ map (\<lambda>x. word_of_int (int (field 4 w' (4 * x)) - 7)) [0..<8] \<and>
    decode_i2u_to_i8s r2 16 = map (\<lambda>x. word_of_nat (field 2 w (2 * x))) [0..<16] \<and>
    decode_i2s_to_i8s r2 16 = map (\<lambda>x. word_of_nat (field 2 w (2 * x)) - 2) [0..<16] \<and>
    (\<forall>h < 2. decode_i1u_to_i8s (ucast (drop_bit (16 * h) r1)) 16 = map (\<lambda>x. word_of_nat (field 1 w (16 * h + x))) [0..<16])"
proof -
  have ok: "layout_ok (if ''int8'' = ''int8'' then 8 else 16) 2" "layout_ok (if ''int8'' = ''int8'' then 8 else 16) 1"
    by (auto simp: layout_ok_def)
  note fields = interleaved_field [OF int32]
  have four: "concat (decode_i4b_to_i8s f (r4, r4') 16 [a, b, c, d]) =
      map (\<lambda>x. f (word_of_nat (field 4 w (4 * x)))) [0..<8] @ map (\<lambda>x. f (word_of_nat (field 4 w' (4 * x)))) [0..<8]" for f
    by (simp only: decode_i4b_words concat.simps interleaved_quads [OF int32 r4] interleaved_quads [OF int32 r4']) simp
  have small: "vsubss (word_of_nat (field 4 v p)) 7 = word_of_int (int (field 4 v p) - 7)" for v :: "32 word" and p
    using field_less [of 4 v p] by (intro vsubss_median) simp
  have two: "decode_bytes 2 0x03030303 f r2 16 = map (\<lambda>x. f (word_of_nat (field 2 w (2 * x)))) [0..<16]" for f
    using fields [OF r2 ok(1)] byte_masks(2)
    by (subst decode_bytes_fields [where n = 2]) (auto simp: element_position_i8)
  have one: "field 1 (spread_i1b (ucast (drop_bit (16 * h) r1))) (x div 4 + 8 * (x mod 4)) = field 1 w (16 * h + x)"
    if "h < 2" "x < 16" for h x
  proof -
    have i: "x div 4 < 4" "x mod 4 < 4" using that(2) by (simp_all add: less_mult_imp_div_less)
    then have "x mod 4 \<in> set [0, 1, 2, 3]" by auto
    then have "[0, 8, 4, 12] ! (x mod 4) + x div 4 + 1 \<le> LENGTH(16)" using i by auto
    then show ?thesis using fields [OF r1 ok(2), of "16 * h + x"] that i
      by (simp only: field_spread_i1b field_chunk element_position_i8 mult_1 div_by_1)
  qed
  show ?thesis
    unfolding decode_i4u_to_i8s_def decode_i4s_to_i8s_def four small decode_i2u_to_i8s_def decode_i2s_to_i8s_def
      decode_i1u_to_i8s_def two
    using one byte_masks(3) by (subst decode_bytes_fields [where n = 1]) auto
qed

theorem dequantize_i8_masks_witness:
  "interleave_one (\<lambda>n. Inr (word_of_int n)) 2 ''int8'' 0x76543210 = Inr 1356681352 \<and>
   decode_i2u_to_i8s 1356681352 16 = [0, 0, 1, 0, 2, 0, 3, 0, 0, 1, 1, 1, 2, 1, 3, 1]"
proof -
  let ?int32 = "\<lambda>n. Inr (word_of_int n) :: 32 word res"
  have r: "interleave_one ?int32 4 ''int8'' 0x76543210 = Inr 1935823168" "interleave_one ?int32 2 ''int8'' 0x76543210 = Inr 1356681352"
    "interleave_one ?int32 1 ''int8'' 0x76543210 = Inr 217713674" by code_simp+
  have "map (\<lambda>x. word_of_nat (field 2 (0x76543210 :: 32 word) (2 * x))) [0..<16] =
      [0, 0, 1, 0, 2, 0, 3, 0, 0, 1, 1, 1, 2, 1, 3, 1 :: 8 word]"
    by (simp add: upt_conv_Cons field_def take_bit_eq_mask mask_eq_exp_minus_1)
  then show ?thesis using r(2) dequantize_i8_masks [OF _ r(1) r(1) r(2) r(3)] by simp
qed

lemma interleave_one_plain:
  "interleave_one int32 4 ''float16'' w = Inr (interleave_word 16 4 w)"
  "interleave_one int32 4 ''int8'' w = Inr (interleave_word 8 4 w)"
  "interleave_one int32 2 ''int8'' w = Inr (interleave_word 8 2 w)"
  by (simp_all add: interleave_one_def special_moves_def)

text \<open>
  C30: In the formats whose interleaving needs no masks, interleaving and decoding are inverse: the decoders of unsigned
  weights return the weights of the original words in their order, as numbers or as bytes, and the decoders of
  signed weights subtract 8 from four bits as numbers, 7 from four bits as bytes, and 2 from two bits.
\<close>

theorem dequantize_words:
  "rbind (interleave_one int32 4 ''float16'' w) (\<lambda>r. Inr (decode_i4b_to_f16 g r 8)) =
     Inr (map (\<lambda>x. HFin (of_nat (field 4 w (4 * x)) - (if g then 8 else 0))) [0..<8]) \<and>
   rbind (interleave_one int32 4 ''int8'' w) (\<lambda>r. rbind (interleave_one int32 4 ''int8'' w') (\<lambda>r'.
       Inr (concat (decode_i4u_to_i8s (r, r') 16 [a, b, c, d])))) =
     Inr (map (\<lambda>x. word_of_nat (field 4 w (4 * x))) [0..<8] @ map (\<lambda>x. word_of_nat (field 4 w' (4 * x))) [0..<8]) \<and>
   rbind (interleave_one int32 4 ''int8'' w) (\<lambda>r. rbind (interleave_one int32 4 ''int8'' w') (\<lambda>r'.
       Inr (concat (decode_i4s_to_i8s (r, r') 16 [a, b, c, d])))) =
     Inr (map (\<lambda>x. word_of_int (int (field 4 w (4 * x)) - 7)) [0..<8] @
          map (\<lambda>x. word_of_int (int (field 4 w' (4 * x)) - 7)) [0..<8]) \<and>
   rbind (interleave_one int32 2 ''int8'' w) (\<lambda>r. Inr (decode_i2u_to_i8s r 16)) =
     Inr (map (\<lambda>x. word_of_nat (field 2 w (2 * x))) [0..<16]) \<and>
   rbind (interleave_one int32 2 ''int8'' w) (\<lambda>r. Inr (decode_i2s_to_i8s r 16)) =
     Inr (map (\<lambda>x. word_of_nat (field 2 w (2 * x)) - 2) [0..<16])"
proof -
  let ?int32 = "\<lambda>n. Inr (word_of_int n) :: 32 word res"
  obtain r2 r1 where f: "interleave_one ?int32 2 ''float16'' w = Inr r2" "interleave_one ?int32 1 ''float16'' w = Inr r1"
    by (simp add: interleave_one_def special_moves_def rearrange_def Let_def)
  obtain s1 where i: "interleave_one ?int32 1 ''int8'' w = Inr s1"
    by (simp add: interleave_one_def special_moves_def rearrange_def Let_def)
  note f16 = dequantize_f16_masks [OF refl interleave_one_plain(1) f]
  note i8 = dequantize_i8_masks [OF refl interleave_one_plain(2) interleave_one_plain(2) interleave_one_plain(3) i]
  show ?thesis using f16 [of g] i8 [of w' a b c d] unfolding interleave_one_plain by simp
qed

section \<open>Choosing a decoder\<close>

text \<open>The sources of \<^verbatim>\<open>import_c_map\<close>, each as the functions for callers that it declares.\<close>

definition import_c_map :: "(string \<times> string list) list" where
  "import_c_map =
     [(''i4_to_f16'', [''decode_i4s_to_f16'', ''decode_i4u_to_f16'']),
      (''i2_to_f16'', [''decode_i2s_to_f16'', ''decode_i2u_to_f16'']),
      (''i1_to_f16'', [''decode_i1s_to_f16'', ''decode_i1u_to_f16'']),
      (''i4_to_f16_scale'', [''decode_i4s_to_f16_scale'', ''decode_i4u_to_f16_scale'']),
      (''i4_to_f16_scale_offset'', [''decode_i4s_to_f16_scale_offset'', ''decode_i4u_to_f16_scale_offset'']),
      (''i2_to_f16_scale'', [''decode_i2s_to_f16_scale'', ''decode_i2u_to_f16_scale'']),
      (''i1_to_f16_scale'', [''decode_i1u_to_f16_scale'', ''decode_i1s_to_f16_scale'']),
      (''i4_to_f16_scale_zeros_original'', [''decode_i4u_to_f16_scale_zeros_original'']),
      (''i4_to_f16_scale_zeros_original_offset'', [''decode_i4u_to_f16_scale_zeros_original_offset'']),
      (''i2_to_f16_scale_zeros_original'', [''decode_i2u_to_f16_scale_zeros_original'']),
      (''i1_to_f16_scale_zeros_original'', [''decode_i1u_to_f16_scale_zeros_original'']),
      (''i4_to_f16_scale_zeros_rescale'', [''decode_i4u_to_f16_scale_zeros_rescale'']),
      (''i4_to_f16_scale_zeros_rescale_offset'', [''decode_i4u_to_f16_scale_zeros_rescale_offset'']),
      (''i2_to_f16_scale_zeros_rescale'', [''decode_i2u_to_f16_scale_zeros_rescale'']),
      (''i1_to_f16_scale_zeros_rescale'', [''decode_i1u_to_f16_scale_zeros_rescale'']),
      (''i4_to_f16_scale_zeros_quantized'', [''decode_i4u_to_f16_scale_zeros_quantized'']),
      (''i2_to_f16_scale_zeros_quantized'', [''decode_i2u_to_f16_scale_zeros_quantized'']),
      (''i4_to_f16_scale_zeros_quantized_offset'', [''decode_i4u_to_f16_scale_zeros_quantized_offset'']),
      (''i1_to_i8'', [''decode_i1s_to_i8s'', ''decode_i1u_to_i8s'']),
      (''i2_to_i8'', [''decode_i2s_to_i8s'', ''decode_i2u_to_i8s'']),
      (''i4_to_i8'', [''decode_i4s_to_i8s'', ''decode_i4u_to_i8s'']),
      (''i2_to_i4'', [''decode_i2s_to_i4s'', ''decode_i2u_to_i4s''])]"

definition lop3_suffix :: "bool \<Rightarrow> string option \<Rightarrow> bool \<Rightarrow> string" where
  "lop3_suffix with_scaling zeros is_ladder_stage3 =
     (if with_scaling then ''_scale'' else '''') @ (case zeros of Some m \<Rightarrow> ''_zeros_'' @ m | None \<Rightarrow> '''') @
     (if is_ladder_stage3 then ''_offset'' else '''')"

text \<open>The modes of zeros are an argument \<open>Some mode\<close> when zeros are used.\<close>

definition get_lop3_intrin_group ::
  "string \<Rightarrow> string \<Rightarrow> nat \<Rightarrow> bool \<Rightarrow> string option \<Rightarrow> string \<Rightarrow> (string \<times> string list) res" where
  "get_lop3_intrin_group out_dtype source_format source_bit with_scaling zeros storage_scope =
     (if out_dtype \<notin> {''float16'', ''int8'', ''int4''} then Inl AssertionError
      else if source_format \<notin> {''int'', ''uint''} then Inl ValueError
      else if zeros \<noteq> None \<and> source_format = ''int'' then Inl ValueError
      else
        let target_dtype = (if out_dtype = ''float16'' then ''f16'' else if out_dtype = ''int8'' then ''i8'' else ''i4'');
            d4f = (if out_dtype = ''float16'' then ''f16'' else if out_dtype = ''int8'' then ''i8s'' else ''i4s'');
            suffix = lop3_suffix with_scaling zeros (storage_scope = ''warp'' \<and> with_scaling);
            key = ''i'' @ str_nat source_bit @ ''_to_'' @ target_dtype @ suffix;
            source_symbol = (if source_format = ''uint'' then ''u'' else ''s'');
            func_name = ''decode_i'' @ str_nat source_bit @ source_symbol @ ''_to_'' @ d4f @ suffix
        in case map_of import_c_map key of None \<Rightarrow> Inl KeyError | Some c_source \<Rightarrow> Inr (func_name, c_source))"

definition is_digit :: "char \<Rightarrow> bool" where
  "is_digit c \<longleftrightarrow> c \<in> set ''0123456789''"

lemma str_nat_digits: "list_all is_digit (str_nat n)"
proof (induction n rule: str_nat.induct)
  case (1 n)
  have "is_digit (char_of (48 + d))" if "d < 10" for d :: nat
  proof -
    have "list_all (\<lambda>d. is_digit (char_of (48 + d))) [0..<10]" by code_simp
    moreover have "d \<in> set [0..<10]" using that by simp
    ultimately show ?thesis unfolding list_all_iff by blast
  qed
  then show ?case using 1 by (subst str_nat.simps) auto
qed

lemma str_nat_split:
  assumes "\<not> is_digit c"
  shows "str_nat n @ c # xs = ys \<longleftrightarrow> str_nat n = takeWhile is_digit ys \<and> c # xs = dropWhile is_digit ys"
  using assms str_nat_digits [of n]
  by (auto simp: list_all_iff takeWhile_append2 dropWhile_append2)

text \<open>
  Whatever decoder is asked for, the function name that is returned is declared by the source that is
  returned with it.
\<close>

theorem lop3_group_declared:
  assumes "get_lop3_intrin_group out_dtype source_format source_bit with_scaling zeros storage_scope = Inr (func_name, c_source)"
  shows "func_name \<in> set c_source"
proof -
  have under: "\<not> is_digit (CHR ''_'')" by (simp add: is_digit_def)
  show ?thesis
    using assms
    by (auto simp: get_lop3_intrin_group_def import_c_map_def lop3_suffix_def Let_def str_nat_split [OF under] is_digit_def
        split: if_splits option.splits)
qed

theorem lop3_group_declared_witness:
  "get_lop3_intrin_group ''float16'' ''uint'' 4 True (Some ''rescale'') ''local'' =
     Inr (''decode_i4u_to_f16_scale_zeros_rescale'', [''decode_i4u_to_f16_scale_zeros_rescale''])"
proof -
  have run: "get_lop3_intrin_group ''float16'' ''uint'' 4 True (Some ''rescale'') ''local'' =
     Inr (''decode_i4u_to_f16_scale_zeros_rescale'', [''decode_i4u_to_f16_scale_zeros_rescale''])" by code_simp
  show ?thesis using run lop3_group_declared [OF run] by simp
qed

section \<open>From weights to weights\<close>

text \<open>
  Packing eight weights of four bits to a word, interleaving the words, and decoding each of them.
\<close>

lemma word_of_bytes_of: "word_of_bytes (ucast w) (ucast (drop_bit 8 w)) (ucast (drop_bit 16 w)) (ucast (drop_bit 24 w)) = w"
proof (rule bit_word_eqI)
  fix n
  assume "n < LENGTH(32)"
  then consider "n < 8" | "8 \<le> n \<and> n < 16" | "16 \<le> n \<and> n < 24" | "24 \<le> n \<and> n < 32" by fastforce
  then show "bit (word_of_bytes (ucast w) (ucast (drop_bit 8 w)) (ucast (drop_bit 16 w)) (ucast (drop_bit 24 w))) n = bit w n"
    unfolding word_of_bytes_def bit_or_iff bit_push_bit_iff bit_unsigned_iff bit_drop_bit_eq comp_def by cases auto
qed

lemma view_int32_int8: "view_int32 (view_int8 ws) = Inr ws"
  by (induction ws) (simp_all add: view_int8_def bytes_of_def word_of_bytes_of)

lemma field_word_of_bytes:
  assumes "j < 4" "p + n \<le> 8"
  shows "field n (word_of_bytes b0 b1 b2 b3) (8 * j + p) = field n ([b0, b1, b2, b3] ! j) p"
proof (rule field_eqI)
  fix k
  assume k: "k < n"
  have "j \<in> set [0, 1, 2, 3]" using assms(1) by auto
  moreover have "p + k < 8" using assms(2) k by simp
  ultimately show "bit (word_of_bytes b0 b1 b2 b3) (8 * j + p + k) = bit ([b0, b1, b2, b3] ! j) (p + k)"
    unfolding word_of_bytes_def bit_or_iff bit_push_bit_iff bit_unsigned_iff
    by (auto simp: ac_simps dest: bit_imp_le_length)
qed

lemma decode_interleaved_word:
  "decode_i4b_to_f16 False (interleave_word 16 4 q) 8 = map (\<lambda>x. HFin (of_nat (field 4 q (4 * x)))) [0..<8]"
proof -
  have "layout_ok 16 4" by (simp add: layout_ok_def)
  then have "field 4 (interleave_word 16 4 q) (4 * (x div 2) + 16 * (x mod 2)) = field 4 q (4 * x)" if "x < 8" for x
    using interleave_field [of 16 4 x q] that by (simp add: interleave_shift_def ac_simps)
  then show ?thesis by (simp add: decode_i4b)
qed

lemma upt_four: "[0..<Suc (Suc (Suc (Suc m)))] = 0 # 1 # 2 # 3 # map (\<lambda>j. j + 4) [0..<m]"
proof -
  have "[0..<4 + m] = [0..<4] @ [4..<4 + m]" by (rule upt_add_eq_append) simp
  moreover have "[4..<4 + m] = map (\<lambda>j. j + 4) [0..<m]" by (simp add: map_add_upt add.commute)
  moreover have "[0..<4] = [0, 1, 2, 3::nat]" by (simp add: upt_conv_Cons)
  ultimately show ?thesis by (simp add: numeral_eq_Suc del: upt_Suc)
qed

lemma length_eight:
  assumes "length ws = 8 * Suc n"
  obtains a b c d e f g h ws' where "ws = a # b # c # d # e # f # g # h # ws'" "length ws' = 8 * n"
proof -
  have "length ws = Suc (Suc (Suc (Suc (Suc (Suc (Suc (Suc (8 * n))))))))" using assms by simp
  then show thesis unfolding length_Suc_conv using that by blast
qed

definition packed_bytes :: "8 word list \<Rightarrow> 8 word list" where
  "packed_bytes ws = map (\<lambda>j. compress_byte 4 (take 2 (drop (j * 2) ws))) [0..<length ws div 2]"

lemma packed_bytes_Cons:
  "packed_bytes (a # b # c # d # e # f # g # h # ws) =
    compress_byte 4 [a, b] # compress_byte 4 [c, d] # compress_byte 4 [e, f] # compress_byte 4 [g, h] # packed_bytes ws"
proof -
  have "length (a # b # c # d # e # f # g # h # ws) div 2 = Suc (Suc (Suc (Suc (length ws div 2))))" by simp
  moreover have "drop ((j + 4) * 2) (a # b # c # d # e # f # g # h # ws) = drop (j * 2) ws" for j
    by (simp add: eval_nat_numeral)
  moreover have "take 2 (drop (0 * 2) (a # b # c # d # e # f # g # h # ws)) = [a, b]"
    "take 2 (drop (1 * 2) (a # b # c # d # e # f # g # h # ws)) = [c, d]"
    "take 2 (drop (2 * 2) (a # b # c # d # e # f # g # h # ws)) = [e, f]"
    "take 2 (drop (3 * 2) (a # b # c # d # e # f # g # h # ws)) = [g, h]" by simp_all
  ultimately show ?thesis unfolding packed_bytes_def by (simp only: upt_four list.map map_map comp_def)
qed

lemma packed_words:
  "length ws = 8 * n \<Longrightarrow> \<forall>w \<in> set ws. unat w < 16 \<Longrightarrow>
   \<exists>qs. view_int32 (packed_bytes ws) = Inr qs \<and> length qs = n \<and>
     concat (map (\<lambda>q. map (\<lambda>x. field 4 q (4 * x)) [0..<8]) qs) = map unat ws"
proof (induction n arbitrary: ws)
  case 0
  then show ?case by (simp add: packed_bytes_def)
next
  case (Suc n)
  obtain a b c d e f g h ws' where ws: "ws = a # b # c # d # e # f # g # h # ws'" and len: "length ws' = 8 * n"
    using Suc.prems(1) by (rule length_eight)
  obtain qs where qs: "view_int32 (packed_bytes ws') = Inr qs" "length qs = n"
    "concat (map (\<lambda>q. map (\<lambda>x. field 4 q (4 * x)) [0..<8]) qs) = map unat ws'"
    using Suc.IH [OF len] Suc.prems(2) ws by auto
  have pair: "field 4 (compress_byte 4 [u, v]) 0 = unat u" "field 4 (compress_byte 4 [u, v]) 4 = unat v"
    if "unat u < 16" "unat v < 16" for u v
    using field_compress [of "[u, v]" 4 0] field_compress [of "[u, v]" 4 1] that by simp_all
  let ?q = "word_of_bytes (compress_byte 4 [a, b]) (compress_byte 4 [c, d]) (compress_byte 4 [e, f]) (compress_byte 4 [g, h])"
  note byte = field_word_of_bytes [where n = 4]
  have "map (\<lambda>x. field 4 ?q (4 * x)) [0..<8] = map unat [a, b, c, d, e, f, g, h]"
    using byte [of 0 0] byte [of 0 4] byte [of 1 0] byte [of 1 4] byte [of 2 0] byte [of 2 4] byte [of 3 0] byte [of 3 4]
      Suc.prems(2) ws by (simp add: upt_conv_Cons pair)
  then show ?case using qs by (intro exI [of _ "?q # qs"]) (simp add: ws packed_bytes_Cons)
qed

text \<open>
  C18: A row of four bit weights that fills whole words survives the whole path: packed into bytes, interleaved for half
  precision and decoded word by word, it is the row of the weights as numbers.
\<close>

theorem dequantize_row:
  assumes "length ws = 8 * n" and "\<forall>w \<in> set ws. unat w < 16"
  shows "\<exists>bs bs' rs. general_compress 4 ws = Inr bs \<and> interleave_weight int32 bs 4 ''float16'' = Inr bs' \<and>
    view_int32 bs' = Inr rs \<and> length rs = n \<and>
    concat (map (\<lambda>r. decode_i4b_to_f16 False r 8) rs) = map (\<lambda>w. HFin (of_nat (unat w))) ws"
proof -
  obtain qs where q: "view_int32 (packed_bytes ws) = Inr qs" "length qs = n"
    "concat (map (\<lambda>q. map (\<lambda>x. field 4 q (4 * x)) [0..<8]) qs) = map unat ws"
    using packed_words [OF assms] by blast
  have "general_compress 4 ws = Inr (packed_bytes ws)" by (simp add: general_compress_def packed_bytes_def)
  moreover have "rmap (interleave_one int32 4 ''float16'') qs = Inr (map (interleave_word 16 4) qs)"
    by (induction qs) (auto simp: interleave_one_def special_moves_def)
  then have "interleave_weight int32 (packed_bytes ws) 4 ''float16'' = Inr (view_int8 (map (interleave_word 16 4) qs))"
    using q(1) by (simp add: interleave_weight_def special_moves_def)
  moreover have "concat (map (\<lambda>r. decode_i4b_to_f16 False r 8) (map (interleave_word 16 4) qs)) = map (\<lambda>w. HFin (of_nat (unat w))) ws"
    using arg_cong [OF q(3), of "map (\<lambda>k. HFin (of_nat k))"] by (simp add: decode_interleaved_word map_concat comp_def)
  ultimately show ?thesis using q(2) by (auto simp: view_int32_int8)
qed

theorem dequantize_row_witness:
  "\<exists>bs bs' rs. general_compress 4 [1, 2, 3, 4, 5, 6, 7, 15] = Inr bs \<and>
     interleave_weight (\<lambda>_. Inl TypeError) bs 4 ''float16'' = Inr bs' \<and> view_int32 bs' = Inr rs \<and> length rs = 1 \<and>
     concat (map (\<lambda>r. decode_i4b_to_f16 False r 8) rs) = map HFin [1, 2, 3, 4, 5, 6, 7, 15]"
  using dequantize_row [of "[1, 2, 3, 4, 5, 6, 7, 15]" 1 "\<lambda>_. Inl TypeError"] by simp
end
