(* ===== verification/MmaEmitter.thy ===== *)
theory MmaEmitter
  imports LayoutMaps
begin

text \<open>
  The emitters of tensor core instructions (\<^verbatim>\<open>intrinsics/mma_macro_generator.py\<close>).  An emitter is made from data
  types, the numbers of warps and the tiles of a block; its methods emit, for the thread they run in, the loads of
  operand fragments from shared memory, the multiplications, and the stores of the result.

  A macro is the list of the calls it emits with its loops unrolled.  Indices are natural numbers, the bits of a data type
  are an argument, as is the thread: \<^verbatim>\<open>get_thread_binding\<close> of the kernel frame.  The numbers of warps are positive
  wherever a thread exists.  The second part defines what the PTX instructions do to the registers of a warp, and proves that
  loads, multiplications and stores together compute the product of the operands.
\<close>

section \<open>The emitter\<close>

text \<open>The arguments of the constructor, and the attributes it sets.\<close>

record mma_params =
  a_dtype :: string
  b_dtype :: string
  accum_dtype :: string
  a_transposed :: bool
  b_transposed :: bool
  block_row_warps :: nat
  block_col_warps :: nat
  warp_row_tiles :: nat
  warp_col_tiles :: nat
  chunk :: nat
  reduce_k :: nat
  num_elems_per_byte :: nat
  is_m_first :: "bool option"

definition mma_defaults :: mma_params where
  "mma_defaults =
     \<lparr>a_dtype = ''float16'', b_dtype = ''float16'', accum_dtype = ''float16'', a_transposed = False, b_transposed = False,
      block_row_warps = 2, block_col_warps = 2, warp_row_tiles = 8, warp_col_tiles = 8, chunk = 16, reduce_k = 1,
      num_elems_per_byte = 1, is_m_first = Some False\<rparr>"

record emitter = mma_params +
  k_dim :: nat
  a_dtype_abbrv :: string
  b_dtype_abbrv :: string
  accum_dtype_abbrv :: string
  local_size_a :: nat
  local_size_b :: nat
  local_size_out :: nat
  mma_prefix :: string
  micro_size_x :: nat
  micro_size_y :: nat
  micro_size_k :: nat
  m_first :: bool
  warp_rows :: nat
  warp_cols :: nat
  threads :: nat

definition M_DIM :: nat where "M_DIM = 16"

definition N_DIM :: nat where "N_DIM = 16"

definition WARP_SIZE :: nat where "WARP_SIZE = 32"

definition dtype_abbrv :: "(string \<times> string) list" where
  "dtype_abbrv =
     [(''float16'', ''fp16''), (''bfloat16'', ''bf16''), (''float32'', ''fp32''), (''int8'', ''int8''), (''int32'', ''int32''),
      (''e4m3_float8'', ''e4m3''), (''e5m2_float8'', ''e5m2'')]"

definition abbrv :: "string \<Rightarrow> string res" where
  "abbrv dtype = (case map_of dtype_abbrv dtype of None \<Rightarrow> Inl KeyError | Some s \<Rightarrow> Inr s)"

definition initialize_mma_prefix :: "nat \<Rightarrow> string res" where
  "initialize_mma_prefix kd =
     (if kd = 16 then Inr ''m16n8k16'' else if kd = 32 then Inr ''m16n8k32'' else Inl ValueError)"

definition emitter_init :: "(string \<Rightarrow> nat) \<Rightarrow> mma_params \<Rightarrow> emitter res" where
  "emitter_init bits p =
     rbind (guard ZeroDivisionError (bits (a_dtype p) \<noteq> 0)) (\<lambda>_.
     let kd = 256 div bits (a_dtype p) in
     rbind (abbrv (a_dtype p)) (\<lambda>aa. rbind (abbrv (b_dtype p)) (\<lambda>ba. rbind (abbrv (accum_dtype p)) (\<lambda>ca.
     rbind (initialize_mma_prefix kd) (\<lambda>prefix.
     let wr = warp_row_tiles p div M_DIM; wc = warp_col_tiles p div N_DIM;
         e = mma_params.extend p (emitter.fields kd aa ba ca (M_DIM * kd div WARP_SIZE) (N_DIM * kd div WARP_SIZE)
               (M_DIM * N_DIM div WARP_SIZE) prefix M_DIM N_DIM kd (case is_m_first p of None \<Rightarrow> False | Some b \<Rightarrow> b)
               wr wc (WARP_SIZE * (block_row_warps p * block_col_warps p) * reduce_k p))
     in if wr = 0 \<or> wc = 0 then Inl ValueError else Inr e)))))"

text \<open>The lane of a thread, and the column and row of its warp.\<close>

definition extract_thread_binding :: "'a emitter_scheme \<Rightarrow> nat \<Rightarrow> bool option \<Rightarrow> nat \<times> nat \<times> nat" where
  "extract_thread_binding e thread_id first =
     (let lane_id = thread_id mod WARP_SIZE
      in if (case first of None \<Rightarrow> m_first e | Some b \<Rightarrow> b)
         then (lane_id, (thread_id div WARP_SIZE) mod block_col_warps e,
               (thread_id div (WARP_SIZE * block_col_warps e)) mod block_row_warps e)
         else (lane_id, (thread_id div (WARP_SIZE * block_row_warps e)) mod block_col_warps e,
               (thread_id div WARP_SIZE) mod block_row_warps e))"

section \<open>Emitted calls\<close>

record ptx_ldmatrix =
  ld_dtype :: string
  ld_trans :: bool
  ld_num :: nat
  ld_type :: string
  ld_local :: nat
  ld_index :: "nat list"
  ld_offset :: nat

record ptx_mma =
  mma_dtype :: string
  mma_shape :: string
  mma_layout_a :: string
  mma_layout_b :: string
  mma_abbrv_a :: string
  mma_abbrv_b :: string
  mma_abbrv_c :: string
  mma_a :: nat
  mma_b :: nat
  mma_c :: nat
  mma_saturate :: bool

definition ldmatrix_call :: "string \<Rightarrow> nat \<Rightarrow> nat list \<Rightarrow> nat \<Rightarrow> ptx_ldmatrix" where
  "ldmatrix_call dtype loc idx off =
     \<lparr>ld_dtype = dtype, ld_trans = False, ld_num = 4, ld_type = ''.b16'', ld_local = loc, ld_index = idx, ld_offset = off\<rparr>"

definition ldmatrix_a :: "(string \<Rightarrow> nat) \<Rightarrow> 'a emitter_scheme \<Rightarrow> nat list \<Rightarrow> nat \<Rightarrow> nat \<Rightarrow> nat \<Rightarrow> ptx_ldmatrix list res" where
  "ldmatrix_a bits e shape ki rk thread_id =
     rbind (py_nth shape (- 1)) (\<lambda>stride.
     case extract_thread_binding e thread_id None of (tx, _, warp_m) \<Rightarrow>
     rmap (\<lambda>i.
       rbind (get_ldmatrix_offset ''A'' tx 0 stride (bits (a_dtype e)) (a_transposed e)) (\<lambda>off.
       Inr (ldmatrix_call (a_dtype e) (i * local_size_a e)
              [warp_m * warp_row_tiles e + i * micro_size_x e, rk * chunk e + ki * micro_size_k e] off)))
       [0..<warp_rows e])"

definition ldmatrix_b :: "(string \<Rightarrow> nat) \<Rightarrow> 'a emitter_scheme \<Rightarrow> nat list \<Rightarrow> nat \<Rightarrow> nat \<Rightarrow> nat \<Rightarrow> ptx_ldmatrix list res" where
  "ldmatrix_b bits e shape ki rk thread_id =
     rbind (py_nth shape (- 1)) (\<lambda>stride.
     case extract_thread_binding e thread_id None of (tx, warp_n, _) \<Rightarrow>
     rmap (\<lambda>j.
       rbind (get_ldmatrix_offset ''B'' tx 0 stride (bits (b_dtype e)) (b_transposed e)) (\<lambda>off.
       Inr (ldmatrix_call (b_dtype e) (j * local_size_b e)
              [warp_n * warp_col_tiles e + j * micro_size_y e, rk * chunk e + ki * micro_size_k e] off)))
       [0..<warp_cols e])"

text \<open>Two instructions for each pair of tiles, since one covers eight of the sixteen columns.\<close>

definition mma_call :: "'a emitter_scheme \<Rightarrow> nat \<Rightarrow> nat \<Rightarrow> nat \<Rightarrow> ptx_mma" where
  "mma_call e a b c =
     \<lparr>mma_dtype = accum_dtype e, mma_shape = mma_prefix e, mma_layout_a = ''row'', mma_layout_b = ''col'',
      mma_abbrv_a = a_dtype_abbrv e, mma_abbrv_b = b_dtype_abbrv e, mma_abbrv_c = accum_dtype_abbrv e,
      mma_a = a, mma_b = b, mma_c = c, mma_saturate = False\<rparr>"

definition mma :: "'a emitter_scheme \<Rightarrow> bool \<Rightarrow> bool \<Rightarrow> nat \<Rightarrow> ptx_mma list" where
  "mma e a_is_fragment b_is_fragment k_inner =
     (let a_local_stride = (if a_is_fragment then k_inner * warp_rows e * local_size_a e else 0);
          b_local_stride = (if b_is_fragment then k_inner * warp_cols e * local_size_b e else 0)
      in concat (map (\<lambda>i. concat (map (\<lambda>j.
           [mma_call e (a_local_stride + i * local_size_a e) (b_local_stride + j * local_size_b e)
              (i * warp_cols e * local_size_out e + j * local_size_out e),
            mma_call e (a_local_stride + i * local_size_a e) (b_local_stride + j * local_size_b e + local_size_b e div 2)
              (i * warp_cols e * local_size_out e + j * local_size_out e + local_size_out e div 2)])
           [0..<warp_cols e])) [0..<warp_rows e]))"

text \<open>A store is the position in the result with the local index of its value.\<close>

definition stmatrix :: "'a emitter_scheme \<Rightarrow> nat \<Rightarrow> nat option \<Rightarrow> nat option \<Rightarrow> nat \<Rightarrow> (nat list \<times> nat) list res" where
  "stmatrix e C_buf_dims pid_m pid_n thread_id =
     rbind (guard AssertionError (C_buf_dims \<in> {2, 4})) (\<lambda>_.
     case extract_thread_binding e thread_id None of (tx, warp_n, warp_m) \<Rightarrow>
     let BLOCK_M = block_row_warps e * warp_rows e; BLOCK_N = block_col_warps e * warp_cols e
     in Inr (concat (map (\<lambda>i. concat (map (\<lambda>j. concat (map (\<lambda>local_id_o. map (\<lambda>local_id_i.
          let local_id = local_id_o * 2 + local_id_i;
              (row, col) = mma_store_index_map tx local_id;
              value = i * (warp_cols e * local_size_out e) + j * local_size_out e + local_id
          in (case (pid_m, pid_n) of
                (Some pm, Some pn) \<Rightarrow>
                  [(pm * BLOCK_M + warp_m * warp_rows e + i) * M_DIM + row, (pn * BLOCK_N + warp_n * warp_cols e + j) * N_DIM + col]
              | _ \<Rightarrow>
                  if C_buf_dims = 2
                  then [(warp_m * warp_rows e + i) * M_DIM + row, (warp_n * warp_cols e + j) * N_DIM + col]
                  else [warp_m * warp_rows e + i, warp_n * warp_cols e + j, row, col], value))
          [0, 1]) [0..<local_size_out e div 2])) [0..<warp_cols e])) [0..<warp_rows e])))"

section \<open>Layouts of fragments\<close>

text \<open>
  \<^verbatim>\<open>make_mma_load_layout\<close> up to the fragment of one instruction, whose repetition over warps is done by the C++ library:
  the map from a position of the tile to lane and register, and the sizes of the tile.
\<close>

definition load_transform :: "(string \<Rightarrow> nat) \<Rightarrow> 'a emitter_scheme \<Rightarrow> string \<Rightarrow> bool \<Rightarrow> ((nat \<Rightarrow> nat \<Rightarrow> nat \<times> nat) \<times> nat \<times> nat) res" where
  "load_transform bits e matrix is_fragment =
     rbind (guard AssertionError (matrix \<in> {''A'', ''B''})) (\<lambda>_.
     let dtype_bits = bits (if matrix = ''A'' then a_dtype e else b_dtype e);
         transposed = a_transposed e
     in rbind (guard AssertionError (\<not> transposed)) (\<lambda>_.
        rbind (if dtype_bits = 16 then Inr (shared_16x16_to_mma_32x8_layout_sr, shared_16x16_to_mma_32x8_layout_rs)
               else if dtype_bits = 8 then Inr (shared_16x32_to_mma_32x16_layout, shared_32x16_to_mma_32x16_layout)
               else Inl ValueError) (\<lambda>(sr, rs).
        let is_sr_axis_order = (matrix = ''A'' \<and> \<not> transposed \<or> matrix = ''B'' \<and> transposed)
        in rbind (guard AssertionError is_fragment) (\<lambda>_.
           let (micro_size_s, micro_size_r) =
                 (if matrix = ''A'' then (micro_size_x e, micro_size_k e) else (micro_size_y e, micro_size_k e))
           in Inr (if is_sr_axis_order then sr else rs, micro_size_r, micro_size_s)))))"

text \<open>The thread and the register of a position of the result; \<open>inverse_map\<close> is TVM's inverse of \<^const>\<open>mma_store_index_map\<close>.\<close>

definition store_thread :: "(nat \<Rightarrow> nat \<Rightarrow> nat \<times> nat) \<Rightarrow> 'a emitter_scheme \<Rightarrow> nat \<Rightarrow> nat \<Rightarrow> nat" where
  "store_thread inverse_map e i j =
     (let block_i = (i div micro_size_x e) div warp_rows e; block_j = (j div micro_size_y e) div warp_cols e;
          (lane_id, _) = inverse_map (i mod micro_size_x e) (j mod micro_size_y e)
      in if m_first e then block_i * (block_col_warps e * warp_cols e) + block_j * WARP_SIZE + lane_id
         else block_j * (block_row_warps e * WARP_SIZE) + block_i * WARP_SIZE + lane_id)"

definition store_index :: "(nat \<Rightarrow> nat \<Rightarrow> nat \<times> nat) \<Rightarrow> 'a emitter_scheme \<Rightarrow> nat \<Rightarrow> nat \<Rightarrow> nat" where
  "store_index inverse_map e i j =
     (let warp_i = (i div micro_size_x e) mod warp_rows e; warp_j = (j div micro_size_y e) mod warp_cols e;
          (_, local_id) = inverse_map (i mod micro_size_x e) (j mod micro_size_y e)
      in warp_i * (warp_cols e * local_size_out e) + warp_j * local_size_out e + local_id)"

definition make_mma_store_layout ::
  "(nat \<Rightarrow> nat \<Rightarrow> nat \<times> nat) \<Rightarrow> 'a emitter_scheme \<Rightarrow> bool \<Rightarrow> ((nat \<Rightarrow> nat \<Rightarrow> nat) \<times> (nat \<Rightarrow> nat \<Rightarrow> nat)) res" where
  "make_mma_store_layout inverse_map e is_fragment =
     rbind (guard AssertionError is_fragment) (\<lambda>_. Inr (store_thread inverse_map e, store_index inverse_map e))"

section \<open>Operands in transformed shared memory\<close>

datatype transform_kind = NonTransform | InterWarpTransform | IntraWarpTransform | LDMatrixTransform

record ladder_emitter = emitter +
  transform_kind_a :: transform_kind
  transform_kind_b :: transform_kind

definition transform_kind_of :: "int \<Rightarrow> transform_kind res" where
  "transform_kind_of n =
     (if n = 0 then Inr NonTransform else if n = 1 then Inr InterWarpTransform else if n = 2 then Inr IntraWarpTransform
      else if n = 3 then Inr LDMatrixTransform else Inl ValueError)"

definition ladder_init :: "(string \<Rightarrow> nat) \<Rightarrow> mma_params \<Rightarrow> int \<Rightarrow> int \<Rightarrow> ladder_emitter res" where
  "ladder_init bits p kind_a kind_b =
     rbind (emitter_init bits p) (\<lambda>e. rbind (transform_kind_of kind_a) (\<lambda>ka. rbind (transform_kind_of kind_b) (\<lambda>kb.
       Inr (emitter.extend e (ladder_emitter.fields ka kb)))))"

text \<open>A call of \<^verbatim>\<open>ptx_ldmatrix\<close>, or a copy of one element into a register.\<close>

datatype load = Ldmatrix ptx_ldmatrix | Copy nat "nat list"

definition tile_index :: "nat \<Rightarrow> nat \<Rightarrow> nat \<Rightarrow> nat \<Rightarrow> nat list" where
  "tile_index size_s size_k ri rj = [ri div size_s, rj div size_k, ri mod size_s, rj mod size_k]"

definition ladder_ldmatrix_a :: "(string \<Rightarrow> nat) \<Rightarrow> 'a ladder_emitter_scheme \<Rightarrow> nat list \<Rightarrow> nat \<Rightarrow> nat \<Rightarrow> nat \<Rightarrow> load list res" where
  "ladder_ldmatrix_a bits e shape ki rk thread_id =
     rbind (py_nth shape (- 1)) (\<lambda>stride.
     case extract_thread_binding e thread_id None of (tx, _, warp_m) \<Rightarrow>
     let offset = get_ldmatrix_offset ''A'' tx 0 stride (bits (a_dtype e)) (a_transposed e);
         ri = (\<lambda>i. warp_m * warp_row_tiles e + i * micro_size_x e); rj = rk * chunk e + ki * micro_size_k e
     in case transform_kind_a e of
          NonTransform \<Rightarrow>
            rmap (\<lambda>i. rbind offset (\<lambda>off. Inr (Ldmatrix (ldmatrix_call (a_dtype e) (i * local_size_a e) [ri i, rj] off))))
              [0..<warp_rows e]
        | InterWarpTransform \<Rightarrow>
            rmap (\<lambda>i. rbind offset (\<lambda>off.
                Inr (Ldmatrix (ldmatrix_call (a_dtype e) (i * local_size_a e) (tile_index (micro_size_x e) (micro_size_k e) (ri i) rj) off))))
              [0..<warp_rows e]
        | IntraWarpTransform \<Rightarrow>
            Inr (map (\<lambda>i. Ldmatrix (ldmatrix_call (a_dtype e) (i * local_size_a e)
                   (tile_index (micro_size_x e) (micro_size_k e) (ri i) rj) (tx * local_size_a e))) [0..<warp_rows e])
        | LDMatrixTransform \<Rightarrow>
            Inr (concat (map (\<lambda>j. map (\<lambda>local_id.
                Copy (j * local_size_a e + local_id)
                  [warp_m * warp_rows e + j, rk * (chunk e div micro_size_k e) + ki,
                   (tx * local_size_a e + local_id) div micro_size_k e, (tx * local_size_a e + local_id) mod micro_size_k e])
                [0..<local_size_a e]) [0..<warp_rows e])))"

definition ladder_ldmatrix_b :: "(string \<Rightarrow> nat) \<Rightarrow> 'a ladder_emitter_scheme \<Rightarrow> nat list \<Rightarrow> nat \<Rightarrow> nat \<Rightarrow> nat \<Rightarrow> load list res" where
  "ladder_ldmatrix_b bits e shape ki rk thread_id =
     rbind (py_nth shape (- 1)) (\<lambda>stride.
     case extract_thread_binding e thread_id None of (tx, warp_n, _) \<Rightarrow>
     let offset = get_ldmatrix_offset ''B'' tx 0 stride (bits (b_dtype e)) (b_transposed e);
         ri = (\<lambda>j. warp_n * warp_col_tiles e + j * micro_size_y e); rj = rk * chunk e + ki * micro_size_k e
     in case transform_kind_b e of
          NonTransform \<Rightarrow>
            rmap (\<lambda>j. rbind offset (\<lambda>off. Inr (Ldmatrix (ldmatrix_call (b_dtype e) (j * local_size_b e) [ri j, rj] off))))
              [0..<warp_cols e]
        | InterWarpTransform \<Rightarrow>
            rmap (\<lambda>j. rbind offset (\<lambda>off.
                Inr (Ldmatrix (ldmatrix_call (b_dtype e) (j * local_size_b e) (tile_index (micro_size_y e) (micro_size_k e) (ri j) rj) off))))
              [0..<warp_cols e]
        | IntraWarpTransform \<Rightarrow>
            Inr (map (\<lambda>j. Ldmatrix (ldmatrix_call (b_dtype e) (j * local_size_b e)
                   (tile_index (micro_size_y e) (micro_size_k e) (ri j) rj) (tx * local_size_b e))) [0..<warp_cols e])
        | LDMatrixTransform \<Rightarrow>
            rbind (guard ZeroDivisionError (num_elems_per_byte e \<noteq> 0)) (\<lambda>_.
            let local_size_dequantize = local_size_b e div num_elems_per_byte e;
                size_k = micro_size_k e div num_elems_per_byte e
            in rbind (guard ZeroDivisionError (size_k \<noteq> 0)) (\<lambda>_.
               Inr (concat (map (\<lambda>j. map (\<lambda>local_id.
                Copy (j * local_size_dequantize + local_id)
                  [warp_n * warp_cols e + j, rk * (chunk e div micro_size_k e) + ki,
                   (tx * local_size_dequantize + local_id) div size_k, (tx * local_size_dequantize + local_id) mod size_k])
                [0..<local_size_dequantize]) [0..<warp_cols e])))))"

definition ladder_mma :: "'a ladder_emitter_scheme \<Rightarrow> ptx_mma list" where
  "ladder_mma e =
     concat (map (\<lambda>i. concat (map (\<lambda>j.
       [mma_call e (i * local_size_a e) (j * local_size_b e) (i * warp_cols e * local_size_out e + j * local_size_out e),
        mma_call e (i * local_size_a e) (j * local_size_b e + local_size_b e div 2)
          (i * warp_cols e * local_size_out e + j * local_size_out e + local_size_out e div 2)])
       [0..<warp_cols e])) [0..<warp_rows e])"

text \<open>
  Four bit operands in a buffer of bytes: the instruction covers half of the depth, so that there are four for each pair of
  tiles.  The two emitters differ in the abbreviation of the result type.
\<close>

definition int4_calls :: "'a emitter_scheme \<Rightarrow> string \<Rightarrow> ptx_mma list" where
  "int4_calls e accum_abbrv =
     (let call = (\<lambda>a b c. (mma_call e a b c)\<lparr>mma_shape := ''m16n8k32'', mma_abbrv_a := ''int4'', mma_abbrv_b := ''int4'',
                             mma_abbrv_c := accum_abbrv\<rparr>)
      in concat (map (\<lambda>i. concat (map (\<lambda>j.
           let c = i * warp_cols e * local_size_out e + j * local_size_out e
           in [call (i * local_size_a e) (j * local_size_b e) c,
               call (i * local_size_a e) (j * local_size_b e + local_size_b e div 2) (c + local_size_out e div 2),
               call (i * local_size_a e + local_size_a e div 2) (j * local_size_b e + local_size_b e div 4) c,
               call (i * local_size_a e + local_size_b e div 2) (j * local_size_b e + local_size_b e div 2 + local_size_b e div 4)
                 (c + local_size_out e div 2)])
           [0..<warp_cols e])) [0..<warp_rows e]))"

definition int4_mma :: "'a emitter_scheme \<Rightarrow> ptx_mma list" where
  "int4_mma e = int4_calls e (accum_dtype e)"

definition int4_ladder_mma :: "'a ladder_emitter_scheme \<Rightarrow> ptx_mma list" where
  "int4_ladder_mma e = int4_calls e ''int32''"

section \<open>What the instructions do\<close>

text \<open>
  The PTX instructions on the registers of a warp, a function of lane and index, for operands of 16 or 8 bits, of which a
  register of 32 bits holds \<open>w = 2\<close> or \<open>w = 4\<close>.  Of \<^verbatim>\<open>ldmatrix.x4\<close> each group of eight lanes gives the addresses of the
  rows of one matrix, and register \<open>m\<close> of a lane gets its part of matrix \<open>m\<close>.  The multiplication \<^verbatim>\<open>m16n8k16\<close> or
  \<^verbatim>\<open>m16n8k32\<close> finds row \<open>i\<close> and depth \<open>k\<close> of its first operand in \<open>a_slot\<close>, depth \<open>k\<close> of column \<open>j\<close> of its second in \<open>b_slot\<close>,
  and its result is spread over the lanes by \<open>c_pos\<close>.
\<close>

type_synonym 'v regs = "nat \<Rightarrow> nat \<Rightarrow> 'v"

definition ldmatrix_x4 :: "nat \<Rightarrow> (nat \<Rightarrow> 'v) \<Rightarrow> (nat \<Rightarrow> nat) \<Rightarrow> 'v regs" where
  "ldmatrix_x4 w mem addr t l = mem (addr (8 * (l div w) + t div 4) + w * (t mod 4) + l mod w)"

definition exec_ldmatrix :: "nat \<Rightarrow> nat list \<Rightarrow> (nat \<Rightarrow> 'v) \<Rightarrow> (nat \<Rightarrow> ptx_ldmatrix) \<Rightarrow> 'v regs \<Rightarrow> 'v regs" where
  "exec_ldmatrix w shape mem call regs t l =
     (let base = ld_local (call t)
      in if base \<le> l \<and> l < base + 4 * w
         then ldmatrix_x4 w mem (\<lambda>lane. row_major shape (ld_index (call lane)) + ld_offset (call lane)) t (l - base)
         else regs t l)"

definition a_slot :: "nat \<Rightarrow> nat \<Rightarrow> nat \<Rightarrow> nat \<times> nat" where
  "a_slot w i k = (4 * (i mod 8) + (k mod (4 * w)) div w, w * (i div 8) + 2 * w * (k div (4 * w)) + k mod w)"

definition b_slot :: "nat \<Rightarrow> nat \<Rightarrow> nat \<Rightarrow> nat \<times> nat" where
  "b_slot w j k = (4 * j + (k mod (4 * w)) div w, w * (k div (4 * w)) + k mod w)"

definition c_pos :: "nat \<Rightarrow> nat \<Rightarrow> nat \<times> nat" where
  "c_pos t l = (t div 4 + 8 * (l div 2), 2 * (t mod 4) + l mod 2)"

definition mma_width :: "ptx_mma \<Rightarrow> nat" where
  "mma_width call = (if mma_shape call = ''m16n8k16'' then 2 else 4)"

definition mma_term :: "'v::semiring_0 regs \<Rightarrow> 'v regs \<Rightarrow> ptx_mma \<Rightarrow> 'v regs" where
  "mma_term a b call t l =
     (let w = mma_width call; (i, j) = c_pos t l
      in \<Sum>k<8 * w. case (a_slot w i k, b_slot w j k) of
           ((ta, la), (tb, lb)) \<Rightarrow> a ta (mma_a call + la) * b tb (mma_b call + lb))"

definition exec_mma :: "'v::semiring_0 regs \<Rightarrow> 'v regs \<Rightarrow> ptx_mma \<Rightarrow> 'v regs \<Rightarrow> 'v regs" where
  "exec_mma a b call c t l =
     (if mma_c call \<le> l \<and> l < mma_c call + 4 then c t l + mma_term a b call t (l - mma_c call) else c t l)"

text \<open>Where \<^verbatim>\<open>ldmatrix\<close> with the emitted addresses takes a register from: row and depth of the tile.\<close>

definition a_pos :: "nat \<Rightarrow> nat \<Rightarrow> nat \<Rightarrow> nat \<times> nat" where
  "a_pos w t l = (8 * (l div w mod 2) + t div 4, 4 * w * (l div w div 2) + w * (t mod 4) + l mod w)"

definition b_pos :: "nat \<Rightarrow> nat \<Rightarrow> nat \<Rightarrow> nat \<times> nat" where
  "b_pos w t l = (8 * (l div w div 2) + t div 4, 4 * w * (l div w mod 2) + w * (t mod 4) + l mod w)"

interpretation a16: fragment_pair "a_slot 2" "a_pos 2" 16 16 32 8
  by (rule fragment_pairI) code_simp

interpretation a8: fragment_pair "a_slot 4" "a_pos 4" 16 32 32 16
  by (rule fragment_pairI) code_simp

interpretation b16: fragment_pair "b_slot 2" "b_pos 2" 8 16 32 4
  by (rule fragment_pairI) code_simp

interpretation b8: fragment_pair "b_slot 4" "b_pos 4" 8 32 32 8
  by (rule fragment_pairI) code_simp

lemma slots:
  assumes "w = 2 \<or> w = 4" and "k < 8 * w"
  shows "i < 16 \<Longrightarrow> case_prod (a_pos w) (a_slot w i k) = (i, k) \<and> fst (a_slot w i k) < 32 \<and> snd (a_slot w i k) < 4 * w"
    and "j < 8 \<Longrightarrow> case_prod (b_pos w) (b_slot w j k) = (j, k) \<and> fst (b_slot w j k) < 32 \<and> snd (b_slot w j k) < 2 * w"
  using assms a16.bwd_fwd [of i k] a8.bwd_fwd [of i k] b16.bwd_fwd [of j k] b8.bwd_fwd [of j k]
    a16.fwd_range [of i k] a8.fwd_range [of i k] b16.fwd_range [of j k] b8.fwd_range [of j k]
  by (auto simp: mem_Times_iff)

section \<open>Registers in blocks\<close>

lemma fold_blocks:
  assumes "i < m" "l < n"
  shows "fold (\<lambda>i r t l. if i * n \<le> l \<and> l < i * n + n then f i t (l - i * n) else r t l) [0..<m] r t (i * n + l) = f i t l"
  using assms
proof (induction m)
  case 0
  then show ?case by simp
next
  case (Suc m)
  show ?case
  proof (cases "i = m")
    case True
    then show ?thesis using Suc.prems by simp
  next
    case False
    then have "i * n + n \<le> m * n" using Suc.prems(1) mult_le_mono1 [of "Suc i" m n] by simp
    then show ?thesis using Suc False by simp
  qed
qed

lemma exec_mma_other:
  assumes "4 dvd mma_c x" "4 dvd mma_c y" "mma_c x \<noteq> mma_c y" "l < 4"
  shows "exec_mma a b x c t (mma_c y + l) = c t (mma_c y + l)"
proof -
  obtain p q where "mma_c x = 4 * p" "mma_c y = 4 * q" using assms(1,2) by (auto elim!: dvdE)
  moreover have "p < q \<or> q < p" using assms(3) calculation by auto
  ultimately show ?thesis using assms(4) by (auto simp: exec_mma_def)
qed

lemma fold_exec_mma:
  assumes "distinct (map mma_c calls)" "\<forall>x \<in> set calls. 4 dvd mma_c x" "x \<in> set calls" "l < 4"
  shows "fold (exec_mma a b) calls c t (mma_c x + l) = c t (mma_c x + l) + mma_term a b x t l"
  using assms
proof (induction calls arbitrary: c)
  case Nil
  then show ?case by simp
next
  case (Cons y ys)
  have keep: "fold (exec_mma a b) ys d t (mma_c y + l) = d t (mma_c y + l)" for d
    using Cons.prems(1,2,4)
    by (induction ys arbitrary: d) (auto simp: exec_mma_other)
  show ?case
  proof (cases "x = y")
    case True
    have "exec_mma a b y c t (mma_c y + l) = c t (mma_c y + l) + mma_term a b y t l"
      using Cons.prems(4) by (simp add: exec_mma_def)
    then show ?thesis using keep True by simp
  next
    case False
    then have "x \<in> set ys" using Cons.prems(3) by simp
    moreover have "mma_c y \<noteq> mma_c x" using Cons.prems(1) calculation by auto
    then have "exec_mma a b y c t (mma_c x + l) = c t (mma_c x + l)"
      using Cons.prems by (intro exec_mma_other) auto
    ultimately show ?thesis using Cons by simp
  qed
qed

lemma concat_blocks: "concat (map (\<lambda>i. map (\<lambda>j. i * n + j) [0..<n]) [0..<m]) = [0..<m * n]"
proof (induction m)
  case (Suc m)
  have "map (\<lambda>j. m * n + j) [0..<n] = [m * n..<m * n + n]" by (simp add: map_add_upt add.commute)
  then show ?case using Suc upt_add_eq_append [of 0 "m * n" n] by (simp add: add.commute)
qed simp

section \<open>Emitters that were made\<close>

text \<open>What every emitter that the constructor returns has: sizes for operands of 16 or 8 bits, and at least one tile.\<close>

definition emitter_ok :: "(string \<Rightarrow> nat) \<Rightarrow> nat \<Rightarrow> 'a emitter_scheme \<Rightarrow> bool" where
  "emitter_ok bits w e \<longleftrightarrow>
     (w = 2 \<and> bits (a_dtype e) = 16 \<and> mma_prefix e = ''m16n8k16'' \<or> w = 4 \<and> bits (a_dtype e) = 8 \<and> mma_prefix e = ''m16n8k32'') \<and>
     k_dim e = 8 * w \<and> local_size_a e = 4 * w \<and> local_size_b e = 4 * w \<and> local_size_out e = 8 \<and>
     micro_size_x e = 16 \<and> micro_size_y e = 16 \<and> micro_size_k e = 8 * w \<and>
     warp_rows e = warp_row_tiles e div 16 \<and> warp_cols e = warp_col_tiles e div 16 \<and> 0 < warp_rows e \<and> 0 < warp_cols e"

lemma div_256:
  fixes n k :: nat
  assumes "256 div n = k" "k = 16 \<or> k = 32"
  shows "n = 256 div k"
proof -
  have "n \<le> 16" using assms div_le_mono2 [of 17 n 256] by (cases "n \<le> 16") auto
  then have "n \<in> set [0..<17]" by simp
  moreover have "list_all (\<lambda>n. 256 div n = 16 \<longrightarrow> n = 16) [0..<17]" "list_all (\<lambda>n. 256 div n = 32 \<longrightarrow> n = 8) [0..<17]"
    by code_simp+
  ultimately show ?thesis using assms unfolding list_all_iff by auto
qed

lemma emitter_init_ok:
  assumes "emitter_init bits p = Inr e"
  shows "\<exists>w. emitter_ok bits w e" and "mma_params.truncate e = p" and "m_first e = (is_m_first p = Some True)"
    and "threads e = 32 * (block_row_warps p * block_col_warps p) * reduce_k p"
proof -
  let ?kd = "256 div bits (a_dtype p)"
  obtain aa ba ca prefix where prefix: "initialize_mma_prefix ?kd = Inr prefix"
    and pos: "\<not> (warp_row_tiles p div M_DIM = 0 \<or> warp_col_tiles p div N_DIM = 0)"
    and e: "e = mma_params.extend p (emitter.fields ?kd aa ba ca (M_DIM * ?kd div WARP_SIZE) (N_DIM * ?kd div WARP_SIZE)
       (M_DIM * N_DIM div WARP_SIZE) prefix M_DIM N_DIM ?kd (case is_m_first p of None \<Rightarrow> False | Some b \<Rightarrow> b)
       (warp_row_tiles p div M_DIM) (warp_col_tiles p div N_DIM) (WARP_SIZE * (block_row_warps p * block_col_warps p) * reduce_k p))"
    using assms by (auto simp: emitter_init_def res_iff Let_def split: if_splits)
  have kd: "?kd = 16 \<and> prefix = ''m16n8k16'' \<or> ?kd = 32 \<and> prefix = ''m16n8k32''"
    using prefix by (auto simp: initialize_mma_prefix_def split: if_splits)
  moreover have "?kd = 16 \<Longrightarrow> bits (a_dtype p) = 16" "?kd = 32 \<Longrightarrow> bits (a_dtype p) = 8"
    using div_256 [of "bits (a_dtype p)"] by auto
  ultimately have "emitter_ok bits (?kd div 8) e"
    using pos by (auto simp: emitter_ok_def e mma_params.defs emitter.defs M_DIM_def N_DIM_def WARP_SIZE_def)
  then show "\<exists>w. emitter_ok bits w e" by blast
  show "mma_params.truncate e = p" "m_first e = (is_m_first p = Some True)"
    "threads e = 32 * (block_row_warps p * block_col_warps p) * reduce_k p"
    by (auto simp: e mma_params.defs emitter.defs WARP_SIZE_def split: option.splits)
qed

text \<open>All lanes of a warp have the same tile.\<close>

definition tile_of_warp :: "'a emitter_scheme \<Rightarrow> nat \<Rightarrow> nat \<times> nat" where
  "tile_of_warp e warp = snd (extract_thread_binding e (32 * warp) None)"

lemma lane_div: "t < 32 \<Longrightarrow> (32 * warp + t) div (32 * n) = warp div (n :: nat)"
  by (simp add: div_mult2_eq)

lemma extract_lane:
  "t < 32 \<Longrightarrow> extract_thread_binding e (32 * warp + t) None = (t, tile_of_warp e warp)"
  by (simp add: tile_of_warp_def extract_thread_binding_def WARP_SIZE_def lane_div Let_def lane_div [of 0, simplified])

section \<open>Loads\<close>

lemma offset_a:
  assumes "w = 2 \<and> n = 16 \<or> w = 4 \<and> n = 8"
  shows "get_ldmatrix_offset ''A'' t 0 stride n False = Inr (t mod 16 * stride + 4 * w * (t div 16))"
  using assms
  by (auto simp: get_ldmatrix_offset_def ldmatrix_32x8_to_shared_16x16_layout_def ldmatrix_16x32_to_shared_16x32_layout_a_def)

lemma offset_b:
  assumes "w = 2 \<and> n = 16 \<or> w = 4 \<and> n = 8"
  shows "get_ldmatrix_offset ''B'' t 0 stride n True =
    Inr ((8 * (t div 16) + t mod 8) * stride + 4 * w * (t mod 16 div 8))"
  using assms
  by (auto simp: get_ldmatrix_offset_def ldmatrix_trans_32x8_to_shared_16x16_layout_def ldmatrix_16x32_to_shared_16x32_layout_b_def)

lemma lane_parts:
  assumes "m < 4" "g < 8"
  shows "(8 * m + g) mod 16 = 8 * (m mod 2) + g" "(8 * m + g) div 16 = m div (2 :: nat)" "(8 * m + g) mod 8 = g"
    "(8 * m + g) mod 16 div 8 = m mod 2"
proof -
  have "m \<in> set [0, 1, 2, 3]" using assms(1) by auto
  moreover have "(24 + g) mod 16 = 8 + g" using mod_add_self1 [of 16 "8 + g"] assms(2) by simp
  ultimately show "(8 * m + g) mod 16 = 8 * (m mod 2) + g" "(8 * m + g) div 16 = m div 2" "(8 * m + g) mod 8 = g"
    "(8 * m + g) mod 16 div 8 = m mod 2" using assms(2) by auto
qed

definition a_call :: "'a emitter_scheme \<Rightarrow> nat \<Rightarrow> nat \<Rightarrow> nat \<Rightarrow> nat \<Rightarrow> nat \<Rightarrow> nat \<Rightarrow> nat \<Rightarrow> ptx_ldmatrix" where
  "a_call e w warp stride ki rk i t =
     ldmatrix_call (a_dtype e) (i * (4 * w)) [snd (tile_of_warp e warp) * warp_row_tiles e + i * 16, rk * chunk e + ki * (8 * w)]
       (t mod 16 * stride + 4 * w * (t div 16))"

definition b_call :: "'a emitter_scheme \<Rightarrow> nat \<Rightarrow> nat \<Rightarrow> nat \<Rightarrow> nat \<Rightarrow> nat \<Rightarrow> nat \<Rightarrow> nat \<Rightarrow> ptx_ldmatrix" where
  "b_call e w warp stride ki rk j t =
     ldmatrix_call (b_dtype e) (j * (4 * w)) [fst (tile_of_warp e warp) * warp_col_tiles e + j * 16, rk * chunk e + ki * (8 * w)]
       ((8 * (t div 16) + t mod 8) * stride + 4 * w * (t mod 16 div 8))"

lemma ldmatrix_a_calls:
  assumes "emitter_ok bits w e" "\<not> a_transposed e" "t < 32"
  shows "ldmatrix_a bits e [n, stride] ki rk (32 * warp + t) = Inr (map (\<lambda>i. a_call e w warp stride ki rk i t) [0..<warp_rows e])"
proof -
  have "get_ldmatrix_offset ''A'' t 0 stride (bits (a_dtype e)) False = Inr (t mod 16 * stride + 4 * w * (t div 16))"
    using assms(1) by (intro offset_a) (auto simp: emitter_ok_def)
  then show ?thesis
    using assms by (auto simp: ldmatrix_a_def py_nth_def extract_lane a_call_def emitter_ok_def split: prod.splits)
qed

lemma ldmatrix_b_calls:
  assumes "emitter_ok bits w e" "b_transposed e" "bits (b_dtype e) = bits (a_dtype e)" "t < 32"
  shows "ldmatrix_b bits e [n, stride] ki rk (32 * warp + t) = Inr (map (\<lambda>j. b_call e w warp stride ki rk j t) [0..<warp_cols e])"
proof -
  have "get_ldmatrix_offset ''B'' t 0 stride (bits (b_dtype e)) True =
      Inr ((8 * (t div 16) + t mod 8) * stride + 4 * w * (t mod 16 div 8))"
    using assms(1,3) by (intro offset_b) (auto simp: emitter_ok_def)
  then show ?thesis
    using assms by (auto simp: ldmatrix_b_def py_nth_def extract_lane b_call_def emitter_ok_def split: prod.splits)
qed

text \<open>After the loads of one step, register \<open>l\<close> of tile \<open>i\<close> holds the element of the tile at \<^const>\<open>a_pos\<close> or \<^const>\<open>b_pos\<close>.\<close>

lemma exec_calls:
  assumes "\<And>i t. ld_local (call i t) = i * (4 * w)" "i < m" "t < 32" "l < 4 * w"
  shows "fold (\<lambda>i. exec_ldmatrix w shape mem (call i)) [0..<m] r t (i * (4 * w) + l) =
    ldmatrix_x4 w mem (\<lambda>lane. row_major shape (ld_index (call i lane)) + ld_offset (call i lane)) t l"
proof -
  have "(\<lambda>i. exec_ldmatrix w shape mem (call i)) = (\<lambda>i r t l. if i * (4 * w) \<le> l \<and> l < i * (4 * w) + 4 * w
      then ldmatrix_x4 w mem (\<lambda>lane. row_major shape (ld_index (call i lane)) + ld_offset (call i lane)) t (l - i * (4 * w)) else r t l)"
    using assms(1) by (intro ext) (simp add: exec_ldmatrix_def Let_def)
  then show ?thesis using assms fold_blocks [of i m l "4 * w"] by simp
qed

lemma loads_a:
  assumes "0 < w" "i < m" "t < 32" "l < 4 * w"
  shows "fold (\<lambda>i. exec_ldmatrix w [n, stride] mem (\<lambda>t. a_call e w warp stride ki rk i (t mod 32))) [0..<m] r t (i * (4 * w) + l) =
    mem ((snd (tile_of_warp e warp) * warp_row_tiles e + i * 16 + fst (a_pos w t l)) * stride +
         (rk * chunk e + ki * (8 * w) + snd (a_pos w t l)))"
proof -
  have m: "l div w < 4" "t div 4 < 8" using assms by (simp_all add: less_mult_imp_div_less)
  then have lane: "(8 * (l div w) + t div 4) mod 32 = 8 * (l div w) + t div 4" by simp
  show ?thesis using assms
    by (subst exec_calls)
      (simp_all add: a_call_def ldmatrix_call_def ldmatrix_x4_def a_pos_def lane lane_parts [OF m], simp add: algebra_simps)
qed

lemma loads_b:
  assumes "0 < w" "j < m" "t < 32" "l < 4 * w"
  shows "fold (\<lambda>j. exec_ldmatrix w [n, stride] mem (\<lambda>t. b_call e w warp stride ki rk j (t mod 32))) [0..<m] r t (j * (4 * w) + l) =
    mem ((fst (tile_of_warp e warp) * warp_col_tiles e + j * 16 + fst (b_pos w t l)) * stride +
         (rk * chunk e + ki * (8 * w) + snd (b_pos w t l)))"
proof -
  have m: "l div w < 4" "t div 4 < 8" using assms by (simp_all add: less_mult_imp_div_less)
  then have lane: "(8 * (l div w) + t div 4) mod 32 = 8 * (l div w) + t div 4" by simp
  show ?thesis using assms
    by (subst exec_calls)
      (simp_all add: b_call_def ldmatrix_call_def ldmatrix_x4_def b_pos_def lane lane_parts [OF m], simp add: algebra_simps)
qed

section \<open>Products\<close>

lemma mma_calls:
  assumes "emitter_ok bits w e"
  shows "mma e af bf k = concat (map (\<lambda>i. concat (map (\<lambda>j. map (\<lambda>h.
    mma_call e ((if af then k * warp_rows e * (4 * w) else 0) + i * (4 * w))
      ((if bf then k * warp_cols e * (4 * w) else 0) + j * (4 * w) + h * (2 * w)) ((i * warp_cols e + j) * 8 + h * 4)) [0..<2])
    [0..<warp_cols e])) [0..<warp_rows e])"
  using assms by (simp add: mma_def emitter_ok_def Let_def upt_conv_Cons algebra_simps)

lemma mma_offsets:
  assumes "emitter_ok bits w e"
  shows "map mma_c (mma e af bf k) = map ((*) 4) [0..<warp_rows e * (warp_cols e * 2)]"
proof -
  have "map mma_c (mma e af bf k) = concat (map (\<lambda>i. concat (map (\<lambda>j. map (\<lambda>h. 4 * (i * (warp_cols e * 2) + (j * 2 + h))) [0..<2])
      [0..<warp_cols e])) [0..<warp_rows e])"
    by (simp add: mma_calls [OF assms] mma_call_def map_concat comp_def algebra_simps)
  also have "\<dots> = concat (map (\<lambda>i. map (\<lambda>q. 4 * (i * (warp_cols e * 2) + q))
      (concat (map (\<lambda>j. map (\<lambda>h. j * 2 + h) [0..<2]) [0..<warp_cols e]))) [0..<warp_rows e])"
    by (simp add: map_concat comp_def)
  also have "\<dots> = map ((*) 4) (concat (map (\<lambda>i. map (\<lambda>q. i * (warp_cols e * 2) + q) [0..<warp_cols e * 2]) [0..<warp_rows e]))"
    by (simp only: concat_blocks [of 2] map_concat map_map comp_def)
  finally show ?thesis by (simp only: concat_blocks)
qed

lemma mma_call_emitted:
  assumes "emitter_ok bits w e" "i < warp_rows e" "j < warp_cols e" "h < 2"
  shows "mma_call e ((if af then k * warp_rows e * (4 * w) else 0) + i * (4 * w))
      ((if bf then k * warp_cols e * (4 * w) else 0) + j * (4 * w) + h * (2 * w)) ((i * warp_cols e + j) * 8 + h * 4) \<in> set (mma e af bf k)"
  using assms(2-4) by (force simp: mma_calls [OF assms(1)])

lemma c_pos_store:
  assumes "t < 32" "l < 8" "mma_store_index_map t l = (r, c)"
  shows "c_pos t (l mod 4) = (r, c - 8 * (l div 4))" "r < 16" "8 * (l div 4) \<le> c" "c < 8 * (l div 4) + 8"
proof -
  have "l mod 4 mod 2 = l mod 2" by (simp add: mod_mod_cancel)
  then show "c_pos t (l mod 4) = (r, c - 8 * (l div 4))" "8 * (l div 4) \<le> c"
    using assms(3) by (auto simp: mma_store_index_map_def mma_store_32x8_to_shared_16x16_layout_def c_pos_def)
  have "l mod 4 div 2 < 2" "t div 4 < 8" "t mod 4 < 4" "l mod 2 < 2" using assms(1) by (simp_all add: less_mult_imp_div_less)
  then show "r < 16" "c < 8 * (l div 4) + 8"
    using assms(3) unfolding mma_store_index_map_def mma_store_32x8_to_shared_16x16_layout_def by (simp_all, linarith+)
qed

lemma b_pos_half:
  assumes "l < 2 * w" "h < 2"
  shows "b_pos w t (h * (2 * w) + l) = (8 * h + fst (b_pos w t l), snd (b_pos w t l))"
proof -
  have w: "0 < w" using assms(1) by simp
  have eq: "h * (2 * w) + l = l + h * 2 * w" by simp
  have "(h * (2 * w) + l) div w = h * 2 + l div w" "(h * (2 * w) + l) mod w = l mod w"
    unfolding eq using w by simp_all
  moreover have "l div w < 2" using assms(1) w by (simp add: less_mult_imp_div_less)
  ultimately show ?thesis by (simp add: b_pos_def)
qed

text \<open>
  The multiplications of one step add, to every register of the result, the product of the row and the column that it is stored to.
\<close>

lemma mma_product:
  fixes a b :: "'v::semiring_0 regs"
  assumes ok: "emitter_ok bits w e" and ij: "i < warp_rows e" "j < warp_cols e" and tl: "t < 32" "l < 8"
    and rc: "mma_store_index_map t l = (r, c)"
    and a: "\<And>t l. t < 32 \<Longrightarrow> l < 4 * w \<Longrightarrow>
      a t ((if af then k * warp_rows e * (4 * w) else 0) + i * (4 * w) + l) = A (fst (a_pos w t l)) (snd (a_pos w t l))"
    and b: "\<And>t l. t < 32 \<Longrightarrow> l < 4 * w \<Longrightarrow>
      b t ((if bf then k * warp_cols e * (4 * w) else 0) + j * (4 * w) + l) = B (fst (b_pos w t l)) (snd (b_pos w t l))"
  shows "fold (exec_mma a b) (mma e af bf k) acc t ((i * warp_cols e + j) * 8 + l) =
    acc t ((i * warp_cols e + j) * 8 + l) + (\<Sum>k<8 * w. A r k * B c k)"
proof -
  define h where "h = l div 4"
  have h: "h < 2" "l = h * 4 + l mod 4" using tl(2) by (simp_all add: h_def less_mult_imp_div_less)
  let ?sa = "(if af then k * warp_rows e * (4 * w) else 0) + i * (4 * w)"
    and ?sb = "(if bf then k * warp_cols e * (4 * w) else 0) + j * (4 * w)"
  define x where "x = mma_call e ?sa (?sb + h * (2 * w)) ((i * warp_cols e + j) * 8 + h * 4)"
  have w: "w = 2 \<or> w = 4" using ok by (auto simp: emitter_ok_def)
  have width: "mma_width x = w" using ok by (auto simp: x_def mma_width_def mma_call_def emitter_ok_def)
  have pos: "c_pos t (l mod 4) = (r, c - 8 * h)" "r < 16" "8 * h \<le> c" "c - 8 * h < 8"
    using c_pos_store [OF tl rc] by (auto simp: h_def)
  have "mma_term a b x t (l mod 4) = (\<Sum>k<8 * w. a (fst (a_slot w r k)) (mma_a x + snd (a_slot w r k)) *
      b (fst (b_slot w (c - 8 * h) k)) (mma_b x + snd (b_slot w (c - 8 * h) k)))"
    by (simp add: mma_term_def width pos(1) split_beta)
  also have "\<dots> = (\<Sum>k<8 * w. A r k * B c k)"
  proof (rule sum.cong)
    fix k
    assume "k \<in> {..<8 * w}"
    then have k: "k < 8 * w" by simp
    obtain ta la where sa: "a_slot w r k = (ta, la)" by (cases "a_slot w r k")
    obtain tb lb where sb: "b_slot w (c - 8 * h) k = (tb, lb)" by (cases "b_slot w (c - 8 * h) k")
    have as: "a_pos w ta la = (r, k)" "ta < 32" "la < 4 * w" using slots(1) [OF w k pos(2)] sa by auto
    have bs: "b_pos w tb lb = (c - 8 * h, k)" "tb < 32" "lb < 2 * w" using slots(2) [OF w k pos(4)] sb by auto
    have "h * (2 * w) + lb < 4 * w" using bs(3) h(1) by (auto simp: less_2_cases_iff)
    then have "b tb (?sb + (h * (2 * w) + lb)) = B c k"
      using b [OF bs(2)] b_pos_half [OF bs(3) h(1), of tb] bs(1) pos(3) by simp
    then show "a (fst (a_slot w r k)) (mma_a x + snd (a_slot w r k)) *
        b (fst (b_slot w (c - 8 * h) k)) (mma_b x + snd (b_slot w (c - 8 * h) k)) = A r k * B c k"
      using a [OF as(2,3)] as(1) by (simp add: sa sb x_def mma_call_def add.assoc)
  qed simp
  finally have "mma_term a b x t (l mod 4) = (\<Sum>k<8 * w. A r k * B c k)" .
  moreover have "distinct (map mma_c (mma e af bf k))" "\<forall>y \<in> set (mma e af bf k). 4 dvd mma_c y"
  proof -
    show "distinct (map mma_c (mma e af bf k))" by (simp add: mma_offsets [OF ok] distinct_map inj_on_def)
    have "set (map mma_c (mma e af bf k)) \<subseteq> {n. 4 dvd n}" by (auto simp: mma_offsets [OF ok])
    then show "\<forall>y \<in> set (mma e af bf k). 4 dvd mma_c y" by auto
  qed
  moreover have "x \<in> set (mma e af bf k)" unfolding x_def by (rule mma_call_emitted [OF ok ij h(1)])
  moreover have "mma_c x + l mod 4 = (i * warp_cols e + j) * 8 + l" using h(2) by (simp add: x_def mma_call_def)
  ultimately show ?thesis using fold_exec_mma [of "mma e af bf k" x "l mod 4" a b acc t] by simp
qed

section \<open>Stores\<close>

lemma vector_pairs: "concat (map (\<lambda>n. map (\<lambda>b. f (n * 2 + b)) [0, 1]) [0..<4]) = map f [0..<(8 :: nat)]"
  by (simp add: upt_conv_Cons eval_nat_numeral)

definition store_of :: "'a emitter_scheme \<Rightarrow> nat \<times> nat \<Rightarrow> nat \<Rightarrow> nat \<Rightarrow> nat \<Rightarrow> nat \<Rightarrow> nat list \<times> nat" where
  "store_of e tile t i j l =
     ([(snd tile * warp_rows e + i) * 16 + fst (mma_store_index_map t l), (fst tile * warp_cols e + j) * 16 + snd (mma_store_index_map t l)],
      (i * warp_cols e + j) * 8 + l)"

lemma stmatrix_stores:
  assumes "emitter_ok bits w e" "t < 32"
  shows "stmatrix e 2 None None (32 * warp + t) =
    Inr (concat (map (\<lambda>i. concat (map (\<lambda>j. map (store_of e (tile_of_warp e warp) t i j) [0..<8]) [0..<warp_cols e])) [0..<warp_rows e]))"
proof -
  have out: "local_size_out e = 8" using assms(1) by (simp add: emitter_ok_def)
  have "stmatrix e 2 None None (32 * warp + t) = Inr (concat (map (\<lambda>i. concat (map (\<lambda>j. concat (map (\<lambda>n. map (\<lambda>b.
      store_of e (tile_of_warp e warp) t i j (n * 2 + b)) [0, 1]) [0..<4])) [0..<warp_cols e])) [0..<warp_rows e]))"
    unfolding stmatrix_def extract_lane [OF assms(2)] store_of_def
    by (simp add: out M_DIM_def N_DIM_def Let_def split_beta algebra_simps)
  then show ?thesis by (simp only: vector_pairs)
qed

lemma stmatrix_set:
  assumes "emitter_ok bits w e" "t < 32"
  shows "\<exists>S. stmatrix e 2 None None (32 * warp + t) = Inr S \<and>
    set S = {store_of e (tile_of_warp e warp) t i j l |i j l. i < warp_rows e \<and> j < warp_cols e \<and> l < 8}"
  unfolding stmatrix_stores [OF assms] by (intro exI conjI, rule refl) (force simp del: split_paired_Ex)

lemma store_map_inverse:
  assumes "\<forall>t < 32. \<forall>l < 8. case_prod inverse_map (mma_store_index_map t l) = (t, l)" "i < 16" "j < 16"
  obtains t l where "inverse_map i j = (t, l)" "mma_store_index_map t l = (i, j)" "t < 32" "l < 8"
proof -
  obtain t l where tl: "shared_16x16_to_mma_32x8_layout_sr i j = (t, l)" by fastforce
  have "t < 32" "l < 8" "mma_store_index_map t l = (i, j)"
    using mma16.fwd_range [OF assms(2,3)] mma16.bwd_fwd [OF assms(2,3)] tl
    by (auto simp: mma_store_index_map_def mma_store_32x8_to_shared_16x16_layout_def mma_32x8_to_shared_16x16_layout_def)
  then show thesis using that assms(1) by force
qed

lemma block_parts:
  assumes "r < (16 :: nat)" "i < n"
  shows "((m * n + i) * 16 + r) div 16 = m * n + i" "((m * n + i) * 16 + r) mod 16 = r" "(m * n + i) div n = m" "(m * n + i) mod n = i"
proof -
  have "(a * 16 + r) div 16 = a" "(a * 16 + r) mod 16 = r" for a using assms(1) by simp_all
  then show "((m * n + i) * 16 + r) div 16 = m * n + i" "((m * n + i) * 16 + r) mod 16 = r" by blast+
qed (use assms in simp_all)

lemma store_index_less: "t < 32 \<Longrightarrow> l < 8 \<Longrightarrow> fst (mma_store_index_map t l) < 16 \<and> snd (mma_store_index_map t l) < 16"
proof -
  assume tl: "t < 32" "l < 8"
  obtain r c where rc: "mma_store_index_map t l = (r, c)" by fastforce
  have "l div 4 < 2" using tl(2) by (simp add: less_mult_imp_div_less)
  then show ?thesis using c_pos_store [OF tl rc] rc by auto
qed

lemma block_bound: "x < m \<Longrightarrow> i < n \<Longrightarrow> r < k \<Longrightarrow> (x * n + i) * k + r < m * n * (k :: nat)"
proof -
  assume "x < m" "i < n" "r < k"
  then have "x * n + i < m * n" using mult_le_mono1 [of "Suc x" m n] by simp
  then have "Suc (x * n + i) * k \<le> m * n * k" by (intro mult_le_mono1) simp
  then show ?thesis using \<open>r < k\<close> by simp
qed

text \<open>The warps of a block and their tiles, when rows of warps come first.\<close>

lemma tile_of_warp_bound:
  assumes "\<not> m_first e" "warp < block_row_warps e * block_col_warps e"
  shows "tile_of_warp e warp = (warp div block_row_warps e, warp mod block_row_warps e)"
    "warp mod block_row_warps e < block_row_warps e" "warp div block_row_warps e < block_col_warps e"
proof -
  have pos: "0 < block_row_warps e" using assms(2) by (cases "block_row_warps e") auto
  then show "warp mod block_row_warps e < block_row_warps e" by simp
  show bound: "warp div block_row_warps e < block_col_warps e"
    using assms(2) by (simp add: less_mult_imp_div_less mult.commute)
  show "tile_of_warp e warp = (warp div block_row_warps e, warp mod block_row_warps e)"
    using assms(1) bound by (simp add: tile_of_warp_def extract_thread_binding_def WARP_SIZE_def Let_def)
qed

text \<open>Positions a lane stores, and positions that the layout gives to the lane, in both directions.\<close>

lemma store_of_layout:
  assumes ok: "emitter_ok bits w e" and first: "\<not> m_first e" and warp: "warp < block_row_warps e * block_col_warps e"
    and inv: "\<forall>t < 32. \<forall>l < 8. case_prod inverse_map (mma_store_index_map t l) = (t, l)"
    and ij: "i < warp_rows e" "j < warp_cols e" and tl: "t < 32" "l < 8"
  obtains r c where "store_of e (tile_of_warp e warp) t i j l = ([r, c], store_index inverse_map e r c)"
    "store_thread inverse_map e r c = 32 * warp + t"
    "r < block_row_warps e * warp_rows e * 16" "c < block_col_warps e * warp_cols e * 16"
proof -
  have size: "micro_size_x e = 16" "micro_size_y e = 16" "local_size_out e = 8" using ok by (auto simp: emitter_ok_def)
  note tile = tile_of_warp_bound [OF first warp]
  let ?wm = "warp mod block_row_warps e" and ?wn = "warp div block_row_warps e"
  obtain r' c' where s: "mma_store_index_map t l = (r', c')" by fastforce
  have less: "r' < 16" "c' < 16" using store_index_less [OF tl] s by auto
  have inv: "inverse_map r' c' = (t, l)" using inv tl s by force
  define r c where "r = (?wm * warp_rows e + i) * 16 + r'" and "c = (?wn * warp_cols e + j) * 16 + c'"
  have parts: "r div 16 div warp_rows e = ?wm" "r div 16 mod warp_rows e = i" "r mod 16 = r'"
    "c div 16 div warp_cols e = ?wn" "c div 16 mod warp_cols e = j" "c mod 16 = c'"
    unfolding r_def c_def by (simp_all only: block_parts [OF less(1) ij(1)] block_parts [OF less(2) ij(2)])
  have split: "32 * (x * b + y) + t = x * (b * 32) + y * 32 + t" for x b y by (simp add: algebra_simps)
  have "32 * warp + t = 32 * (?wn * block_row_warps e + ?wm) + t" by simp
  then have "32 * warp + t = ?wn * (block_row_warps e * 32) + ?wm * 32 + t" by (simp only: split)
  then have "store_thread inverse_map e r c = 32 * warp + t"
    using first inv by (simp add: store_thread_def size parts WARP_SIZE_def)
  moreover have index: "store_index inverse_map e r c = (i * warp_cols e + j) * 8 + l"
    using inv by (simp add: store_index_def size parts algebra_simps)
  have "store_of e (tile_of_warp e warp) t i j l = ([r, c], store_index inverse_map e r c)"
    unfolding index by (simp add: store_of_def tile s r_def c_def)
  ultimately show thesis
    using that block_bound [OF tile(2) ij(1) less(1)] block_bound [OF tile(3) ij(2) less(2)] r_def c_def by blast
qed

lemma layout_stored:
  assumes ok: "emitter_ok bits w e" and first: "\<not> m_first e" and warp: "warp < block_row_warps e * block_col_warps e"
    and inv: "\<forall>t < 32. \<forall>l < 8. case_prod inverse_map (mma_store_index_map t l) = (t, l)" and t: "t < 32"
    and rc: "r < block_row_warps e * warp_rows e * 16" "c < block_col_warps e * warp_cols e * 16"
    and owner: "store_thread inverse_map e r c = 32 * warp + t"
  obtains i j l where "i < warp_rows e" "j < warp_cols e" "l < 8"
    "store_of e (tile_of_warp e warp) t i j l = ([r, c], store_index inverse_map e r c)"
proof -
  have size: "micro_size_x e = 16" "micro_size_y e = 16" "local_size_out e = 8" "0 < warp_rows e" "0 < warp_cols e"
    using ok by (auto simp: emitter_ok_def)
  note tile = tile_of_warp_bound [OF first warp]
  obtain t' l where tl: "inverse_map (r mod 16) (c mod 16) = (t', l)" "mma_store_index_map t' l = (r mod 16, c mod 16)" "t' < 32" "l < 8"
    using store_map_inverse [OF inv, of "r mod 16" "c mod 16"] by auto
  let ?bi = "r div 16 div warp_rows e" and ?bj = "c div 16 div warp_cols e"
  have b: "?bi < block_row_warps e" using rc(1) size by (simp add: less_mult_imp_div_less)
  have "32 * (?bj * block_row_warps e + ?bi) + t' = 32 * warp + t"
    using owner first tl(1) by (simp add: store_thread_def size WARP_SIZE_def algebra_simps)
  then have "t' = t" "?bj * block_row_warps e + ?bi = warp"
    using tl(3) t by (metis div_mult_self4 mod_mult_self4 div_less mod_less add_0_right zero_neq_numeral)+
  then have wm: "warp mod block_row_warps e = ?bi" "warp div block_row_warps e = ?bj" using b by (auto simp flip: \<open>_ = warp\<close>)
  have "store_of e (tile_of_warp e warp) t (r div 16 mod warp_rows e) (c div 16 mod warp_cols e) l = ([r, c], store_index inverse_map e r c)"
    using tl(1,2) \<open>t' = t\<close> by (simp add: store_of_def tile wm store_index_def size algebra_simps)
  then show thesis using that size tl(4) by (meson mod_less_divisor)
qed

text \<open>
  C21: The stores of a thread are exactly the positions that the layout of the result fragment gives to it, each with the
  register of that layout, when warps are bound to threads in the default order.  As the layout is a function of the position,
  every position of the block's tile is stored by one thread and no other.  The inverse of the store map is TVM's.
\<close>

theorem store_layout_agrees:
  assumes init: "emitter_init bits p = Inr e" and first: "\<not> m_first e"
    and inverse: "\<forall>t < 32. \<forall>l < 8. case_prod inverse_map (mma_store_index_map t l) = (t, l)"
    and thread: "thread < 32 * (block_row_warps e * block_col_warps e)"
  shows "\<exists>S thread_of index_of. stmatrix e 2 None None thread = Inr S \<and>
    make_mma_store_layout inverse_map e True = Inr (thread_of, index_of) \<and>
    set S = {([r, c], index_of r c) |r c. r < block_row_warps e * warp_rows e * 16 \<and> c < block_col_warps e * warp_cols e * 16 \<and>
                thread_of r c = thread}"
proof -
  obtain w where ok: "emitter_ok bits w e" using emitter_init_ok(1) [OF init] by blast
  define warp t where "warp = thread div 32" and "t = thread mod 32"
  have t: "t < 32" "thread = 32 * warp + t" by (simp_all add: t_def warp_def)
  have warp: "warp < block_row_warps e * block_col_warps e" using thread by (simp add: warp_def less_mult_imp_div_less mult.commute)
  obtain S where S: "stmatrix e 2 None None thread = Inr S"
    "set S = {store_of e (tile_of_warp e warp) t i j l |i j l. i < warp_rows e \<and> j < warp_cols e \<and> l < 8}"
    using stmatrix_set [OF ok t(1), of warp] t(2) by auto
  let ?R = "{([r, c], store_index inverse_map e r c) |r c. r < block_row_warps e * warp_rows e * 16 \<and>
      c < block_col_warps e * warp_cols e * 16 \<and> store_thread inverse_map e r c = thread}"
  have "set S \<subseteq> ?R"
  proof
    fix x assume "x \<in> set S"
    then obtain i j l where x: "x = store_of e (tile_of_warp e warp) t i j l" "i < warp_rows e" "j < warp_cols e" "l < 8" by (auto simp: S(2))
    show "x \<in> ?R" by (rule store_of_layout [OF ok first warp inverse x(2,3) t(1) x(4)]) (use x(1) t(2) in auto)
  qed
  moreover have "?R \<subseteq> set S"
  proof
    fix x assume "x \<in> ?R"
    then obtain r c where x: "x = ([r, c], store_index inverse_map e r c)" "r < block_row_warps e * warp_rows e * 16"
      "c < block_col_warps e * warp_cols e * 16" "store_thread inverse_map e r c = 32 * warp + t" using t(2) by auto
    obtain i j l where ij: "i < warp_rows e" "j < warp_cols e" "l < 8"
      "store_of e (tile_of_warp e warp) t i j l = ([r, c], store_index inverse_map e r c)"
      by (rule layout_stored [OF ok first warp inverse t(1) x(2-4)])
    have "x = store_of e (tile_of_warp e warp) t i j l" using x(1) ij(4) by simp
    then show "x \<in> set S" using ij(1-3) unfolding S(2) by blast
  qed
  ultimately show ?thesis using S(1) by (auto simp: make_mma_store_layout_def)
qed

text \<open>The witness' emitter: the default arguments with one tile for each warp.\<close>

theorem store_layout_agrees_witness:
  "\<exists>e S thread_of index_of. emitter_init (\<lambda>_. 16) (mma_defaults\<lparr>warp_row_tiles := 16, warp_col_tiles := 16\<rparr>) = Inr e \<and>
     stmatrix e 2 None None 33 = Inr S \<and> make_mma_store_layout shared_16x16_to_mma_32x8_layout_sr e True = Inr (thread_of, index_of) \<and>
     set S = {([r, c], index_of r c) |r c. r < 32 \<and> c < 32 \<and> thread_of r c = 33}"
proof -
  let ?p = "mma_defaults\<lparr>warp_row_tiles := 16, warp_col_tiles := 16\<rparr>"
  obtain e where e: "emitter_init (\<lambda>_. 16) ?p = Inr e" by (simp add: emitter_init_def mma_defaults_def abbrv_def dtype_abbrv_def initialize_mma_prefix_def M_DIM_def N_DIM_def Let_def)
  have "mma_params.truncate e = ?p" "\<not> m_first e" using emitter_init_ok(2,3) [OF e] by (simp_all add: mma_defaults_def)
  then have "block_row_warps e = 2" "block_col_warps e = 2" "warp_row_tiles e = 16" "warp_col_tiles e = 16"
    by (simp_all add: mma_params.defs mma_defaults_def)
  moreover have "warp_rows e = warp_row_tiles e div 16" "warp_cols e = warp_col_tiles e div 16"
    using emitter_init_ok(1) [OF e] by (auto simp: emitter_ok_def)
  moreover have "list_all (\<lambda>t. list_all (\<lambda>l. case_prod shared_16x16_to_mma_32x8_layout_sr (mma_store_index_map t l) = (t, l)) [0..<8]) [0..<32]"
    by code_simp
  ultimately show ?thesis
    using store_layout_agrees [OF e \<open>\<not> m_first e\<close>, of shared_16x16_to_mma_32x8_layout_sr 33] e by (auto simp: list_all_iff)
qed

text \<open>
  With columns of warps first, the layout multiplies by the number of tiles in a warp where the binding multiplies by the size of
  a warp: a thread stores a position that the layout gives to another.
\<close>

theorem store_layout_m_first:
  "case emitter_init (\<lambda>_. 16) (mma_defaults\<lparr>warp_row_tiles := 16, warp_col_tiles := 16, is_m_first := Some True\<rparr>) of
     Inr e \<Rightarrow>
       (case stmatrix e 2 None None 64 of Inr S \<Rightarrow> list_ex (\<lambda>s. fst s = [16, 0]) S | Inl _ \<Rightarrow> False) \<and>
       store_thread shared_16x16_to_mma_32x8_layout_sr e 16 0 = 2
   | Inl _ \<Rightarrow> False"
  by code_simp

text \<open>The default arguments themselves are refused: their tiles are smaller than one instruction.\<close>

theorem default_emitter_refused: "bits ''float16'' = 16 \<Longrightarrow> emitter_init bits mma_defaults = Inl ValueError"
  by (simp add: emitter_init_def mma_defaults_def abbrv_def dtype_abbrv_def initialize_mma_prefix_def M_DIM_def Let_def)

section \<open>Running a warp\<close>

text \<open>
  The lanes of a warp run the same list of steps in lockstep: a step is a function of the lane.
\<close>

lemma fold_lanes: "fold (\<lambda>s. f (\<lambda>t. map (\<lambda>g. g t) gs ! s)) [0..<length gs] = fold f gs"
proof -
  have "fold (\<lambda>s. f (\<lambda>t. map (\<lambda>g. g t) gs ! s)) [0..<length gs] r = fold (\<lambda>s. f (gs ! s)) [0..<length gs] r" for r
    by (intro fold_cong) auto
  moreover have "fold (\<lambda>s. f (gs ! s)) [0..<length gs] = fold f (map ((!) gs) [0..<length gs])" by (simp add: fold_map comp_def)
  ultimately show ?thesis by (simp add: map_nth fun_eq_iff)
qed

section \<open>Layouts of loaded fragments\<close>

text \<open>
  The layout of a loaded fragment is the one that the multiplication reads, for the first operand and for eight bits;
  for the second operand of 16 bits the halves of columns and depth are exchanged.
\<close>

theorem load_layouts:
  assumes "emitter_ok bits w e" "\<not> a_transposed e"
  shows "\<exists>f. load_transform bits e ''A'' True = Inr (f, 8 * w, 16) \<and> f i k = a_slot w i k"
    and "bits (b_dtype e) = 8 \<Longrightarrow> w = 4 \<Longrightarrow> j < 16 \<Longrightarrow> \<exists>f. load_transform bits e ''B'' True = Inr (f, 8 * w, 16) \<and>
      f k j = (fst (b_slot w (j mod 8) k), j div 8 * (2 * w) + snd (b_slot w (j mod 8) k))"
  using assms
  by (auto simp: load_transform_def emitter_ok_def Let_def a_slot_def b_slot_def shared_16x16_to_mma_32x8_layout_sr_def
      shared_16x32_to_mma_32x16_layout_def shared_32x16_to_mma_32x16_layout_def)

theorem load_layout_b16: "shared_16x16_to_mma_32x8_layout_rs 0 8 = (0, 2) \<and> b_slot 2 0 0 = (0, 0)"
  by (simp add: shared_16x16_to_mma_32x8_layout_rs_def b_slot_def)

section \<open>Transformed operands\<close>

text \<open>
  The order in which a transformed buffer holds the elements of a tile: row and depth of position \<open>x\<close>, where \<open>addr\<close> is the position
  whose address a lane gives to \<^verbatim>\<open>ldmatrix\<close>, and \<open>reg\<close> the position of a register.
\<close>

definition tile_order ::
  "(nat \<Rightarrow> nat \<times> nat) \<Rightarrow> (nat \<Rightarrow> nat \<Rightarrow> nat \<times> nat) \<Rightarrow> nat \<Rightarrow> transform_kind \<Rightarrow> nat \<Rightarrow> nat \<times> nat" where
  "tile_order addr reg w kind x =
     (case kind of
        IntraWarpTransform \<Rightarrow> (fst (addr (x div (4 * w))), snd (addr (x div (4 * w))) + x mod (4 * w))
      | LDMatrixTransform \<Rightarrow> reg (x div (4 * w)) (x mod (4 * w))
      | _ \<Rightarrow> (x div (8 * w), x mod (8 * w)))"

definition a_addr :: "nat \<Rightarrow> nat \<Rightarrow> nat \<times> nat" where
  "a_addr w lane = (lane mod 16, 4 * w * (lane div 16))"

definition b_addr :: "nat \<Rightarrow> nat \<Rightarrow> nat \<times> nat" where
  "b_addr w lane = (8 * (lane div 16) + lane mod 8, 4 * w * (lane mod 16 div 8))"

text \<open>A load of all lanes, a call or a copy.\<close>

definition exec_load :: "nat \<Rightarrow> nat list \<Rightarrow> (nat \<Rightarrow> 'v) \<Rightarrow> (nat \<Rightarrow> load) \<Rightarrow> 'v regs \<Rightarrow> 'v regs" where
  "exec_load w shape mem call regs t l =
     (case call t of
        Copy n idx \<Rightarrow> if l = n then mem (row_major shape idx) else regs t l
      | Ldmatrix _ \<Rightarrow> exec_ldmatrix w shape mem (\<lambda>t. case call t of Ldmatrix c \<Rightarrow> c | Copy n idx \<Rightarrow> ldmatrix_call '''' n idx 0) regs t l)"

lemma exec_ldmatrix_loads: "exec_load w shape mem (\<lambda>t. Ldmatrix (call t)) = exec_ldmatrix w shape mem call"
  by (intro ext) (simp add: exec_load_def)

lemma reg_addr:
  assumes "w = 2 \<or> w = 4" "t < 32" "l < 4 * w"
  shows "a_pos w t l = (fst (a_addr w (8 * (l div w) + t div 4)), snd (a_addr w (8 * (l div w) + t div 4)) + (w * (t mod 4) + l mod w))"
    and "b_pos w t l = (fst (b_addr w (8 * (l div w) + t div 4)), snd (b_addr w (8 * (l div w) + t div 4)) + (w * (t mod 4) + l mod w))"
    and "w * (t mod 4) + l mod w < 4 * w" and "8 * (l div w) + t div 4 < 32"
proof -
  have m: "l div w < 4" "t div 4 < 8" "t mod 4 < 4" using assms by (auto simp: less_mult_imp_div_less)
  then show "a_pos w t l = (fst (a_addr w (8 * (l div w) + t div 4)), snd (a_addr w (8 * (l div w) + t div 4)) + (w * (t mod 4) + l mod w))"
    "b_pos w t l = (fst (b_addr w (8 * (l div w) + t div 4)), snd (b_addr w (8 * (l div w) + t div 4)) + (w * (t mod 4) + l mod w))"
    "8 * (l div w) + t div 4 < 32"
    by (simp_all add: a_pos_def b_pos_def a_addr_def b_addr_def lane_parts)
  show "w * (t mod 4) + l mod w < 4 * w"
    using m(3) assms(1) mod_less_divisor [of w l] by auto
qed

lemma fold_copies:
  assumes "i < m" "l < n"
  shows "fold (exec_load w shape mem) (concat (map (\<lambda>i. map (\<lambda>l t. Copy (i * n + l) (idx i l t)) [0..<n]) [0..<m])) r t (i * n + l) =
    mem (row_major shape (idx i l t))"
proof -
  have other: "fold (exec_load w shape mem) (map (\<lambda>l t. Copy (i' * n + l) (idx i' l t)) ls) r t p = r t p"
    if "p \<notin> (\<lambda>l. i' * n + l) ` set ls" for i' ls r p
    using that by (induction ls arbitrary: r) (auto simp: exec_load_def)
  have one: "fold (exec_load w shape mem) (map (\<lambda>l t. Copy (i * n + l) (idx i l t)) [0..<k]) r t (i * n + l) = mem (row_major shape (idx i l t))"
    if "l < k" for k r using that by (induction k) (auto simp: exec_load_def less_Suc_eq)
  show ?thesis
    using assms(1)
  proof (induction m)
    case (Suc m)
    show ?case
    proof (cases "i = m")
      case True
      then show ?thesis using one [OF assms(2)] by simp
    next
      case False
      then have "i < m" using Suc.prems by simp
      then have "i * n + n \<le> m * n" using mult_le_mono1 [of "Suc i" m n] by simp
      then have "i * n + l \<notin> (\<lambda>l. m * n + l) ` set [0..<n]" using assms(2) by auto
      then show ?thesis using other Suc.IH \<open>i < m\<close> by simp
    qed
  qed simp
qed

definition ladder_steps :: "string \<Rightarrow> nat \<Rightarrow> nat \<Rightarrow> nat \<Rightarrow> nat \<Rightarrow> (nat \<Rightarrow> nat \<times> nat) \<Rightarrow> transform_kind \<Rightarrow> (nat \<Rightarrow> load) list" where
  "ladder_steps dtype w m ni nj addr kind =
     (case kind of
        LDMatrixTransform \<Rightarrow> concat (map (\<lambda>i. map (\<lambda>l t. Copy (i * (4 * w) + l)
          [ni + i, nj, (t mod 32 * (4 * w) + l) div (8 * w), (t mod 32 * (4 * w) + l) mod (8 * w)]) [0..<4 * w]) [0..<m])
      | IntraWarpTransform \<Rightarrow> map (\<lambda>i t. Ldmatrix (ldmatrix_call dtype (i * (4 * w)) [ni + i, nj, 0, 0] (t mod 32 * (4 * w)))) [0..<m]
      | _ \<Rightarrow> map (\<lambda>i t. Ldmatrix (ldmatrix_call dtype (i * (4 * w)) [ni + i, nj, 0, 0]
          (fst (addr (t mod 32)) * (8 * w) + snd (addr (t mod 32))))) [0..<m])"

lemma tile_indices:
  assumes "16 dvd tiles" "8 * w dvd ch" "0 < w"
  shows "tile_index 16 (8 * w) (x * tiles + i * 16) (rk * ch + ki * (8 * w)) = [x * (tiles div 16) + i, rk * (ch div (8 * w)) + ki, 0, 0]"
proof -
  obtain p q where pq: "tiles = 16 * p" "ch = 8 * w * q" using assms(1,2) by (auto elim!: dvdE)
  have "x * tiles + i * 16 = (x * (tiles div 16) + i) * 16" "rk * ch + ki * (8 * w) = (rk * (ch div (8 * w)) + ki) * (8 * w)"
    using assms(3) by (simp_all add: pq algebra_simps)
  then show ?thesis using assms(3) by (simp only: tile_index_def) simp
qed

lemma ladder_a_steps:
  assumes ok: "emitter_ok bits w e" and "\<not> a_transposed e" and whole: "16 dvd warp_row_tiles e" "8 * w dvd chunk e"
    and kind: "transform_kind_a e \<noteq> NonTransform"
  shows "ladder_ldmatrix_a bits e [n, m, 16, 8 * w] ki rk (32 * warp + t mod 32) = Inr (map (\<lambda>g. g t)
    (ladder_steps (a_dtype e) w (warp_rows e) (snd (tile_of_warp e warp) * warp_rows e) (rk * (chunk e div (8 * w)) + ki) (a_addr w) (transform_kind_a e)))"
proof -
  have w: "0 < w" and size: "micro_size_x e = 16" "micro_size_k e = 8 * w" "local_size_a e = 4 * w" "warp_rows e = warp_row_tiles e div 16"
    using ok by (auto simp: emitter_ok_def)
  have "get_ldmatrix_offset ''A'' x 0 s (bits (a_dtype e)) False = Inr (x mod 16 * s + 4 * w * (x div 16))" for x s
    using ok by (intro offset_a) (auto simp: emitter_ok_def)
  then show ?thesis
    using assms(2) kind tile_indices [OF whole w] extract_lane [of "t mod 32" e warp]
    by (cases "tile_of_warp e warp"; cases "transform_kind_a e")
      (simp_all add: ladder_ldmatrix_a_def py_nth_def ladder_steps_def size a_addr_def Let_def map_concat comp_def)
qed

lemma ladder_b_steps:
  assumes ok: "emitter_ok bits w e" and "b_transposed e" "bits (b_dtype e) = bits (a_dtype e)" "num_elems_per_byte e = 1"
    and whole: "16 dvd warp_col_tiles e" "8 * w dvd chunk e" and kind: "transform_kind_b e \<noteq> NonTransform"
  shows "ladder_ldmatrix_b bits e [n, m, 16, 8 * w] ki rk (32 * warp + t mod 32) = Inr (map (\<lambda>g. g t)
    (ladder_steps (b_dtype e) w (warp_cols e) (fst (tile_of_warp e warp) * warp_cols e) (rk * (chunk e div (8 * w)) + ki) (b_addr w) (transform_kind_b e)))"
proof -
  have w: "0 < w" and size: "micro_size_y e = 16" "micro_size_k e = 8 * w" "local_size_b e = 4 * w" "warp_cols e = warp_col_tiles e div 16"
    using ok by (auto simp: emitter_ok_def)
  have "get_ldmatrix_offset ''B'' x 0 s (bits (b_dtype e)) True = Inr ((8 * (x div 16) + x mod 8) * s + 4 * w * (x mod 16 div 8))" for x s
    using ok assms(3) by (intro offset_b) (auto simp: emitter_ok_def)
  then show ?thesis
    using assms(2,4) kind tile_indices [OF whole w] extract_lane [of "t mod 32" e warp] w
    by (cases "tile_of_warp e warp"; cases "transform_kind_b e")
      (simp_all add: ladder_ldmatrix_b_def py_nth_def ladder_steps_def size b_addr_def Let_def map_concat comp_def)
qed

lemma ladder_steps_load:
  fixes M :: "nat \<Rightarrow> nat \<Rightarrow> 'v"
  assumes w: "w = 2 \<or> w = 4" and tl: "t < 32" "l < 4 * w" and i: "i < m" and nj: "nj < depth" and kind: "kind \<noteq> NonTransform"
    and mem: "\<And>a b x. b < depth \<Longrightarrow> x < 128 * w \<Longrightarrow>
      mem ((a * depth + b) * (128 * w) + x) = M (a * 16 + fst (tile_order addr reg w kind x)) (b * (8 * w) + snd (tile_order addr reg w kind x))"
    and addr: "\<And>lane. lane < 32 \<Longrightarrow> fst (addr lane) < 16 \<and> snd (addr lane) \<le> 4 * w"
    and reg: "reg t l = (fst (addr (8 * (l div w) + t div 4)), snd (addr (8 * (l div w) + t div 4)) + (w * (t mod 4) + l mod w))"
  shows "fold (exec_load w [n, depth, 16, 8 * w] mem) (ladder_steps dtype w m ni nj addr kind) r t (i * (4 * w) + l) =
    M ((ni + i) * 16 + fst (reg t l)) (nj * (8 * w) + snd (reg t l))"
proof -
  define q where "q = w * (t mod 4) + l mod w"
  define lane where "lane = 8 * (l div w) + t div 4"
  have q: "q < 4 * w" and lane: "lane < 32" "lane mod 32 = lane" using reg_addr(3,4) [OF w tl] by (simp_all add: q_def lane_def)
  have base: "row_major [n, depth, 16, 8 * w] [ni + i, nj, a, b] = ((ni + i) * depth + nj) * (128 * w) + (a * (8 * w) + b)" for a b
    by (simp add: algebra_simps)
  have x4: "x * (4 * w) + y < 128 * w" if "x < 32" "y < 4 * w" for x y
  proof -
    have "Suc x * (4 * w) \<le> 32 * (4 * w)" using that(1) by (intro mult_le_mono1) simp
    then show ?thesis using that(2) by (simp only: mult_Suc)
  qed
  have call: "fold (exec_load w [n, depth, 16, 8 * w] mem) (map (\<lambda>i t. Ldmatrix (ldmatrix_call dtype (i * (4 * w)) [ni + i, nj, 0, 0] (off (t mod 32)))) [0..<m])
      r t (i * (4 * w) + l) = mem (((ni + i) * depth + nj) * (128 * w) + (off lane + q))" for off
  proof -
    have "fold (exec_load w [n, depth, 16, 8 * w] mem) (map (\<lambda>i t. Ldmatrix (ldmatrix_call dtype (i * (4 * w)) [ni + i, nj, 0, 0] (off (t mod 32)))) [0..<m]) r =
        fold (\<lambda>i. exec_ldmatrix w [n, depth, 16, 8 * w] mem (\<lambda>t. ldmatrix_call dtype (i * (4 * w)) [ni + i, nj, 0, 0] (off (t mod 32)))) [0..<m] r"
      by (simp add: fold_map comp_def exec_ldmatrix_loads)
    then show ?thesis
      using base [of 0 0] i tl lane by (simp add: exec_calls ldmatrix_x4_def ldmatrix_call_def lane_def [symmetric] q_def add.assoc)
  qed
  consider "kind = InterWarpTransform" | "kind = IntraWarpTransform" | "kind = LDMatrixTransform" using kind by (cases kind) auto
  then show ?thesis
  proof cases
    case 1
    have "snd (addr lane) + q < 8 * w" "fst (addr lane) * (8 * w) + 8 * w \<le> 128 * w"
      using addr [OF lane(1)] q mult_le_mono1 [of "Suc (fst (addr lane))" 16 "8 * w"] by auto
    then show ?thesis using 1 call [of "\<lambda>x. fst (addr x) * (8 * w) + snd (addr x)"] mem [OF nj, of "fst (addr lane) * (8 * w) + (snd (addr lane) + q)"] w
      by (auto simp: ladder_steps_def tile_order_def reg lane_def [symmetric] q_def [symmetric] add.assoc)
  next
    case 2
    then show ?thesis using call [of "\<lambda>x. x * (4 * w)"] mem [OF nj x4 [OF lane(1) q]] q w
      by (auto simp: ladder_steps_def tile_order_def reg lane_def [symmetric] q_def [symmetric])
  next
    case 3
    have "row_major [n, depth, 16, 8 * w] [ni + i, nj, (t * (4 * w) + l) div (8 * w), (t * (4 * w) + l) mod (8 * w)] =
        ((ni + i) * depth + nj) * (128 * w) + (t * (4 * w) + l)"
      unfolding base by (simp only: div_mult_mod_eq)
    then show ?thesis
      using 3 fold_copies [OF i tl(2), of w "[n, depth, 16, 8 * w]" mem] mem [OF nj x4 [OF tl]] tl w
      by (auto simp: ladder_steps_def tile_order_def)
  qed
qed

definition run_lanes :: "((nat \<Rightarrow> 'c) \<Rightarrow> 's \<Rightarrow> 's) \<Rightarrow> (nat \<Rightarrow> 'c list) \<Rightarrow> 's \<Rightarrow> 's" where
  "run_lanes f prog = fold (\<lambda>s. f (\<lambda>lane. prog lane ! s)) [0..<length (prog 0)]"

lemma run_lanes_map: "run_lanes f (\<lambda>lane. map (\<lambda>g. g lane) gs) = fold f gs"
  using fold_lanes [of f gs] by (simp add: run_lanes_def)

lemma run_calls: "run_lanes f (\<lambda>lane. map (\<lambda>i. g i (lane mod 32)) xs) = fold (\<lambda>i. f (\<lambda>lane. g i (lane mod 32))) xs"
  using run_lanes_map [of f "map (\<lambda>i lane. g i (lane mod 32)) xs"] by (simp add: comp_def fold_map)

lemma addr_bounds: "lane < 32 \<Longrightarrow> fst (a_addr w lane) < 16 \<and> snd (a_addr w lane) \<le> 4 * w"
  "lane < 32 \<Longrightarrow> fst (b_addr w lane) < 16 \<and> snd (b_addr w lane) \<le> 4 * w"
proof -
  assume "lane < 32"
  then have "lane div 16 \<le> 1" "lane mod 16 div 8 \<le> 1" "lane mod 8 < 8" "lane mod 16 < 16" by (simp_all add: less_mult_imp_div_less less_Suc_eq_le [symmetric])
  then show "fst (a_addr w lane) < 16 \<and> snd (a_addr w lane) \<le> 4 * w" "fst (b_addr w lane) < 16 \<and> snd (b_addr w lane) \<le> 4 * w"
    by (auto simp: a_addr_def b_addr_def)
qed

lemma ladder_init_ok:
  assumes "ladder_init bits p ka kb = Inr e"
  shows "emitter_ok bits (32 div bits (a_dtype e)) e"
proof -
  obtain e0 x where e0: "emitter_init bits p = Inr e0" and e: "e = emitter.extend e0 x"
    using assms by (auto simp: ladder_init_def res_iff)
  obtain w where "emitter_ok bits w e0" using emitter_init_ok(1) [OF e0] by blast
  then show ?thesis by (auto simp: e emitter_ok_def emitter.defs)
qed

text \<open>One operand after the other: the loads from transformed tiles and the plain loads fill the registers alike.\<close>

lemma ladder_loads_a:
  fixes plainA memA :: "nat \<Rightarrow> 'v"
  assumes ok: "emitter_ok bits w e" and order: "\<not> a_transposed e"
    and whole: "16 dvd warp_row_tiles e" "8 * w dvd chunk e" and kind: "transform_kind_a e \<noteq> NonTransform"
    and depth: "rk * (chunk e div (8 * w)) + ki < depth"
    and memA: "\<And>a b x. b < depth \<Longrightarrow> x < 128 * w \<Longrightarrow> memA ((a * depth + b) * (128 * w) + x) =
      (case tile_order (a_addr w) (a_pos w) w (transform_kind_a e) x of (r, k) \<Rightarrow> plainA ((a * 16 + r) * sa + (b * (8 * w) + k)))"
    and tl: "t < 32" "l < 4 * w" and i: "i < warp_rows e"
  shows "\<exists>as as'. (\<forall>lane. ladder_ldmatrix_a bits e [n, depth, 16, 8 * w] ki rk (32 * warp + lane mod 32) = Inr (as lane) \<and>
      ldmatrix_a bits e [na, sa] ki rk (32 * warp + lane mod 32) = Inr (as' lane)) \<and>
    run_lanes (exec_load w [n, depth, 16, 8 * w] memA) as ra t (i * (4 * w) + l) =
      run_lanes (exec_ldmatrix w [na, sa] plainA) as' ra t (i * (4 * w) + l)"
proof -
  have w: "w = 2 \<or> w = 4" "0 < w" using ok by (auto simp: emitter_ok_def)
  have tiles: "warp_row_tiles e = warp_rows e * 16" using ok whole(1) by (auto simp: emitter_ok_def)
  have ch: "rk * chunk e + ki * (8 * w) = (rk * (chunk e div (8 * w)) + ki) * (8 * w)"
    using whole(2) w(2) by (auto simp: algebra_simps elim!: dvdE)
  have a: "fold (exec_load w [n, depth, 16, 8 * w] memA) (ladder_steps dtype w (warp_rows e) ni (rk * (chunk e div (8 * w)) + ki) (a_addr w) (transform_kind_a e))
      r t (i * (4 * w) + l) = plainA (((ni + i) * 16 + fst (a_pos w t l)) * sa + ((rk * (chunk e div (8 * w)) + ki) * (8 * w) + snd (a_pos w t l)))"
    for dtype ni r
    by (rule ladder_steps_load [OF w(1) tl i depth kind, where M = "\<lambda>r k. plainA (r * sa + k)" and reg = "a_pos w"])
      (use memA addr_bounds(1) reg_addr(1) [OF w(1) tl] in \<open>auto simp: split_beta\<close>)
  note pa = loads_a [OF w(2) i tl, of na sa plainA e warp ki rk ra]
  let ?a = "ladder_steps (a_dtype e) w (warp_rows e) (snd (tile_of_warp e warp) * warp_rows e) (rk * (chunk e div (8 * w)) + ki) (a_addr w) (transform_kind_a e)"
  have la: "ladder_ldmatrix_a bits e [n, depth, 16, 8 * w] ki rk (32 * warp + lane mod 32) = Inr (map (\<lambda>g. g lane) ?a)"
    and ca: "ldmatrix_a bits e [na, sa] ki rk (32 * warp + lane mod 32) = Inr (map (\<lambda>i. a_call e w warp sa ki rk i (lane mod 32)) [0..<warp_rows e])"
    for lane
    using ladder_a_steps [OF ok order whole kind] ldmatrix_a_calls [OF ok order, of "lane mod 32"] by simp_all
  have "run_lanes (exec_load w [n, depth, 16, 8 * w] memA) (\<lambda>lane. map (\<lambda>g. g lane) ?a) ra t (i * (4 * w) + l) =
      run_lanes (exec_ldmatrix w [na, sa] plainA) (\<lambda>lane. map (\<lambda>i. a_call e w warp sa ki rk i (lane mod 32)) [0..<warp_rows e]) ra t (i * (4 * w) + l)"
    unfolding run_lanes_map run_calls a pa ch tiles by (simp add: algebra_simps)
  then show ?thesis using la ca by (intro exI conjI allI)
qed

lemma ladder_loads_b:
  fixes plainB memB :: "nat \<Rightarrow> 'v"
  assumes ok: "emitter_ok bits w e" and order: "b_transposed e"
    and same: "bits (b_dtype e) = bits (a_dtype e)" "num_elems_per_byte e = 1"
    and whole: "16 dvd warp_col_tiles e" "8 * w dvd chunk e" and kind: "transform_kind_b e \<noteq> NonTransform"
    and depth: "rk * (chunk e div (8 * w)) + ki < depth"
    and memB: "\<And>a b x. b < depth \<Longrightarrow> x < 128 * w \<Longrightarrow> memB ((a * depth + b) * (128 * w) + x) =
      (case tile_order (b_addr w) (b_pos w) w (transform_kind_b e) x of (r, k) \<Rightarrow> plainB ((a * 16 + r) * sb + (b * (8 * w) + k)))"
    and tl: "t < 32" "l < 4 * w" and j: "j < warp_cols e"
  shows "\<exists>bs bs'. (\<forall>lane. ladder_ldmatrix_b bits e [n, depth, 16, 8 * w] ki rk (32 * warp + lane mod 32) = Inr (bs lane) \<and>
      ldmatrix_b bits e [nb, sb] ki rk (32 * warp + lane mod 32) = Inr (bs' lane)) \<and>
    run_lanes (exec_load w [n, depth, 16, 8 * w] memB) bs rb t (j * (4 * w) + l) =
      run_lanes (exec_ldmatrix w [nb, sb] plainB) bs' rb t (j * (4 * w) + l)"
proof -
  have w: "w = 2 \<or> w = 4" "0 < w" using ok by (auto simp: emitter_ok_def)
  have tiles: "warp_col_tiles e = warp_cols e * 16" using ok whole(1) by (auto simp: emitter_ok_def)
  have ch: "rk * chunk e + ki * (8 * w) = (rk * (chunk e div (8 * w)) + ki) * (8 * w)"
    using whole(2) w(2) by (auto simp: algebra_simps elim!: dvdE)
  have b: "fold (exec_load w [n, depth, 16, 8 * w] memB) (ladder_steps dtype w (warp_cols e) ni (rk * (chunk e div (8 * w)) + ki) (b_addr w) (transform_kind_b e))
      r t (j * (4 * w) + l) = plainB (((ni + j) * 16 + fst (b_pos w t l)) * sb + ((rk * (chunk e div (8 * w)) + ki) * (8 * w) + snd (b_pos w t l)))"
    for dtype ni r
    by (rule ladder_steps_load [OF w(1) tl j depth kind, where M = "\<lambda>r k. plainB (r * sb + k)" and reg = "b_pos w"])
      (use memB addr_bounds(2) reg_addr(2) [OF w(1) tl] in \<open>auto simp: split_beta\<close>)
  note pb = loads_b [OF w(2) j tl, of nb sb plainB e warp ki rk rb]
  let ?b = "ladder_steps (b_dtype e) w (warp_cols e) (fst (tile_of_warp e warp) * warp_cols e) (rk * (chunk e div (8 * w)) + ki) (b_addr w) (transform_kind_b e)"
  have lb: "ladder_ldmatrix_b bits e [n, depth, 16, 8 * w] ki rk (32 * warp + lane mod 32) = Inr (map (\<lambda>g. g lane) ?b)"
    and cb: "ldmatrix_b bits e [nb, sb] ki rk (32 * warp + lane mod 32) = Inr (map (\<lambda>j. b_call e w warp sb ki rk j (lane mod 32)) [0..<warp_cols e])"
    for lane
    using ladder_b_steps [OF ok order same whole kind] ldmatrix_b_calls [OF ok order same(1), of "lane mod 32"] by simp_all
  have "run_lanes (exec_load w [n, depth, 16, 8 * w] memB) (\<lambda>lane. map (\<lambda>g. g lane) ?b) rb t (j * (4 * w) + l) =
      run_lanes (exec_ldmatrix w [nb, sb] plainB) (\<lambda>lane. map (\<lambda>j. b_call e w warp sb ki rk j (lane mod 32)) [0..<warp_cols e]) rb t (j * (4 * w) + l)"
    unfolding run_lanes_map run_calls b pb ch tiles by (simp add: algebra_simps)
  then show ?thesis using lb cb by (intro exI conjI allI)
qed

text \<open>Packed weights in the order of \<^verbatim>\<open>ldmatrix\<close>: every lane gets its own run of consecutive packed elements of the tile.\<close>

lemma ladder_loads_packed:
  fixes memB :: "nat \<Rightarrow> 'v"
  assumes ok: "emitter_ok bits w e" and per: "0 < num_elems_per_byte e" "num_elems_per_byte e dvd 4 * w"
    and kind: "transform_kind_b e = LDMatrixTransform"
    and q: "q = 4 * w div num_elems_per_byte e" and l: "t < 32" "l < q" and j: "j < warp_cols e"
  shows "\<exists>bs. (\<forall>lane. ladder_ldmatrix_b bits e [n, depth, 16, 2 * q] ki rk (32 * warp + lane mod 32) = Inr (bs lane)) \<and>
    run_lanes (exec_load w [n, depth, 16, 2 * q] memB) bs rb t (j * q + l) =
      memB (((fst (tile_of_warp e warp) * warp_cols e + j) * depth + (rk * (chunk e div (8 * w)) + ki)) * (32 * q) + (t * q + l))"
proof -
  have size: "micro_size_k e = 8 * w" "local_size_b e = 4 * w" using ok by (auto simp: emitter_ok_def)
  have k: "8 * w div num_elems_per_byte e = 2 * q" "0 < q"
  proof -
    obtain c where c: "4 * w = num_elems_per_byte e * c" using per(2) by (auto elim: dvdE)
    then have "q = c" using q per(1) by simp
    moreover have "8 * w = num_elems_per_byte e * (2 * c)" using c by simp
    then have "8 * w div num_elems_per_byte e = 2 * c" using per(1) by (simp only: nonzero_mult_div_cancel_left)
    ultimately show "8 * w div num_elems_per_byte e = 2 * q" by simp
    show "0 < q" using l(2) by simp
  qed
  let ?idx = "\<lambda>j l t. [fst (tile_of_warp e warp) * warp_cols e + j, rk * (chunk e div (8 * w)) + ki,
      (t mod 32 * q + l) div (2 * q), (t mod 32 * q + l) mod (2 * q)]"
  let ?steps = "concat (map (\<lambda>j. map (\<lambda>l t. Copy (j * q + l) (?idx j l t)) [0..<q]) [0..<warp_cols e])"
  have run: "ladder_ldmatrix_b bits e [n, depth, 16, 2 * q] ki rk (32 * warp + lane mod 32) = Inr (map (\<lambda>g. g lane) ?steps)" for lane
    using per(1) k kind extract_lane [of "lane mod 32" e warp]
    by (cases "tile_of_warp e warp") (simp add: ladder_ldmatrix_b_def py_nth_def size q [symmetric] Let_def map_concat comp_def)
  have "run_lanes (exec_load w [n, depth, 16, 2 * q] memB) (\<lambda>lane. map (\<lambda>g. g lane) ?steps) rb t (j * q + l) =
      memB (row_major [n, depth, 16, 2 * q] (?idx j l t))"
    unfolding run_lanes_map by (rule fold_copies [OF j l(2)])
  also have "row_major [n, depth, 16, 2 * q] (?idx j l t) =
      ((fst (tile_of_warp e warp) * warp_cols e + j) * depth + (rk * (chunk e div (8 * w)) + ki)) * (32 * q) + (t * q + l)"
  proof -
    have "row_major [n, depth, 16, 2 * q] [a, b, y div (2 * q), y mod (2 * q)] = (a * depth + b) * (32 * q) + (y div (2 * q) * (2 * q) + y mod (2 * q))"
      for a b y by (simp add: algebra_simps)
    then show ?thesis using l(1) by (simp only: div_mult_mod_eq mod_less)
  qed
  finally have loaded: "run_lanes (exec_load w [n, depth, 16, 2 * q] memB) (\<lambda>lane. map (\<lambda>g. g lane) ?steps) rb t (j * q + l) =
      memB (((fst (tile_of_warp e warp) * warp_cols e + j) * depth + (rk * (chunk e div (8 * w)) + ki)) * (32 * q) + (t * q + l))" .
  show ?thesis by (intro exI conjI allI) (rule run, rule loaded)
qed

text \<open>
  C29: Transformed operands load like plain ones, under conditions on each operand by itself.  Let the chunk be
  whole micro tiles.  For operand A, not transposed, with whole row tiles and one of the three transformations: when
  the buffer holds every tile of a matrix in the order of the transformation (between warps, within a warp, or for
  \<^verbatim>\<open>ldmatrix\<close>), the loads of the ladder emitter leave in every register of every lane what the plain loads leave there from the
  matrix itself.  The same for operand B where it is transposed, has elements as wide as those of A, not packed, and
  whole column tiles.  Where B is packed and in the order of \<^verbatim>\<open>ldmatrix\<close>, transposed or not, every lane gets its own run of consecutive
  packed elements of the tile.  A plain B that is not transposed, and a transposed A, are not compared.
\<close>

theorem ladder_loads_equal:
  fixes plainA plainB memA memB :: "nat \<Rightarrow> 'v"
  assumes init: "ladder_init bits p ka kb = Inr e" and width: "w = 32 div bits (a_dtype e)"
    and chunk: "8 * w dvd chunk e" and depth: "rk * (chunk e div (8 * w)) + ki < depth" and t: "t < 32"
  shows "(\<not> a_transposed e \<and> 16 dvd warp_row_tiles e \<and> transform_kind_a e \<noteq> NonTransform \<and>
      (\<forall>a b x. b < depth \<longrightarrow> x < 128 * w \<longrightarrow> memA ((a * depth + b) * (128 * w) + x) =
        (case tile_order (a_addr w) (a_pos w) w (transform_kind_a e) x of (r, k) \<Rightarrow> plainA ((a * 16 + r) * sa + (b * (8 * w) + k)))) \<and>
      i < warp_rows e \<and> l < 4 * w \<longrightarrow>
    (\<exists>as as'. (\<forall>lane. ladder_ldmatrix_a bits e [n, depth, 16, 8 * w] ki rk (32 * warp + lane mod 32) = Inr (as lane) \<and>
        ldmatrix_a bits e [na, sa] ki rk (32 * warp + lane mod 32) = Inr (as' lane)) \<and>
      run_lanes (exec_load w [n, depth, 16, 8 * w] memA) as ra t (i * (4 * w) + l) =
        run_lanes (exec_ldmatrix w [na, sa] plainA) as' ra t (i * (4 * w) + l))) \<and>
   (b_transposed e \<and> bits (b_dtype e) = bits (a_dtype e) \<and> num_elems_per_byte e = 1 \<and> 16 dvd warp_col_tiles e \<and>
      transform_kind_b e \<noteq> NonTransform \<and>
      (\<forall>a b x. b < depth \<longrightarrow> x < 128 * w \<longrightarrow> memB ((a * depth + b) * (128 * w) + x) =
        (case tile_order (b_addr w) (b_pos w) w (transform_kind_b e) x of (r, k) \<Rightarrow> plainB ((a * 16 + r) * sb + (b * (8 * w) + k)))) \<and>
      j < warp_cols e \<and> l < 4 * w \<longrightarrow>
    (\<exists>bs bs'. (\<forall>lane. ladder_ldmatrix_b bits e [n, depth, 16, 8 * w] ki rk (32 * warp + lane mod 32) = Inr (bs lane) \<and>
        ldmatrix_b bits e [nb, sb] ki rk (32 * warp + lane mod 32) = Inr (bs' lane)) \<and>
      run_lanes (exec_load w [n, depth, 16, 8 * w] memB) bs rb t (j * (4 * w) + l) =
        run_lanes (exec_ldmatrix w [nb, sb] plainB) bs' rb t (j * (4 * w) + l))) \<and>
   (transform_kind_b e = LDMatrixTransform \<and> 0 < num_elems_per_byte e \<and> num_elems_per_byte e dvd 4 * w \<and>
      q = 4 * w div num_elems_per_byte e \<and> j < warp_cols e \<and> l < q \<longrightarrow>
    (\<exists>bs. (\<forall>lane. ladder_ldmatrix_b bits e [n, depth, 16, 2 * q] ki rk (32 * warp + lane mod 32) = Inr (bs lane)) \<and>
      run_lanes (exec_load w [n, depth, 16, 2 * q] memB) bs rb t (j * q + l) =
        memB (((fst (tile_of_warp e warp) * warp_cols e + j) * depth + (rk * (chunk e div (8 * w)) + ki)) * (32 * q) + (t * q + l))))"
proof (intro conjI impI; elim conjE)
  have ok: "emitter_ok bits w e" using ladder_init_ok [OF init] width by simp
  show "\<exists>as as'. (\<forall>lane. ladder_ldmatrix_a bits e [n, depth, 16, 8 * w] ki rk (32 * warp + lane mod 32) = Inr (as lane) \<and>
        ldmatrix_a bits e [na, sa] ki rk (32 * warp + lane mod 32) = Inr (as' lane)) \<and>
      run_lanes (exec_load w [n, depth, 16, 8 * w] memA) as ra t (i * (4 * w) + l) =
        run_lanes (exec_ldmatrix w [na, sa] plainA) as' ra t (i * (4 * w) + l)"
    if "\<not> a_transposed e" "16 dvd warp_row_tiles e" "transform_kind_a e \<noteq> NonTransform"
      and mem: "\<forall>a b x. b < depth \<longrightarrow> x < 128 * w \<longrightarrow> memA ((a * depth + b) * (128 * w) + x) =
        (case tile_order (a_addr w) (a_pos w) w (transform_kind_a e) x of (r, k) \<Rightarrow> plainA ((a * 16 + r) * sa + (b * (8 * w) + k)))"
      and "i < warp_rows e" "l < 4 * w"
    by (rule ladder_loads_a [OF ok that(1,2) chunk that(3) depth _ t that(6,5)]) (use mem in blast)
  show "\<exists>bs bs'. (\<forall>lane. ladder_ldmatrix_b bits e [n, depth, 16, 8 * w] ki rk (32 * warp + lane mod 32) = Inr (bs lane) \<and>
        ldmatrix_b bits e [nb, sb] ki rk (32 * warp + lane mod 32) = Inr (bs' lane)) \<and>
      run_lanes (exec_load w [n, depth, 16, 8 * w] memB) bs rb t (j * (4 * w) + l) =
        run_lanes (exec_ldmatrix w [nb, sb] plainB) bs' rb t (j * (4 * w) + l)"
    if "b_transposed e" "bits (b_dtype e) = bits (a_dtype e)" "num_elems_per_byte e = 1" "16 dvd warp_col_tiles e"
      "transform_kind_b e \<noteq> NonTransform"
      and mem: "\<forall>a b x. b < depth \<longrightarrow> x < 128 * w \<longrightarrow> memB ((a * depth + b) * (128 * w) + x) =
        (case tile_order (b_addr w) (b_pos w) w (transform_kind_b e) x of (r, k) \<Rightarrow> plainB ((a * 16 + r) * sb + (b * (8 * w) + k)))"
      and "j < warp_cols e" "l < 4 * w"
    by (rule ladder_loads_b [OF ok that(1-4) chunk that(5) depth _ t that(8,7)]) (use mem in blast)
  show "\<exists>bs. (\<forall>lane. ladder_ldmatrix_b bits e [n, depth, 16, 2 * q] ki rk (32 * warp + lane mod 32) = Inr (bs lane)) \<and>
      run_lanes (exec_load w [n, depth, 16, 2 * q] memB) bs rb t (j * q + l) =
        memB (((fst (tile_of_warp e warp) * warp_cols e + j) * depth + (rk * (chunk e div (8 * w)) + ki)) * (32 * q) + (t * q + l))"
    if "transform_kind_b e = LDMatrixTransform" "0 < num_elems_per_byte e" "num_elems_per_byte e dvd 4 * w"
      "q = 4 * w div num_elems_per_byte e" "j < warp_cols e" "l < q"
    by (rule ladder_loads_packed [OF ok that(2,3,1,4) t that(6,5)])
qed

text \<open>The witness holds one tile in the order of \<^verbatim>\<open>ldmatrix\<close>.\<close>

definition example_tiles :: "(nat \<Rightarrow> nat \<Rightarrow> nat \<times> nat) \<Rightarrow> nat \<Rightarrow> nat" where
  "example_tiles pos x = (case pos (x mod 256 div 8) (x mod 256 mod 8) of (r, k) \<Rightarrow> (x div 256 * 16 + r) * 16 + k)"

theorem ladder_loads_equal_witness:
  "\<exists>e as as'. ladder_init (\<lambda>_. 16) (mma_defaults\<lparr>b_transposed := True, warp_row_tiles := 16, warp_col_tiles := 16\<rparr>) 3 3 = Inr e \<and>
     ladder_ldmatrix_a (\<lambda>_. 16) e [2, 1, 16, 16] 0 0 5 = Inr (as 5) \<and> ldmatrix_a (\<lambda>_. 16) e [32, 16] 0 0 5 = Inr (as' 5) \<and>
     run_lanes (exec_load 2 [2, 1, 16, 16] (example_tiles (a_pos 2))) as (\<lambda>_ _. 0) 5 3 =
       run_lanes (exec_ldmatrix 2 [32, 16] (\<lambda>p. p)) as' (\<lambda>_ _. 0) 5 3"
proof -
  let ?p = "mma_defaults\<lparr>b_transposed := True, warp_row_tiles := 16, warp_col_tiles := 16\<rparr>"
  have "case ladder_init (\<lambda>_. 16) ?p 3 3 of Inl _ \<Rightarrow> False | Inr e \<Rightarrow> \<not> a_transposed e \<and> b_transposed e \<and> num_elems_per_byte e = 1 \<and>
      warp_row_tiles e = 16 \<and> warp_col_tiles e = 16 \<and> chunk e = 16 \<and> transform_kind_a e = LDMatrixTransform \<and>
      transform_kind_b e = LDMatrixTransform \<and> warp_rows e = 1 \<and> warp_cols e = 1" by code_simp
  then obtain e where e: "ladder_init (\<lambda>_. 16) ?p 3 3 = Inr e" and att: "\<not> a_transposed e" "b_transposed e" "num_elems_per_byte e = 1"
      "warp_row_tiles e = 16" "warp_col_tiles e = 16" "chunk e = 16" "transform_kind_a e = LDMatrixTransform"
      "transform_kind_b e = LDMatrixTransform" "warp_rows e = 1" "warp_cols e = 1" by (auto split: sum.splits)
  have mem: "\<forall>a b x. b < 1 \<longrightarrow> x < 128 * 2 \<longrightarrow> example_tiles (a_pos 2) ((a * 1 + b) * (128 * 2) + x) =
      (case tile_order (a_addr 2) (a_pos 2) 2 (transform_kind_a e) x of (r, k) \<Rightarrow> ((a * 16 + r) * 16 + (b * (8 * 2) + k)))"
    by (auto simp: example_tiles_def tile_order_def att split_beta)
  obtain as as' where "\<And>lane. ladder_ldmatrix_a (\<lambda>_. 16) e [2, 1, 16, 8 * 2] 0 0 (32 * 0 + lane mod 32) = Inr (as lane)"
    "\<And>lane. ldmatrix_a (\<lambda>_. 16) e [32, 16] 0 0 (32 * 0 + lane mod 32) = Inr (as' lane)"
    "run_lanes (exec_load 2 [2, 1, 16, 8 * 2] (example_tiles (a_pos 2))) as (\<lambda>_ _. 0) 5 (0 * (4 * 2) + 3) =
       run_lanes (exec_ldmatrix 2 [32, 16] (\<lambda>p. p)) as' (\<lambda>_ _. 0) 5 (0 * (4 * 2) + 3)"
    using ladder_loads_equal [OF e _ _ _ _, where w = 2 and rk = 0 and ki = 0 and depth = 1 and t = 5 and memA = "example_tiles (a_pos 2)"
        and plainA = "\<lambda>p. p" and sa = 16 and i = 0 and l = 3 and n = 2 and warp = 0 and na = 32 and ra = "\<lambda>_ _. 0", THEN conjunct1] att mem
    by auto
  from this(1) [of 5] this(2) [of 5] this(3) show ?thesis
    by (intro exI [of _ e] exI [of _ as] exI [of _ as']) (simp add: e)
qed

end
