(* ===== verification/GemmPrimitive.thy ===== *)
theory GemmPrimitive
  imports MmaEmitter TileFactors
begin

text \<open>
  The matrix multiplication of a block (\<^verbatim>\<open>primitives/gemm\<close>): how the warps of a block are divided between rows and columns
  of the result (\<^verbatim>\<open>base.py\<close>), and the program of loads and multiplications that is emitted for them (\<^verbatim>\<open>gemm_mma.py\<close>).

  The program of a thread is the list of its calls with the loop over the depth unrolled.  The number of threads comes from the
  kernel frame and is an argument.  Ratios that the source computes in floating point are rational numbers.
\<close>

section \<open>Dividing warps\<close>

datatype warp_policy = Square | FullRow | FullCol

text \<open>The inner loop divides a factor out; the outer loop tries the factors up to the root.\<close>

function divide_out :: "nat \<Rightarrow> nat \<Rightarrow> nat list \<Rightarrow> nat list \<times> nat" where
  "divide_out i num factors =
     (if 2 \<le> i \<and> 0 < num \<and> num mod i = 0 then divide_out i (num div i) (factors @ [i]) else (factors, num))"
  by pat_completeness auto
termination
  by (relation "measure (\<lambda>(i, num, factors). num)") auto

declare divide_out.simps [simp del]

lemma divide_out_le: "snd (divide_out i num factors) \<le> num"
proof (induction i num factors rule: divide_out.induct)
  case (1 i num factors)
  show ?case using 1 div_le_dividend [of num i] by (subst divide_out.simps) (auto intro: order_trans)
qed

function trial_loop :: "nat \<Rightarrow> nat \<Rightarrow> nat list \<Rightarrow> nat list \<times> nat" where
  "trial_loop i num factors =
     (if i * i \<le> num \<and> 2 \<le> i
      then trial_loop (Suc i) (snd (divide_out i num factors)) (fst (divide_out i num factors)) else (factors, num))"
  by pat_completeness auto
termination
proof (relation "measure (\<lambda>(i, num, factors). Suc num - i)")
  fix i num :: nat and factors
  assume "i * i \<le> num \<and> 2 \<le> i"
  then have "i \<le> num" using le_square [of i] by linarith
  then show "((Suc i, snd (divide_out i num factors), fst (divide_out i num factors)), i, num, factors)
      \<in> measure (\<lambda>(i, num, factors). Suc num - i)"
    using divide_out_le [of i num factors] by simp
qed simp

declare trial_loop.simps [simp del]

definition to_prime_factors :: "nat \<Rightarrow> nat list" where
  "to_prime_factors num = (case trial_loop 2 num [] of (factors, n) \<Rightarrow> if 1 < n then factors @ [n] else factors)"

definition full_partition :: "nat \<Rightarrow> nat \<Rightarrow> nat \<Rightarrow> (nat \<times> nat) res" where
  "full_partition extent unit num_warps =
     rbind (guard ZeroDivisionError (num_warps * unit \<noteq> 0)) (\<lambda>_.
     if extent mod (num_warps * unit) \<noteq> 0
     then rbind (guard ZeroDivisionError (extent div unit \<noteq> 0)) (\<lambda>_.
          let main = extent div unit; other = num_warps div main in Inr (main, if other = 0 then 1 else other))
     else Inr (num_warps, 1))"

definition balance :: "nat \<Rightarrow> nat \<Rightarrow> nat \<Rightarrow> nat \<Rightarrow> rat" where
  "balance M N m n =
     (let ideal_ratio = (if 0 < N then of_nat M / of_nat N else 1);
          m_per_warp = of_nat M / of_nat (m * 16); n_per_warp = of_nat N / of_nat (n * 8)
      in \<bar>m_per_warp / n_per_warp - ideal_ratio\<bar>)"

definition square_step :: "nat \<Rightarrow> nat \<Rightarrow> nat \<Rightarrow> nat \<Rightarrow> rat option \<times> nat \<times> nat \<Rightarrow> rat option \<times> nat \<times> nat" where
  "square_step M N num_warps m best =
     (let n = num_warps div m
      in if N div 8 < n \<or> m * n \<noteq> num_warps then best
         else let b = balance M N m n
              in if (case fst best of None \<Rightarrow> True | Some b' \<Rightarrow> b < b') then (Some b, m, n) else best)"

definition compute_warp_partition :: "warp_policy \<Rightarrow> nat \<Rightarrow> nat \<Rightarrow> nat \<Rightarrow> (nat \<times> nat) res" where
  "compute_warp_partition policy M N num_warps =
     (case policy of
        FullRow \<Rightarrow> full_partition M 16 num_warps
      | FullCol \<Rightarrow> rbind (full_partition N 8 num_warps) (\<lambda>(n_warp, m_warp). Inr (m_warp, n_warp))
      | Square \<Rightarrow> Inr (snd (fold (square_step M N num_warps) [1..<min (M div 16) num_warps + 1] (None, 1, 1))))"

definition from_warp_partition :: "nat \<Rightarrow> nat \<Rightarrow> warp_policy" where
  "from_warp_partition m_warp n_warp =
     (if n_warp = 1 \<and> 1 < m_warp then FullRow else if m_warp = 1 \<and> 1 < n_warp then FullCol else Square)"

section \<open>Parameters\<close>

record gemm_buffer =
  buf_shape :: "nat list"
  buf_dtype :: string
  buf_scope :: string

record gemm_params =
  op_A :: gemm_buffer
  op_B :: gemm_buffer
  op_C :: gemm_buffer
  transpose_A :: bool
  transpose_B :: bool
  p_row_warps :: "nat option"
  p_col_warps :: "nat option"
  p_row_tiles :: "nat option"
  p_col_tiles :: "nat option"
  p_chunk :: "nat option"
  policy :: warp_policy
  k_pack :: nat

definition starts_with_scope :: "string \<Rightarrow> gemm_buffer \<Rightarrow> bool" where
  "starts_with_scope prefix b \<longleftrightarrow> take (length prefix) (buf_scope b) = prefix"

definition is_fragment :: "gemm_buffer \<Rightarrow> bool" where
  "is_fragment = starts_with_scope ''local.fragment''"

text \<open>The partition of the block, given or inferred from the shapes: warps in rows and columns, tiles, and depth.\<close>

definition infer_block_partition :: "gemm_params \<Rightarrow> nat option \<Rightarrow> gemm_params res" where
  "infer_block_partition g num_threads =
     (if p_row_warps g = None \<or> p_col_warps g = None \<or> p_row_tiles g = None \<or> p_col_tiles g = None \<or> p_chunk g = None
      then
        (case (num_threads, buf_shape (op_A g), buf_shape (op_B g)) of
           (Some th, [a0, a1], [b0, b1]) \<Rightarrow>
             let AM = (if transpose_A g then a1 else a0); BN = (if transpose_B g then b0 else b1);
                 AK = (if transpose_A g then a0 else a1); BK = (if transpose_B g then b1 else b0)
             in rbind (guard AssertionError (AK = BK)) (\<lambda>_.
                rbind (compute_warp_partition (policy g) AM BN (th div 32)) (\<lambda>(row_warps, col_warps).
                rbind (guard ZeroDivisionError (row_warps \<noteq> 0 \<and> col_warps \<noteq> 0)) (\<lambda>_.
                Inr (g\<lparr>p_row_warps := Some row_warps, p_col_warps := Some col_warps, p_row_tiles := Some (AM div row_warps),
                       p_col_tiles := Some (BN div col_warps), p_chunk := Some AK\<rparr>))))
         | _ \<Rightarrow> Inl AssertionError)
      else Inr g)"

section \<open>The program of a thread\<close>

datatype gemm_step = LdA ptx_ldmatrix | LdB ptx_ldmatrix | Mma ptx_mma | Annotate string

text \<open>Operands in shared memory: load both, multiply.\<close>

definition gemm_ssr :: "(string \<Rightarrow> nat) \<Rightarrow> gemm_params \<Rightarrow> emitter \<Rightarrow> nat \<Rightarrow> gemm_step list res" where
  "gemm_ssr bits g e thread =
     rbind (guard AssertionError (buf_dtype (op_A g) = buf_dtype (op_B g))) (\<lambda>_.
     rbind (rmap (\<lambda>ki.
       rbind (ldmatrix_a bits e (buf_shape (op_A g)) ki 0 thread) (\<lambda>as.
       rbind (ldmatrix_b bits e (buf_shape (op_B g)) ki 0 thread) (\<lambda>bs.
       Inr (map LdA as @ map LdB bs @ map Mma (mma e False False 0))))) [0..<chunk e div micro_size_k e]) (\<lambda>steps.
     Inr ((if is_fragment (op_C g) then [Annotate ''C''] else []) @ concat steps)))"

text \<open>The first operand in registers.\<close>

definition gemm_rsr :: "(string \<Rightarrow> nat) \<Rightarrow> gemm_params \<Rightarrow> emitter \<Rightarrow> nat \<Rightarrow> gemm_step list res" where
  "gemm_rsr bits g e thread =
     rbind (guard AssertionError (buf_dtype (op_A g) = buf_dtype (op_B g))) (\<lambda>_.
     rbind (if is_fragment (op_A g) then rbind (load_transform bits e ''A'' True) (\<lambda>_. Inr [Annotate ''A'']) else Inr []) (\<lambda>la.
     rbind (rmap (\<lambda>ki.
       rbind (ldmatrix_b bits e (buf_shape (op_B g)) ki 0 thread) (\<lambda>bs.
       Inr (map LdB bs @ map Mma (mma e (is_fragment (op_A g)) False ki)))) [0..<chunk e div micro_size_k e]) (\<lambda>steps.
     Inr (la @ (if is_fragment (op_C g) then [Annotate ''C''] else []) @ concat steps))))"

definition gemm_rrr :: "(string \<Rightarrow> nat) \<Rightarrow> gemm_params \<Rightarrow> emitter \<Rightarrow> nat \<Rightarrow> gemm_step list res" where
  "gemm_rrr bits g e thread = Inl NotImplementedError"

definition gemm_srr :: "(string \<Rightarrow> nat) \<Rightarrow> gemm_params \<Rightarrow> emitter \<Rightarrow> nat \<Rightarrow> gemm_step list res" where
  "gemm_srr bits g e thread = Inl NotImplementedError"

definition required :: "nat option \<Rightarrow> nat res" where
  "required n = (case n of None \<Rightarrow> Inl TypeError | Some k \<Rightarrow> Inr k)"

definition gemm_emitter :: "(string \<Rightarrow> nat) \<Rightarrow> gemm_params \<Rightarrow> nat option \<Rightarrow> emitter res" where
  "gemm_emitter bits g num_threads =
     rbind (infer_block_partition g num_threads) (\<lambda>g'.
     rbind (guard AssertionError (buf_dtype (op_A g') = buf_dtype (op_B g'))) (\<lambda>_.
     rbind (required (p_row_warps g')) (\<lambda>rw. rbind (required (p_col_warps g')) (\<lambda>cw.
     rbind (required (p_row_tiles g')) (\<lambda>rt. rbind (required (p_col_tiles g')) (\<lambda>ct. rbind (required (p_chunk g')) (\<lambda>ch.
     emitter_init bits (mma_defaults\<lparr>a_dtype := buf_dtype (op_A g'), b_dtype := buf_dtype (op_A g'), accum_dtype := buf_dtype (op_C g'),
       a_transposed := transpose_A g', b_transposed := transpose_B g', block_row_warps := rw, block_col_warps := cw,
       warp_row_tiles := rt, warp_col_tiles := ct, chunk := ch\<rparr>))))))))"

definition invoke :: "(string \<Rightarrow> nat) \<Rightarrow> gemm_params \<Rightarrow> nat option \<Rightarrow> nat \<Rightarrow> gemm_step list res" where
  "invoke bits g num_threads thread =
     rbind (gemm_emitter bits g num_threads) (\<lambda>e.
     if is_fragment (op_A g) \<and> is_fragment (op_B g) then gemm_rrr bits g e thread
     else if is_fragment (op_A g) then gemm_rsr bits g e thread
     else if is_fragment (op_B g) then gemm_srr bits g e thread
     else gemm_ssr bits g e thread)"

definition is_local :: "gemm_buffer \<Rightarrow> bool" where
  "is_local b \<longleftrightarrow> buf_scope b = ''local''"

definition is_shared :: "gemm_buffer \<Rightarrow> bool" where
  "is_shared b \<longleftrightarrow> buf_scope b \<in> {''shared'', ''shared.dyn''}"

definition gemm :: "(string \<Rightarrow> nat) \<Rightarrow> gemm_params \<Rightarrow> nat option \<Rightarrow> nat \<Rightarrow> gemm_step list res" where
  "gemm bits g num_threads thread =
     rbind (guard AssertionError (is_local (op_A g) \<or> is_fragment (op_A g) \<or> is_shared (op_A g))) (\<lambda>_.
     rbind (guard AssertionError (is_local (op_B g) \<or> is_fragment (op_B g) \<or> is_shared (op_B g))) (\<lambda>_.
     rbind (guard AssertionError (is_local (op_C g) \<or> is_fragment (op_C g))) (\<lambda>_.
     invoke bits g num_threads thread)))"
section \<open>Prime factors\<close>

lemma divide_out_spec:
  assumes "2 \<le> i" "0 < num" "no_divisor_below i num"
  shows "\<exists>k n. divide_out i num factors = (factors @ replicate k i, n) \<and> num = i ^ k * n \<and> no_divisor_below (Suc i) n"
  using assms
proof (induction i num factors rule: divide_out.induct)
  case (1 i num factors)
  show ?case
  proof (cases "num mod i = 0")
    case True
    then obtain q where q: "num = i * q" by (auto simp: dvd_eq_mod_eq_0 [symmetric])
    then have "0 < q" "num div i = q" "no_divisor_below i q" using "1.prems" by (auto simp: no_divisor_below_def)
    then obtain k n where "divide_out i q (factors @ [i]) = (factors @ [i] @ replicate k i, n)" "q = i ^ k * n" "no_divisor_below (Suc i) n"
      using "1.IH" "1.prems" True by auto
    then show ?thesis
      using "1.prems" True \<open>num div i = q\<close> q by (subst divide_out.simps) (auto intro!: exI [of _ "Suc k"])
  next
    case False
    then have "no_divisor_below (Suc i) num"
      using "1.prems"(3) by (auto simp: no_divisor_below_def less_Suc_eq dvd_eq_mod_eq_0)
    then show ?thesis using False by (subst divide_out.simps) (auto intro!: exI [of _ 0])
  qed
qed

lemma no_small_divisor_prime:
  assumes "1 < n" "no_divisor_below i n" "n < i * i"
  shows "is_prime n"
  unfolding is_prime_def
proof (intro conjI allI impI)
  fix m
  assume "m dvd n"
  then obtain q where q: "n = m * q" by (auto elim: dvdE)
  have "m < i \<or> q < i"
  proof (rule ccontr)
    assume "\<not> (m < i \<or> q < i)"
    then have "i * i \<le> m * q" by (intro mult_le_mono) auto
    then show False using assms(3) q by simp
  qed
  moreover have "x = 1" if "x dvd n" "x < i" for x
  proof -
    have "\<not> 2 \<le> x" using that assms(2) by (auto simp: no_divisor_below_def)
    moreover have "x \<noteq> 0" using that(1) assms(1) by (intro notI) simp
    ultimately show ?thesis by linarith
  qed
  ultimately have "m = 1 \<or> q = 1" using q by (metis dvd_triv_left dvd_triv_right)
  then show "m = 1 \<or> m = n" using q by auto
qed (use assms in simp)

lemma trial_loop_spec:
  assumes "2 \<le> i" "0 < num" "no_divisor_below i num" "\<forall>p \<in> set factors. is_prime p \<and> p < i" "sorted factors"
  shows "case trial_loop i num factors of (fs, n) \<Rightarrow>
    prod_list fs * n = prod_list factors * num \<and> sorted fs \<and> (\<forall>p \<in> set fs. is_prime p \<and> (1 < n \<longrightarrow> p \<le> n)) \<and> 0 < n \<and>
    (1 < n \<longrightarrow> is_prime n)"
  using assms
proof (induction i num factors rule: trial_loop.induct)
  case (1 i num factors)
  show ?case
  proof (cases "i * i \<le> num")
    case True
    obtain k n where d: "divide_out i num factors = (factors @ replicate k i, n)" "num = i ^ k * n" "no_divisor_below (Suc i) n"
      using divide_out_spec [OF "1.prems"(1-3)] by blast
    have "is_prime i" if "k \<noteq> 0"
      using that d(2) "1.prems" by (intro least_divisor_prime [of i num]) (auto intro: dvd_power_le)
    then have "\<forall>p \<in> set (factors @ replicate k i). is_prime p \<and> p < Suc i"
      using "1.prems"(4) by (auto simp: less_Suc_eq split: if_splits)
    moreover have "sorted (factors @ replicate k i)" using "1.prems"(4,5) by (auto simp: sorted_append)
    moreover have "0 < n" using d(2) "1.prems"(2) by (cases n) auto
    ultimately show ?thesis
      using "1.IH" [unfolded d(1) fst_conv snd_conv] True "1.prems"(1) d
      by (subst trial_loop.simps) (auto simp: prod_list_replicate split: prod.splits)
  next
    case False
    have "is_prime num" if "1 < num" using no_small_divisor_prime [OF that "1.prems"(3)] False by simp
    moreover have "i \<le> num" if "1 < num" 
      using "1.prems"(3) that unfolding no_divisor_below_def
      by (metis Suc_leI dvd_refl not_less numeral_2_eq_2 One_nat_def)
    ultimately show ?thesis using False "1.prems" by (subst trial_loop.simps) fastforce
  qed
qed

text \<open>The factors are prime, in order, and their product is the number.\<close>

theorem to_prime_factors_correct:
  assumes "0 < num"
  shows "prod_list (to_prime_factors num) = num \<and> sorted (to_prime_factors num) \<and> (\<forall>p \<in> set (to_prime_factors num). is_prime p)"
proof -
  have "no_divisor_below 2 num" by (simp add: no_divisor_below_def)
  then show ?thesis
    using trial_loop_spec [of 2 num "[]"] assms
    by (auto simp: to_prime_factors_def sorted_append split: prod.splits)
qed
section \<open>Partitions\<close>

definition admissible :: "nat \<Rightarrow> nat \<Rightarrow> nat \<Rightarrow> nat \<Rightarrow> nat \<Rightarrow> bool" where
  "admissible M N num_warps m n \<longleftrightarrow> m * n = num_warps \<and> 0 < m \<and> m \<le> M div 16 \<and> n \<le> N div 8"

lemma admissible_iff:
  "0 < p \<Longrightarrow> p \<le> M div 16 \<Longrightarrow>
   admissible M N num_warps p n \<longleftrightarrow> n = num_warps div p \<and> \<not> (N div 8 < num_warps div p \<or> p * (num_warps div p) \<noteq> num_warps)"
  by (auto simp: admissible_def)

lemma square_fold:
  assumes "0 < num_warps" "k \<le> min (M div 16) num_warps"
  shows "case fold (square_step M N num_warps) [1..<k + 1] (None, 1, 1) of
      (None, mn) \<Rightarrow> mn = (1, 1) \<and> (\<forall>m n. m \<le> k \<longrightarrow> \<not> admissible M N num_warps m n)
    | (Some b, m, n) \<Rightarrow> admissible M N num_warps m n \<and> b = balance M N m n \<and>
        (\<forall>m' n'. m' \<le> k \<longrightarrow> admissible M N num_warps m' n' \<longrightarrow> b \<le> balance M N m' n')"
  using assms(2)
proof (induction k)
  case 0
  then show ?case by (simp add: admissible_def)
next
  case (Suc k)
  let ?n = "num_warps div Suc k"
  have step: "admissible M N num_warps (Suc k) n \<longleftrightarrow> n = ?n \<and> \<not> (N div 8 < ?n \<or> Suc k * ?n \<noteq> num_warps)" for n
    using Suc.prems by (intro admissible_iff) simp_all
  have range: "[1..<Suc k + 1] = [1..<k + 1] @ [Suc k]" by simp
  obtain b mn where f: "fold (square_step M N num_warps) [1..<k + 1] (None, 1, 1) = (b, mn)" by (rule prod.exhaust)
  show ?case
  proof (cases "admissible M N num_warps (Suc k) ?n")
    case False
    then have "square_step M N num_warps (Suc k) (b, mn) = (b, mn)" using step by (auto simp: square_step_def Let_def)
    moreover have "\<not> admissible M N num_warps (Suc k) n" for n using False step by blast
    ultimately show ?thesis using Suc f unfolding range fold_append by (auto simp: le_Suc_eq split: option.splits prod.splits)
  next
    case True
    then have "square_step M N num_warps (Suc k) (b, mn) =
        (if (case b of None \<Rightarrow> True | Some b' \<Rightarrow> balance M N (Suc k) ?n < b') then (Some (balance M N (Suc k) ?n), Suc k, ?n) else (b, mn))"
      using step by (auto simp: square_step_def Let_def)
    moreover have "admissible M N num_warps (Suc k) n \<Longrightarrow> n = ?n" for n using step by blast
    ultimately have res: "fold (square_step M N num_warps) [1..<Suc k + 1] (None, 1, 1) =
        (if (case b of None \<Rightarrow> True | Some b' \<Rightarrow> balance M N (Suc k) ?n < b') then (Some (balance M N (Suc k) ?n), Suc k, ?n) else (b, mn))"
      and only: "\<And>n. admissible M N num_warps (Suc k) n \<Longrightarrow> n = ?n"
      unfolding range fold_append by (simp_all add: f [simplified])
    have ext: "(\<forall>m' \<le> Suc k. \<forall>n'. admissible M N num_warps m' n' \<longrightarrow> P m' n') \<longleftrightarrow>
        (\<forall>m' \<le> k. \<forall>n'. admissible M N num_warps m' n' \<longrightarrow> P m' n') \<and> P (Suc k) ?n" for P
      using True only by (metis le_Suc_eq)
    obtain m0 n0 where mn: "mn = (m0, n0)" by (rule prod.exhaust)
    have IH: "case (b, mn) of (None, mn) \<Rightarrow> mn = (1, 1) \<and> (\<forall>m n. m \<le> k \<longrightarrow> \<not> admissible M N num_warps m n)
      | (Some b, m, n) \<Rightarrow> admissible M N num_warps m n \<and> b = balance M N m n \<and>
        (\<forall>m' n'. m' \<le> k \<longrightarrow> admissible M N num_warps m' n' \<longrightarrow> b \<le> balance M N m' n')"
      using Suc.IH Suc.prems unfolding f by simp
    show ?thesis
    proof (cases b)
      case None
      then show ?thesis using IH True unfolding res by (simp add: ext)
    next
      case (Some x)
      then have x: "admissible M N num_warps m0 n0" "x = balance M N m0 n0"
        "\<And>m' n'. m' \<le> k \<Longrightarrow> admissible M N num_warps m' n' \<Longrightarrow> x \<le> balance M N m' n'" using IH mn by auto
      show ?thesis
      proof (cases "balance M N (Suc k) ?n < x")
        case True
        then have "balance M N (Suc k) ?n \<le> balance M N m' n'" if "m' \<le> k" "admissible M N num_warps m' n'" for m' n'
          using x(3) [OF that] by simp
        then show ?thesis using True Some \<open>admissible M N num_warps (Suc k) ?n\<close> unfolding res by (simp add: ext)
      next
        case False
        then show ?thesis using Some x mn unfolding res by (simp add: ext not_less)
      qed
    qed
  qed
qed

text \<open>
  C40: The square policy divides the warps exactly, with at least sixteen rows and eight columns for each warp, and of
  all such divisions takes one whose ratio is nearest to the ratio of the matrix; when there is none it
  uses a single warp.
\<close>

theorem square_partition_best:
  assumes "0 < num_warps" and run: "compute_warp_partition Square M N num_warps = Inr (m, n)"
  shows "(admissible M N num_warps m n \<and>
      (\<forall>m' n'. admissible M N num_warps m' n' \<longrightarrow> balance M N m n \<le> balance M N m' n')) \<or>
    (m, n) = (1, 1) \<and> (\<nexists>m' n'. admissible M N num_warps m' n')"
proof -
  have all: "admissible M N num_warps m' n' \<Longrightarrow> m' \<le> min (M div 16) num_warps" for m' n'
    using assms(1) by (cases n') (auto simp: admissible_def)
  obtain b where f: "fold (square_step M N num_warps) [1..<min (M div 16) num_warps + 1] (None, 1, 1) = (b, m, n)"
    using run by (cases "fold (square_step M N num_warps) [1..<min (M div 16) num_warps + 1] (None, 1, 1)")
      (simp add: compute_warp_partition_def)
  note best = square_fold [OF assms(1) order_refl, of M N, unfolded f]
  show ?thesis
  proof (cases b)
    case None
    then show ?thesis using best all unfolding None prod.case option.case by blast
  next
    case (Some x)
    then show ?thesis using best all unfolding Some prod.case option.case by blast
  qed
qed

theorem square_partition_best_witness:
  "admissible 128 128 4 2 2 \<and> balance 128 128 2 2 \<le> balance 128 128 4 1"
proof -
  have run: "compute_warp_partition Square 128 128 4 = Inr (2, 2)" by code_simp
  have "(0 :: nat) < 4" "admissible 128 128 4 4 1" by (simp_all add: admissible_def)
  then show ?thesis using square_partition_best [OF _ run] by auto
qed

text \<open>
  The fallback of the full row policy takes as many warps as there are groups of sixteen rows, also when that is more than
  there are: here three of two.
\<close>

theorem full_row_too_many: "compute_warp_partition FullRow 48 N 2 = Inr (3, 1)"
  by (simp add: compute_warp_partition_def full_partition_def)

section \<open>Running the program of a warp\<close>

record 'v warp_state =
  reg_a :: "'v regs"
  reg_b :: "'v regs"
  reg_c :: "'v regs"

definition ldmatrix_of :: "gemm_step \<Rightarrow> ptx_ldmatrix" where
  "ldmatrix_of s = (case s of LdA c \<Rightarrow> c | LdB c \<Rightarrow> c | _ \<Rightarrow> ldmatrix_call '''' 0 [] 0)"

text \<open>A step of all lanes: \<open>w\<close> elements in a register of 32 bits, the two operands in memory with their shapes.\<close>

definition exec_step ::
  "nat \<Rightarrow> nat list \<times> (nat \<Rightarrow> 'v) \<Rightarrow> nat list \<times> (nat \<Rightarrow> 'v) \<Rightarrow> (nat \<Rightarrow> gemm_step) \<Rightarrow> 'v::semiring_0 warp_state \<Rightarrow> 'v warp_state" where
  "exec_step w A B step st =
     (case step 0 of
        LdA _ \<Rightarrow> st\<lparr>reg_a := exec_ldmatrix w (fst A) (snd A) (\<lambda>t. ldmatrix_of (step t)) (reg_a st)\<rparr>
      | LdB _ \<Rightarrow> st\<lparr>reg_b := exec_ldmatrix w (fst B) (snd B) (\<lambda>t. ldmatrix_of (step t)) (reg_b st)\<rparr>
      | Mma c \<Rightarrow> st\<lparr>reg_c := exec_mma (reg_a st) (reg_b st) c (reg_c st)\<rparr>
      | Annotate _ \<Rightarrow> st)"

definition run_warp ::
  "nat \<Rightarrow> nat list \<times> (nat \<Rightarrow> 'v) \<Rightarrow> nat list \<times> (nat \<Rightarrow> 'v) \<Rightarrow> (nat \<Rightarrow> gemm_step list) \<Rightarrow> 'v::semiring_0 warp_state \<Rightarrow> 'v warp_state" where
  "run_warp w A B prog = fold (\<lambda>s. exec_step w A B (\<lambda>t. prog t ! s)) [0..<length (prog 0)]"

lemma exec_loads_a:
  "fold (exec_step w A B) (map (\<lambda>i t. LdA (f i t)) xs) st =
     st\<lparr>reg_a := fold (\<lambda>i. exec_ldmatrix w (fst A) (snd A) (f i)) xs (reg_a st)\<rparr>"
  by (induction xs arbitrary: st) (simp_all add: exec_step_def ldmatrix_of_def)

lemma exec_loads_b:
  "fold (exec_step w A B) (map (\<lambda>i t. LdB (f i t)) xs) st =
     st\<lparr>reg_b := fold (\<lambda>i. exec_ldmatrix w (fst B) (snd B) (f i)) xs (reg_b st)\<rparr>"
  by (induction xs arbitrary: st) (simp_all add: exec_step_def ldmatrix_of_def)

lemma exec_mmas:
  "fold (exec_step w A B) (map (\<lambda>c t. Mma c) cs) st = st\<lparr>reg_c := fold (exec_mma (reg_a st) (reg_b st)) cs (reg_c st)\<rparr>"
  by (induction cs arbitrary: st) (simp_all add: exec_step_def)

text \<open>The steps of one round over the depth, as functions of the lane.\<close>

definition round_steps :: "emitter \<Rightarrow> nat \<Rightarrow> nat \<Rightarrow> nat \<Rightarrow> nat \<Rightarrow> nat \<Rightarrow> (nat \<Rightarrow> gemm_step) list" where
  "round_steps e w warp sa sb ki =
     map (\<lambda>i t. LdA (a_call e w warp sa ki 0 i (t mod 32))) [0..<warp_rows e] @
     map (\<lambda>j t. LdB (b_call e w warp sb ki 0 j (t mod 32))) [0..<warp_cols e] @
     map (\<lambda>c t. Mma c) (mma e False False 0)"

lemma gemm_ssr_steps:
  assumes ok: "emitter_ok bits w e" and "\<not> a_transposed e" "b_transposed e" "bits (b_dtype e) = bits (a_dtype e)"
    and shapes: "buf_shape (op_A g) = [na, sa]" "buf_shape (op_B g) = [nb, sb]" and "buf_dtype (op_A g) = buf_dtype (op_B g)"
  shows "gemm_ssr bits g e (32 * warp + t mod 32) = Inr (map (\<lambda>s. s t)
    ((if is_fragment (op_C g) then [\<lambda>_. Annotate ''C''] else []) @
     concat (map (round_steps e w warp sa sb) [0..<chunk e div (8 * w)])))"
proof -
  have "micro_size_k e = 8 * w" using ok by (simp add: emitter_ok_def)
  then show ?thesis
    using assms by (simp add: gemm_ssr_def ldmatrix_a_calls ldmatrix_b_calls round_steps_def map_concat comp_def)
qed

lemma exec_round:
  fixes memA memB :: "nat \<Rightarrow> 'v::semiring_0"
  assumes ok: "emitter_ok bits w e" and ij: "i < warp_rows e" "j < warp_cols e" and tl: "t < 32" "l < 8"
    and rc: "mma_store_index_map t l = (r, c)"
  shows "reg_c (fold (exec_step w ([na, sa], memA) ([nb, sb], memB)) (round_steps e w warp sa sb ki) st) t ((i * warp_cols e + j) * 8 + l) =
    reg_c st t ((i * warp_cols e + j) * 8 + l) +
    (\<Sum>k<8 * w. memA ((snd (tile_of_warp e warp) * warp_row_tiles e + i * 16 + r) * sa + (ki * (8 * w) + k)) *
       memB ((fst (tile_of_warp e warp) * warp_col_tiles e + j * 16 + c) * sb + (ki * (8 * w) + k)))"
proof -
  have w: "0 < w" using ok by (auto simp: emitter_ok_def)
  define ra where "ra = fold (\<lambda>i. exec_ldmatrix w [na, sa] memA (\<lambda>t. a_call e w warp sa ki 0 i (t mod 32))) [0..<warp_rows e] (reg_a st)"
  define rb where "rb = fold (\<lambda>j. exec_ldmatrix w [nb, sb] memB (\<lambda>t. b_call e w warp sb ki 0 j (t mod 32))) [0..<warp_cols e] (reg_b st)"
  have "reg_c (fold (exec_step w ([na, sa], memA) ([nb, sb], memB)) (round_steps e w warp sa sb ki) st) =
      fold (exec_mma ra rb) (mma e False False 0) (reg_c st)"
    by (simp add: round_steps_def exec_loads_a exec_loads_b exec_mmas ra_def rb_def)
  moreover note mma_product [OF ok ij tl rc, where af = False and bf = False and k = 0 and acc = "reg_c st" and a = ra and b = rb
    and A = "\<lambda>i' k. memA ((snd (tile_of_warp e warp) * warp_row_tiles e + i * 16 + i') * sa + (ki * (8 * w) + k))"
    and B = "\<lambda>j' k. memB ((fst (tile_of_warp e warp) * warp_col_tiles e + j * 16 + j') * sb + (ki * (8 * w) + k))"]
  ultimately show ?thesis
    using loads_a [OF w ij(1), of _ _ na sa memA e warp ki 0 "reg_a st"] loads_b [OF w ij(2), of _ _ nb sb memB e warp ki 0 "reg_b st"]
    by (simp add: ra_def rb_def)
qed

lemma sum_split: "sum f {..<a + b} = sum f {..<a} + (\<Sum>k<b. f (a + k))" for f :: "nat \<Rightarrow> 'v::comm_monoid_add"
  by (induction b) (simp_all add: add.assoc)

lemma exec_rounds:
  fixes memA memB :: "nat \<Rightarrow> 'v::semiring_0"
  assumes ok: "emitter_ok bits w e" and ij: "i < warp_rows e" "j < warp_cols e" and tl: "t < 32" "l < 8"
    and rc: "mma_store_index_map t l = (r, c)"
  shows "reg_c (fold (exec_step w ([na, sa], memA) ([nb, sb], memB)) (concat (map (round_steps e w warp sa sb) [0..<n])) st) t
      ((i * warp_cols e + j) * 8 + l) = reg_c st t ((i * warp_cols e + j) * 8 + l) +
    (\<Sum>k<n * (8 * w). memA ((snd (tile_of_warp e warp) * warp_row_tiles e + i * 16 + r) * sa + k) *
       memB ((fst (tile_of_warp e warp) * warp_col_tiles e + j * 16 + c) * sb + k))"
proof (induction n)
  case 0
  then show ?case by simp
next
  case (Suc n)
  have "Suc n * (8 * w) = n * (8 * w) + 8 * w" by simp
  then show ?case
    using Suc exec_round [OF assms, of na sa memA nb sb memB warp n]
    by (simp add: sum_split [of _ "n * (8 * w)" "8 * w"] add.assoc del: mult_Suc)
qed

section \<open>The product of the block\<close>

lemma infer_keeps:
  assumes "infer_block_partition g n = Inr g'"
  shows "op_A g' = op_A g" "op_B g' = op_B g" "op_C g' = op_C g" "transpose_A g' = transpose_A g" "transpose_B g' = transpose_B g"
  using assms by (auto simp: infer_block_partition_def res_iff Let_def split: if_splits option.splits list.splits prod.splits)

lemma gemm_emitter_attributes:
  assumes "gemm_emitter bits g n = Inr e"
  shows "a_dtype e = buf_dtype (op_A g)" "b_dtype e = buf_dtype (op_A g)" "buf_dtype (op_A g) = buf_dtype (op_B g)"
    "a_transposed e = transpose_A g" "b_transposed e = transpose_B g" "\<exists>w. emitter_ok bits w e" "\<not> m_first e"
proof -
  obtain g' rw cw rt ct ch where g': "infer_block_partition g n = Inr g'" and d: "buf_dtype (op_A g') = buf_dtype (op_B g')"
    and e: "emitter_init bits (mma_defaults\<lparr>a_dtype := buf_dtype (op_A g'), b_dtype := buf_dtype (op_A g'),
      accum_dtype := buf_dtype (op_C g'), a_transposed := transpose_A g', b_transposed := transpose_B g', block_row_warps := rw,
      block_col_warps := cw, warp_row_tiles := rt, warp_col_tiles := ct, chunk := ch\<rparr>) = Inr e"
    using assms by (auto simp: gemm_emitter_def res_iff)
  show "a_dtype e = buf_dtype (op_A g)" "b_dtype e = buf_dtype (op_A g)" "a_transposed e = transpose_A g" "b_transposed e = transpose_B g"
    using emitter_init_ok(2) [OF e] infer_keeps [OF g'] by (simp_all add: mma_params.defs mma_defaults_def)
  show "\<not> m_first e" using emitter_init_ok(3) [OF e] by (simp add: mma_defaults_def)
  show "buf_dtype (op_A g) = buf_dtype (op_B g)" "\<exists>w. emitter_ok bits w e"
    using d infer_keeps [OF g'] emitter_init_ok(1) [OF e] by simp_all
qed

lemma shared_not_fragment: "is_shared b \<Longrightarrow> \<not> is_fragment b"
  by (auto simp: is_shared_def is_fragment_def starts_with_scope_def)

text \<open>
  C11: The emitted program multiplies.  For operands in shared memory, the first by rows and the second transposed, the program
  returns, and after a warp has run it, every register of every lane has grown by the product of the row of the first and the row
  of the second operand that belong to the position where the lane stores the register.  The tiles of a warp must be whole tiles of
  the instruction, and the depth a multiple of its depth.
\<close>

theorem gemm_correct:
  fixes memA memB :: "nat \<Rightarrow> 'v::semiring_0"
  assumes e: "gemm_emitter bits g num_threads = Inr e"
    and scopes: "is_shared (op_A g)" "is_shared (op_B g)" "is_local (op_C g) \<or> is_fragment (op_C g)"
    and order: "\<not> transpose_A g" "transpose_B g"
    and shapes: "buf_shape (op_A g) = [na, sa]" "buf_shape (op_B g) = [nb, sb]"
    and whole: "16 dvd warp_row_tiles e" "16 dvd warp_col_tiles e" "micro_size_k e dvd chunk e" and t: "t < 32"
  shows "\<exists>prog S. (\<forall>lane. gemm bits g num_threads (32 * warp + lane mod 32) = Inr (prog lane)) \<and>
    stmatrix e 2 None None (32 * warp + t) = Inr S \<and>
    (\<forall>r c l. ([r, c], l) \<in> set S \<longrightarrow>
      reg_c (run_warp (32 div bits (a_dtype e)) ([na, sa], memA) ([nb, sb], memB) prog st) t l =
      reg_c st t l + (\<Sum>k<chunk e. memA (r * sa + k) * memB (c * sb + k)))"
proof -
  note att = gemm_emitter_attributes [OF e]
  obtain w where ok: "emitter_ok bits w e" using att(6) by blast
  have w: "32 div bits (a_dtype e) = w" "micro_size_k e = 8 * w" "warp_row_tiles e = warp_rows e * 16" "warp_col_tiles e = warp_cols e * 16"
    using ok whole(1,2) by (auto simp: emitter_ok_def)
  define steps where "steps = (if is_fragment (op_C g) then [\<lambda>_. Annotate ''C''] else []) @
    concat (map (round_steps e w warp sa sb) [0..<chunk e div (8 * w)])"
  define prog where "prog = (\<lambda>lane. map (\<lambda>s :: nat \<Rightarrow> gemm_step. s lane) steps)"
  have "gemm bits g num_threads (32 * warp + lane mod 32) = Inr (prog lane)" for lane
    using scopes shared_not_fragment e
      gemm_ssr_steps [OF ok _ _ _ shapes, of warp lane] att order
    by (simp add: gemm_def invoke_def prog_def steps_def)
  moreover have run: "run_warp w A B prog = fold (exec_step w A B) steps" for A B :: "nat list \<times> (nat \<Rightarrow> 'v)"
    using fold_lanes [of "exec_step w A B" steps] by (simp add: run_warp_def prog_def)
  obtain S where S: "stmatrix e 2 None None (32 * warp + t) = Inr S"
    "set S = {store_of e (tile_of_warp e warp) t i j l |i j l. i < warp_rows e \<and> j < warp_cols e \<and> l < 8}"
    using stmatrix_set [OF ok t] by blast
  moreover have "reg_c (run_warp w ([na, sa], memA) ([nb, sb], memB) prog st) t l' =
      reg_c st t l' + (\<Sum>k<chunk e. memA (r' * sa + k) * memB (c' * sb + k))" if stored: "([r', c'], l') \<in> set S" for r' c' l'
  proof -
    obtain i j l where ij: "i < warp_rows e" "j < warp_cols e" "l < 8" and x: "([r', c'], l') = store_of e (tile_of_warp e warp) t i j l"
      using stored unfolding S(2) by blast
    obtain r c where rc: "mma_store_index_map t l = (r, c)" by fastforce
    have "fold (exec_step w A B) (if is_fragment (op_C g) then [\<lambda>_. Annotate ''C''] else []) s = s"
      for A B and s :: "'v warp_state" by (simp add: exec_step_def)
    moreover have "chunk e div (8 * w) * (8 * w) = chunk e" using whole(3) w(2) by simp
    ultimately show ?thesis
      using exec_rounds [OF ok ij(1,2) t ij(3) rc, of na sa memA nb sb memB warp "chunk e div (8 * w)" st] x
      by (simp add: run steps_def store_of_def rc w(3,4) algebra_simps)
  qed
  ultimately show ?thesis unfolding w(1) by blast
qed

text \<open>The witness multiplies the first sixteen numbers with themselves.\<close>

definition example_gemm :: gemm_params where
  "example_gemm =
     (let b = (\<lambda>scope. \<lparr>buf_shape = [32, 16], buf_dtype = ''float16'', buf_scope = scope\<rparr>)
      in \<lparr>op_A = b ''shared'', op_B = b ''shared'', op_C = b ''local.fragment'', transpose_A = False, transpose_B = True,
          p_row_warps = None, p_col_warps = None, p_row_tiles = None, p_col_tiles = None, p_chunk = None, policy = Square, k_pack = 1\<rparr>)"

theorem gemm_correct_witness:
  "\<exists>prog. (\<forall>lane. gemm (\<lambda>_. 16) example_gemm (Some 128) (lane mod 32) = Inr (prog lane)) \<and>
     reg_c (run_warp 2 ([32, 16], \<lambda>k. k) ([32, 16], \<lambda>k. k) prog \<lparr>reg_a = \<lambda>_ _. 0, reg_b = \<lambda>_ _. 0, reg_c = \<lambda>_ _. 0\<rparr>) 0 0 = (1240 :: nat)"
proof -
  obtain e where e: "gemm_emitter (\<lambda>_. 16) example_gemm (Some 128) = Inr e" "warp_row_tiles e = 16" "warp_col_tiles e = 16"
    "micro_size_k e = 16" "chunk e = 16"
  proof -
    have "case gemm_emitter (\<lambda>_. 16) example_gemm (Some 128) of Inl _ \<Rightarrow> False | Inr e \<Rightarrow> warp_row_tiles e = 16 \<and> warp_col_tiles e = 16 \<and>
        micro_size_k e = 16 \<and> chunk e = 16" by code_simp
    then show thesis using that by (auto split: sum.splits)
  qed
  obtain w where ok: "emitter_ok (\<lambda>_. 16) w e" using gemm_emitter_attributes(6) [OF e(1)] by blast
  obtain S where S: "stmatrix e 2 None None 0 = Inr S"
    "set S = {store_of e (tile_of_warp e 0) 0 i j l |i j l. i < warp_rows e \<and> j < warp_cols e \<and> l < 8}"
    using stmatrix_set [OF ok, of 0 0] by auto
  have "store_of e (tile_of_warp e 0) 0 0 0 0 = ([0, 0], 0)"
    using gemm_emitter_attributes(7) [OF e(1)]
    by (simp add: store_of_def tile_of_warp_def extract_thread_binding_def mma_store_index_map_def mma_store_32x8_to_shared_16x16_layout_def Let_def)
  then have "([0, 0], 0) \<in> set S" 
    using ok unfolding S(2) by (intro CollectI exI [of _ 0] conjI) (auto simp: emitter_ok_def)
  moreover have "(\<Sum>k<16. k * k) = (1240 :: nat)" by code_simp
  ultimately show ?thesis
    using gemm_correct [OF e(1), of 32 16 32 16 0 0 "\<lambda>k. k" "\<lambda>k. k" "\<lparr>reg_a = \<lambda>_ _. 0, reg_b = \<lambda>_ _. 0, reg_c = \<lambda>_ _. 0\<rparr>"] e(2-) S(1)
    by (auto simp: example_gemm_def is_shared_def is_fragment_def starts_with_scope_def)
qed

text \<open>
  The second operand is addressed by column and depth also when it is not transposed: with sixteen rows, the second column of
  warps loads from row sixteen, outside the buffer.
\<close>

theorem not_transposed_outside:
  "case gemm (\<lambda>_. 16) (example_gemm\<lparr>transpose_B := False,
       op_B := \<lparr>buf_shape = [16, 32], buf_dtype = ''float16'', buf_scope = ''shared''\<rparr>\<rparr>) (Some 128) 64 of
     Inr prog \<Rightarrow> list_ex (\<lambda>s. case s of LdB c \<Rightarrow> ld_index c = [16, 0] | _ \<Rightarrow> False) prog
   | Inl _ \<Rightarrow> False"
  by code_simp

text \<open>A block whose rows are no multiple of sixteen for each warp is computed in part: here sixteen of the 24 rows of a warp.\<close>

theorem ragged_rows_missed:
  "case gemm_emitter (\<lambda>_. 16) (example_gemm\<lparr>op_A := \<lparr>buf_shape = [48, 16], buf_dtype = ''float16'', buf_scope = ''shared''\<rparr>\<rparr>) (Some 128) of
     Inr e \<Rightarrow> block_row_warps e * warp_row_tiles e = 48 \<and> block_row_warps e * warp_rows e * 16 = 32
   | Inl _ \<Rightarrow> False"
  by code_simp

end
