(* ===== verification/Spec2Isabelle.thy ===== *)
theory Spec2Isabelle
  imports Prelude BestFit TileFactors LayoutMaps TileRegion NpuirOps Frames NodeGraph Hints ThreadAssign SharedMemory TileSearch
    ReduceSteps AscendPolicy StageControl StateSchema MigrationControl Timeline
    Symbolic KernelCall NpuCompile KernelCache TensorCore Anneal Quantize Lop3 MmaEmitter GemmPrimitive
begin

text \<open>
  A model of tilelang-mlir-ascend, a tile language for Ascend NPUs embedded in Python, with proofs of
  what makes its parts correct. The Python package has a front end (kernels are functions whose calls
  build intrinsic calls of a compiler IR), index maps of matrix fragments and data layouts, a search
  for tile sizes (the carver), and a just-in-time compiler: it finds the symbolic shapes of a function,
  calls the external compiler, keeps the result in a cache, and makes an object whose call computes the
  grid and the outputs from the arguments. Beside the package, the repository has the command line tool
  that drives an agent through the stages of writing an operator. The compiler passes are in C++.

  \<^bold>\<open>Theories, in the order of the program\<close>

  \<^item> \<open>Prelude\<close>: exceptions as values (the type of results is an exception or a value), loops that may
    raise, Python's list accesses, selection with a key, and command machines: the states that a
    creating command and later commands reach, with the locales \<open>command_machine\<close> (invariants) and
    \<open>measured_machine\<close> (budgets that bound every run).
  \<^item> \<open>TileRegion\<close> (\<^verbatim>\<open>language/copy.py\<close>, \<^verbatim>\<open>language/allocate.py\<close>, \<^verbatim>\<open>language/frame.py\<close>): buffers, loads
    and regions, the descriptors that copies and operations pass on, allocation, and let frames.
  \<^item> \<open>NpuirOps\<close> (\<^verbatim>\<open>language/customize_npuir.py\<close>): every tile operation of the NPU as the list of calls
    it emits or the exception it raises.
  \<^item> \<open>Frames\<close> (\<^verbatim>\<open>language/kernel.py\<close> and the resource frames of \<^verbatim>\<open>customize_npuir.py\<close>): launch frames,
    resource frames and flags; the locale \<open>frame_stack\<close> has three instances.
  \<^item> \<open>LayoutMaps\<close> (\<^verbatim>\<open>intrinsics\<close>): MMA and MFMA fragments, swizzles, Ascend fractal layouts, and the
    index utilities; the locale \<open>fragment_pair\<close> has one instance for each pair of maps.
  \<^item> \<open>MmaEmitter\<close> (\<^verbatim>\<open>intrinsics/mma_macro_generator.py\<close>): the calls that load, multiply and store the fragments of a
    tensor core, what these instructions do to the registers of a warp, and the layouts of fragments.
  \<^item> \<open>GemmPrimitive\<close> (\<^verbatim>\<open>primitives/gemm\<close>): how warps are divided between rows and columns, and the program of a block.
  \<^item> \<open>BestFit\<close> (\<^verbatim>\<open>carver/roller/bestfit.py\<close>): the allocator, an instance of the locale \<open>allocator\<close>,
    which \<open>SharedMemory\<close> extends and uses.
  \<^item> \<open>TileFactors\<close> (\<^verbatim>\<open>carver/roller/policy/common.py\<close>): divisors, prime factors, coalesced access.
  \<^item> \<open>NodeGraph\<close> (\<^verbatim>\<open>carver/roller/node.py\<close>): nodes, edges, and the topological orders of the graph.
  \<^item> \<open>Hints\<close> (\<^verbatim>\<open>carver/roller/hint.py\<close>): strides, tile dictionaries, and configurations.
  \<^item> \<open>ThreadAssign\<close>, \<open>SharedMemory\<close>, \<open>TileSearch\<close>, \<open>ReduceSteps\<close> (\<^verbatim>\<open>carver/roller/policy/default.py\<close> and
    parts of \<^verbatim>\<open>ascend.py\<close>): block sizes and threads, the memory of a schedule, the search for tiles, and
    reduction steps.
  \<^item> \<open>AscendPolicy\<close> (\<^verbatim>\<open>carver/roller/policy/ascend.py\<close>, \<^verbatim>\<open>utils/npu_arch.py\<close>): chips, vector widths, and
    the cube unit.
  \<^item> \<open>TensorCore\<close> (\<^verbatim>\<open>carver/roller/policy/tensorcore.py\<close>, \<^verbatim>\<open>carver/roller/rasterization.py\<close>): the policy for tensor
    cores, its warp tiles, and the order in which the device visits blocks.
  \<^item> \<open>Anneal\<close> (\<^verbatim>\<open>carver/anneal\<close>): the search by simulated annealing and its templates.
  \<^item> \<open>Quantize\<close> (\<^verbatim>\<open>quantize/quantization.py\<close>, \<^verbatim>\<open>quantize/utils.py\<close>): conversions of packed weights and small
    floats, the packing of weights into bytes, and the interleaving of their words.
  \<^item> \<open>Lop3\<close> (\<^verbatim>\<open>quantize/lop3.py\<close>): the device functions that decode packed weights in registers, and how one of them
    is chosen.
  \<^item> \<open>Symbolic\<close>, \<open>KernelCall\<close>, \<open>NpuCompile\<close> (\<^verbatim>\<open>jit/jit_npu.py\<close>, \<^verbatim>\<open>contrib/bishengir.py\<close>): symbolic shapes, the call of a
    kernel object, and the compilation that makes it.
  \<^item> \<open>KernelCache\<close> (\<^verbatim>\<open>cache/kernel_cache.py\<close>): the cache in memory and on disk; the locale \<open>cache_level\<close> has an
    instance for each level, and the cache is an instance of \<open>command_machine\<close>.
  \<^item> \<open>StageControl\<close>, \<open>Timeline\<close>, \<open>MigrationControl\<close> (\<^verbatim>\<open>.agents/tools/statectl.py\<close>): the state file of a
    task and its commands, the log they write, and the aggregate state of a migration.
  \<^item> \<open>StateSchema\<close> (\<^verbatim>\<open>.agents/tools/gate_lint.py\<close>, \<^verbatim>\<open>statectl.py\<close>): the state file as JSON.

  \<^bold>\<open>How state and operations are modelled\<close>

  A Python object is a record, an object that is mutated is passed and returned. An exception is an
  \<open>Inl\<close> with its class; a command of the state machine that refuses returns its error code. A dictionary
  is the list of its items in insertion order. Integers are unbounded as in Python, except in the quantization and in the device
  function of the rasterization, where they are words of their width with wrap-around; floats of the quantization are their bits, and
  half precision instructions round to nearest even, with infinities and NaN.  Ratios and scores that the source computes in
  floating point are rational numbers. Operations of TVM on expressions, the analysis of a node's TVM
  function, the driver, the file system, the external compiler, the random draws, the call of torch's
  \<^verbatim>\<open>int32\<close> and the verdict of the gate linters are arguments. Loops are structural where they can be and
  otherwise functions with a measure; the hundred rounds of the Ascend policy are the source's own bound. Only the recursive graph searches
  of \<open>NodeGraph\<close> carry fuel: one more than the number of nodes not yet visited is enough, and the
  correctness theorem of the sorts states that they return.

  \<^bold>\<open>What is proved\<close>

  \<^item> Allocation: every block handed out has the rounded size, is disjoint from the live ones and within the limit, malloc is
    best fit, freed neighbours merge, a block is freed once; the memory estimate of a schedule, before its
    multiplier, covers what is live at every node.
  \<^item> Layouts: the fragment maps and the zN, nZ and column-major layouts are bijections, swizzles permute
    rows, and the inverse maps invert.
  \<^item> Front end: descriptors are well formed with the right access, reductions leave their result, accumulated
    through a temporary where asked, in the output and touch nothing else, frames nest, and a variable resolves to its active frame.
  \<^item> Carver: both topological sorts are complete and ordered, the searches end and return what they
    promise, thread assignments multiply to the block size, reduction steps stay multiples and keep
    the schedule within memory, accepted cube tiles fit L0, the warps of a block tile it, the rasterization
    visits every block once while its 32 bit arithmetic does not wrap, and the annealing search returns tiles whose memory, times the multiplier
    of the parameters, is within the caps.
  \<^item> Matrix products: the program emitted for a block, run by its warps, adds the product of the operands at
    every position of the result; stores agree with the layout of the result and cover every position once; loads
    from transformed shared memory equal plain loads in the cases the theorem lists.
  \<^item> Quantization: packing, interleaving and decoding give back the weights; the modes of zeros compute their
    formulas in half precision, with the roundings stated; rounding to bfloat16 is to the nearest; the fast conversion from e4m3 is the naive one; the
    chosen decoder is declared by its source.
  \<^item> Compilation: every bound symbolic variable is read back from a dimension of an argument, and variables of plainly affine dimensions are bound; a call of a
    compiled kernel hands over the right arguments, shapes and grid and returns; what the cache returns is what
    compiling would, whatever writes failed or were cut short before; it may raise where a saved launcher cannot be imported.
  \<^item> Stage machine: an invariant of all reachable states, termination of all moving commands, no stuck
    state, the order of stages; the state file passes its schema, the back-fill repairs and
    keeps what is there, and the aggregate of a migration makes the moves of an abstract delivery.

  Theorems whose text begins with a number are the main properties; a theorem named \<^verbatim>\<open>_witness\<close> applies
  one of them to a concrete input. Other theorems record behaviour that differs from what the code
  or its documentation intends, for example the unsupported extents of a load or the swizzle of rows
  of 192 bytes.

  \<^bold>\<open>Not modelled\<close>

  The compiler passes (C++), the external compiler and the C++ text of the launcher, the profiler and
  the autotuner (they run and time external programs), the TVM analysis of functions and the templates
  that build them, the emitter for AMD matrix cores, the generator of random test weights, wrappers that forward their
  arguments to one intrinsic, and the linters over Markdown and Python text.
\<close>

end
